(* ===== verification/Go_Prelude.thy ===== *)
theory Go_Prelude
  imports Main "HOL-Library.Word" "HOL-Library.Char_ord"
begin

text \<open>
  What every component shares: Go's machine integers and bytes, the multi-value return
  convention, the collections of simplification rules the component theories extend, and the
  generic facts about lists, characters and slices the proofs use.

  A Go \<open>string\<close>, and a byte slice that holds text, is a HOL \<open>string\<close> (a list of the 256
  bytes); a byte slice that holds binary data is a list of 8-bit words. \<open>len\<close> counts bytes in both.
\<close>

unbundle bit_operations_syntax

section \<open>Types\<close>

type_synonym byte = "8 word"
type_synonym uint32 = "32 word"
type_synonym uint64 = "64 word"

text \<open>
  A Go function with results \<open>(v, error)\<close> returns both; \<open>None\<close> is the nil error. It is used
  where the code returns a meaningful value beside the error, and for methods with a pointer
  receiver, where \<open>v\<close> is the receiver after the call. Where the value is nil or a zero value
  whenever there is an error, the result is a sum \<open>'e + 'a\<close> instead. A run-time panic is
  \<open>None\<close> of an option.
\<close>

type_synonym ('v, 'e) ret = "'v \<times> 'e option"

named_theorems hex_simps "facts about hexadecimal digits and their decoding"
named_theorems codec_simps "facts about the text and JSON codecs of hexutil"
named_theorems len_simps "lengths of the results of slice operations"

section \<open>Characters and bytes\<close>

definition ord :: "char \<Rightarrow> nat" where
  "ord c = of_char c"

definition byte_of_char :: "char \<Rightarrow> byte" where
  "byte_of_char c = of_char c"

definition char_of_byte :: "byte \<Rightarrow> char" where
  "char_of_byte b = char_of (unat b)"

text \<open>\<open>[]byte(s)\<close> and \<open>string(b)\<close>.\<close>

definition bytes_of_string :: "string \<Rightarrow> byte list" where
  "bytes_of_string s = map byte_of_char s"

definition string_of_bytes :: "byte list \<Rightarrow> string" where
  "string_of_bytes bs = map char_of_byte bs"

lemma ord_Char [simp]:
  "ord (Char b0 b1 b2 b3 b4 b5 b6 b7) =
     of_bool b0 + 2 * of_bool b1 + 4 * of_bool b2 + 8 * of_bool b3 + 16 * of_bool b4 +
     32 * of_bool b5 + 64 * of_bool b6 + 128 * of_bool b7"
  by (simp add: ord_def of_char_Char)

lemma ord_less [simp]: "ord c < 256"
  by (simp add: ord_def)

lemma ord_inject [simp]: "ord c = ord d \<longleftrightarrow> c = d"
  by (simp add: ord_def)

lemma ord_char_of: "n < 256 \<Longrightarrow> ord (char_of n) = n"
  by (simp add: ord_def take_bit_eq_mod)

lemma char_of_ord [simp]: "char_of (ord c) = c"
  by (simp add: ord_def)

lemma unat_byte_of_char [simp]: "unat (byte_of_char c) = ord c"
proof -
  have "byte_of_char c = of_nat (ord c)"
    by (simp add: byte_of_char_def ord_def of_nat_of_char)
  then show ?thesis
    by (simp add: unat_of_nat)
qed

lemma char_of_byte_of_char [simp]: "char_of_byte (byte_of_char c) = c"
  by (simp add: char_of_byte_def)

lemma unat_byte_less [simp]: "unat (b :: byte) < 256"
  using unsigned_less [of b] by simp

lemma byte_of_char_of_byte [simp]: "byte_of_char (char_of_byte b) = b"
  by (rule word_unat_eq_iff [THEN iffD2]) (simp add: char_of_byte_def ord_char_of)

lemma string_of_bytes_of_string [simp]: "string_of_bytes (bytes_of_string s) = s"
  by (induction s) (simp_all add: string_of_bytes_def bytes_of_string_def)

lemma bytes_of_string_of_bytes [simp]: "bytes_of_string (string_of_bytes bs) = bs"
  by (induction bs) (simp_all add: string_of_bytes_def bytes_of_string_def)

lemma length_bytes_of_string [simp, len_simps]: "length (bytes_of_string s) = length s"
  by (simp add: bytes_of_string_def)

lemma length_string_of_bytes [simp, len_simps]: "length (string_of_bytes bs) = length bs"
  by (simp add: string_of_bytes_def)

section \<open>Slices\<close>

text \<open>\<open>s[a:b]\<close> of a string or of a slice whose capacity is its length; \<open>None\<close> is the panic.\<close>

definition go_slice :: "'a list \<Rightarrow> nat \<Rightarrow> nat \<Rightarrow> 'a list option" where
  "go_slice xs a b = (if a \<le> b \<and> b \<le> length xs then Some (take (b - a) (drop a xs)) else None)"

text \<open>\<open>copy(dst, src)\<close>, as the new contents of \<open>dst\<close>.\<close>

definition go_copy :: "'a list \<Rightarrow> 'a list \<Rightarrow> 'a list" where
  "go_copy dst src = take (length dst) src @ drop (length src) dst"

text \<open>\<open>copy(dst[k:], src)\<close>, for \<open>k\<close> at most the length of \<open>dst\<close>.\<close>

definition go_copy_at :: "'a list \<Rightarrow> nat \<Rightarrow> 'a list \<Rightarrow> 'a list" where
  "go_copy_at dst k src = take k dst @ go_copy (drop k dst) src"

lemma length_go_copy [simp, len_simps]: "length (go_copy dst src) = length dst"
  by (simp add: go_copy_def)

lemma length_go_copy_at [simp, len_simps]: "length (go_copy_at dst k src) = length dst"
  by (simp add: go_copy_at_def)

lemma go_copy_full [simp]: "length src = length dst \<Longrightarrow> go_copy dst src = src"
  by (simp add: go_copy_def)

lemma go_copy_at_suffix:
  "k + length src = length dst \<Longrightarrow> go_copy_at dst k src = take k dst @ src"
  by (simp add: go_copy_at_def go_copy_def)

lemma go_slice_Some: "go_slice xs a b = Some ys \<Longrightarrow> length ys = b - a \<and> a \<le> b \<and> b \<le> length xs"
  by (auto simp: go_slice_def split: if_splits)

section \<open>Generic facts\<close>

lemma takeWhile_replicate_append:
  "(\<And>x. x \<in> set xs \<Longrightarrow> P x) \<Longrightarrow> dropWhile P (xs @ ys) = dropWhile P ys"
  by (induction xs) auto

lemma dropWhile_zeros [simp]: "dropWhile (\<lambda>x. x = z) (replicate n z @ xs) = dropWhile (\<lambda>x. x = z) xs"
  by (induction n) simp_all

lemma dropWhile_hd: "dropWhile P xs = y # ys \<Longrightarrow> \<not> P y"
  by (induction xs) (auto split: if_splits)

lemma length_dropWhile_replicate:
  "replicate (length xs - length (dropWhile (\<lambda>x. x = z) xs)) z @ dropWhile (\<lambda>x. x = z) xs = xs"
proof (induction xs)
  case Nil
  then show ?case by simp
next
  case (Cons x xs)
  have le: "length (dropWhile (\<lambda>x. x = z) xs) \<le> length xs"
    by (rule length_dropWhile_le)
  show ?case
    using Cons le by (simp add: Suc_diff_le)
qed

text \<open>A loop that updates each position from its own old value.\<close>

lemma length_fold_update [simp, len_simps]:
  "length (fold (\<lambda>i xs. xs[i := f i (xs ! i)]) is xs) = length xs"
  by (induction "is" arbitrary: xs) simp_all

lemma fold_update_nth:
  "k < length xs \<Longrightarrow>
   fold (\<lambda>i xs. xs[i := f i (xs ! i)]) [a..<b] xs ! k = (if a \<le> k \<and> k < b then f k (xs ! k) else xs ! k)"
proof (induction b)
  case (Suc b)
  then show ?case by (auto simp: nth_list_update less_Suc_eq)
qed simp

lemma nth_mem_eq: "i < length xs \<Longrightarrow> xs ! i \<in> set xs"
  by (rule nth_mem)

text \<open>An invariant of the steps holds in every state they reach.\<close>

lemma steps_invariant:
  "R\<^sup>*\<^sup>* s s' \<Longrightarrow> I s \<Longrightarrow> (\<And>a b. R a b \<Longrightarrow> I a \<Longrightarrow> I b) \<Longrightarrow> I s'"
  by (induction rule: rtranclp_induct) blast+

lemma sint_word_of_int:
  "- (2 ^ 63) \<le> k \<Longrightarrow> k < 2 ^ 63 \<Longrightarrow> sint (word_of_int k :: 64 word) = k"
  by (simp add: signed_of_int signed_take_bit_int_eq_self)

end
