(* ===== verification/Go_Std.thy ===== *)
theory Go_Std
  imports Go_Prelude
begin

text \<open>
  The parts of Go's standard library the source calls, with the behaviour its documentation and
  source give them: positional notation in a base, \<open>encoding/hex\<close>, \<open>strconv\<close> in base 16 and
  10, the word and byte views of \<open>math/big\<close>, and a few functions of \<open>strings\<close>.
  The platform is 64-bit: \<open>uint\<close>, \<open>int\<close> and \<open>big.Word\<close> have 64 bits.
\<close>

section \<open>Positional notation\<close>

text \<open>Big-endian digits without leading zeros (none for 0), and the value of a digit list.\<close>

function be_digits :: "nat \<Rightarrow> nat \<Rightarrow> nat list" where
  "be_digits b n = (if n = 0 \<or> b < 2 then [] else be_digits b (n div b) @ [n mod b])"
  by pat_completeness auto
termination
  by (relation "measure snd") auto

declare be_digits.simps [simp del]

definition be_value :: "nat \<Rightarrow> nat list \<Rightarrow> nat" where
  "be_value b ds = foldl (\<lambda>a d. a * b + d) 0 ds"

lemma be_digits_0 [simp]: "be_digits b 0 = []"
  by (simp add: be_digits.simps)

lemma be_digits_pos:
  "0 < n \<Longrightarrow> 2 \<le> b \<Longrightarrow> be_digits b n = be_digits b (n div b) @ [n mod b]"
  by (subst be_digits.simps) simp

lemma be_value_Nil [simp]: "be_value b [] = 0"
  by (simp add: be_value_def)

lemma be_value_snoc [simp]: "be_value b (ds @ [d]) = be_value b ds * b + d"
  by (simp add: be_value_def)

lemma be_value_append: "be_value b (xs @ ys) = be_value b xs * b ^ length ys + be_value b ys"
proof (induction ys rule: rev_induct)
  case Nil
  then show ?case by simp
next
  case (snoc y ys)
  have "be_value b (xs @ ys @ [y]) = be_value b ((xs @ ys) @ [y])" by simp
  also have "\<dots> = be_value b (xs @ ys) * b + y" by (rule be_value_snoc)
  finally show ?case by (simp add: snoc algebra_simps)
qed

lemma be_value_Cons: "be_value b (d # ds) = d * b ^ length ds + be_value b ds"
  using be_value_append [of b "[d]" ds] by (simp add: be_value_def)

lemma be_value_digits: "2 \<le> b \<Longrightarrow> be_value b (be_digits b n) = n"
proof (induction n rule: less_induct)
  case (less n)
  show ?case
  proof (cases "n = 0")
    case True
    then show ?thesis by simp
  next
    case False
    with less.prems have "n div b < n" by simp
    then have "be_value b (be_digits b (n div b)) = n div b"
      using less.IH less.prems by blast
    with False less.prems show ?thesis by (simp add: be_digits_pos)
  qed
qed

lemma be_digits_less: "d \<in> set (be_digits b n) \<Longrightarrow> d < b"
proof (induction b n rule: be_digits.induct)
  case (1 b n)
  then show ?case
    by (cases "n = 0 \<or> b < 2") (auto simp: be_digits.simps [of b n])
qed

lemma be_digits_Nil_iff: "2 \<le> b \<Longrightarrow> be_digits b n = [] \<longleftrightarrow> n = 0"
  by (subst be_digits.simps) auto

lemma be_value_less: "(\<And>d. d \<in> set ds \<Longrightarrow> d < b) \<Longrightarrow> be_value b ds < b ^ length ds"
proof (induction ds rule: rev_induct)
  case Nil
  then show ?case by simp
next
  case (snoc d ds)
  then have IH: "be_value b ds < b ^ length ds" and d: "d < b" by auto
  have "be_value b ds * b + d < (be_value b ds + 1) * b" using d by simp
  also have "\<dots> \<le> b ^ length ds * b" using IH by (intro mult_le_mono1) simp
  finally show ?case by (simp add: mult.commute)
qed

lemma be_value_zeros [simp]: "be_value b (replicate k 0 @ ds) = be_value b ds"
  by (induction k) (simp_all add: be_value_Cons)

lemma be_value_dropWhile: "be_value b (dropWhile (\<lambda>d. d = 0) ds) = be_value b ds"
  by (induction ds) (auto simp: be_value_Cons)

text \<open>Digits are unique up to leading zeros.\<close>

lemma be_digits_value:
  assumes "2 \<le> b" "\<And>d. d \<in> set ds \<Longrightarrow> d < b"
  shows "be_digits b (be_value b ds) = dropWhile (\<lambda>d. d = 0) ds"
  using assms(2)
proof (induction ds rule: rev_induct)
  case Nil
  then show ?case by simp
next
  case (snoc d ds)
  then have IH: "be_digits b (be_value b ds) = dropWhile (\<lambda>d. d = 0) ds" and d: "d < b"
    by auto
  have dm: "(be_value b ds * b + d) div b = be_value b ds" "(be_value b ds * b + d) mod b = d"
    using d by auto
  show ?case
  proof (cases "be_value b ds * b + d = 0")
    case True
    then have z: "be_value b ds = 0" "d = 0" using assms(1) by auto
    have "dropWhile (\<lambda>d. d = 0) ds = []" using IH [unfolded z be_digits_0] by (rule sym)
    then have "\<forall>x\<in>set ds. x = 0" by (simp only: dropWhile_eq_Nil_conv)
    with z show ?thesis by (simp add: dropWhile_append dropWhile_eq_Nil_conv)
  next
    case False
    then have *: "be_digits b (be_value b ds * b + d) = dropWhile (\<lambda>d. d = 0) ds @ [d]"
      using assms(1) dm IH by (simp add: be_digits_pos)
    show ?thesis
    proof (cases "\<forall>x\<in>set ds. x = 0")
      case True
      then have "dropWhile (\<lambda>d. d = 0) ds = []" by (simp add: dropWhile_eq_Nil_conv)
      then have "be_value b ds = 0" using be_value_dropWhile [of b ds] by (simp only: be_value_Nil)
      with False have "d \<noteq> 0" by simp
      with True * \<open>dropWhile (\<lambda>d. d = 0) ds = []\<close> show ?thesis
        by (simp add: dropWhile_append)
    next
      case False
      with * show ?thesis by (auto simp: dropWhile_append)
    qed
  qed
qed

lemma be_digits_hd: "2 \<le> b \<Longrightarrow> be_digits b n = d # ds \<Longrightarrow> d \<noteq> 0"
proof -
  assume b: "2 \<le> b" and e: "be_digits b n = d # ds"
  have "be_digits b (be_value b (be_digits b n)) = dropWhile (\<lambda>d. d = 0) (be_digits b n)"
    using b be_digits_less by (intro be_digits_value) auto
  then have "dropWhile (\<lambda>d. d = 0) (be_digits b n) = be_digits b n"
    using b by (simp add: be_value_digits)
  then show ?thesis
    using e dropWhile_hd [of "\<lambda>d. d = 0" "be_digits b n" d ds] by metis
qed

lemma length_be_digits: "2 \<le> b \<Longrightarrow> n < b ^ k \<Longrightarrow> length (be_digits b n) \<le> k"
proof (induction k arbitrary: n)
  case 0
  then show ?case by simp
next
  case (Suc k)
  show ?case
  proof (cases "n = 0")
    case True
    then show ?thesis by simp
  next
    case False
    from Suc.prems have "n div b < b ^ k" by (simp add: less_mult_imp_div_less mult.commute)
    with Suc have "length (be_digits b (n div b)) \<le> k" by simp
    with False Suc.prems show ?thesis by (simp add: be_digits_pos)
  qed
qed

lemma be_digits_lower: "2 \<le> b \<Longrightarrow> b ^ k \<le> n \<Longrightarrow> k < length (be_digits b n)"
  using be_value_less [of "be_digits b n" b] be_digits_less be_value_digits [of b n]
  by (metis le_less_trans nat_power_less_imp_less zero_less_numeral order_less_le_trans)

section \<open>Hexadecimal digits\<close>

text \<open>The value of a hexadecimal digit, upper or lower case.\<close>

definition hexval :: "char \<Rightarrow> nat option" where
  "hexval c =
     (let n = ord c
      in if 48 \<le> n \<and> n \<le> 57 then Some (n - 48)
         else if 65 \<le> n \<and> n \<le> 70 then Some (n - 55)
         else if 97 \<le> n \<and> n \<le> 102 then Some (n - 87)
         else None)"

definition is_hex :: "char \<Rightarrow> bool" where
  "is_hex c \<longleftrightarrow> hexval c \<noteq> None"

text \<open>The digit alphabet of \<open>encoding/hex\<close> and \<open>strconv\<close>.\<close>

definition hextable :: string where
  "hextable = ''0123456789abcdef''"

definition hexdigit :: "nat \<Rightarrow> char" where
  "hexdigit d = hextable ! d"

text \<open>\<open>strings.ToLower\<close> on ASCII text.\<close>

definition to_lower :: "char \<Rightarrow> char" where
  "to_lower c = (if 65 \<le> ord c \<and> ord c \<le> 90 then char_of (ord c + 32) else c)"

definition to_upper :: "char \<Rightarrow> char" where
  "to_upper c = (if 97 \<le> ord c \<and> ord c \<le> 122 then char_of (ord c - 32) else c)"

definition hexnum :: "string \<Rightarrow> nat" where
  "hexnum s = be_value 16 (map (\<lambda>c. case hexval c of None \<Rightarrow> 0 | Some d \<Rightarrow> d) s)"

lemma less_16_cases:
  "d < (16 :: nat) \<Longrightarrow> d \<in> {0, 1, 2, 3, 4, 5, 6, 7, 8, 9, 10, 11, 12, 13, 14, 15}"
  by (simp only: insert_iff empty_iff) arith

lemma hexval_less: "hexval c = Some d \<Longrightarrow> d < 16"
  by (auto simp: hexval_def Let_def split: if_splits)

lemma hexval_hexdigit [simp, hex_simps]: "d < 16 \<Longrightarrow> hexval (hexdigit d) = Some d"
  by (drule less_16_cases) (elim insertE; simp add: hexdigit_def hextable_def hexval_def ord_def)

lemma is_hex_hexdigit [simp, hex_simps]: "d < 16 \<Longrightarrow> is_hex (hexdigit d)"
  by (simp add: is_hex_def)

lemma hexdigit_inject: "c < 16 \<Longrightarrow> d < 16 \<Longrightarrow> hexdigit c = hexdigit d \<longleftrightarrow> c = d"
  by (metis hexval_hexdigit option.inject)

lemma char_eqI: "ord c = ord d \<Longrightarrow> c = d"
  by simp

lemma ord_hexdigit: "d < 16 \<Longrightarrow> ord (hexdigit d) = (if d < 10 then 48 + d else 87 + d)"
  by (drule less_16_cases) (elim insertE; simp add: hexdigit_def hextable_def ord_def)

text \<open>A hexadecimal digit in lower case is the digit \<open>hexdigit\<close> writes for its value.\<close>

lemma hexdigit_hexval [hex_simps]: "hexval c = Some d \<Longrightarrow> hexdigit d = to_lower c"
proof (rule char_eqI)
  assume h: "hexval c = Some d"
  then have "d < 16" by (rule hexval_less)
  with h show "ord (hexdigit d) = ord (to_lower c)"
    by (auto simp: ord_hexdigit to_lower_def ord_char_of hexval_def Let_def split: if_splits)
qed

lemma hexval_to_lower [simp, hex_simps]: "hexval (to_lower c) = hexval c"
  by (auto simp: hexval_def to_lower_def ord_char_of Let_def)

lemma to_lower_hexdigit [simp, hex_simps]: "d < 16 \<Longrightarrow> to_lower (hexdigit d) = hexdigit d"
  by (metis hexdigit_hexval hexval_hexdigit)

lemma hexval_zero_iff: "hexval c = Some 0 \<longleftrightarrow> c = CHR ''0''"
proof -
  have "hexval c = Some 0 \<longleftrightarrow> ord c = ord CHR ''0''"
    by (auto simp: hexval_def Let_def)
  then show ?thesis by (simp only: ord_inject)
qed

lemma hexnum_Nil [simp]: "hexnum [] = 0"
  by (simp add: hexnum_def)

lemma hexnum_snoc: "hexval c = Some d \<Longrightarrow> hexnum (s @ [c]) = 16 * hexnum s + d"
  by (simp add: hexnum_def)

lemma hexnum_append: "hexnum (s @ t) = hexnum s * 16 ^ length t + hexnum t"
  by (simp add: hexnum_def be_value_append)

lemma hexnum_less: "hexnum s < 16 ^ length s"
proof -
  have "be_value 16 (map (\<lambda>c. case hexval c of None \<Rightarrow> 0 | Some d \<Rightarrow> d) s)
      < 16 ^ length (map (\<lambda>c. case hexval c of None \<Rightarrow> 0 | Some d \<Rightarrow> d) s)"
    by (rule be_value_less) (auto dest: hexval_less split: option.splits)
  then show ?thesis by (simp add: hexnum_def)
qed

section \<open>encoding/hex\<close>

datatype num_error = NumErrRange | NumErrSyntax

datatype std_error =
    NumError num_error          \<comment> \<open>\<open>*strconv.NumError\<close> with its \<open>Err\<close> field\<close>
  | InvalidByteError char       \<comment> \<open>\<open>hex.InvalidByteError\<close>\<close>
  | HexErrLength                \<comment> \<open>\<open>hex.ErrLength\<close>\<close>

definition reverse_hex :: "char \<Rightarrow> byte option" where
  "reverse_hex c = map_option of_nat (hexval c)"

definition hex_pair :: "byte \<Rightarrow> string" where
  "hex_pair v = [hexdigit (unat (drop_bit 4 v)), hexdigit (unat (v AND 15))]"

definition hex_encode :: "byte list \<Rightarrow> string" where
  "hex_encode src = concat (map hex_pair src)"

text \<open>\<open>hex.Decode\<close>: the bytes decoded before the first error, and the error. An odd last
  character is checked before the length is reported.\<close>

fun hex_decode :: "string \<Rightarrow> (byte list, std_error) ret" where
  "hex_decode [] = ([], None)"
| "hex_decode [p] =
     (case reverse_hex p of None \<Rightarrow> ([], Some (InvalidByteError p)) | Some _ \<Rightarrow> ([], Some HexErrLength))"
| "hex_decode (p # q # r) =
     (case reverse_hex p of
        None \<Rightarrow> ([], Some (InvalidByteError p))
      | Some a \<Rightarrow>
          (case reverse_hex q of
             None \<Rightarrow> ([], Some (InvalidByteError q))
           | Some b \<Rightarrow> (let (bs, e) = hex_decode r in ((push_bit 4 a OR b) # bs, e))))"

lemma unat_hi_nibble: "unat (drop_bit 4 (v :: byte)) = unat v div 16"
proof -
  have "unat (drop_bit 4 v) = drop_bit 4 (unat v)" by (rule unat_drop_bit_eq)
  then show ?thesis by (simp only: drop_bit_eq_div) simp
qed

lemma unat_lo_nibble: "unat (v AND 15 :: byte) = unat v mod 16"
proof -
  have "v AND 15 = take_bit 4 v" by (simp add: take_bit_eq_mask mask_numeral)
  moreover have "unat (take_bit 4 v) = take_bit 4 (unat v)" by (rule unsigned_take_bit_eq)
  ultimately show ?thesis by (simp only: take_bit_eq_mod) simp
qed

lemma hi_nibble_less [simp]: "unat (drop_bit 4 (v :: byte)) < 16"
  using unat_byte_less [of v] by (simp only: unat_hi_nibble)

lemma lo_nibble_less [simp]: "unat (v AND 15 :: byte) < 16"
  by (simp only: unat_lo_nibble)

lemma nibbles_byte: "push_bit 4 (drop_bit 4 v) OR (v AND 15) = (v :: byte)"
proof -
  have "v AND 15 = take_bit 4 v" by (simp add: take_bit_eq_mask mask_numeral)
  then show ?thesis by (simp add: bit_eq_iff bit_simps) auto
qed

lemma reverse_hex_hexdigit [simp, hex_simps]:
  "d < 16 \<Longrightarrow> reverse_hex (hexdigit d) = Some (of_nat d)"
  by (simp add: reverse_hex_def)

lemma reverse_hex_None_iff [hex_simps]: "reverse_hex c = None \<longleftrightarrow> \<not> is_hex c"
  by (simp add: reverse_hex_def is_hex_def)

lemma hex_encode_Nil [simp]: "hex_encode [] = []"
  by (simp add: hex_encode_def)

lemma hex_encode_Cons [simp]: "hex_encode (b # bs) = hex_pair b @ hex_encode bs"
  by (simp add: hex_encode_def)

lemma length_hex_encode [simp, len_simps]: "length (hex_encode bs) = 2 * length bs"
  by (induction bs) (simp_all add: hex_pair_def)

lemma hex_encode_is_hex: "c \<in> set (hex_encode bs) \<Longrightarrow> is_hex c"
  by (induction bs) (auto simp: hex_pair_def)

lemma hex_encode_lower: "c \<in> set (hex_encode bs) \<Longrightarrow> to_lower c = c"
  by (induction bs) (auto simp: hex_pair_def)

lemma hex_encode_append: "hex_encode (xs @ ys) = hex_encode xs @ hex_encode ys"
  by (simp add: hex_encode_def)

text \<open>Decoding inverts encoding.\<close>

lemma hex_decode_encode [simp]: "hex_decode (hex_encode bs) = (bs, None)"
  by (induction bs) (simp_all add: hex_pair_def nibbles_byte)

text \<open>Decoding succeeds exactly on an even number of hexadecimal digits.\<close>

lemma hex_decode_ok_iff:
  "snd (hex_decode s) = None \<longleftrightarrow> even (length s) \<and> (\<forall>c\<in>set s. is_hex c)"
  by (induction s rule: hex_decode.induct)
     (auto split: option.splits prod.splits simp: is_hex_def reverse_hex_def)

lemma length_hex_decode:
  "snd (hex_decode s) = None \<Longrightarrow> length (fst (hex_decode s)) = length s div 2"
  by (induction s rule: hex_decode.induct)
     (auto split: option.splits prod.splits)

lemma nibble_join:
  "a < 16 \<Longrightarrow> b < 16 \<Longrightarrow> push_bit 4 (of_nat a) OR of_nat b = (of_nat (16 * a + b) :: byte)"
  by (drule less_16_cases, drule less_16_cases) (elim insertE; simp)

lemma hex_pair_join:
  assumes "hexval p = Some a" "hexval q = Some b"
  shows "hex_pair (push_bit 4 (of_nat a) OR of_nat b) = [to_lower p, to_lower q]"
proof -
  have ab: "a < 16" "b < 16" using assms hexval_less by auto
  then have "unat (of_nat (16 * a + b) :: byte) = 16 * a + b"
    by (simp only: unat_of_nat) simp
  with ab have "unat (drop_bit 4 (of_nat (16 * a + b) :: byte)) = a"
    "unat (of_nat (16 * a + b) AND 15 :: byte) = b"
    by (simp_all only: unat_hi_nibble unat_lo_nibble) simp_all
  with assms show ?thesis
    by (simp only: nibble_join [OF ab] hex_pair_def) (simp add: hexdigit_hexval)
qed

lemma hex_encode_decode:
  "snd (hex_decode s) = None \<Longrightarrow> hex_encode (fst (hex_decode s)) = map to_lower s"
proof (induction s rule: hex_decode.induct)
  case (3 p q r)
  from "3.prems" obtain a b where ab: "reverse_hex p = Some a" "reverse_hex q = Some b"
    and r: "snd (hex_decode r) = None"
    by (auto split: option.splits prod.splits)
  then obtain a' b' where h: "hexval p = Some a'" "hexval q = Some b'" "a = of_nat a'" "b = of_nat b'"
    by (auto simp: reverse_hex_def)
  from "3.IH" [OF ab r] ab h r hex_pair_join [OF h(1,2)] show ?case
    by (auto split: prod.splits)
qed (auto split: option.splits)

section \<open>strconv\<close>

text \<open>\<open>strconv.AppendUint(nil, n, 16)\<close>, and the digits \<open>big.Int.Text(16)\<close> writes.\<close>

definition hex_digits :: "nat \<Rightarrow> string" where
  "hex_digits n = (if n = 0 then ''0'' else map hexdigit (be_digits 16 n))"

text \<open>\<open>strconv.Itoa\<close> on non-negative numbers, \<open>%d\<close>.\<close>

definition dec_digits :: "nat \<Rightarrow> string" where
  "dec_digits n = (if n = 0 then ''0'' else map hexdigit (be_digits 10 n))"

definition itoa :: "int \<Rightarrow> string" where
  "itoa i = (if i < 0 then CHR ''-'' # dec_digits (nat (- i)) else dec_digits (nat i))"

lemma length_hex_digits: "n < 16 ^ k \<Longrightarrow> 0 < k \<Longrightarrow> length (hex_digits n) \<le> k"
  by (simp add: hex_digits_def length_be_digits)

lemma hex_digits_not_Nil [simp]: "hex_digits n \<noteq> []"
  by (simp add: hex_digits_def be_digits_Nil_iff)

lemma is_hex_0 [simp]: "is_hex CHR ''0''"
  by (simp add: is_hex_def hexval_def ord_def)

lemma hex_digits_is_hex: "c \<in> set (hex_digits n) \<Longrightarrow> is_hex c"
  by (auto simp: hex_digits_def dest!: be_digits_less split: if_splits)

lemma hexnum_map_hexdigit: "(\<And>d. d \<in> set ds \<Longrightarrow> d < 16) \<Longrightarrow> hexnum (map hexdigit ds) = be_value 16 ds"
  by (simp add: hexnum_def comp_def cong: map_cong)

lemma hexnum_hex_digits [simp]: "hexnum (hex_digits n) = n"
proof (cases "n = 0")
  case True
  then show ?thesis by (simp add: hex_digits_def hexnum_def be_value_def hexval_def ord_def)
next
  case False
  then show ?thesis
    using be_digits_less by (simp add: hex_digits_def hexnum_map_hexdigit be_value_digits)
qed

text \<open>No leading zero, except in the number zero itself.\<close>

lemma hex_digits_hd: "hex_digits n = c # cs \<Longrightarrow> cs \<noteq> [] \<Longrightarrow> c \<noteq> CHR ''0''"
proof
  assume e: "hex_digits n = c # cs" "cs \<noteq> []" "c = CHR ''0''"
  then have n: "n \<noteq> 0" by (auto simp: hex_digits_def split: if_splits)
  with e obtain d ds where d: "be_digits 16 n = d # ds" "hexdigit d = c"
    by (auto simp: hex_digits_def split: if_splits)
  then have "d \<noteq> 0" using be_digits_hd [of 16 n d ds] by simp
  moreover have "d < 16" using be_digits_less [of d 16 n] d by simp
  then have "hexval c = Some d" using d by auto
  ultimately show False using e(3) hexval_zero_iff [of c] by simp
qed

text \<open>The digits of the value of a string without leading zero are the string in lower case.\<close>

lemma hex_digits_hexnum:
  assumes "s \<noteq> []" "\<And>c. c \<in> set s \<Longrightarrow> is_hex c" "length s = 1 \<or> hd s \<noteq> CHR ''0''"
  shows "hex_digits (hexnum s) = map to_lower s"
proof -
  let ?v = "\<lambda>c. case hexval c of None \<Rightarrow> 0 | Some d \<Rightarrow> d"
  have v: "hexdigit (?v c) = to_lower c" "?v c < 16" if "c \<in> set s" for c
    using assms(2) [OF that] hexdigit_hexval hexval_less by (auto simp: is_hex_def)
  have m: "map hexdigit (map ?v s) = map to_lower s" using v by simp
  have dig: "be_digits 16 (hexnum s) = dropWhile (\<lambda>d. d = 0) (map ?v s)"
    using v unfolding hexnum_def by (intro be_digits_value) auto
  obtain c cs where s: "s = c # cs" using assms(1) by (cases s) auto
  obtain d where d: "hexval c = Some d" using assms(2) s by (auto simp: is_hex_def)
  show ?thesis
  proof (cases "d = 0")
    case True
    then have "c = CHR ''0''" using d by (simp add: hexval_zero_iff)
    then have "s = ''0''" using assms(3) s by simp
    then show ?thesis by (simp add: hex_digits_def hexnum_def be_value_def hexval_def to_lower_def ord_def)
  next
    case False
    then have dw: "dropWhile (\<lambda>d. d = 0) (map ?v s) = map ?v s" using s d by simp
    then have "be_digits 16 (hexnum s) \<noteq> []" using dig s by (simp only: dw) simp
    then have "hexnum s \<noteq> 0" by (metis be_digits_0)
    then show ?thesis using m dig dw by (simp add: hex_digits_def)
  qed
qed

text \<open>
  \<open>strconv.ParseUint(s, 16, 64)\<close> on a non-empty string: the loop with its two overflow guards,
  on 64-bit words. A range error returns the largest value, a syntax error 0.
\<close>

fun parse_uint16 :: "uint64 \<Rightarrow> string \<Rightarrow> (uint64, std_error) ret" where
  "parse_uint16 n [] = (n, None)"
| "parse_uint16 n (c # cs) =
     (case hexval c of
        None \<Rightarrow> (0, Some (NumError NumErrSyntax))
      | Some d \<Rightarrow>
          if 2 ^ 60 \<le> n then (- 1, Some (NumError NumErrRange))
          else let n' = n * 16; n1 = n' + of_nat d
               in if n1 < n' then (- 1, Some (NumError NumErrRange)) else parse_uint16 n1 cs)"

definition ParseUint16 :: "string \<Rightarrow> (uint64, std_error) ret" where
  "ParseUint16 s = (if s = [] then (0, Some (NumError NumErrSyntax)) else parse_uint16 0 s)"

lemma hexnum_Cons: "hexval c = Some d \<Longrightarrow> hexnum (c # cs) = d * 16 ^ length cs + hexnum cs"
  by (simp add: hexnum_def be_value_Cons)

lemma hexnum_0_Cons [simp]: "hexnum (CHR ''0'' # s) = hexnum s"
  using hexnum_Cons [of "CHR ''0''" 0 s] by (simp add: hexval_zero_iff)

lemma not_hex [simp]: "\<not> is_hex CHR ''-''" "\<not> is_hex CHR ''+''" "\<not> is_hex CHR ''x''" "\<not> is_hex CHR ''X''"
  by (simp_all add: is_hex_def hexval_def)

lemma unat_times16_add:
  "unat n < 2 ^ 60 \<Longrightarrow> d < 16 \<Longrightarrow> unat (n * 16 + of_nat d :: uint64) = unat n * 16 + d"
  by (simp add: unat_word_ariths unat_of_nat)

lemma parse_uint16_hex:
  "(\<And>c. c \<in> set s \<Longrightarrow> is_hex c) \<Longrightarrow>
   parse_uint16 n s =
     (let v = unat n * 16 ^ length s + hexnum s
      in if v < 2 ^ 64 then (of_nat v, None) else (- 1, Some (NumError NumErrRange)))"
proof (induction s arbitrary: n)
  case Nil
  have "unat n < 2 ^ 64" using unsigned_less [of n] by simp
  then show ?case by simp
next
  case (Cons c cs)
  then obtain d where d: "hexval c = Some d" by (auto simp: is_hex_def)
  then have d16: "d < 16" by (rule hexval_less)
  show ?case
  proof (cases "2 ^ 60 \<le> unat n")
    case True
    then have "2 ^ 60 * 16 \<le> unat n * 16 ^ length (c # cs)"
      by (intro mult_le_mono) simp_all
    then have "\<not> unat n * 16 ^ length (c # cs) + hexnum (c # cs) < 2 ^ 64" by simp
    with True d show ?thesis by (simp add: word_le_nat_alt Let_def)
  next
    case False
    have *: "unat (n * 16 + of_nat d) = unat n * 16 + d" "unat (n * 16) = unat n * 16"
      using False d16 unat_times16_add [of n d] unat_times16_add [of n 0] by simp_all
    then have "\<not> n * 16 + of_nat d < n * 16" by (simp add: word_less_nat_alt)
    with False d have "parse_uint16 n (c # cs) = parse_uint16 (n * 16 + of_nat d) cs"
      by (simp add: word_le_nat_alt Let_def)
    also have "\<dots> =
      (let v = unat (n * 16 + of_nat d) * 16 ^ length cs + hexnum cs
       in if v < 2 ^ 64 then (of_nat v, None) else (- 1, Some (NumError NumErrRange)))"
      using Cons.prems by (intro Cons.IH) simp
    also have "unat (n * 16 + of_nat d) * 16 ^ length cs + hexnum cs =
      unat n * 16 ^ length (c # cs) + hexnum (c # cs)"
      by (simp only: * hexnum_Cons [OF d]) (simp add: algebra_simps)
    finally show ?thesis .
  qed
qed

lemma parse_uint16_error: "c \<in> set s \<Longrightarrow> \<not> is_hex c \<Longrightarrow> snd (parse_uint16 n s) \<noteq> None"
  by (induction s arbitrary: n) (auto simp: is_hex_def Let_def split: option.splits)

lemma ParseUint16_ok_iff:
  "snd (ParseUint16 s) = None \<longleftrightarrow> s \<noteq> [] \<and> (\<forall>c\<in>set s. is_hex c) \<and> hexnum s < 2 ^ 64"
proof (cases "\<forall>c\<in>set s. is_hex c")
  case True
  then have "parse_uint16 0 s =
     (if hexnum s < 2 ^ 64 then (of_nat (hexnum s), None) else (- 1, Some (NumError NumErrRange)))"
    by (subst parse_uint16_hex) simp_all
  with True show ?thesis by (simp add: ParseUint16_def)
next
  case False
  then obtain c where "c \<in> set s" "\<not> is_hex c" by auto
  with parse_uint16_error [of c s 0] show ?thesis by (auto simp: ParseUint16_def)
qed

lemma ParseUint16_value:
  "s \<noteq> [] \<Longrightarrow> (\<And>c. c \<in> set s \<Longrightarrow> is_hex c) \<Longrightarrow> hexnum s < 2 ^ 64 \<Longrightarrow>
   ParseUint16 s = (of_nat (hexnum s), None)"
  by (simp add: ParseUint16_def parse_uint16_hex)

section \<open>math/big\<close>

text \<open>
  A \<open>big.Int\<close> is an \<open>int\<close>. \<open>Bits\<close> gives the absolute value as little-endian 64-bit words
  without a leading zero word; \<open>SetBits\<close> and \<open>SetBytes\<close> read words and big-endian bytes;
  \<open>Bytes\<close> writes the shortest big-endian form of the absolute value.
\<close>

definition words_value :: "uint64 list \<Rightarrow> nat" where
  "words_value ws = be_value (2 ^ 64) (rev (map unat ws))"

definition big_bits :: "int \<Rightarrow> uint64 list" where
  "big_bits x = map of_nat (rev (be_digits (2 ^ 64) (nat \<bar>x\<bar>)))"

definition big_set_bits :: "uint64 list \<Rightarrow> int" where
  "big_set_bits ws = int (words_value ws)"

definition big_bytes :: "int \<Rightarrow> byte list" where
  "big_bytes x = map of_nat (be_digits 256 (nat \<bar>x\<bar>))"

definition big_set_bytes :: "byte list \<Rightarrow> int" where
  "big_set_bytes bs = int (be_value 256 (map unat bs))"

definition big_bit_len :: "int \<Rightarrow> nat" where
  "big_bit_len x = length (be_digits 2 (nat \<bar>x\<bar>))"

text \<open>\<open>x.Text(16)\<close>\<close>

definition big_text16 :: "int \<Rightarrow> string" where
  "big_text16 x = (if x < 0 then CHR ''-'' # hex_digits (nat (- x)) else hex_digits (nat x))"

lemma words_value_Nil [simp]: "words_value [] = 0"
  by (simp add: words_value_def)

lemma words_value_Cons [simp]: "words_value (w # ws) = unat w + 2 ^ 64 * words_value ws"
  by (simp add: words_value_def)

lemma map_unat_of_nat64: "(\<And>d. d \<in> set ds \<Longrightarrow> d < 2 ^ 64) \<Longrightarrow> map (\<lambda>d. unat (of_nat d :: uint64)) ds = ds"
  by (induction ds) (simp_all add: unat_of_nat)

lemma map_unat_of_nat8: "(\<And>d. d \<in> set ds \<Longrightarrow> d < 256) \<Longrightarrow> map (\<lambda>d. unat (of_nat d :: byte)) ds = ds"
  by (induction ds) (simp_all add: unat_of_nat)

lemma words_value_bits [simp]: "words_value (big_bits x) = nat \<bar>x\<bar>"
  using map_unat_of_nat64 [of "be_digits (2 ^ 64) (nat \<bar>x\<bar>)"] be_digits_less [of _ "2 ^ 64" "nat \<bar>x\<bar>"]
  by (simp add: words_value_def big_bits_def rev_map [symmetric] comp_def be_value_digits)

lemma big_set_bytes_bytes [simp]: "big_set_bytes (big_bytes x) = \<bar>x\<bar>"
  using map_unat_of_nat8 [of "be_digits 256 (nat \<bar>x\<bar>)"] be_digits_less [of _ 256 "nat \<bar>x\<bar>"]
  by (simp add: big_set_bytes_def big_bytes_def comp_def be_value_digits)

lemma big_set_bytes_nonneg [simp]: "0 \<le> big_set_bytes bs"
  by (simp add: big_set_bytes_def)

lemma big_set_bytes_less: "big_set_bytes bs < 256 ^ length bs"
proof -
  have "be_value 256 (map unat bs) < 256 ^ length (map unat bs)"
    by (rule be_value_less) auto
  then show ?thesis unfolding big_set_bytes_def
    by (metis length_map of_nat_less_iff of_nat_numeral of_nat_power)
qed

lemma big_bytes_set_bytes: "big_bytes (big_set_bytes bs) = dropWhile (\<lambda>b. b = 0) bs"
proof -
  have "be_digits 256 (be_value 256 (map unat bs)) = dropWhile (\<lambda>d. d = 0) (map unat bs)"
    by (rule be_digits_value) auto
  also have "\<dots> = map unat (dropWhile (\<lambda>b. b = 0) bs)"
    by (simp add: dropWhile_map comp_def unat_eq_0)
  finally show ?thesis
    by (simp add: big_bytes_def big_set_bytes_def comp_def)
qed

lemma length_big_bytes: "\<bar>x\<bar> < 256 ^ k \<Longrightarrow> length (big_bytes x) \<le> k"
proof -
  assume "\<bar>x\<bar> < 256 ^ k"
  then have "nat \<bar>x\<bar> < 256 ^ k"
    by (metis abs_ge_zero nat_less_iff of_nat_numeral of_nat_power)
  then show ?thesis by (simp add: big_bytes_def length_be_digits)
qed

lemma big_set_bytes_zeros [simp]: "big_set_bytes (replicate k 0 @ bs) = big_set_bytes bs"
  by (simp add: big_set_bytes_def)

section \<open>strings\<close>

text \<open>\<open>strings.Split(s, sep)\<close> for a one-byte separator.\<close>

fun split_on :: "char \<Rightarrow> string \<Rightarrow> string list" where
  "split_on d [] = [[]]"
| "split_on d (c # cs) =
     (if c = d then [] # split_on d cs
      else (case split_on d cs of [] \<Rightarrow> [[c]] | w # ws \<Rightarrow> (c # w) # ws))"

text \<open>\<open>strings.SplitN(s, sep, 2)\<close> for a one-byte separator.\<close>

definition split2_on :: "char \<Rightarrow> string \<Rightarrow> string list" where
  "split2_on d s =
     (if d \<in> set s then [takeWhile (\<lambda>c. c \<noteq> d) s, tl (dropWhile (\<lambda>c. c \<noteq> d) s)] else [s])"

definition has_prefix :: "string \<Rightarrow> string \<Rightarrow> bool" where
  "has_prefix s t \<longleftrightarrow> take (length t) s = t"

text \<open>
  White space in UTF-8, as \<open>unicode.IsSpace\<close> has it, and \<open>strings.TrimSpace\<close>, which removes it on both sides. No
  byte of these encodings but the first starts a rune, so that the last rune of a string is one of them exactly
  when the string ends in its bytes.
\<close>

definition space_runes :: "string list" where
  "space_runes =
     [[CHR 0x09], [CHR 0x0A], [CHR 0x0B], [CHR 0x0C], [CHR 0x0D], [CHR 0x20], [CHR 0xC2, CHR 0x85], [CHR 0xC2, CHR 0xA0],
      [CHR 0xE1, CHR 0x9A, CHR 0x80]] @
     map (\<lambda>c. [CHR 0xE2, CHR 0x80, c])
       [CHR 0x80, CHR 0x81, CHR 0x82, CHR 0x83, CHR 0x84, CHR 0x85, CHR 0x86, CHR 0x87, CHR 0x88, CHR 0x89, CHR 0x8A,
        CHR 0xA8, CHR 0xA9, CHR 0xAF] @
     [[CHR 0xE2, CHR 0x81, CHR 0x9F], [CHR 0xE3, CHR 0x80, CHR 0x80]]"

function trim_by :: "string list \<Rightarrow> string \<Rightarrow> string" where
  "trim_by ws s =
     (case List.find (\<lambda>w. w \<noteq> [] \<and> has_prefix s w) ws of
        None \<Rightarrow> s
      | Some w \<Rightarrow> trim_by ws (drop (length w) s))"
  by pat_completeness auto

termination trim_by
proof (relation "measure (\<lambda>(_, s). length s)")
  fix ws s w assume "List.find (\<lambda>w. w \<noteq> [] \<and> has_prefix s w) ws = Some w"
  then have "w \<noteq> []" "has_prefix s w" by (auto simp: find_Some_iff)
  then show "((ws, drop (length w) s), (ws, s)) \<in> measure (\<lambda>(_, s). length s)"
    by (cases s) (auto simp: has_prefix_def)
qed simp

lemmas [simp del] = trim_by.simps

definition trim_space :: "string \<Rightarrow> string" where
  "trim_space s = rev (trim_by (map rev space_runes) (rev (trim_by space_runes s)))"

text \<open>A string that begins and ends with a visible ASCII character is left as it is.\<close>

definition visible :: "char \<Rightarrow> bool" where
  "visible c \<longleftrightarrow> of_char c \<in> {33..<128 :: nat}"

lemma trim_by_visible:
  assumes "ws = space_runes \<or> ws = map rev space_runes" "s \<noteq> []" "visible (hd s)"
  shows "trim_by ws s = s"
proof -
  have "w \<noteq> [] \<and> \<not> visible (hd w)" if "w \<in> set ws" for w
    using that assms(1) by (auto simp: space_runes_def visible_def)
  then have "\<not> has_prefix s w" if "w \<in> set ws" for w
    using that assms(2,3) by (cases s; cases w) (force simp: has_prefix_def)+
  then have "List.find (\<lambda>w. w \<noteq> [] \<and> has_prefix s w) ws = None" by (auto simp: find_None_iff)
  then show ?thesis by (simp add: trim_by.simps)
qed

lemma trim_space_visible: "s \<noteq> [] \<Longrightarrow> visible (hd s) \<Longrightarrow> visible (last s) \<Longrightarrow> trim_space s = s"
  by (simp add: trim_space_def trim_by_visible hd_rev)

definition has_suffix :: "string \<Rightarrow> string \<Rightarrow> bool" where
  "has_suffix s t \<longleftrightarrow> length t \<le> length s \<and> drop (length s - length t) s = t"

definition trim_prefix :: "string \<Rightarrow> string \<Rightarrow> string" where
  "trim_prefix s p = (if has_prefix s p then drop (length p) s else s)"

lemma has_suffix_append [simp]: "has_suffix (s @ t) t"
  by (simp add: has_suffix_def)

lemma split_on_not_Nil [simp]: "split_on d s \<noteq> []"
  by (induction s) (auto split: list.splits)

lemma split_on_no_sep: "d \<notin> set s \<Longrightarrow> split_on d s = [s]"
  by (induction s) auto

end
