(* ===== verification/Hexutil.thy ===== *)
theory Hexutil
  imports Go_Std
begin

text \<open>
  \<open>src/common/hexutil/hexutil.go\<close>: hexadecimal encoding with the 0x prefix. The errors of
  the package, the decoders and encoders of byte strings, 64-bit quantities and big integers, and
  the word-by-word loop of \<open>DecodeBig\<close> with its reference specification.
\<close>

section \<open>Errors\<close>

datatype decError =
    ErrEmptyString | ErrSyntax | ErrMissingPrefix | ErrOddLength | ErrEmptyNumber
  | ErrLeadingZero | ErrUint64Range | ErrUintRange | ErrBig256Range

definition uintBits :: nat where
  "uintBits = 64"

primrec decError_Error :: "decError \<Rightarrow> string" where
  "decError_Error ErrEmptyString = ''empty hex string''"
| "decError_Error ErrSyntax = ''invalid hex string''"
| "decError_Error ErrMissingPrefix = ''hex string without 0x prefix''"
| "decError_Error ErrOddLength = ''hex string of odd length''"
| "decError_Error ErrEmptyNumber = ''hex string \"0x\"''"
| "decError_Error ErrLeadingZero = ''hex number with leading zero digits''"
| "decError_Error ErrUint64Range = ''hex number > 64 bits''"
| "decError_Error ErrUintRange = ''hex number > '' @ dec_digits uintBits @ '' bits''"
| "decError_Error ErrBig256Range = ''hex number > 256 bits''"

text \<open>The dynamic type of the \<open>error\<close> values the package returns.\<close>

datatype hex_error =
    DecError decError                     \<comment> \<open>\<open>*decError\<close>\<close>
  | StdError std_error                    \<comment> \<open>an error of \<open>encoding/hex\<close> or \<open>strconv\<close>\<close>
  | UnmarshalTypeError string string      \<comment> \<open>\<open>*json.UnmarshalTypeError\<close>: value and type\<close>
  | Errorf string                         \<comment> \<open>made by \<open>fmt.Errorf\<close>\<close>

fun mapError :: "hex_error \<Rightarrow> hex_error" where
  "mapError (StdError (NumError NumErrRange)) = DecError ErrUintRange"
| "mapError (StdError (NumError NumErrSyntax)) = DecError ErrSyntax"
| "mapError (StdError (InvalidByteError c)) = DecError ErrSyntax"
| "mapError (StdError HexErrLength) = DecError ErrOddLength"
| "mapError err = err"

section \<open>Prefixes and nibbles\<close>

definition has0xPrefix :: "string \<Rightarrow> bool" where
  "has0xPrefix input \<longleftrightarrow>
     2 \<le> length input \<and> input ! 0 = CHR ''0'' \<and> (input ! 1 = CHR ''x'' \<or> input ! 1 = CHR ''X'')"

definition badNibble :: uint64 where
  "badNibble = NOT 0"

definition decodeNibble :: "char \<Rightarrow> uint64" where
  "decodeNibble c =
     (let n = ord c
      in if ord CHR ''0'' \<le> n \<and> n \<le> ord CHR ''9'' then of_nat (n - ord CHR ''0'')
         else if ord CHR ''A'' \<le> n \<and> n \<le> ord CHR ''F'' then of_nat (n - ord CHR ''A'' + 10)
         else if ord CHR ''a'' \<le> n \<and> n \<le> ord CHR ''f'' then of_nat (n - ord CHR ''a'' + 10)
         else badNibble)"

definition checkNumber :: "string \<Rightarrow> hex_error + string" where
  "checkNumber input =
     (if length input = 0 then Inl (DecError ErrEmptyNumber)
      else if \<not> has0xPrefix input then Inl (DecError ErrMissingPrefix)
      else
        let input = drop 2 input
        in if length input = 0 then Inl (DecError ErrEmptyNumber)
           else if 1 < length input \<and> input ! 0 = CHR ''0'' then Inl (DecError ErrLeadingZero)
           else Inr input)"

section \<open>Byte strings\<close>

definition Decode :: "string \<Rightarrow> (byte list, hex_error) ret" where
  "Decode input =
     (if length input = 0 then ([], Some (DecError ErrEmptyString))
      else if \<not> has0xPrefix input then ([], Some (DecError ErrMissingPrefix))
      else
        let (b, err) = hex_decode (drop 2 input)
        in (b, map_option (\<lambda>e. mapError (StdError e)) err))"

definition MustDecode :: "string \<Rightarrow> byte list option" where
  "MustDecode input =
     (case Decode input of (dec, None) \<Rightarrow> Some dec | (_, Some err) \<Rightarrow> None)"

definition Encode :: "byte list \<Rightarrow> string" where
  "Encode b = (let enc = replicate (length b * 2 + 2) (char_of (0 :: nat));
                   enc = go_copy enc ''0x''
               in go_copy_at enc 2 (hex_encode b))"

section \<open>Quantities of 64 bits\<close>

definition DecodeUint64 :: "string \<Rightarrow> (uint64, hex_error) ret" where
  "DecodeUint64 input =
     (case checkNumber input of
        Inl err \<Rightarrow> (0, Some err)
      | Inr raw \<Rightarrow>
          (let (dec, err) = ParseUint16 raw
           in (dec, map_option (\<lambda>e. mapError (StdError e)) err)))"

definition MustDecodeUint64 :: "string \<Rightarrow> uint64 option" where
  "MustDecodeUint64 input =
     (case DecodeUint64 input of (dec, None) \<Rightarrow> Some dec | (_, Some err) \<Rightarrow> None)"

definition EncodeUint64 :: "uint64 \<Rightarrow> string" where
  "EncodeUint64 i = ''0x'' @ hex_digits (unat i)"

section \<open>Big integers\<close>

text \<open>\<open>init\<close> finds one word for the 40-bit probe value, so a word has 16 nibbles.\<close>

definition bigWordNibbles :: nat where
  "bigWordNibbles = (if length (big_bits 0xFFFFFFFFFF) = 1 then 16 else 8)"

text \<open>The inner loop: one word from the digits \<open>raw[start:end]\<close>; \<open>None\<close> is the early
  return at a bad nibble.\<close>

fun decodeBigWord :: "string \<Rightarrow> uint64 \<Rightarrow> uint64 option" where
  "decodeBigWord [] w = Some w"
| "decodeBigWord (c # cs) w =
     (let nib = decodeNibble c
      in if nib = badNibble then None else decodeBigWord cs (w * 16 + nib))"

text \<open>The outer loop over the words still to fill, from the end of the digits; subtraction on
  \<open>nat\<close> stops at 0, as the code's \<open>start < 0\<close> test does.\<close>

fun decodeBigWords :: "nat \<Rightarrow> string \<Rightarrow> nat \<Rightarrow> hex_error + uint64 list" where
  "decodeBigWords 0 raw stop = Inr []"
| "decodeBigWords (Suc k) raw stop =
     (let start = stop - bigWordNibbles
      in case decodeBigWord (take (stop - start) (drop start raw)) 0 of
           None \<Rightarrow> Inl (DecError ErrSyntax)
         | Some w \<Rightarrow>
             (case decodeBigWords k raw start of
                Inl err \<Rightarrow> Inl err
              | Inr ws \<Rightarrow> Inr (w # ws)))"

definition DecodeBig :: "string \<Rightarrow> hex_error + int" where
  "DecodeBig input =
     (case checkNumber input of
        Inl err \<Rightarrow> Inl err
      | Inr raw \<Rightarrow>
          if 64 < length raw then Inl (DecError ErrBig256Range)
          else
            (case decodeBigWords (length raw div bigWordNibbles + 1) raw (length raw) of
               Inl err \<Rightarrow> Inl err
             | Inr ws \<Rightarrow> Inr (big_set_bits ws)))"

definition MustDecodeBig :: "string \<Rightarrow> int option" where
  "MustDecodeBig input = (case DecodeBig input of Inr dec \<Rightarrow> Some dec | Inl err \<Rightarrow> None)"

definition EncodeBig :: "int \<Rightarrow> string" where
  "EncodeBig bigint =
     (let sign = sgn bigint
      in if sign = 0 then ''0x0''
         else if 0 < sign then ''0x'' @ big_text16 bigint
         else ''-0x'' @ drop 1 (big_text16 bigint))"

section \<open>Facts about nibbles and prefixes\<close>

lemma bigWordNibbles_16 [simp]: "bigWordNibbles = 16"
proof -
  have "be_digits (2 ^ 64) 0xFFFFFFFFFF = [0xFFFFFFFFFF]"
    by (simp add: be_digits_pos)
  then show ?thesis by (simp add: bigWordNibbles_def big_bits_def)
qed

lemma decodeNibble_hexval [hex_simps]:
  "decodeNibble c = (case hexval c of None \<Rightarrow> badNibble | Some d \<Rightarrow> of_nat d)"
  by (auto simp: decodeNibble_def hexval_def Let_def ord_def)

lemma of_nat_not_bad: "d < 16 \<Longrightarrow> of_nat d \<noteq> badNibble"
proof
  assume d: "d < 16" and e: "of_nat d = badNibble"
  from e have "unat (of_nat d :: uint64) = unat badNibble" by (rule arg_cong)
  moreover have "unat (of_nat d :: uint64) = d" using d by (simp add: unat_of_nat)
  moreover have "unat badNibble = 2 ^ 64 - 1"
    by (simp add: badNibble_def unsigned_minus_1_eq_mask mask_eq_exp_minus_1)
  ultimately show False using d by simp
qed

lemma decodeNibble_bad_iff: "decodeNibble c = badNibble \<longleftrightarrow> \<not> is_hex c"
  using of_nat_not_bad hexval_less
  by (auto simp: decodeNibble_hexval is_hex_def split: option.splits)

lemma has0xPrefix_Cons [simp, hex_simps]:
  "has0xPrefix (CHR ''0'' # c # s) \<longleftrightarrow> c = CHR ''x'' \<or> c = CHR ''X''"
  by (simp add: has0xPrefix_def)

lemma has0xPrefixE:
  assumes "has0xPrefix s"
  obtains c where "s = CHR ''0'' # c # drop 2 s" "c = CHR ''x'' \<or> c = CHR ''X''"
proof -
  from assms obtain a c r where "s = a # c # r"
    by (auto simp: has0xPrefix_def numeral_2_eq_2 Suc_le_length_iff)
  with assms that show ?thesis by (auto simp: has0xPrefix_def)
qed

section \<open>Decode and Encode\<close>

lemma Encode_eq [codec_simps]: "Encode b = ''0x'' @ hex_encode b"
proof -
  have "Encode b = take 2 (go_copy (replicate (length b * 2 + 2) (char_of (0 :: nat))) ''0x'') @ hex_encode b"
    unfolding Encode_def Let_def by (rule go_copy_at_suffix) simp
  then show ?thesis by (simp add: go_copy_def)
qed

lemma Decode_unfold:
  "has0xPrefix s \<Longrightarrow>
   Decode s = (fst (hex_decode (drop 2 s)), map_option (\<lambda>e. mapError (StdError e)) (snd (hex_decode (drop 2 s))))"
  by (auto simp: Decode_def has0xPrefix_def split: prod.splits)

lemma Decode_ok_iff_aux:
  "snd (Decode s) = None \<longleftrightarrow>
   has0xPrefix s \<and> even (length s) \<and> (\<forall>c\<in>set (drop 2 s). is_hex c)"
proof (cases "has0xPrefix s")
  case True
  then have "2 \<le> length s" by (simp add: has0xPrefix_def)
  then show ?thesis using True by (simp add: Decode_unfold hex_decode_ok_iff)
next
  case False
  then show ?thesis by (simp add: Decode_def)
qed

section \<open>Numbers\<close>

text \<open>The text of a quantity: 0x, then digits without a superfluous leading zero.\<close>

lemma checkNumber_Inr_iff:
  "checkNumber input = Inr raw \<longleftrightarrow>
   has0xPrefix input \<and> raw = drop 2 input \<and> raw \<noteq> [] \<and> (length raw = 1 \<or> hd raw \<noteq> CHR ''0'')"
  by (cases "drop 2 input") (auto simp: checkNumber_def has0xPrefix_def Let_def hd_conv_nth)

lemma checkNumber_hex_digits [simp, codec_simps]:
  "checkNumber (CHR ''0'' # CHR ''x'' # hex_digits n) = Inr (hex_digits n)"
proof -
  obtain c cs where "hex_digits n = c # cs" using hex_digits_not_Nil by (metis neq_Nil_conv)
  then show ?thesis using hex_digits_hd [of n c cs] by (auto simp: checkNumber_Inr_iff)
qed

lemma decodeBigWord_hex:
  "(\<And>c. c \<in> set cs \<Longrightarrow> is_hex c) \<Longrightarrow>
   decodeBigWord cs w = Some (of_nat (unat w * 16 ^ length cs + hexnum cs))"
proof (induction cs arbitrary: w)
  case Nil
  then show ?case by simp
next
  case (Cons c cs)
  then obtain d where d: "hexval c = Some d" by (auto simp: is_hex_def)
  have "decodeBigWord (c # cs) w = decodeBigWord cs (w * 16 + of_nat d)"
    using d of_nat_not_bad [OF hexval_less [OF d]] by (simp add: decodeNibble_hexval Let_def)
  also have "\<dots> = Some (of_nat (unat (w * 16 + of_nat d) * 16 ^ length cs + hexnum cs))"
    using Cons by simp
  also have "\<dots> = Some (of_nat (unat w * 16 ^ length (c # cs) + hexnum (c # cs)))"
    using d by (simp add: hexnum_Cons algebra_simps)
  finally show ?case .
qed

lemma decodeBigWord_bad: "c \<in> set cs \<Longrightarrow> \<not> is_hex c \<Longrightarrow> decodeBigWord cs w = None"
  by (induction cs arbitrary: w) (auto simp: Let_def decodeNibble_bad_iff)

lemma decodeBigWords_hex:
  "(\<And>c. c \<in> set raw \<Longrightarrow> is_hex c) \<Longrightarrow> stop \<le> length raw \<Longrightarrow> stop \<le> 16 * n \<Longrightarrow>
   \<exists>ws. decodeBigWords n raw stop = Inr ws \<and> words_value ws = hexnum (take stop raw)"
proof (induction n arbitrary: stop)
  case 0
  then show ?case by simp
next
  case (Suc n)
  define start where "start = stop - 16"
  define chunk where "chunk = take (stop - start) (drop start raw)"
  have split: "take stop raw = take start raw @ chunk"
    using Suc.prems by (simp add: chunk_def start_def take_add [symmetric])
  have len: "length chunk = stop - start" "length chunk \<le> 16"
    using Suc.prems by (simp_all add: chunk_def start_def)
  have "set chunk \<subseteq> set raw"
    unfolding chunk_def by (meson set_drop_subset set_take_subset subset_trans)
  then have w: "decodeBigWord chunk 0 = Some (of_nat (hexnum chunk))"
    using Suc.prems(1) by (subst decodeBigWord_hex) auto
  have "start \<le> length raw" "start \<le> 16 * n"
    using Suc.prems by (simp_all add: start_def)
  then obtain ws where ws: "decodeBigWords n raw start = Inr ws"
      "words_value ws = hexnum (take start raw)"
    using Suc.IH [of start] Suc.prems(1) by blast
  have "hexnum chunk < 16 ^ length chunk" by (rule hexnum_less)
  also have "\<dots> \<le> 16 ^ 16" using len by (intro power_increasing) simp_all
  finally have small: "unat (of_nat (hexnum chunk) :: uint64) = hexnum chunk"
    by (simp add: unat_of_nat)
  have "hexnum (take start raw) * 16 ^ length chunk = 2 ^ 64 * hexnum (take start raw)"
    using len by (cases "start = 0") (auto simp: start_def)
  then have "words_value (of_nat (hexnum chunk) # ws) = hexnum (take stop raw)"
    by (simp add: split hexnum_append ws(2) small)
  moreover have "decodeBigWords (Suc n) raw stop = Inr (of_nat (hexnum chunk) # ws)"
    using w ws(1) by (simp add: Let_def start_def [symmetric] chunk_def [symmetric])
  ultimately show ?case by blast
qed

lemma decodeBigWords_bad:
  "c \<in> set (take stop raw) \<Longrightarrow> \<not> is_hex c \<Longrightarrow> stop \<le> length raw \<Longrightarrow> stop \<le> 16 * n \<Longrightarrow>
   decodeBigWords n raw stop = Inl (DecError ErrSyntax)"
proof (induction n arbitrary: stop)
  case 0
  then show ?case by simp
next
  case (Suc n)
  define start where "start = stop - 16"
  define chunk where "chunk = take (stop - start) (drop start raw)"
  have split: "take stop raw = take start raw @ chunk"
    using Suc.prems by (simp add: chunk_def start_def take_add [symmetric])
  show ?case
  proof (cases "decodeBigWord chunk 0")
    case None
    then show ?thesis by (simp add: Let_def start_def chunk_def)
  next
    case (Some w)
    then have "c \<notin> set chunk" using decodeBigWord_bad Suc.prems(2) by fastforce
    then have "decodeBigWords n raw start = Inl (DecError ErrSyntax)"
      using Suc.prems split by (intro Suc.IH) (auto simp: start_def)
    with Some show ?thesis by (simp add: Let_def start_def chunk_def)
  qed
qed

text \<open>The reference for the word loop: the positional value of the digits.\<close>

definition big_value :: "string \<Rightarrow> hex_error + int" where
  "big_value raw =
     (if list_all is_hex raw then Inr (int (hexnum raw)) else Inl (DecError ErrSyntax))"

lemma words_enough: "n \<le> 16 * (n div 16 + (1 :: nat))"
  by presburger

lemma decodeBigWords_value:
  "(case decodeBigWords (length raw div bigWordNibbles + 1) raw (length raw) of
      Inl err \<Rightarrow> Inl err | Inr ws \<Rightarrow> Inr (big_set_bits ws)) = big_value raw"
proof (cases "list_all is_hex raw")
  case True
  then have "\<And>c. c \<in> set raw \<Longrightarrow> is_hex c" by (simp add: list_all_iff)
  from decodeBigWords_hex [OF this order_refl words_enough]
  obtain ws where "decodeBigWords (length raw div 16 + 1) raw (length raw) = Inr ws"
    "words_value ws = hexnum (take (length raw) raw)" by blast
  with True show ?thesis by (simp add: big_value_def big_set_bits_def del: decodeBigWords.simps)
next
  case False
  then obtain c where "c \<in> set raw" "\<not> is_hex c" by (auto simp: list_all_iff)
  then have "decodeBigWords (length raw div 16 + 1) raw (length raw) = Inl (DecError ErrSyntax)"
    by (intro decodeBigWords_bad [OF _ _ order_refl words_enough]) simp_all
  with False show ?thesis by (simp add: big_value_def del: decodeBigWords.simps)
qed

lemma DecodeBig_unfold:
  "DecodeBig input =
     (case checkNumber input of
        Inl err \<Rightarrow> Inl err
      | Inr raw \<Rightarrow> if 64 < length raw then Inl (DecError ErrBig256Range) else big_value raw)"
  by (simp only: DecodeBig_def decodeBigWords_value)

lemma EncodeBig_nonneg: "0 \<le> x \<Longrightarrow> EncodeBig x = ''0x'' @ hex_digits (nat x)"
  by (cases "x = 0") (auto simp: EncodeBig_def Let_def big_text16_def hex_digits_def)

lemma EncodeBig_neg: "x < 0 \<Longrightarrow> EncodeBig x = ''-0x'' @ hex_digits (nat (- x))"
  by (simp add: EncodeBig_def Let_def big_text16_def)

section \<open>What the decoders accept\<close>

lemma is_hex_to_lower [simp]: "is_hex (to_lower c) = is_hex c"
  by (simp add: is_hex_def)

lemma hexnum_to_lower [simp]: "hexnum (map to_lower s) = hexnum s"
  by (simp add: hexnum_def comp_def)

lemma hex_encode_inject: "hex_encode a = hex_encode b \<longleftrightarrow> a = b"
  by (metis hex_decode_encode prod.inject)

lemma to_lower_hd_zero: "s \<noteq> [] \<Longrightarrow> hd (map to_lower s) = CHR ''0'' \<Longrightarrow> hd s = CHR ''0''"
  by (metis hd_map hexval_to_lower hexval_zero_iff)

text \<open>A digit string is the shortest one for its value exactly when it is in normal form.\<close>

lemma hex_digits_eq_lower_iff:
  "hex_digits n = map to_lower raw \<longleftrightarrow>
   raw \<noteq> [] \<and> (length raw = 1 \<or> hd raw \<noteq> CHR ''0'') \<and> list_all is_hex raw \<and> hexnum raw = n"
proof
  assume e: "hex_digits n = map to_lower raw"
  then have ne: "raw \<noteq> []" by auto
  have "is_hex c" if "c \<in> set raw" for c
    using hex_digits_is_hex [of "to_lower c" n] that e by simp
  then have "list_all is_hex raw" by (simp add: list_all_iff)
  moreover have "hexnum raw = n" using e hexnum_hex_digits [of n] by simp
  moreover have "length raw = 1 \<or> hd raw \<noteq> CHR ''0''"
  proof (rule disjCI)
    assume "\<not> hd raw \<noteq> CHR ''0''"
    moreover obtain c cs where r: "raw = c # cs" using ne by (cases raw) auto
    ultimately have "hex_digits n = CHR ''0'' # map to_lower cs"
      using e by (simp add: to_lower_def ord_def)
    then have "map to_lower cs = []" using hex_digits_hd by metis
    then show "length raw = 1" using r by simp
  qed
  ultimately show "raw \<noteq> [] \<and> (length raw = 1 \<or> hd raw \<noteq> CHR ''0'') \<and> list_all is_hex raw \<and> hexnum raw = n"
    using ne by blast
next
  assume "raw \<noteq> [] \<and> (length raw = 1 \<or> hd raw \<noteq> CHR ''0'') \<and> list_all is_hex raw \<and> hexnum raw = n"
  then show "hex_digits n = map to_lower raw"
    using hex_digits_hexnum [of raw] by (auto simp: list_all_iff)
qed

lemma ParseUint16_cases:
  "ParseUint16 raw = (v, None) \<longleftrightarrow> raw \<noteq> [] \<and> list_all is_hex raw \<and> hexnum raw = unat v"
proof
  assume p: "ParseUint16 raw = (v, None)"
  then have "snd (ParseUint16 raw) = None" by simp
  then have *: "raw \<noteq> []" "\<forall>c\<in>set raw. is_hex c" "hexnum raw < 2 ^ 64"
    unfolding ParseUint16_ok_iff by auto
  then have "ParseUint16 raw = (of_nat (hexnum raw), None)" by (intro ParseUint16_value) auto
  with p have "v = of_nat (hexnum raw)" by simp
  with * show "raw \<noteq> [] \<and> list_all is_hex raw \<and> hexnum raw = unat v"
    by (simp add: list_all_iff unat_of_nat)
next
  assume "raw \<noteq> [] \<and> list_all is_hex raw \<and> hexnum raw = unat v"
  moreover have "unat v < 2 ^ 64" using unsigned_less [of v] by simp
  ultimately show "ParseUint16 raw = (v, None)"
    using ParseUint16_value [of raw] by (auto simp: list_all_iff)
qed

lemma DecodeUint64_iff_aux:
  "DecodeUint64 s = (v, None) \<longleftrightarrow>
   has0xPrefix s \<and> EncodeUint64 v = ''0x'' @ map to_lower (drop 2 s)"
proof (cases "checkNumber s")
  case (Inl e)
  then have "checkNumber s \<noteq> Inr (drop 2 s)" by simp
  with Inl show ?thesis
    unfolding checkNumber_Inr_iff by (auto simp: DecodeUint64_def EncodeUint64_def hex_digits_eq_lower_iff)
next
  case (Inr raw)
  then have r: "has0xPrefix s" "raw = drop 2 s" "raw \<noteq> []" "length raw = 1 \<or> hd raw \<noteq> CHR ''0''"
    unfolding checkNumber_Inr_iff by auto
  have "DecodeUint64 s = (v, None) \<longleftrightarrow> ParseUint16 raw = (v, None)"
    using Inr by (auto simp: DecodeUint64_def split: prod.splits)
  then show ?thesis
    using r by (auto simp: ParseUint16_cases EncodeUint64_def hex_digits_eq_lower_iff)
qed

lemma Decode_iff_aux:
  "Decode s = (b, None) \<longleftrightarrow> has0xPrefix s \<and> Encode b = ''0x'' @ map to_lower (drop 2 s)"
proof
  assume d: "Decode s = (b, None)"
  then have "snd (Decode s) = None" by simp
  then have p: "has0xPrefix s" by (simp add: Decode_ok_iff_aux)
  with d have "snd (hex_decode (drop 2 s)) = None" "fst (hex_decode (drop 2 s)) = b"
    by (simp_all add: Decode_unfold)
  then show "has0xPrefix s \<and> Encode b = ''0x'' @ map to_lower (drop 2 s)"
    using p hex_encode_decode [of "drop 2 s"] by (simp add: Encode_eq)
next
  assume "has0xPrefix s \<and> Encode b = ''0x'' @ map to_lower (drop 2 s)"
  then have p: "has0xPrefix s" and e: "hex_encode b = map to_lower (drop 2 s)"
    by (simp_all add: Encode_eq)
  have "snd (hex_decode (drop 2 s)) = None"
    using hex_decode_ok_iff [of "map to_lower (drop 2 s)"] hex_decode_ok_iff [of "drop 2 s"]
      hex_decode_encode [of b] by (simp add: e)
  moreover from this have "hex_encode (fst (hex_decode (drop 2 s))) = hex_encode b"
    using hex_encode_decode [of "drop 2 s"] e by simp
  then have "fst (hex_decode (drop 2 s)) = b" by (simp only: hex_encode_inject)
  ultimately show "Decode s = (b, None)" using p by (simp add: Decode_unfold)
qed

text \<open>
  C13. \<open>Decode\<close> succeeds with \<open>b\<close> exactly on the texts that are the encoding of \<open>b\<close> up to
  the case of the prefix letter and of the digits. In particular decoding inverts \<open>Encode\<close>, every
  byte string has a text, and no text decodes to two byte strings.
\<close>

theorem Decode_iff_Encode:
  "Decode s = (b, None) \<longleftrightarrow> has0xPrefix s \<and> Encode b = ''0x'' @ map to_lower (drop 2 s)"
  by (rule Decode_iff_aux)

text \<open>
  \<open>DecodeUint64\<close> accepts exactly the canonical texts of 64-bit numbers: it returns \<open>v\<close>
  without error exactly when the text is the encoding of \<open>v\<close> up to the case of letters. Leading
  zeros, empty numbers, foreign characters and numbers over 64 bits are all refused, and the overflow
  guards of the parser never let a wrapped value through.
\<close>

theorem DecodeUint64_iff_Encode:
  "DecodeUint64 s = (v, None) \<longleftrightarrow>
   has0xPrefix s \<and> EncodeUint64 v = ''0x'' @ map to_lower (drop 2 s)"
  by (rule DecodeUint64_iff_aux)

text \<open>
  C14. \<open>DecodeBig\<close> accepts exactly the canonical texts of the numbers below \<open>2^256\<close>: the
  loop that fills \<open>big.Word\<close>s of 16 digits from the end computes the positional value of the
  whole digit string, and \<open>EncodeBig\<close> is its inverse up to the case of letters.
\<close>

theorem DecodeBig_iff_Encode:
  "DecodeBig s = Inr x \<longleftrightarrow>
   has0xPrefix s \<and> 0 \<le> x \<and> x < 2 ^ 256 \<and> EncodeBig x = ''0x'' @ map to_lower (drop 2 s)"
proof (cases "checkNumber s")
  case (Inl e)
  then have "checkNumber s \<noteq> Inr (drop 2 s)" by simp
  with Inl show ?thesis
    unfolding checkNumber_Inr_iff
    by (auto simp: DecodeBig_unfold EncodeBig_nonneg hex_digits_eq_lower_iff)
next
  case (Inr raw)
  then have r: "has0xPrefix s" "raw = drop 2 s" "raw \<noteq> []" "length raw = 1 \<or> hd raw \<noteq> CHR ''0''"
    unfolding checkNumber_Inr_iff by auto
  have *: "length raw \<le> 64 \<longleftrightarrow> nat x < 2 ^ 256" if "hex_digits (nat x) = map to_lower raw"
  proof
    assume l: "length raw \<le> 64"
    have "nat x < 16 ^ length raw"
      using hexnum_less [of raw] that by (simp add: hex_digits_eq_lower_iff)
    also have "\<dots> \<le> 16 ^ 64" using l by (intro power_increasing) simp_all
    finally show "nat x < 2 ^ 256" by simp
  next
    assume "nat x < 2 ^ 256"
    then have "nat x < 16 ^ 64" by simp
    then have "length (hex_digits (nat x)) \<le> 64" by (rule length_hex_digits) simp
    then show "length raw \<le> 64" using that by simp
  qed
  have "DecodeBig s = Inr x \<longleftrightarrow> length raw \<le> 64 \<and> list_all is_hex raw \<and> x = int (hexnum raw)"
    using Inr by (auto simp: DecodeBig_unfold big_value_def)
  also have "\<dots> \<longleftrightarrow> 0 \<le> x \<and> length raw \<le> 64 \<and> hex_digits (nat x) = map to_lower raw"
    using r by (auto simp: hex_digits_eq_lower_iff)
  also have "\<dots> \<longleftrightarrow> 0 \<le> x \<and> x < 2 ^ 256 \<and> hex_digits (nat x) = map to_lower raw"
    using * by (auto simp: nat_less_iff)
  finally show ?thesis using r by (auto simp: EncodeBig_nonneg)
qed

end
