(* ===== verification/Hexutil_JSON.thy ===== *)
theory Hexutil_JSON
  imports Hexutil
begin

text \<open>
  \<open>src/common/hexutil/json.go\<close>: the types \<open>Bytes\<close>, \<open>Big\<close>, \<open>Uint64\<close> and \<open>Uint\<close>, which
  marshal to hexadecimal text and unmarshal from text, from JSON strings and from GraphQL input, and
  the helpers for fixed-size byte arrays. A method with a pointer receiver takes the receiver's value
  and returns the value after the call with the error. The locale \<open>json_codec\<close> is the contract
  between a type's text methods and its JSON method; each type interprets it.
\<close>

section \<open>Helpers\<close>

text \<open>The reflect types, by the name \<open>reflect.Type.String\<close> gives.\<close>

definition bytesT :: string where "bytesT = ''hexutil.Bytes''"

definition bigT :: string where "bigT = ''*hexutil.Big''"

definition uintT :: string where "uintT = ''hexutil.Uint''"

definition uint64T :: string where "uint64T = ''hexutil.Uint64''"

abbreviation quote_char :: char where
  "quote_char \<equiv> CHR 0x22"

definition isString :: "string \<Rightarrow> bool" where
  "isString input \<longleftrightarrow>
     2 \<le> length input \<and> input ! 0 = quote_char \<and> input ! (length input - 1) = quote_char"

text \<open>\<open>input[1 : len(input)-1]\<close>\<close>

definition unquote :: "string \<Rightarrow> string" where
  "unquote input = take (length input - 1 - 1) (drop 1 input)"

definition quote :: "string \<Rightarrow> string" where
  "quote s = quote_char # s @ [quote_char]"

definition bytesHave0xPrefix :: "string \<Rightarrow> bool" where
  "bytesHave0xPrefix input \<longleftrightarrow>
     2 \<le> length input \<and> input ! 0 = CHR ''0'' \<and> (input ! 1 = CHR ''x'' \<or> input ! 1 = CHR ''X'')"

definition checkText :: "string \<Rightarrow> bool \<Rightarrow> hex_error + string" where
  "checkText input wantPrefix =
     (if length input = 0 then Inr []
      else if bytesHave0xPrefix input then
        let input = drop 2 input
        in if length input mod 2 \<noteq> 0 then Inl (DecError ErrOddLength) else Inr input
      else if wantPrefix then Inl (DecError ErrMissingPrefix)
      else if length input mod 2 \<noteq> 0 then Inl (DecError ErrOddLength)
      else Inr input)"

definition checkNumberText :: "string \<Rightarrow> hex_error + string" where
  "checkNumberText input =
     (if length input = 0 then Inr []
      else if \<not> bytesHave0xPrefix input then Inl (DecError ErrMissingPrefix)
      else
        let input = drop 2 input
        in if length input = 0 then Inl (DecError ErrEmptyNumber)
           else if 1 < length input \<and> input ! 0 = CHR ''0'' then Inl (DecError ErrLeadingZero)
           else Inr input)"

fun wrapTypeError :: "hex_error option \<Rightarrow> string \<Rightarrow> hex_error option" where
  "wrapTypeError (Some (DecError d)) typ = Some (UnmarshalTypeError (decError_Error d) typ)"
| "wrapTypeError err typ = err"

definition errNonString :: "string \<Rightarrow> hex_error" where
  "errNonString typ = UnmarshalTypeError ''non-string'' typ"

text \<open>GraphQL input: the dynamic types the methods distinguish, any other by its \<open>%T\<close> name.\<close>

datatype gql_input = GqlString string | GqlInt32 uint32 | GqlOther string

primrec gql_type :: "gql_input \<Rightarrow> string" where
  "gql_type (GqlString s) = ''string''"
| "gql_type (GqlInt32 i) = ''int32''"
| "gql_type (GqlOther t) = t"

definition unexpectedType :: "gql_input \<Rightarrow> string \<Rightarrow> hex_error" where
  "unexpectedType input name =
     Errorf (''unexpected type '' @ gql_type input @ '' for '' @ name)"

section \<open>Bytes\<close>

definition Bytes_MarshalText :: "byte list \<Rightarrow> string" where
  "Bytes_MarshalText b =
     (let result = go_copy (replicate (length b * 2 + 2) (char_of (0 :: nat))) ''0x''
      in go_copy_at result 2 (hex_encode b))"

definition Bytes_UnmarshalText :: "byte list \<Rightarrow> string \<Rightarrow> (byte list, hex_error) ret" where
  "Bytes_UnmarshalText b input =
     (case checkText input True of
        Inl err \<Rightarrow> (b, Some err)
      | Inr raw \<Rightarrow>
          (case hex_decode raw of
             (dec, Some err) \<Rightarrow> (b, Some (mapError (StdError err)))
           | (dec, None) \<Rightarrow> (dec, None)))"

definition Bytes_UnmarshalJSON :: "byte list \<Rightarrow> string \<Rightarrow> (byte list, hex_error) ret" where
  "Bytes_UnmarshalJSON b input =
     (if \<not> isString input then (b, Some (errNonString bytesT))
      else let (b', err) = Bytes_UnmarshalText b (unquote input) in (b', wrapTypeError err bytesT))"

definition Bytes_String :: "byte list \<Rightarrow> string" where
  "Bytes_String b = Encode b"

definition Bytes_ImplementsGraphQLType :: "string \<Rightarrow> bool" where
  "Bytes_ImplementsGraphQLType name \<longleftrightarrow> name = ''Bytes''"

text \<open>The string case shadows \<open>err\<close>; both paths return the error they met.\<close>

definition Bytes_UnmarshalGraphQL :: "byte list \<Rightarrow> gql_input \<Rightarrow> (byte list, hex_error) ret" where
  "Bytes_UnmarshalGraphQL b input =
     (case input of
        GqlString s \<Rightarrow>
          (case Decode s of (data, Some err) \<Rightarrow> (b, Some err) | (data, None) \<Rightarrow> (data, None))
      | _ \<Rightarrow> (b, Some (unexpectedType input ''Bytes'')))"

section \<open>Fixed-size byte arrays\<close>

text \<open>\<open>hex.Decode(out, raw)\<close>: the bytes decoded before an error overwrite the front of \<open>out\<close>.\<close>

definition hex_decode_into :: "byte list \<Rightarrow> string \<Rightarrow> byte list" where
  "hex_decode_into out raw = go_copy out (fst (hex_decode raw))"

definition fixedLengthError :: "string \<Rightarrow> string \<Rightarrow> byte list \<Rightarrow> hex_error" where
  "fixedLengthError typname raw out =
     Errorf (''hex string has length '' @ dec_digits (length raw) @ '', want ''
       @ dec_digits (length out * 2) @ '' for '' @ typname)"

definition UnmarshalFixedText :: "string \<Rightarrow> string \<Rightarrow> byte list \<Rightarrow> (byte list, hex_error) ret" where
  "UnmarshalFixedText typname input out =
     (case checkText input True of
        Inl err \<Rightarrow> (out, Some err)
      | Inr raw \<Rightarrow>
          if length raw div 2 \<noteq> length out then (out, Some (fixedLengthError typname raw out))
          else if list_ex (\<lambda>b. decodeNibble b = badNibble) raw then (out, Some (DecError ErrSyntax))
          else (hex_decode_into out raw, None))"

definition UnmarshalFixedJSON :: "string \<Rightarrow> string \<Rightarrow> byte list \<Rightarrow> (byte list, hex_error) ret" where
  "UnmarshalFixedJSON typ input out =
     (if \<not> isString input then (out, Some (errNonString typ))
      else let (out', err) = UnmarshalFixedText typ (unquote input) out
           in (out', wrapTypeError err typ))"

definition UnmarshalFixedUnprefixedText ::
  "string \<Rightarrow> string \<Rightarrow> byte list \<Rightarrow> (byte list, hex_error) ret" where
  "UnmarshalFixedUnprefixedText typname input out =
     (case checkText input False of
        Inl err \<Rightarrow> (out, Some err)
      | Inr raw \<Rightarrow>
          if length raw div 2 \<noteq> length out then (out, Some (fixedLengthError typname raw out))
          else if list_ex (\<lambda>b. decodeNibble b = badNibble) raw then (out, Some (DecError ErrSyntax))
          else (hex_decode_into out raw, None))"

section \<open>Big\<close>

definition Big_MarshalText :: "int \<Rightarrow> string" where
  "Big_MarshalText b = EncodeBig b"

definition Big_UnmarshalText :: "int \<Rightarrow> string \<Rightarrow> (int, hex_error) ret" where
  "Big_UnmarshalText b input =
     (case checkNumberText input of
        Inl err \<Rightarrow> (b, Some err)
      | Inr raw \<Rightarrow>
          if 64 < length raw then (b, Some (DecError ErrBig256Range))
          else
            (case decodeBigWords (length raw div bigWordNibbles + 1) raw (length raw) of
               Inl err \<Rightarrow> (b, Some err)
             | Inr ws \<Rightarrow> (big_set_bits ws, None)))"

definition Big_UnmarshalJSON :: "int \<Rightarrow> string \<Rightarrow> (int, hex_error) ret" where
  "Big_UnmarshalJSON b input =
     (if \<not> isString input then (b, Some (errNonString bigT))
      else let (b', err) = Big_UnmarshalText b (unquote input) in (b', wrapTypeError err bigT))"

definition Big_ToInt :: "int \<Rightarrow> int" where
  "Big_ToInt b = b"

definition Big_String :: "int \<Rightarrow> string" where
  "Big_String b = EncodeBig (Big_ToInt b)"

definition Big_ImplementsGraphQLType :: "string \<Rightarrow> bool" where
  "Big_ImplementsGraphQLType name \<longleftrightarrow> name = ''BigInt''"

definition Big_UnmarshalGraphQL :: "int \<Rightarrow> gql_input \<Rightarrow> (int, hex_error) ret" where
  "Big_UnmarshalGraphQL b input =
     (case input of
        GqlString s \<Rightarrow> Big_UnmarshalText b s
      | GqlInt32 i \<Rightarrow> (sint i, None)
      | GqlOther t \<Rightarrow> (b, Some (unexpectedType input ''BigInt'')))"

section \<open>Uint64 and Uint\<close>

definition Uint64_MarshalText :: "uint64 \<Rightarrow> string" where
  "Uint64_MarshalText b = ''0x'' @ hex_digits (unat b)"

text \<open>The digit loop; \<open>None\<close> is the early return at a bad nibble.\<close>

fun decodeUintDigits :: "string \<Rightarrow> uint64 \<Rightarrow> uint64 option" where
  "decodeUintDigits [] dec = Some dec"
| "decodeUintDigits (c # cs) dec =
     (let nib = decodeNibble c
      in if nib = badNibble then None else decodeUintDigits cs (dec * 16 + nib))"

definition Uint64_UnmarshalText :: "uint64 \<Rightarrow> string \<Rightarrow> (uint64, hex_error) ret" where
  "Uint64_UnmarshalText b input =
     (case checkNumberText input of
        Inl err \<Rightarrow> (b, Some err)
      | Inr raw \<Rightarrow>
          if 16 < length raw then (b, Some (DecError ErrUint64Range))
          else
            (case decodeUintDigits raw 0 of
               None \<Rightarrow> (b, Some (DecError ErrSyntax))
             | Some dec \<Rightarrow> (dec, None)))"

definition Uint64_UnmarshalJSON :: "uint64 \<Rightarrow> string \<Rightarrow> (uint64, hex_error) ret" where
  "Uint64_UnmarshalJSON b input =
     (if \<not> isString input then (b, Some (errNonString uint64T))
      else let (b', err) = Uint64_UnmarshalText b (unquote input) in (b', wrapTypeError err uint64T))"

definition Uint64_String :: "uint64 \<Rightarrow> string" where
  "Uint64_String b = EncodeUint64 b"

definition Uint64_ImplementsGraphQLType :: "string \<Rightarrow> bool" where
  "Uint64_ImplementsGraphQLType name \<longleftrightarrow> name = ''Long''"

text \<open>\<open>Uint64(input)\<close> of an \<open>int32\<close> extends the sign.\<close>

definition Uint64_UnmarshalGraphQL :: "uint64 \<Rightarrow> gql_input \<Rightarrow> (uint64, hex_error) ret" where
  "Uint64_UnmarshalGraphQL b input =
     (case input of
        GqlString s \<Rightarrow> Uint64_UnmarshalText b s
      | GqlInt32 i \<Rightarrow> (scast i, None)
      | GqlOther t \<Rightarrow> (b, Some (unexpectedType input ''Long'')))"

definition Uint_MarshalText :: "uint64 \<Rightarrow> string" where
  "Uint_MarshalText b = Uint64_MarshalText b"

definition Uint_UnmarshalText :: "uint64 \<Rightarrow> string \<Rightarrow> (uint64, hex_error) ret" where
  "Uint_UnmarshalText b input =
     (let (u64, err) = Uint64_UnmarshalText 0 input
      in if NOT 0 < u64 \<or> err = Some (DecError ErrUint64Range) then (b, Some (DecError ErrUintRange))
         else (case err of Some e \<Rightarrow> (b, Some e) | None \<Rightarrow> (u64, None)))"

definition Uint_UnmarshalJSON :: "uint64 \<Rightarrow> string \<Rightarrow> (uint64, hex_error) ret" where
  "Uint_UnmarshalJSON b input =
     (if \<not> isString input then (b, Some (errNonString uintT))
      else let (b', err) = Uint_UnmarshalText b (unquote input) in (b', wrapTypeError err uintT))"

definition Uint_String :: "uint64 \<Rightarrow> string" where
  "Uint_String b = EncodeUint64 b"

section \<open>Facts about the helpers\<close>

lemma isString_quote [simp, codec_simps]: "isString (quote s)"
  by (simp add: isString_def quote_def nth_append)

lemma unquote_quote [simp, codec_simps]: "unquote (quote s) = s"
  by (simp add: unquote_def quote_def)

lemma wrapTypeError_None [simp]: "wrapTypeError err typ = None \<longleftrightarrow> err = None"
  by (cases "(err, typ)" rule: wrapTypeError.cases) auto

lemma wrapTypeError_Some_iff:
  "wrapTypeError err typ = Some e \<longleftrightarrow>
   (\<exists>d. err = Some (DecError d) \<and> e = UnmarshalTypeError (decError_Error d) typ) \<or>
   (err = Some e \<and> (\<forall>d. e \<noteq> DecError d))"
  by (cases "(err, typ)" rule: wrapTypeError.cases) auto

lemma bytesHave0xPrefix_eq [simp]: "bytesHave0xPrefix s = has0xPrefix s"
  by (simp add: bytesHave0xPrefix_def has0xPrefix_def)

section \<open>The contract of a JSON codec\<close>

text \<open>
  What a text codec promises: unmarshalling a marshalled valid value restores it, whatever the
  receiver held, and a failed unmarshal leaves the receiver as it was. \<open>wf\<close> is what the
  receiver must satisfy (the length of an array), \<open>valid\<close> the values the text can carry.
\<close>

locale text_codec =
  fixes marshal :: "'a \<Rightarrow> string"
    and unmarshal :: "'a \<Rightarrow> string \<Rightarrow> ('a, hex_error) ret"
    and wf :: "'a \<Rightarrow> bool"
    and valid :: "'a \<Rightarrow> bool"
  assumes unmarshal_marshal: "wf old \<Longrightarrow> valid x \<Longrightarrow> unmarshal old (marshal x) = (x, None)"
    and unmarshal_keeps: "unmarshal old s = (new, Some e) \<Longrightarrow> new = old"
begin

lemma marshal_inject: "wf x \<Longrightarrow> valid x \<Longrightarrow> valid y \<Longrightarrow> marshal x = marshal y \<Longrightarrow> x = y"
  by (metis unmarshal_marshal prod.inject)

end

text \<open>The JSON method of such a type unwraps the string and wraps the package's errors.\<close>

locale json_codec = text_codec +
  fixes tname :: string
    and unmarshal_json :: "'a \<Rightarrow> string \<Rightarrow> ('a, hex_error) ret"
  assumes unmarshal_json_eq:
    "unmarshal_json old input =
       (if \<not> isString input then (old, Some (errNonString tname))
        else let (new, err) = unmarshal old (unquote input) in (new, wrapTypeError err tname))"
begin

lemma json_roundtrip:
  "wf old \<Longrightarrow> valid x \<Longrightarrow> unmarshal_json old (quote (marshal x)) = (x, None)"
  by (simp add: unmarshal_json_eq isString_quote unquote_quote unmarshal_marshal)

lemma json_error:
  "unmarshal_json old s = (new, Some e) \<Longrightarrow> new = old \<and> (\<forall>d. e \<noteq> DecError d)"
  by (auto simp: unmarshal_json_eq errNonString_def wrapTypeError_Some_iff
      dest: unmarshal_keeps split: if_splits prod.splits)

lemma json_ok_iff:
  "unmarshal_json old s = (new, None) \<longleftrightarrow> isString s \<and> unmarshal old (unquote s) = (new, None)"
  by (auto simp: unmarshal_json_eq split: prod.splits)

end

section \<open>The codecs of the package\<close>

lemma Bytes_MarshalText_eq [codec_simps]: "Bytes_MarshalText b = ''0x'' @ hex_encode b"
  using Encode_eq [of b] by (simp add: Bytes_MarshalText_def Encode_def)

lemma checkText_prefixed:
  "checkText s True = Inr raw \<longleftrightarrow>
   s = [] \<and> raw = [] \<or> has0xPrefix s \<and> even (length s) \<and> raw = drop 2 s"
proof (cases "has0xPrefix s")
  case True
  then have "2 \<le> length s" by (simp add: has0xPrefix_def)
  then have "even (length s - 2) = even (length s)" "s \<noteq> []" by auto
  with True show ?thesis by (auto simp: checkText_def Let_def)
next
  case False
  then show ?thesis by (auto simp: checkText_def)
qed

lemma checkText_hex_encode [simp, codec_simps]:
  "checkText (CHR ''0'' # CHR ''x'' # hex_encode b) True = Inr (hex_encode b)"
  by (simp add: checkText_prefixed)

lemma checkNumberText_eq [codec_simps]:
  "checkNumberText s = (if s = [] then Inr [] else checkNumber s)"
  by (simp add: checkNumberText_def checkNumber_def)

lemma decodeUintDigits_eq [codec_simps]: "decodeUintDigits cs w = decodeBigWord cs w"
  by (induction cs arbitrary: w) (simp_all add: Let_def)

lemma list_ex_bad: "list_ex (\<lambda>b. decodeNibble b = badNibble) raw \<longleftrightarrow> \<not> list_all is_hex raw"
  by (induction raw) (simp_all add: decodeNibble_bad_iff)

lemma Bytes_UnmarshalText_ok:
  "Bytes_UnmarshalText old s = (b, None) \<longleftrightarrow>
   s = [] \<and> b = [] \<or> has0xPrefix s \<and> Encode b = ''0x'' @ map to_lower (drop 2 s)"
proof (cases "checkText s True")
  case (Inl e)
  have "even (length s)" if "hex_encode b = map to_lower (drop 2 s)" "has0xPrefix s"
  proof -
    have "length (hex_encode b) = length s - 2" using that by simp
    moreover have "2 \<le> length s" using that(2) by (simp add: has0xPrefix_def)
    ultimately have "length s = 2 * (length b + 1)" by simp
    then show ?thesis by simp
  qed
  moreover have "checkText s True \<noteq> Inr (drop 2 s)" "checkText s True \<noteq> Inr []" using Inl by auto
  ultimately show ?thesis
    using Inl unfolding checkText_prefixed by (auto simp: Bytes_UnmarshalText_def Encode_eq)
next
  case (Inr raw)
  then consider "s = []" "raw = []" | "has0xPrefix s" "raw = drop 2 s" "s \<noteq> []"
    unfolding checkText_prefixed by (cases "s = []") (auto simp: has0xPrefix_def)
  then show ?thesis
  proof cases
    case 1
    with Inr show ?thesis by (auto simp: Bytes_UnmarshalText_def has0xPrefix_def)
  next
    case 2
    then have "Bytes_UnmarshalText old s = (b, None) \<longleftrightarrow> Decode s = (b, None)"
      using Inr by (auto simp: Bytes_UnmarshalText_def Decode_unfold split: prod.splits option.splits)
    also have "\<dots> \<longleftrightarrow> has0xPrefix s \<and> Encode b = ''0x'' @ map to_lower (drop 2 s)"
      by (rule Decode_iff_aux)
    finally show ?thesis using 2 by simp
  qed
qed

lemma big_value_Nil [simp]: "big_value [] = Inr 0"
  by (simp add: big_value_def)

lemma Big_UnmarshalText_unfold:
  "Big_UnmarshalText old s =
     (case checkNumberText s of
        Inl err \<Rightarrow> (old, Some err)
      | Inr raw \<Rightarrow>
          if 64 < length raw then (old, Some (DecError ErrBig256Range))
          else (case big_value raw of Inl err \<Rightarrow> (old, Some err) | Inr x \<Rightarrow> (x, None)))"
  by (simp only: Big_UnmarshalText_def decodeBigWords_value [symmetric] split: sum.splits) auto

lemma decodeUintDigits_value:
  "decodeUintDigits raw 0 =
     (if list_all is_hex raw then Some (of_nat (hexnum raw)) else None)"
proof (cases "list_all is_hex raw")
  case True
  then show ?thesis by (simp add: decodeUintDigits_eq decodeBigWord_hex list_all_iff)
next
  case False
  then obtain c where "c \<in> set raw" "\<not> is_hex c" by (auto simp: list_all_iff)
  then have "decodeBigWord raw 0 = None" by (rule decodeBigWord_bad)
  with False show ?thesis by (simp add: decodeUintDigits_eq)
qed

text \<open>At most 16 digits never exceed a 64-bit word, so no product of the loop wraps.\<close>

lemma hexnum_fits: "length raw \<le> 16 \<Longrightarrow> hexnum raw < 2 ^ 64"
proof -
  assume l: "length raw \<le> 16"
  have "hexnum raw < 16 ^ length raw" by (rule hexnum_less)
  also have "\<dots> \<le> 16 ^ 16" using l by (intro power_increasing) simp_all
  finally show ?thesis by simp
qed

lemma hex_digits_to_lower [simp]: "map to_lower (hex_digits n) = hex_digits n"
proof -
  have "to_lower CHR ''0'' = CHR ''0''" by code_simp
  then show ?thesis by (auto simp: hex_digits_def be_digits_less intro!: map_idI)
qed

lemma Uint64_UnmarshalText_ok:
  "Uint64_UnmarshalText old s = (v, None) \<longleftrightarrow>
   s = [] \<and> v = 0 \<or> has0xPrefix s \<and> EncodeUint64 v = ''0x'' @ map to_lower (drop 2 s)"
proof (cases "checkNumberText s")
  case (Inl e)
  then have "checkNumber s = Inl e" "s \<noteq> []" by (auto simp: checkNumberText_eq split: if_splits)
  then have "checkNumber s \<noteq> Inr (drop 2 s)" by simp
  with Inl \<open>s \<noteq> []\<close> show ?thesis
    unfolding checkNumber_Inr_iff
    by (auto simp: Uint64_UnmarshalText_def EncodeUint64_def hex_digits_eq_lower_iff)
next
  case (Inr raw)
  show ?thesis
  proof (cases "s = []")
    case True
    with Inr show ?thesis
      by (auto simp: Uint64_UnmarshalText_def checkNumberText_eq has0xPrefix_def)
  next
    case False
    with Inr have "checkNumber s = Inr raw" by (simp add: checkNumberText_eq)
    then have r: "has0xPrefix s" "raw = drop 2 s" "raw \<noteq> []" "length raw = 1 \<or> hd raw \<noteq> CHR ''0''"
      unfolding checkNumber_Inr_iff by auto
    have "Uint64_UnmarshalText old s = (v, None) \<longleftrightarrow>
        length raw \<le> 16 \<and> list_all is_hex raw \<and> v = of_nat (hexnum raw)"
      using Inr by (auto simp: Uint64_UnmarshalText_def decodeUintDigits_value split: if_splits)
    also have "\<dots> \<longleftrightarrow> hex_digits (unat v) = map to_lower raw"
    proof
      assume *: "length raw \<le> 16 \<and> list_all is_hex raw \<and> v = of_nat (hexnum raw)"
      then have "unat v = hexnum raw" using hexnum_fits [of raw] by (simp add: unat_of_nat)
      with * r show "hex_digits (unat v) = map to_lower raw" by (simp add: hex_digits_eq_lower_iff)
    next
      assume h: "hex_digits (unat v) = map to_lower raw"
      have "unat v < 16 ^ 16" using unsigned_less [of v] by simp
      then have "length (hex_digits (unat v)) \<le> 16" by (rule length_hex_digits) simp
      then have "length raw \<le> 16" unfolding h by simp
      with h show "length raw \<le> 16 \<and> list_all is_hex raw \<and> v = of_nat (hexnum raw)"
        by (simp add: hex_digits_eq_lower_iff)
    qed
    finally show ?thesis using r False by (simp add: EncodeUint64_def)
  qed
qed

lemma Big_UnmarshalText_ok:
  "Big_UnmarshalText old s = (x, None) \<longleftrightarrow> s = [] \<and> x = 0 \<or> DecodeBig s = Inr x"
  by (cases "s = []")
     (auto simp: Big_UnmarshalText_unfold DecodeBig_unfold checkNumberText_eq checkNumber_def
       split: sum.splits)

lemma DecodeBig_EncodeBig:
  assumes "0 \<le> x" "x < 2 ^ 256"
  shows "DecodeBig (EncodeBig x) = Inr x"
proof -
  have "nat x < 16 ^ 64" using assms by (simp add: nat_less_iff)
  then have "length (hex_digits (nat x)) \<le> 64" by (rule length_hex_digits) simp
  moreover have "list_all is_hex (hex_digits (nat x))"
    using hex_digits_is_hex by (simp add: list_all_iff)
  ultimately show ?thesis
    using assms by (simp add: DecodeBig_unfold EncodeBig_nonneg big_value_def)
qed

lemma Uint64_text_roundtrip: "Uint64_UnmarshalText old (Uint64_MarshalText v) = (v, None)"
  unfolding Uint64_UnmarshalText_ok
  by (simp add: Uint64_MarshalText_def EncodeUint64_def hex_digits_to_lower has0xPrefix_def)

lemma Uint_UnmarshalText_ok:
  "Uint_UnmarshalText old s = (v, None) \<longleftrightarrow> Uint64_UnmarshalText 0 s = (v, None)"
  by (auto simp: Uint_UnmarshalText_def split: prod.splits option.splits)

lemma hex_encode_to_lower [simp]: "map to_lower (hex_encode b) = hex_encode b"
  using hex_encode_lower by (simp add: map_idI)

interpretation bytes_codec: json_codec Bytes_MarshalText Bytes_UnmarshalText
  "\<lambda>_. True" "\<lambda>_. True" bytesT Bytes_UnmarshalJSON
proof unfold_locales
  show "Bytes_UnmarshalText old (Bytes_MarshalText x) = (x, None)" for old x
    by (simp add: Bytes_UnmarshalText_ok Bytes_MarshalText_eq Encode_eq)
  show "new = old" if "Bytes_UnmarshalText old s = (new, Some e)" for old s new e
    using that by (auto simp: Bytes_UnmarshalText_def split: sum.splits prod.splits option.splits)
qed (simp add: Bytes_UnmarshalJSON_def)

interpretation big_codec: json_codec Big_MarshalText Big_UnmarshalText
  "\<lambda>_. True" "\<lambda>x. 0 \<le> x \<and> x < 2 ^ 256" bigT Big_UnmarshalJSON
proof unfold_locales
  show "Big_UnmarshalText old (Big_MarshalText x) = (x, None)" if "0 \<le> x \<and> x < 2 ^ 256" for old x
    using that DecodeBig_EncodeBig by (simp add: Big_UnmarshalText_ok Big_MarshalText_def)
  show "new = old" if "Big_UnmarshalText old s = (new, Some e)" for old s new e
    using that by (auto simp: Big_UnmarshalText_unfold split: sum.splits if_splits)
qed (simp add: Big_UnmarshalJSON_def)

interpretation uint64_codec: json_codec Uint64_MarshalText Uint64_UnmarshalText
  "\<lambda>_. True" "\<lambda>_. True" uint64T Uint64_UnmarshalJSON
proof unfold_locales
  show "Uint64_UnmarshalText old (Uint64_MarshalText x) = (x, None)" for old x
    by (rule Uint64_text_roundtrip)
  show "new = old" if "Uint64_UnmarshalText old s = (new, Some e)" for old s new e
    using that by (auto simp: Uint64_UnmarshalText_def split: sum.splits if_splits option.splits)
qed (simp add: Uint64_UnmarshalJSON_def)

interpretation uint_codec: json_codec Uint_MarshalText Uint_UnmarshalText
  "\<lambda>_. True" "\<lambda>_. True" uintT Uint_UnmarshalJSON
proof unfold_locales
  show "Uint_UnmarshalText old (Uint_MarshalText x) = (x, None)" for old x
    by (simp add: Uint_UnmarshalText_ok Uint_MarshalText_def Uint64_text_roundtrip)
  show "new = old" if "Uint_UnmarshalText old s = (new, Some e)" for old s new e
    using that by (auto simp: Uint_UnmarshalText_def split: prod.splits if_splits option.splits)
qed (simp add: Uint_UnmarshalJSON_def)

section \<open>Fixed-size arrays\<close>

lemma hex_decode_into_full:
  "snd (hex_decode raw) = None \<Longrightarrow> length raw div 2 = length out \<Longrightarrow>
   hex_decode_into out raw = fst (hex_decode raw)"
  by (simp add: hex_decode_into_def length_hex_decode)

lemma UnmarshalFixedText_keeps: "UnmarshalFixedText t s out = (new, Some e) \<Longrightarrow> new = out"
  by (auto simp: UnmarshalFixedText_def split: sum.splits if_splits)

lemma UnmarshalFixedText_aux:
  "UnmarshalFixedText t s out = (new, None) \<longleftrightarrow>
   length new = length out \<and> Bytes_UnmarshalText out s = (new, None)"
proof (cases "checkText s True")
  case (Inl e)
  then show ?thesis by (simp add: UnmarshalFixedText_def Bytes_UnmarshalText_def)
next
  case (Inr raw)
  then have even: "even (length raw)"
    unfolding checkText_prefixed by (auto simp: has0xPrefix_def)
  show ?thesis
  proof (cases "list_all is_hex raw")
    case False
    then have "snd (hex_decode raw) \<noteq> None" by (simp add: hex_decode_ok_iff list_all_iff)
    with False Inr show ?thesis
      by (auto simp: UnmarshalFixedText_def Bytes_UnmarshalText_def list_ex_bad split: prod.splits)
  next
    case True
    then have ok: "snd (hex_decode raw) = None"
      using even by (simp add: hex_decode_ok_iff list_all_iff)
    then obtain dec where dec: "hex_decode raw = (dec, None)" by (cases "hex_decode raw") auto
    have "length dec = length raw div 2" using length_hex_decode [OF ok] dec by simp
    with True Inr dec show ?thesis
      using hex_decode_into_full [OF ok, of out]
      by (auto simp: UnmarshalFixedText_def Bytes_UnmarshalText_def list_ex_bad)
  qed
qed

section \<open>Properties\<close>

text \<open>
  Whatever a \<open>Bytes\<close>, \<open>Uint64\<close> or \<open>Uint\<close> value or a quantity below \<open>2^256\<close> held before,
  unmarshalling the JSON string made of the text another value marshals to stores that value and
  returns no error.
\<close>

theorem JSON_roundtrip:
  "Bytes_UnmarshalJSON b0 (quote (Bytes_MarshalText b)) = (b, None) \<and>
   Uint64_UnmarshalJSON v0 (quote (Uint64_MarshalText v)) = (v, None) \<and>
   Uint_UnmarshalJSON u0 (quote (Uint_MarshalText u)) = (u, None) \<and>
   (0 \<le> x \<and> x < 2 ^ 256 \<longrightarrow> Big_UnmarshalJSON x0 (quote (Big_MarshalText x)) = (x, None))"
  by (simp add: bytes_codec.json_roundtrip uint64_codec.json_roundtrip uint_codec.json_roundtrip
      big_codec.json_roundtrip)

theorem JSON_roundtrip_witness:
  "Big_UnmarshalJSON 7 (quote (Big_MarshalText 1000)) = (1000, None)"
  using JSON_roundtrip [of "[]" "[]" 0 0 0 0 1000 7] by simp

text \<open>
  \<open>UnmarshalFixedText\<close> is all or nothing: it succeeds exactly on a prefixed hexadecimal text of
  \<open>2 * len(out)\<close> digits, storing the bytes the text denotes, and on any other text it returns an
  error and leaves every byte of the output array as it was.
\<close>

theorem UnmarshalFixedText_all_or_nothing:
  "case UnmarshalFixedText t s out of
     (new, None) \<Rightarrow> length new = length out \<and>
       (s = [] \<and> new = [] \<or> has0xPrefix s \<and> Encode new = ''0x'' @ map to_lower (drop 2 s))
   | (new, Some e) \<Rightarrow> new = out \<and>
       (\<nexists>b. length b = length out \<and>
         (s = [] \<and> b = [] \<or> has0xPrefix s \<and> Encode b = ''0x'' @ map to_lower (drop 2 s)))"
proof (cases "UnmarshalFixedText t s out")
  case (Pair new r)
  show ?thesis
  proof (cases r)
    case None
    with Pair UnmarshalFixedText_aux [of t s out new] show ?thesis
      by (simp add: Bytes_UnmarshalText_ok)
  next
    case (Some e)
    with Pair UnmarshalFixedText_keeps [of t s out new e] show ?thesis
      using UnmarshalFixedText_aux [of t s out] by (auto simp: Bytes_UnmarshalText_ok)
  qed
qed

text \<open>
  The text methods of the quantity types accept what \<open>DecodeUint64\<close> and \<open>DecodeBig\<close> accept, with
  the same value, and in addition the empty text, which stores zero; \<open>Uint64\<close> accumulates its digits
  in a 64-bit word, so this also says that the accumulation never wraps.
\<close>

theorem UnmarshalText_agrees_with_Decode:
  "(Uint64_UnmarshalText v0 s = (v, None) \<longleftrightarrow> s = [] \<and> v = 0 \<or> DecodeUint64 s = (v, None)) \<and>
   (Uint_UnmarshalText v0 s = (v, None) \<longleftrightarrow> s = [] \<and> v = 0 \<or> DecodeUint64 s = (v, None)) \<and>
   (Big_UnmarshalText x0 s = (x, None) \<longleftrightarrow> s = [] \<and> x = 0 \<or> DecodeBig s = Inr x)"
  by (simp add: Uint_UnmarshalText_ok Uint64_UnmarshalText_ok Big_UnmarshalText_ok
      DecodeUint64_iff_aux)

end
