(* ===== verification/Common_Bytes.thy ===== *)
theory Common_Bytes
  imports Hexutil
begin

text \<open>
  \<open>src/common/bytes.go\<close>: hexadecimal helpers that fall back instead of failing, padding and
  trimming of byte slices. Lengths given by the caller are \<open>int\<close>, as in the code.
\<close>

section \<open>Hexadecimal helpers\<close>

definition common_has0xPrefix :: "string \<Rightarrow> bool" where
  "common_has0xPrefix str \<longleftrightarrow>
     2 \<le> length str \<and> str ! 0 = CHR ''0'' \<and> (str ! 1 = CHR ''x'' \<or> str ! 1 = CHR ''X'')"

definition isHexCharacter :: "char \<Rightarrow> bool" where
  "isHexCharacter c \<longleftrightarrow>
     (ord CHR ''0'' \<le> ord c \<and> ord c \<le> ord CHR ''9'') \<or>
     (ord CHR ''a'' \<le> ord c \<and> ord c \<le> ord CHR ''f'') \<or>
     (ord CHR ''A'' \<le> ord c \<and> ord c \<le> ord CHR ''F'')"

fun allHexCharacters :: "string \<Rightarrow> bool" where
  "allHexCharacters [] = True"
| "allHexCharacters (c # cs) = (if \<not> isHexCharacter c then False else allHexCharacters cs)"

definition isHex :: "string \<Rightarrow> bool" where
  "isHex str = (if length str mod 2 \<noteq> 0 then False else allHexCharacters str)"

definition Bytes2Hex :: "byte list \<Rightarrow> string" where
  "Bytes2Hex d = hex_encode d"

text \<open>The error of \<open>hex.DecodeString\<close> is dropped; the bytes before it are returned.\<close>

definition Hex2Bytes :: "string \<Rightarrow> byte list" where
  "Hex2Bytes str = fst (hex_decode str)"

definition FromHex :: "string \<Rightarrow> byte list" where
  "FromHex s =
     (let s = (if common_has0xPrefix s then drop 2 s else s);
          s = (if length s mod 2 = 1 then CHR ''0'' # s else s)
      in Hex2Bytes s)"

text \<open>A negative \<open>flen\<close> slices out of range, which panics.\<close>

definition Hex2BytesFixed :: "string \<Rightarrow> int \<Rightarrow> byte list option" where
  "Hex2BytesFixed str flen =
     (let h = fst (hex_decode str)
      in if int (length h) = flen then Some h
         else if flen < int (length h) then go_slice h (nat (int (length h) - flen)) (length h)
         else Some (go_copy_at (replicate (nat flen) 0) (nat flen - length h) h))"

definition ParseHexOrString :: "string \<Rightarrow> (byte list, hex_error) ret" where
  "ParseHexOrString str =
     (let (b, err) = Decode str
      in if err = Some (DecError ErrMissingPrefix) then (bytes_of_string str, None) else (b, err))"

section \<open>Copying, padding and trimming\<close>

text \<open>A nil slice is \<open>None\<close>.\<close>

definition CopyBytes :: "byte list option \<Rightarrow> byte list option" where
  "CopyBytes b =
     (case b of None \<Rightarrow> None | Some b \<Rightarrow> Some (go_copy (replicate (length b) 0) b))"

definition RightPadBytes :: "byte list \<Rightarrow> int \<Rightarrow> byte list" where
  "RightPadBytes s l =
     (if l \<le> int (length s) then s else go_copy (replicate (nat l) 0) s)"

definition LeftPadBytes :: "byte list \<Rightarrow> int \<Rightarrow> byte list" where
  "LeftPadBytes s l =
     (if l \<le> int (length s) then s
      else go_copy_at (replicate (nat l) 0) (nat l - length s) s)"

function trimLeftIndex :: "byte list \<Rightarrow> nat \<Rightarrow> nat" where
  "trimLeftIndex s idx =
     (if idx < length s then if s ! idx \<noteq> 0 then idx else trimLeftIndex s (idx + 1) else idx)"
  by auto

termination
  by (relation "measure (\<lambda>(s, idx). length s - idx)") auto

definition TrimLeftZeroes :: "byte list \<Rightarrow> byte list" where
  "TrimLeftZeroes s = drop (trimLeftIndex s 0) s"

fun trimRightIndex :: "byte list \<Rightarrow> nat \<Rightarrow> nat" where
  "trimRightIndex s idx =
     (if 0 < idx then if s ! (idx - 1) \<noteq> 0 then idx else trimRightIndex s (idx - 1) else idx)"

definition TrimRightZeroes :: "byte list \<Rightarrow> byte list" where
  "TrimRightZeroes s = take (trimRightIndex s (length s)) s"

declare trimLeftIndex.simps [simp del] trimRightIndex.simps [simp del]

section \<open>Facts\<close>

lemma common_has0xPrefix_eq [simp]: "common_has0xPrefix s = has0xPrefix s"
  by (simp add: common_has0xPrefix_def has0xPrefix_def)

lemma isHexCharacter_eq [simp, hex_simps]: "isHexCharacter c = is_hex c"
  by (auto simp: isHexCharacter_def is_hex_def hexval_def Let_def)

lemma allHexCharacters_eq [simp, hex_simps]: "allHexCharacters s = list_all is_hex s"
  by (induction s) simp_all

lemma isHex_eq [hex_simps]: "isHex s \<longleftrightarrow> even (length s) \<and> list_all is_hex s"
  by (simp add: isHex_def even_iff_mod_2_eq_zero)

lemma isHex_decodes: "isHex s \<longleftrightarrow> snd (hex_decode s) = None"
  by (simp add: isHex_eq hex_decode_ok_iff list_all_iff)

lemma trimLeft_loop: "idx \<le> length s \<Longrightarrow> drop (trimLeftIndex s idx) s = dropWhile (\<lambda>b. b = 0) (drop idx s)"
proof (induction s idx rule: trimLeftIndex.induct)
  case (1 s idx)
  show ?case
  proof (cases "idx < length s")
    case True
    then have d: "drop idx s = s ! idx # drop (Suc idx) s" by (rule Cons_nth_drop_Suc [symmetric])
    show ?thesis
      using True 1 by (subst trimLeftIndex.simps) (auto simp: d)
  next
    case False
    with "1.prems" show ?thesis by (subst trimLeftIndex.simps) simp
  qed
qed

lemma TrimLeftZeroes_eq: "TrimLeftZeroes s = dropWhile (\<lambda>b. b = 0) s"
  using trimLeft_loop [of 0 s] by (simp add: TrimLeftZeroes_def)

lemma trimRight_loop:
  "idx \<le> length s \<Longrightarrow>
   take (trimRightIndex s idx) s = rev (dropWhile (\<lambda>b. b = 0) (rev (take idx s)))"
proof (induction s idx rule: trimRightIndex.induct)
  case (1 s idx)
  show ?case
  proof (cases "0 < idx")
    case True
    then have "take idx s = take (idx - 1) s @ [s ! (idx - 1)]"
      using "1.prems" take_Suc_conv_app_nth [of "idx - 1" s] by simp
    with True 1 show ?thesis
      by (subst trimRightIndex.simps) auto
  next
    case False
    then show ?thesis by (subst trimRightIndex.simps) simp
  qed
qed

lemma TrimRightZeroes_eq: "TrimRightZeroes s = rev (dropWhile (\<lambda>b. b = 0) (rev s))"
  using trimRight_loop [of "length s" s] by (simp add: TrimRightZeroes_def)

lemma LeftPadBytes_eq:
  "LeftPadBytes s l = replicate (nat l - length s) 0 @ s"
  by (auto simp: LeftPadBytes_def go_copy_at_suffix)

lemma RightPadBytes_eq:
  "RightPadBytes s l = s @ replicate (nat l - length s) 0"
  by (auto simp: RightPadBytes_def go_copy_def)

lemma hex_encode_unprefixed [simp]: "\<not> has0xPrefix (hex_encode b)"
proof
  assume "has0xPrefix (hex_encode b)"
  then have "hex_encode b ! 1 \<in> set (hex_encode b)" "hex_encode b ! 1 = CHR ''x'' \<or> hex_encode b ! 1 = CHR ''X''"
    by (auto simp: has0xPrefix_def intro!: nth_mem)
  then have "is_hex CHR ''x'' \<or> is_hex CHR ''X''" using hex_encode_is_hex by metis
  then show False by (simp add: is_hex_def hexval_def Let_def)
qed

lemma FromHex_hex_encode: "FromHex (hex_encode b) = b"
  by (simp add: FromHex_def Hex2Bytes_def)

lemma hexnum_hex_encode [simp]: "int (hexnum (hex_encode bs)) = big_set_bytes bs"
proof (induction bs)
  case Nil
  then show ?case by (simp add: big_set_bytes_def)
next
  case (Cons b bs)
  have "hexnum (hex_pair b) = unat b div 16 * 16 + unat b mod 16"
    using hi_nibble_less [of b, unfolded unat_hi_nibble]
      hexnum_Cons [of "hexdigit (unat b div 16)" "unat b div 16" "[hexdigit (unat b mod 16)]"]
      hexnum_Cons [of "hexdigit (unat b mod 16)" "unat b mod 16" "[]"]
    by (simp add: hex_pair_def unat_hi_nibble unat_lo_nibble)
  then have "hexnum (hex_pair b) = unat b" by simp
  moreover have "(16::nat) ^ (2 * k) = 256 ^ k" for k by (simp add: power_mult)
  ultimately show ?case
    using Cons by (simp add: hexnum_append big_set_bytes_def be_value_Cons)
qed

lemma hex_decode_value:
  "even (length s) \<Longrightarrow> list_all is_hex s \<Longrightarrow>
   big_set_bytes (fst (hex_decode s)) = int (hexnum s) \<and> length (fst (hex_decode s)) = length s div 2"
proof -
  assume "even (length s)" "list_all is_hex s"
  then have ok: "snd (hex_decode s) = None" by (simp add: hex_decode_ok_iff list_all_iff)
  have "hexnum (hex_encode (fst (hex_decode s))) = hexnum s"
    by (simp add: hex_encode_decode [OF ok])
  with ok show ?thesis by (metis hexnum_hex_encode length_hex_decode)
qed

lemma big_set_bytes_append:
  "big_set_bytes (xs @ ys) = big_set_bytes xs * 256 ^ length ys + big_set_bytes ys"
  by (simp add: big_set_bytes_def be_value_append)

lemma big_set_bytes_drop:
  "n \<le> length xs \<Longrightarrow> big_set_bytes (drop n xs) = big_set_bytes xs mod 256 ^ (length xs - n)"
  using big_set_bytes_append [of "take n xs" "drop n xs"] big_set_bytes_less [of "drop n xs"]
  by (simp add: mod_mult_self3)

lemma big_set_bytes_trim [simp]: "big_set_bytes (dropWhile (\<lambda>b. b = 0) s) = big_set_bytes s"
  using big_set_bytes_zeros length_dropWhile_replicate by metis

section \<open>Properties\<close>

text \<open>
  \<open>FromHex\<close> of hexadecimal digits, with or without a prefix and of odd or even length, has half
  as many bytes rounded up, and they are the big-endian form of the number the digits write.
\<close>

theorem FromHex_value:
  assumes "list_all is_hex (if has0xPrefix s then drop 2 s else s)"
  shows "big_set_bytes (FromHex s) = int (hexnum (if has0xPrefix s then drop 2 s else s)) \<and>
         length (FromHex s) = (length (if has0xPrefix s then drop 2 s else s) + 1) div 2"
proof -
  define t where "t = (if has0xPrefix s then drop 2 s else s)"
  define u where "u = (if length t mod 2 = 1 then CHR ''0'' # t else t)"
  have "even (length u)" "list_all is_hex u" "hexnum u = hexnum t" "length u div 2 = (length t + 1) div 2"
    using assms by (auto simp: u_def t_def elim: oddE)
  moreover have "FromHex s = fst (hex_decode u)"
    by (simp add: FromHex_def Hex2Bytes_def u_def t_def Let_def)
  ultimately show ?thesis using hex_decode_value [of u] by (simp add: t_def)
qed

theorem FromHex_value_witness: "big_set_bytes (FromHex ''0xABC'') = 2748"
proof -
  have p: "(if has0xPrefix ''0xABC'' then drop 2 ''0xABC'' else ''0xABC'') = ''ABC''" by code_simp
  have "list_all is_hex ''ABC''" "hexnum ''ABC'' = 2748" by code_simp+
  with FromHex_value [of "''0xABC''"] show ?thesis unfolding p by simp
qed

text \<open>
  Padding and trimming only add and remove zero bytes: padding reaches the length asked for, both
  keep the number a slice denotes in big-endian form, trimming undoes padding, and padding a trimmed
  slice to its old length restores it.
\<close>

theorem pad_trim_value:
  "length (LeftPadBytes s l) = max (length s) (nat l) \<and>
   length (RightPadBytes s l) = max (length s) (nat l) \<and>
   big_set_bytes (LeftPadBytes s l) = big_set_bytes s \<and>
   big_set_bytes (RightPadBytes s l) = big_set_bytes s * 256 ^ (nat l - length s) \<and>
   big_set_bytes (TrimLeftZeroes s) = big_set_bytes s \<and>
   TrimLeftZeroes (LeftPadBytes s l) = TrimLeftZeroes s \<and>
   TrimRightZeroes (RightPadBytes s l) = TrimRightZeroes s \<and>
   LeftPadBytes (TrimLeftZeroes s) (int (length s)) = s \<and>
   RightPadBytes (TrimRightZeroes s) (int (length s)) = s"
proof -
  have "big_set_bytes (replicate n 0) = 0" for n
    using big_set_bytes_zeros [of n "[]"] by (simp add: big_set_bytes_def)
  then have v: "big_set_bytes (RightPadBytes s l) = big_set_bytes s * 256 ^ (nat l - length s)"
    by (simp add: RightPadBytes_eq big_set_bytes_append)
  have r: "rev s = replicate (length s - length (dropWhile (\<lambda>b. b = 0) (rev s))) 0 @
      dropWhile (\<lambda>b. b = 0) (rev s)"
    using length_dropWhile_replicate [of "rev s" 0] by simp
  have "RightPadBytes (TrimRightZeroes s) (int (length s)) = s"
    using arg_cong [OF r, of rev] by (simp add: RightPadBytes_eq TrimRightZeroes_eq)
  with v show ?thesis
    by (simp add: LeftPadBytes_eq RightPadBytes_eq TrimLeftZeroes_eq TrimRightZeroes_eq
        dropWhile_zeros length_dropWhile_replicate max_def)
qed

text \<open>
  \<open>Hex2BytesFixed\<close> of an even number of hexadecimal digits gives exactly \<open>flen\<close> bytes, the
  number written modulo \<open>256^flen\<close>: longer input is cropped from the left, shorter input is padded
  with zero bytes on the left.
\<close>

theorem Hex2BytesFixed_value:
  assumes "isHex s" "0 \<le> flen"
  shows "\<exists>h. Hex2BytesFixed s flen = Some h \<and> int (length h) = flen \<and>
             big_set_bytes h = int (hexnum s) mod 256 ^ nat flen"
proof -
  define h where "h = fst (hex_decode s)"
  have h: "big_set_bytes h = int (hexnum s)"
    using assms hex_decode_value [of s] by (simp add: isHex_eq h_def)
  show ?thesis
  proof (cases "flen < int (length h)")
    case True
    then have "nat (int (length h) - flen) \<le> length h" "length h - nat (int (length h) - flen) = nat flen"
      using assms by auto
    then show ?thesis
      using True assms h big_set_bytes_drop [of "nat (int (length h) - flen)" h]
      by (auto simp: Hex2BytesFixed_def h_def [symmetric] Let_def go_slice_def)
  next
    case False
    have "big_set_bytes h < 256 ^ length h" by (rule big_set_bytes_less)
    also have "(256::int) ^ length h \<le> 256 ^ nat flen"
      using False by (intro power_increasing) auto
    finally have m: "int (hexnum s) mod 256 ^ nat flen = int (hexnum s)" using h by simp
    show ?thesis
    proof (cases "int (length h) = flen")
      case True
      with False assms h m show ?thesis
        by (auto simp: Hex2BytesFixed_def h_def [symmetric] Let_def)
    next
      case neq: False
      have "go_copy_at (replicate (nat flen) 0) (nat flen - length h) h =
          replicate (nat flen - length h) 0 @ h"
        using False by (subst go_copy_at_suffix) auto
      with False neq assms h m show ?thesis
        by (auto simp: Hex2BytesFixed_def h_def [symmetric] Let_def)
    qed
  qed
qed

theorem Hex2BytesFixed_value_witness:
  "\<exists>h. Hex2BytesFixed ''0203'' 1 = Some h \<and> int (length h) = 1 \<and> big_set_bytes h = 3"
proof -
  have "isHex ''0203''" by code_simp
  moreover have "hexnum ''0203'' = 515" by code_simp
  then have "int (hexnum ''0203'') mod 256 ^ nat 1 = 3" by simp
  ultimately have h: "isHex ''0203''" "int (hexnum ''0203'') mod 256 ^ nat 1 = 3" by safe
  show ?thesis using Hex2BytesFixed_value [OF h(1), of 1] unfolding h(2) by simp
qed

end
