(* ===== verification/Common_Types.thy ===== *)
theory Common_Types
  imports Common_Bytes Hexutil_JSON
begin

text \<open>
  \<open>src/common/types.go\<close>: the 32-byte \<open>Hash\<close>, the 20-byte \<open>Address\<close>, their unprefixed variants and
  \<open>MixedcaseAddress\<close>. A Go array \<open>[n]byte\<close> is a list whose length is the invariant \<open>length h = n\<close>.
  The digest of \<open>golang.org/x/crypto/sha3\<close> is a parameter \<open>keccak\<close>: \<open>keccak m k\<close> is byte \<open>k\<close> of the
  32-byte digest of \<open>m\<close>. The locale \<open>fixed_array\<close> states what \<open>SetBytes\<close> promises.
\<close>

section \<open>Shared helpers\<close>

type_synonym digest = "string \<Rightarrow> nat \<Rightarrow> byte"

text \<open>A value scanned from a database: bytes, or another type by its \<open>%T\<close> name.\<close>

datatype sql_src = SqlBytes "byte list" | SqlOther string

text \<open>What a \<open>Format\<close> method writes for \<open>fmt.Fprint\<close> of a byte array and for an unknown verb.\<close>

fun sprint_bytes :: "byte list \<Rightarrow> string" where
  "sprint_bytes [] = []"
| "sprint_bytes [b] = dec_digits (unat b)"
| "sprint_bytes (b # bs) = dec_digits (unat b) @ '' '' @ sprint_bytes bs"

definition sprint_array :: "byte list \<Rightarrow> string" where
  "sprint_array bs = ''['' @ sprint_bytes bs @ '']''"

definition bad_verb :: "char \<Rightarrow> string \<Rightarrow> byte list \<Rightarrow> string" where
  "bad_verb c name bs = ''%!'' @ [c] @ ''('' @ name @ ''='' @ hex_encode bs @ '')''"

definition scan_type_error :: "string \<Rightarrow> string \<Rightarrow> hex_error" where
  "scan_type_error t name = Errorf (''can't scan '' @ t @ '' into '' @ name)"

definition scan_len_error :: "nat \<Rightarrow> string \<Rightarrow> nat \<Rightarrow> hex_error" where
  "scan_len_error n name want =
     Errorf (''can't scan []byte of len '' @ dec_digits n @ '' into '' @ name @ '', want '' @ dec_digits want)"

section \<open>Hash\<close>

type_synonym hash = "byte list"

definition HashLength :: nat where
  "HashLength = 32"

definition AddressLength :: nat where
  "AddressLength = 20"

definition hashT :: string where
  "hashT = ''common.Hash''"

definition addressT :: string where
  "addressT = ''common.Address''"

definition Hash_SetBytes :: "hash \<Rightarrow> byte list \<Rightarrow> hash" where
  "Hash_SetBytes h b =
     (let b = (if length h < length b then drop (length b - HashLength) b else b)
      in go_copy_at h (HashLength - length b) b)"

definition BytesToHash :: "byte list \<Rightarrow> hash" where
  "BytesToHash b = Hash_SetBytes (replicate HashLength 0) b"

definition BigToHash :: "int \<Rightarrow> hash" where
  "BigToHash b = BytesToHash (big_bytes b)"

definition HexToHash :: "string \<Rightarrow> hash" where
  "HexToHash s = BytesToHash (FromHex s)"

definition Hash_Bytes :: "hash \<Rightarrow> byte list" where
  "Hash_Bytes h = h"

definition Hash_Big :: "hash \<Rightarrow> int" where
  "Hash_Big h = big_set_bytes h"

definition Hash_Hex :: "hash \<Rightarrow> string" where
  "Hash_Hex h = Encode h"

definition Hash_TerminalString :: "hash \<Rightarrow> string" where
  "Hash_TerminalString h = hex_encode (take 3 h) @ ''..'' @ hex_encode (drop 29 h)"

definition Hash_String :: "hash \<Rightarrow> string" where
  "Hash_String h = Hash_Hex h"

text \<open>\<open>sharp\<close> is the \<open>#\<close> flag of the state; the result is what is written to it.\<close>

definition Hash_Format :: "hash \<Rightarrow> bool \<Rightarrow> char \<Rightarrow> string" where
  "Hash_Format h sharp c =
     (let hexb = replicate (2 + length h * 2) (char_of (0 :: nat));
          hexb = go_copy hexb ''0x'';
          hexb = go_copy_at hexb 2 (hex_encode h)
      in if c = CHR ''x'' \<or> c = CHR ''X'' then
           (let hexb = (if \<not> sharp then drop 2 hexb else hexb)
            in if c = CHR ''X'' then map to_upper hexb else hexb)
         else if c = CHR ''v'' \<or> c = CHR ''s'' then hexb
         else if c = CHR ''q'' then [quote_char] @ hexb @ [quote_char]
         else if c = CHR ''d'' then sprint_array h
         else bad_verb c ''hash'' h)"

definition Hash_UnmarshalText :: "hash \<Rightarrow> string \<Rightarrow> (hash, hex_error) ret" where
  "Hash_UnmarshalText h input = UnmarshalFixedText ''Hash'' input h"

definition Hash_UnmarshalJSON :: "hash \<Rightarrow> string \<Rightarrow> (hash, hex_error) ret" where
  "Hash_UnmarshalJSON h input = UnmarshalFixedJSON hashT input h"

definition Hash_MarshalText :: "hash \<Rightarrow> string" where
  "Hash_MarshalText h = Bytes_MarshalText h"

text \<open>\<open>m\<close> is what \<open>rand.Intn\<close> gives and \<open>bs\<close> the bytes drawn, one per round of the loop.\<close>

fun Hash_Generate_loop :: "hash \<Rightarrow> nat \<Rightarrow> nat \<Rightarrow> byte list \<Rightarrow> hash" where
  "Hash_Generate_loop h i m (b # bs) =
     (if m < i then Hash_Generate_loop (h[i := b]) (i - 1) m bs else h)"
| "Hash_Generate_loop h i m [] = h"

definition Hash_Generate :: "hash \<Rightarrow> nat \<Rightarrow> byte list \<Rightarrow> hash" where
  "Hash_Generate h m bs = Hash_Generate_loop h (length h - 1) m bs"

definition Hash_Scan :: "hash \<Rightarrow> sql_src \<Rightarrow> (hash, hex_error) ret" where
  "Hash_Scan h src =
     (case src of
        SqlOther t \<Rightarrow> (h, Some (scan_type_error t ''Hash''))
      | SqlBytes srcB \<Rightarrow>
          if length srcB \<noteq> HashLength then (h, Some (scan_len_error (length srcB) ''Hash'' HashLength))
          else (go_copy h srcB, None))"

definition Hash_Value :: "hash \<Rightarrow> sql_src" where
  "Hash_Value h = SqlBytes h"

definition Hash_ImplementsGraphQLType :: "string \<Rightarrow> bool" where
  "Hash_ImplementsGraphQLType name \<longleftrightarrow> name = ''Bytes32''"

definition Hash_UnmarshalGraphQL :: "hash \<Rightarrow> gql_input \<Rightarrow> (hash, hex_error) ret" where
  "Hash_UnmarshalGraphQL h input =
     (case input of
        GqlString s \<Rightarrow> Hash_UnmarshalText h s
      | _ \<Rightarrow> (h, Some (unexpectedType input ''Hash'')))"

definition UnprefixedHash_UnmarshalText :: "hash \<Rightarrow> string \<Rightarrow> (hash, hex_error) ret" where
  "UnprefixedHash_UnmarshalText h input = UnmarshalFixedUnprefixedText ''UnprefixedHash'' input h"

definition UnprefixedHash_MarshalText :: "hash \<Rightarrow> string" where
  "UnprefixedHash_MarshalText h = hex_encode h"

section \<open>Address\<close>

type_synonym address = "byte list"

definition Address_SetBytes :: "address \<Rightarrow> byte list \<Rightarrow> address" where
  "Address_SetBytes a b =
     (let b = (if length a < length b then drop (length b - AddressLength) b else b)
      in go_copy_at a (AddressLength - length b) b)"

definition BytesToAddress :: "byte list \<Rightarrow> address" where
  "BytesToAddress b = Address_SetBytes (replicate AddressLength 0) b"

definition BigToAddress :: "int \<Rightarrow> address" where
  "BigToAddress b = BytesToAddress (big_bytes b)"

definition HexToAddress :: "string \<Rightarrow> address" where
  "HexToAddress s = BytesToAddress (FromHex s)"

definition IsHexAddress :: "string \<Rightarrow> bool" where
  "IsHexAddress s =
     (let s = (if common_has0xPrefix s then drop 2 s else s)
      in length s = 2 * AddressLength \<and> isHex s)"

definition Address_Bytes :: "address \<Rightarrow> byte list" where
  "Address_Bytes a = a"

definition Address_Hash :: "address \<Rightarrow> hash" where
  "Address_Hash a = BytesToHash a"

definition Address_Big :: "address \<Rightarrow> int" where
  "Address_Big a = big_set_bytes a"

definition Address_hex :: "address \<Rightarrow> string" where
  "Address_hex a =
     (let buf = replicate (length a * 2 + 2) (char_of (0 :: nat));
          buf = go_copy buf ''0x''
      in go_copy_at buf 2 (hex_encode a))"

text \<open>One round of the loop of \<open>checksumHex\<close> at position \<open>i\<close>.\<close>

definition checksum_step :: "(nat \<Rightarrow> byte) \<Rightarrow> nat \<Rightarrow> string \<Rightarrow> string" where
  "checksum_step hash i buf =
     (let hashByte = hash ((i - 2) div 2);
          hashByte = (if i mod 2 = 0 then drop_bit 4 hashByte else hashByte AND 0xf)
      in if ord CHR ''9'' < ord (buf ! i) \<and> 7 < hashByte
         then buf[i := char_of (ord (buf ! i) - 32)] else buf)"

definition checksumHex :: "digest \<Rightarrow> address \<Rightarrow> string" where
  "checksumHex keccak a =
     (let buf = Address_hex a;
          hash = keccak (drop 2 buf)
      in fold (checksum_step hash) [2..<length buf] buf)"

definition Address_Hex :: "digest \<Rightarrow> address \<Rightarrow> string" where
  "Address_Hex keccak a = checksumHex keccak a"

definition Address_String :: "digest \<Rightarrow> address \<Rightarrow> string" where
  "Address_String keccak a = Address_Hex keccak a"

definition Address_Format :: "digest \<Rightarrow> address \<Rightarrow> bool \<Rightarrow> char \<Rightarrow> string" where
  "Address_Format keccak a sharp c =
     (if c = CHR ''v'' \<or> c = CHR ''s'' then checksumHex keccak a
      else if c = CHR ''q'' then [quote_char] @ checksumHex keccak a @ [quote_char]
      else if c = CHR ''x'' \<or> c = CHR ''X'' then
        (let hex = Address_hex a;
             hex = (if \<not> sharp then drop 2 hex else hex)
         in if c = CHR ''X'' then map to_upper hex else hex)
      else if c = CHR ''d'' then sprint_array a
      else bad_verb c ''address'' a)"

definition Address_MarshalText :: "address \<Rightarrow> string" where
  "Address_MarshalText a = Bytes_MarshalText a"

definition Address_UnmarshalText :: "address \<Rightarrow> string \<Rightarrow> (address, hex_error) ret" where
  "Address_UnmarshalText a input = UnmarshalFixedText ''Address'' input a"

definition Address_UnmarshalJSON :: "address \<Rightarrow> string \<Rightarrow> (address, hex_error) ret" where
  "Address_UnmarshalJSON a input = UnmarshalFixedJSON addressT input a"

definition Address_Scan :: "address \<Rightarrow> sql_src \<Rightarrow> (address, hex_error) ret" where
  "Address_Scan a src =
     (case src of
        SqlOther t \<Rightarrow> (a, Some (scan_type_error t ''Address''))
      | SqlBytes srcB \<Rightarrow>
          if length srcB \<noteq> AddressLength
          then (a, Some (scan_len_error (length srcB) ''Address'' AddressLength))
          else (go_copy a srcB, None))"

definition Address_Value :: "address \<Rightarrow> sql_src" where
  "Address_Value a = SqlBytes a"

definition Address_ImplementsGraphQLType :: "string \<Rightarrow> bool" where
  "Address_ImplementsGraphQLType name \<longleftrightarrow> name = ''Address''"

definition Address_UnmarshalGraphQL :: "address \<Rightarrow> gql_input \<Rightarrow> (address, hex_error) ret" where
  "Address_UnmarshalGraphQL a input =
     (case input of
        GqlString s \<Rightarrow> Address_UnmarshalText a s
      | _ \<Rightarrow> (a, Some (unexpectedType input ''Address'')))"

definition UnprefixedAddress_UnmarshalText :: "address \<Rightarrow> string \<Rightarrow> (address, hex_error) ret" where
  "UnprefixedAddress_UnmarshalText a input =
     UnmarshalFixedUnprefixedText ''UnprefixedAddress'' input a"

definition UnprefixedAddress_MarshalText :: "address \<Rightarrow> string" where
  "UnprefixedAddress_MarshalText a = hex_encode a"

section \<open>MixedcaseAddress\<close>

record MixedcaseAddress =
  addr :: address
  original :: string

definition NewMixedcaseAddress :: "digest \<Rightarrow> address \<Rightarrow> MixedcaseAddress" where
  "NewMixedcaseAddress keccak a = \<lparr>addr = a, original = Address_Hex keccak a\<rparr>"

definition NewMixedcaseAddressFromString :: "string \<Rightarrow> hex_error + MixedcaseAddress" where
  "NewMixedcaseAddressFromString hexaddr =
     (if \<not> IsHexAddress hexaddr then Inl (Errorf ''invalid address'')
      else Inr \<lparr>addr = BytesToAddress (FromHex hexaddr), original = hexaddr\<rparr>)"

text \<open>
  \<open>json.Unmarshal\<close> into a string and \<open>json.Marshal\<close> of one, on strings that need no escapes; the
  methods below meet no others, because the text is a prefix and hexadecimal digits.
\<close>

definition MixedcaseAddress_UnmarshalJSON ::
  "MixedcaseAddress \<Rightarrow> string \<Rightarrow> (MixedcaseAddress, hex_error) ret" where
  "MixedcaseAddress_UnmarshalJSON ma input =
     (let (a, err) = UnmarshalFixedJSON addressT input (addr ma); ma = ma\<lparr>addr := a\<rparr>
      in if err \<noteq> None then (ma, err) else (ma\<lparr>original := unquote input\<rparr>, None))"

definition MixedcaseAddress_MarshalJSON :: "MixedcaseAddress \<Rightarrow> string" where
  "MixedcaseAddress_MarshalJSON ma =
     (if has_prefix (original ma) ''0x'' \<or> has_prefix (original ma) ''0x''
      then quote (''0x'' @ drop 2 (original ma))
      else quote (''0x'' @ original ma))"

definition MixedcaseAddress_Address :: "MixedcaseAddress \<Rightarrow> address" where
  "MixedcaseAddress_Address ma = addr ma"

definition MixedcaseAddress_ValidChecksum :: "digest \<Rightarrow> MixedcaseAddress \<Rightarrow> bool" where
  "MixedcaseAddress_ValidChecksum keccak ma \<longleftrightarrow> original ma = Address_Hex keccak (addr ma)"

definition MixedcaseAddress_String :: "digest \<Rightarrow> MixedcaseAddress \<Rightarrow> string" where
  "MixedcaseAddress_String keccak ma =
     (if MixedcaseAddress_ValidChecksum keccak ma then original ma @ '' [chksum ok]''
      else original ma @ '' [chksum INVALID'')"

definition MixedcaseAddress_Original :: "MixedcaseAddress \<Rightarrow> string" where
  "MixedcaseAddress_Original ma = original ma"

section \<open>The contract of a fixed-size array\<close>

locale fixed_array =
  fixes n :: nat
    and set_bytes :: "byte list \<Rightarrow> byte list \<Rightarrow> byte list"
    and of_bytes :: "byte list \<Rightarrow> byte list"
  assumes set_bytes_eq:
    "length old = n \<Longrightarrow> set_bytes old b = take (n - length b) old @ drop (length b - n) b"
    and of_bytes_eq: "of_bytes b = set_bytes (replicate n 0) b"
begin

lemma length_set_bytes: "length old = n \<Longrightarrow> length (set_bytes old b) = n"
  by (simp add: set_bytes_eq)

lemma length_of_bytes: "length (of_bytes b) = n"
  by (simp add: of_bytes_eq length_set_bytes)

lemma of_bytes_full: "length b = n \<Longrightarrow> of_bytes b = b"
  by (simp add: of_bytes_eq set_bytes_eq)

lemma of_bytes_value: "big_set_bytes (of_bytes b) = big_set_bytes b mod 256 ^ n"
proof (cases "length b \<le> n")
  case True
  then have "of_bytes b = replicate (n - length b) 0 @ b"
    by (simp add: of_bytes_eq set_bytes_eq)
  moreover have "big_set_bytes b < 256 ^ n"
    using big_set_bytes_less [of b] power_increasing [of "length b" n "256 :: int"] True by linarith
  ultimately show ?thesis by simp
next
  case False
  then have "of_bytes b = drop (length b - n) b"
    by (simp add: of_bytes_eq set_bytes_eq)
  with False show ?thesis using big_set_bytes_drop [of "length b - n" b] by simp
qed

lemma of_big_value: "big_set_bytes (of_bytes (big_bytes x)) = \<bar>x\<bar> mod 256 ^ n"
  by (simp add: of_bytes_value)

end

interpretation hash_array: fixed_array 32 Hash_SetBytes BytesToHash
  by unfold_locales
     (auto simp: Hash_SetBytes_def BytesToHash_def HashLength_def Let_def go_copy_at_suffix)

interpretation address_array: fixed_array 20 Address_SetBytes BytesToAddress
  by unfold_locales
     (auto simp: Address_SetBytes_def BytesToAddress_def AddressLength_def Let_def go_copy_at_suffix)

section \<open>Text and JSON of hashes and addresses\<close>

lemma UnmarshalFixedText_Bytes:
  "length out = length b \<Longrightarrow> UnmarshalFixedText t (Bytes_MarshalText b) out = (b, None)"
  unfolding UnmarshalFixedText_aux
  by (simp add: bytes_codec.unmarshal_marshal)

interpretation hash_text: text_codec Hash_MarshalText Hash_UnmarshalText
  "\<lambda>h. length h = 32" "\<lambda>h. length h = 32"
proof unfold_locales
  show "Hash_UnmarshalText old (Hash_MarshalText x) = (x, None)"
    if "length old = 32" "length x = 32" for old x
    using that by (simp add: Hash_UnmarshalText_def Hash_MarshalText_def UnmarshalFixedText_Bytes)
  show "new = old" if "Hash_UnmarshalText old s = (new, Some e)" for old s new e
    using that by (auto simp: Hash_UnmarshalText_def dest: UnmarshalFixedText_keeps)
qed

text \<open>The JSON method reports the reflect type, the text method the bare name.\<close>

interpretation hash_codec: json_codec Hash_MarshalText "\<lambda>h s. UnmarshalFixedText hashT s h"
  "\<lambda>h. length h = 32" "\<lambda>h. length h = 32" hashT Hash_UnmarshalJSON
proof unfold_locales
  show "UnmarshalFixedText hashT (Hash_MarshalText x) old = (x, None)"
    if "length old = 32" "length x = 32" for old x
    using that by (simp add: Hash_MarshalText_def UnmarshalFixedText_Bytes)
  show "new = old" if "UnmarshalFixedText hashT s old = (new, Some e)" for old s new e
    using that by (rule UnmarshalFixedText_keeps)
qed (simp add: Hash_UnmarshalJSON_def UnmarshalFixedJSON_def)

interpretation address_text: text_codec Address_MarshalText Address_UnmarshalText
  "\<lambda>h. length h = 20" "\<lambda>h. length h = 20"
proof unfold_locales
  show "Address_UnmarshalText old (Address_MarshalText x) = (x, None)"
    if "length old = 20" "length x = 20" for old x
    using that by (simp add: Address_UnmarshalText_def Address_MarshalText_def UnmarshalFixedText_Bytes)
  show "new = old" if "Address_UnmarshalText old s = (new, Some e)" for old s new e
    using that by (auto simp: Address_UnmarshalText_def dest: UnmarshalFixedText_keeps)
qed

text \<open>The JSON method reports the reflect type, the text method the bare name.\<close>

interpretation address_codec: json_codec Address_MarshalText "\<lambda>h s. UnmarshalFixedText addressT s h"
  "\<lambda>h. length h = 20" "\<lambda>h. length h = 20" addressT Address_UnmarshalJSON
proof unfold_locales
  show "UnmarshalFixedText addressT (Address_MarshalText x) old = (x, None)"
    if "length old = 20" "length x = 20" for old x
    using that by (simp add: Address_MarshalText_def UnmarshalFixedText_Bytes)
  show "new = old" if "UnmarshalFixedText addressT s old = (new, Some e)" for old s new e
    using that by (rule UnmarshalFixedText_keeps)
qed (simp add: Address_UnmarshalJSON_def UnmarshalFixedJSON_def)

section \<open>Checksums\<close>

definition checksum_char :: "(nat \<Rightarrow> byte) \<Rightarrow> nat \<Rightarrow> char \<Rightarrow> char" where
  "checksum_char hash i c =
     (if ord CHR ''9'' < ord c \<and>
         7 < (if i mod 2 = 0 then drop_bit 4 (hash ((i - 2) div 2)) else hash ((i - 2) div 2) AND 0xf)
      then char_of (ord c - 32) else c)"

lemma checksum_step_eq: "checksum_step hash i buf = buf[i := checksum_char hash i (buf ! i)]"
  by (simp add: checksum_step_def checksum_char_def Let_def)

lemma Address_hex_eq: "Address_hex a = ''0x'' @ hex_encode a"
  using Encode_eq [of a] by (simp add: Address_hex_def Encode_def)

lemma length_checksumHex [simp, len_simps]: "length (checksumHex keccak a) = 2 * length a + 2"
  by (simp add: checksumHex_def Let_def checksum_step_eq [abs_def] Address_hex_eq)

lemma checksumHex_nth:
  "k < length (Address_hex a) \<Longrightarrow>
   checksumHex keccak a ! k =
     (if 2 \<le> k then checksum_char (keccak (hex_encode a)) k (Address_hex a ! k) else Address_hex a ! k)"
  using fold_update_nth [of k "Address_hex a" "checksum_char (keccak (hex_encode a))" 2 "length (Address_hex a)"]
  by (simp add: checksumHex_def Let_def checksum_step_eq [abs_def] Address_hex_eq)

lemma lower_hex_range: "is_hex c \<Longrightarrow> to_lower c = c \<Longrightarrow> ord c \<le> 57 \<or> 97 \<le> ord c \<and> ord c \<le> 102"
proof -
  assume h: "is_hex c" "to_lower c = c"
  have "ord (to_lower c) = ord c + 32" if "65 \<le> ord c" "ord c \<le> 90"
    using that by (simp add: to_lower_def ord_char_of)
  with h show ?thesis by (auto simp: is_hex_def hexval_def Let_def split: if_splits)
qed

lemma checksum_char_lower:
  assumes "is_hex c" "to_lower c = c"
  shows "to_lower (checksum_char hash i c) = c"
proof (cases "ord CHR ''9'' < ord c")
  case True
  then have r: "97 \<le> ord c" "ord c \<le> 102" using lower_hex_range [OF assms] by auto
  define d where "d = ord c - 32"
  with r have d: "ord c = d + 32" "65 \<le> d" "d \<le> 70" by linarith+
  have "ord (to_lower (char_of d)) = ord c" using d by (simp add: to_lower_def ord_char_of)
  then have "to_lower (char_of (ord c - 32)) = c" 
    by (metis ord_inject d(1) diff_add_inverse2)
  with assms show ?thesis by (simp add: checksum_char_def)
next
  case False
  with assms show ?thesis by (simp add: checksum_char_def)
qed

lemma checksumHex_lower [simp]: "map to_lower (checksumHex keccak a) = ''0x'' @ hex_encode a"
proof (rule nth_equalityI)
  fix k assume "k < length (map to_lower (checksumHex keccak a))"
  then have k: "k < 2 * length a + 2" by simp
  show "map to_lower (checksumHex keccak a) ! k = (''0x'' @ hex_encode a) ! k"
  proof (cases "2 \<le> k")
    case True
    with k have "hex_encode a ! (k - 2) \<in> set (hex_encode a)" by (intro nth_mem) simp
    then have "is_hex (hex_encode a ! (k - 2))" "to_lower (hex_encode a ! (k - 2)) = hex_encode a ! (k - 2)"
      using hex_encode_is_hex hex_encode_lower by auto
    moreover have "(''0x'' @ hex_encode a) ! k = hex_encode a ! (k - 2)"
      using True by (simp add: nth_append numeral_2_eq_2)
    ultimately show ?thesis
      using True k
      by (simp add: checksumHex_nth Address_hex_eq checksum_char_lower del: append_Cons append_Nil)
  next
    case False
    then have "k = 0 \<or> k = 1" by auto
    with k show ?thesis by (auto simp: checksumHex_nth Address_hex_eq to_lower_def)
  qed
qed simp

lemma ord_to_lower: "ord (to_lower c) = (if 65 \<le> ord c \<and> ord c \<le> 90 then ord c + 32 else ord c)"
  by (simp add: to_lower_def ord_char_of)

lemma to_lower_eq_iff:
  "to_lower c = CHR ''0'' \<longleftrightarrow> c = CHR ''0''"
  "to_lower c = CHR ''x'' \<longleftrightarrow> c = CHR ''x'' \<or> c = CHR ''X''"
  "to_lower c \<noteq> CHR ''X''"
  unfolding ord_inject [symmetric] ord_to_lower by auto

lemma has0xPrefix_to_lower [simp]: "has0xPrefix (map to_lower s) = has0xPrefix s"
  by (cases s rule: hex_decode.cases) (auto simp: has0xPrefix_def to_lower_eq_iff)

lemma reverse_hex_to_lower [simp]: "reverse_hex (to_lower c) = reverse_hex c"
  by (simp add: reverse_hex_def)

lemma hex_decode_to_lower: "fst (hex_decode (map to_lower s)) = fst (hex_decode s)"
  by (induction s rule: hex_decode.induct)
     (simp_all add: case_prod_beta Let_def split: option.splits)

lemma FromHex_to_lower: "FromHex (map to_lower s) = FromHex s"
proof -
  have "to_lower CHR ''0'' = CHR ''0''" by (simp add: to_lower_def)
  then have "CHR ''0'' # map to_lower t = map to_lower (CHR ''0'' # t)" for t by simp
  then show ?thesis
    by (simp add: FromHex_def Hex2Bytes_def Let_def drop_map hex_decode_to_lower del: list.map)
qed

lemma isHex_to_lower: "isHex (map to_lower s) = isHex s"
  by (simp add: isHex_eq list_all_iff is_hex_def)

lemma IsHexAddress_to_lower: "IsHexAddress (map to_lower s) = IsHexAddress s"
  by (simp add: IsHexAddress_def Let_def drop_map isHex_to_lower)

lemma FromHex_prefixed: "FromHex (''0x'' @ hex_encode b) = b"
  by (simp add: FromHex_def Hex2Bytes_def has0xPrefix_def)

lemma IsHexAddress_checksum: "IsHexAddress (checksumHex keccak a) \<longleftrightarrow> length a = 20"
proof -
  have "IsHexAddress (checksumHex keccak a) = IsHexAddress (''0x'' @ hex_encode a)"
    using IsHexAddress_to_lower [of "checksumHex keccak a"] by simp
  also have "\<dots> \<longleftrightarrow> length a = 20"
    by (auto simp: IsHexAddress_def AddressLength_def has0xPrefix_def isHex_eq list_all_iff
        intro: hex_encode_is_hex)
  finally show ?thesis .
qed

lemma FromHex_checksum [simp]: "FromHex (checksumHex keccak a) = a"
  using FromHex_to_lower [of "checksumHex keccak a"] FromHex_prefixed [of a] by simp

lemma has_prefix_0x_cases:
  "has0xPrefix s \<longleftrightarrow> has_prefix s ''0x'' \<or> has_prefix s ''0X''"
  by (cases s rule: hex_decode.cases) (auto simp: has0xPrefix_def has_prefix_def)

lemma UnmarshalFixedJSON_hex:
  assumes "isHex u" "length u = 2 * length a"
  shows "UnmarshalFixedJSON t (quote (''0x'' @ u)) a = (fst (hex_decode u), None)"
proof -
  have ok: "snd (hex_decode u) = None" using assms by (simp add: isHex_decodes)
  have "length (fst (hex_decode u)) = length a" using length_hex_decode [OF ok] assms by simp
  moreover have "has0xPrefix (''0x'' @ u)" by (simp add: has0xPrefix_def)
  ultimately have "UnmarshalFixedText t (''0x'' @ u) a = (fst (hex_decode u), None)"
    unfolding UnmarshalFixedText_aux Bytes_UnmarshalText_ok
    by (simp add: Encode_eq hex_encode_decode [OF ok])
  then show ?thesis by (simp add: UnmarshalFixedJSON_def)
qed

lemma UnmarshalFixedJSON_double_prefix:
  assumes "has0xPrefix s"
  shows "snd (UnmarshalFixedJSON t (quote (''0x'' @ s)) a) \<noteq> None"
proof
  assume "snd (UnmarshalFixedJSON t (quote (''0x'' @ s)) a) = None"
  then obtain new where "UnmarshalFixedJSON t (quote (''0x'' @ s)) a = (new, None)"
    by (cases "UnmarshalFixedJSON t (quote (''0x'' @ s)) a") auto
  then have "UnmarshalFixedText t (''0x'' @ s) a = (new, None)"
    by (simp add: UnmarshalFixedJSON_def split: prod.splits)
  then have "hex_encode new = map to_lower s"
    unfolding UnmarshalFixedText_aux Bytes_UnmarshalText_ok by (simp add: Encode_eq)
  then have "has0xPrefix (hex_encode new)" using assms by simp
  then show False by simp
qed

lemma FromHex_even:
  "even (length (if has0xPrefix s then drop 2 s else s)) \<Longrightarrow>
   FromHex s = fst (hex_decode (if has0xPrefix s then drop 2 s else s))"
  by (auto simp: FromHex_def Hex2Bytes_def Let_def even_iff_mod_2_eq_zero)

section \<open>Properties\<close>

text \<open>
  The checksummed text of an address identifies it, whatever the digest function: the text is a
  valid address text, parsing it gives the address back, and the mixed-case address made from the
  text is the one made from the address and has a valid checksum.
\<close>

theorem Address_Hex_roundtrip:
  assumes "length a = 20"
  shows "IsHexAddress (Address_Hex keccak a) \<and>
         HexToAddress (Address_Hex keccak a) = a \<and>
         NewMixedcaseAddressFromString (Address_Hex keccak a) = Inr (NewMixedcaseAddress keccak a) \<and>
         MixedcaseAddress_ValidChecksum keccak (NewMixedcaseAddress keccak a)"
  using assms
  by (simp add: Address_Hex_def IsHexAddress_checksum HexToAddress_def address_array.of_bytes_full
      NewMixedcaseAddressFromString_def NewMixedcaseAddress_def MixedcaseAddress_ValidChecksum_def)

theorem Address_Hex_roundtrip_witness:
  "HexToAddress (Address_Hex (\<lambda>m k. 0xF0) (replicate 20 0xAB)) = replicate 20 0xAB"
  using Address_Hex_roundtrip [of "replicate 20 0xAB" "\<lambda>m k. 0xF0"] by simp

text \<open>
  C16. The in-place loop of \<open>checksumHex\<close> computes the EIP-55 form: digit \<open>k\<close> of the address is in
  upper case when nibble \<open>k\<close> of the digest of the lower-case digits is above 7, and is the plain
  lower-case digit otherwise; the prefix and the length are untouched.
\<close>

theorem checksumHex_spec:
  "length (checksumHex keccak a) = 2 + 2 * length a \<and>
   take 2 (checksumHex keccak a) = ''0x'' \<and>
   (\<forall>k < 2 * length a.
      checksumHex keccak a ! (2 + k) =
        (let b = keccak (hex_encode a) (k div 2);
             nibble = (if even k then unat b div 16 else unat b mod 16)
         in if 7 < nibble then to_upper (hex_encode a ! k) else hex_encode a ! k))"
proof (intro conjI allI impI)
  show "take 2 (checksumHex keccak a) = ''0x''"
  proof (rule nth_equalityI)
    fix i assume "i < length (take 2 (checksumHex keccak a))"
    then have "i = 0 \<or> i = 1" by auto
    then show "take 2 (checksumHex keccak a) ! i = ''0x'' ! i"
      by (auto simp: checksumHex_nth Address_hex_eq)
  qed simp
next
  fix k assume k: "k < 2 * length a"
  define b where "b = keccak (hex_encode a) (k div 2)"
  define c where "c = hex_encode a ! k"
  have mem: "c \<in> set (hex_encode a)" using k by (simp add: c_def)
  have r: "ord c \<le> 57 \<or> 97 \<le> ord c \<and> ord c \<le> 102"
    using lower_hex_range [of c] hex_encode_is_hex [OF mem] hex_encode_lower [OF mem] by blast
  have par: "(2 + k) mod 2 = 0 \<longleftrightarrow> even k" by presburger
  have hi: "7 < drop_bit 4 b \<longleftrightarrow> 7 < unat b div 16" and lo: "7 < b AND 0xf \<longleftrightarrow> 7 < unat b mod 16"
    using unat_hi_nibble [of b] unat_lo_nibble [of b] by (simp_all add: word_less_nat_alt)
  have "checksumHex keccak a ! (2 + k) = checksum_char (keccak (hex_encode a)) (2 + k) c"
    using k by (simp add: checksumHex_nth Address_hex_eq c_def)
  then show "checksumHex keccak a ! (2 + k) =
        (let b = keccak (hex_encode a) (k div 2);
             nibble = (if even k then unat b div 16 else unat b mod 16)
         in if 7 < nibble then to_upper (hex_encode a ! k) else hex_encode a ! k)"
    using r unfolding c_def [symmetric] b_def [symmetric]
    by (auto simp: checksum_char_def Let_def to_upper_def par b_def [symmetric] hi lo)
qed simp

theorem checksumHex_spec_witness: "checksumHex (\<lambda>m k. 0x80) [0xAB] ! (2 + 0) = CHR ''A''"
proof -
  have "to_upper (hex_encode [0xAB] ! 0) = CHR ''A''" by code_simp
  with checksumHex_spec [of "\<lambda>m k. 0x80" "[0xAB]", THEN conjunct2, THEN conjunct2, rule_format, of 0]
  show ?thesis by simp
qed

text \<open>
  \<open>BytesToHash\<close> and \<open>BytesToAddress\<close> keep the value of the bytes modulo \<open>256^32\<close> and \<open>256^20\<close>
  and give arrays of exactly 32 and 20 bytes, so a big integer in range survives the round trip
  through either type, and an address turned into a hash keeps its value.
\<close>

theorem fixed_array_values:
  "length (BytesToHash b) = 32 \<and> Hash_Big (BytesToHash b) = big_set_bytes b mod 256 ^ 32 \<and>
   length (BytesToAddress b) = 20 \<and> Address_Big (BytesToAddress b) = big_set_bytes b mod 256 ^ 20 \<and>
   Hash_Big (BigToHash x) = \<bar>x\<bar> mod 2 ^ 256 \<and> Address_Big (BigToAddress x) = \<bar>x\<bar> mod 2 ^ 160 \<and>
   Hash_Big (Address_Hash (BytesToAddress b)) = Address_Big (BytesToAddress b)"
proof -
  have p: "(256::int) ^ 32 = 2 ^ 256" "(256::int) ^ 20 = 2 ^ 160"
    using power_mult [of "2::int" 8 32] power_mult [of "2::int" 8 20] by simp_all
  have "big_set_bytes (BytesToAddress b) < 256 ^ 20"
    using big_set_bytes_less [of "BytesToAddress b"] by (simp only: address_array.length_of_bytes)
  also have "(256::int) ^ 20 \<le> 256 ^ 32" by simp
  finally have "big_set_bytes (BytesToAddress b) mod 256 ^ 32 = big_set_bytes (BytesToAddress b)"
    by (rule mod_pos_pos_trivial [OF big_set_bytes_nonneg])
  then show ?thesis
    unfolding address_array.of_bytes_value p
    by (simp only: Hash_Big_def Address_Big_def BigToHash_def BigToAddress_def Address_Hash_def
        hash_array.of_bytes_value address_array.of_bytes_value hash_array.of_big_value
        address_array.of_big_value hash_array.length_of_bytes address_array.length_of_bytes
        p simp_thms big_set_bytes_bytes)
qed

text \<open>
  The setters crop a long slice from the left, and of a short slice they overwrite only the last
  bytes: the leading bytes of a non-zero array stay as they were.
\<close>

theorem SetBytes_overwrites_suffix:
  assumes "length h = 32" "length a = 20"
  shows "Hash_SetBytes h b = take (32 - length b) h @ drop (length b - 32) b \<and>
         Address_SetBytes a b = take (20 - length b) a @ drop (length b - 20) b"
  using assms hash_array.set_bytes_eq address_array.set_bytes_eq by simp

theorem SetBytes_overwrites_suffix_witness:
  "Hash_SetBytes (replicate 32 7) [1, 2] = replicate 30 7 @ [1, 2]"
  using SetBytes_overwrites_suffix [of "replicate 32 7" "replicate 20 0" "[1, 2]"] by simp

text \<open>
  Hashes and addresses survive JSON, the unprefixed text form, and a database: unmarshalling into
  any hash or address what another one marshalled gives that one, and scanning the stored value does too.
\<close>

theorem hash_address_roundtrips:
  assumes "length h0 = 32" "length h = 32" "length a0 = 20" "length a = 20"
  shows "Hash_UnmarshalJSON h0 (quote (Hash_MarshalText h)) = (h, None) \<and>
         Address_UnmarshalJSON a0 (quote (Address_MarshalText a)) = (a, None) \<and>
         UnprefixedHash_UnmarshalText h0 (UnprefixedHash_MarshalText h) = (h, None) \<and>
         UnprefixedAddress_UnmarshalText a0 (UnprefixedAddress_MarshalText a) = (a, None) \<and>
         Hash_Scan h0 (Hash_Value h) = (h, None) \<and> Address_Scan a0 (Address_Value a) = (a, None)"
proof -
  have "UnmarshalFixedUnprefixedText t (hex_encode b) out = (b, None)"
    if "length out = length b" for t b out
  proof -
    have "\<not> has0xPrefix (hex_encode b)" by (rule hex_encode_unprefixed)
    then have "checkText (hex_encode b) False = Inr (hex_encode b)" by (auto simp: checkText_def)
    moreover have "list_all is_hex (hex_encode b)" by (auto simp: list_all_iff intro: hex_encode_is_hex)
    ultimately show ?thesis
      using that by (simp add: UnmarshalFixedUnprefixedText_def list_ex_bad hex_decode_into_def)
  qed
  with assms show ?thesis
    by (simp add: hash_codec.json_roundtrip address_codec.json_roundtrip UnprefixedHash_UnmarshalText_def
        UnprefixedHash_MarshalText_def UnprefixedAddress_UnmarshalText_def UnprefixedAddress_MarshalText_def
        Hash_Scan_def Hash_Value_def Address_Scan_def Address_Value_def HashLength_def AddressLength_def)
qed

theorem hash_address_roundtrips_witness:
  "Hash_UnmarshalJSON (replicate 32 0) (quote (Hash_MarshalText (replicate 32 9))) = (replicate 32 9, None)"
  using hash_address_roundtrips [of "replicate 32 0" "replicate 32 9" "replicate 20 0" "replicate 20 0"]
  by simp

text \<open>
  A mixed-case address made from a text survives JSON exactly when the text does not start with
  \<open>0X\<close>: then the address is the same and the original comes back with the prefix \<open>0x\<close>. For a text
  with the upper-case prefix, which the constructor accepts, \<open>MarshalJSON\<close> doubles the prefix and the
  result cannot be unmarshalled.
\<close>

theorem MixedcaseAddress_JSON:
  assumes "NewMixedcaseAddressFromString s = Inr ma" "length (addr ma0) = 20"
  shows "MixedcaseAddress_UnmarshalJSON ma0 (MixedcaseAddress_MarshalJSON ma) = (r, None) \<longleftrightarrow>
         \<not> has_prefix s ''0X'' \<and>
         addr r = addr ma \<and> original r = ''0x'' @ (if has_prefix s ''0x'' then drop 2 s else s)"
proof -
  define u where "u = (if has0xPrefix s then drop 2 s else s)"
  have s: "IsHexAddress s" "ma = \<lparr>addr = BytesToAddress (FromHex s), original = s\<rparr>"
    using assms(1) by (auto simp: NewMixedcaseAddressFromString_def split: if_splits)
  then have u: "isHex u" "length u = 40"
    by (auto simp: IsHexAddress_def AddressLength_def u_def Let_def split: if_splits)
  have ok: "snd (hex_decode u) = None" using u by (simp add: isHex_decodes)
  have "FromHex s = fst (hex_decode u)" using u FromHex_even [of s] by (simp add: u_def [symmetric])
  then have a: "addr ma = fst (hex_decode u)"
    using length_hex_decode [OF ok] u s by (simp add: address_array.of_bytes_full)
  have j: "UnmarshalFixedJSON addressT (quote (''0x'' @ u)) (addr ma0) = (addr ma, None)"
    using UnmarshalFixedJSON_hex [of u "addr ma0" addressT] u assms(2) a by simp
  show ?thesis
  proof (cases "has_prefix s ''0X''")
    case True
    then have "has0xPrefix s" "\<not> has_prefix s ''0x''" by (auto simp: has_prefix_0x_cases has_prefix_def)
    then show ?thesis
      using True UnmarshalFixedJSON_double_prefix [of s addressT "addr ma0"] s
      by (auto simp: MixedcaseAddress_UnmarshalJSON_def MixedcaseAddress_MarshalJSON_def split: prod.splits)
  next
    case False
    then have "u = (if has_prefix s ''0x'' then drop 2 s else s)"
      by (simp add: u_def has_prefix_0x_cases)
    with j s False show ?thesis
      by (auto simp: MixedcaseAddress_UnmarshalJSON_def MixedcaseAddress_MarshalJSON_def)
  qed
qed

theorem MixedcaseAddress_JSON_witness:
  "fst (MixedcaseAddress_UnmarshalJSON \<lparr>addr = replicate 20 0, original = []\<rparr>
     (MixedcaseAddress_MarshalJSON \<lparr>addr = BytesToAddress (FromHex (replicate 40 CHR ''A'')),
        original = replicate 40 CHR ''A''\<rparr>)) =
   \<lparr>addr = BytesToAddress (FromHex (replicate 40 CHR ''A'')), original = ''0x'' @ replicate 40 CHR ''A''\<rparr>"
proof -
  let ?s = "replicate 40 CHR ''A''"
  have p: "\<not> has_prefix ?s ''0X''" "\<not> has_prefix ?s ''0x''" by code_simp+
  have "IsHexAddress ?s" by code_simp
  then have n: "NewMixedcaseAddressFromString ?s = Inr \<lparr>addr = BytesToAddress (FromHex ?s), original = ?s\<rparr>"
    by (simp add: NewMixedcaseAddressFromString_def)
  show ?thesis
    using MixedcaseAddress_JSON [OF n, of "\<lparr>addr = replicate 20 0, original = []\<rparr>"
        "\<lparr>addr = BytesToAddress (FromHex ?s), original = ''0x'' @ ?s\<rparr>"] p
    by simp
qed

end
