(* ===== verification/Big_Math.thy ===== *)
theory Big_Math
  imports Go_Std
begin

text \<open>
  \<open>src/common/math/big.go\<close>: limits and helpers of 256-bit arithmetic on big integers. A \<open>big.Int\<close> is
  an \<open>int\<close>; the functions that write to their argument return its new value. The loops over
  \<open>Bits()\<close> run on the little-endian list of 64-bit words \<open>big_bits\<close>.
\<close>

section \<open>Limits\<close>

text \<open>\<open>r.Exp(r, b, nil)\<close> is one for a negative exponent.\<close>

definition BigPow :: "int \<Rightarrow> int \<Rightarrow> int" where
  "BigPow a b = (if b \<le> 0 then 1 else a ^ nat b)"

definition tt255 :: int where
  "tt255 = BigPow 2 255"

definition tt256 :: int where
  "tt256 = BigPow 2 256"

definition tt256m1 :: int where
  "tt256m1 = tt256 - 1"

definition tt63 :: int where
  "tt63 = BigPow 2 63"

definition MaxBig256 :: int where
  "MaxBig256 = tt256m1"

definition MaxBig63 :: int where
  "MaxBig63 = tt63 - 1"

definition wordBits :: nat where
  "wordBits = 64"

definition wordBytes :: nat where
  "wordBytes = wordBits div 8"

section \<open>Parsing and printing\<close>

text \<open>
  \<open>SetString(s, base)\<close> for the bases 10 and 16: an optional sign and at least one digit, all of the
  text; \<open>None\<close> is the failure.
\<close>

definition digit_val :: "nat \<Rightarrow> char \<Rightarrow> nat option" where
  "digit_val base c =
     (case hexval c of None \<Rightarrow> None | Some d \<Rightarrow> if d < base then Some d else None)"

fun digits_val :: "nat \<Rightarrow> nat \<Rightarrow> string \<Rightarrow> nat option" where
  "digits_val base acc [] = Some acc"
| "digits_val base acc (c # cs) =
     (case digit_val base c of None \<Rightarrow> None | Some d \<Rightarrow> digits_val base (acc * base + d) cs)"

definition big_set_string :: "string \<Rightarrow> nat \<Rightarrow> int option" where
  "big_set_string s base =
     (let (neg, ds) = (case s of
            c # cs \<Rightarrow> if c = CHR ''-'' then (True, cs) else if c = CHR ''+'' then (False, cs) else (False, s)
          | [] \<Rightarrow> (False, s))
      in if ds = [] then None
         else map_option (\<lambda>n. if neg then - int n else int n) (digits_val base 0 ds))"

definition ParseBig256 :: "string \<Rightarrow> int option" where
  "ParseBig256 s =
     (if s = '''' then Some 0
      else
        let bigint = (if 2 \<le> length s \<and> (take 2 s = ''0x'' \<or> take 2 s = ''0X'')
                      then big_set_string (drop 2 s) 16 else big_set_string s 10)
        in case bigint of None \<Rightarrow> None | Some b \<Rightarrow> if 256 < big_bit_len b then None else Some b)"

text \<open>The error names the input that was refused.\<close>

datatype math_error = InvalidInteger string

definition NewHexOrDecimal256 :: "64 word \<Rightarrow> int" where
  "NewHexOrDecimal256 x = sint x"

definition HexOrDecimal256_UnmarshalText :: "int \<Rightarrow> string \<Rightarrow> (int, math_error) ret" where
  "HexOrDecimal256_UnmarshalText i input =
     (case ParseBig256 input of None \<Rightarrow> (i, Some (InvalidInteger input)) | Some b \<Rightarrow> (b, None))"

text \<open>\<open>%#x\<close> and \<open>%#d\<close> of a \<open>big.Int\<close>; a nil receiver is \<open>None\<close>.\<close>

definition HexOrDecimal256_MarshalText :: "int option \<Rightarrow> string" where
  "HexOrDecimal256_MarshalText i =
     (case i of
        None \<Rightarrow> ''0x0''
      | Some x \<Rightarrow> if x < 0 then ''-0x'' @ hex_digits (nat (- x)) else ''0x'' @ hex_digits (nat x))"

definition NewDecimal256 :: "64 word \<Rightarrow> int" where
  "NewDecimal256 x = sint x"

definition Decimal256_UnmarshalText :: "int \<Rightarrow> string \<Rightarrow> (int, math_error) ret" where
  "Decimal256_UnmarshalText i input =
     (case ParseBig256 input of None \<Rightarrow> (i, Some (InvalidInteger input)) | Some b \<Rightarrow> (b, None))"

definition Decimal256_String :: "int option \<Rightarrow> string" where
  "Decimal256_String i =
     (case i of
        None \<Rightarrow> ''0''
      | Some x \<Rightarrow> if x < 0 then CHR ''-'' # dec_digits (nat (- x)) else dec_digits (nat x))"

definition Decimal256_MarshalText :: "int option \<Rightarrow> string" where
  "Decimal256_MarshalText i = Decimal256_String i"

section \<open>Comparison and bits\<close>

definition BigMax :: "int \<Rightarrow> int \<Rightarrow> int" where
  "BigMax x y = (if x < y then y else x)"

definition BigMin :: "int \<Rightarrow> int \<Rightarrow> int" where
  "BigMin x y = (if y < x then y else x)"

function FirstBitSet_loop :: "int \<Rightarrow> nat \<Rightarrow> nat" where
  "FirstBitSet_loop v i =
     (if i < big_bit_len v then if bit v i then i else FirstBitSet_loop v (i + 1) else big_bit_len v)"
  by auto

termination
  by (relation "measure (\<lambda>(v, i). big_bit_len v - i)") auto

definition FirstBitSet :: "int \<Rightarrow> nat" where
  "FirstBitSet v = FirstBitSet_loop v 0"

declare FirstBitSet_loop.simps [simp del]

section \<open>Bytes\<close>

text \<open>The inner loop: \<open>k\<close> rounds are left, \<open>i\<close> is the position written last.\<close>

fun readWord :: "nat \<Rightarrow> uint64 \<Rightarrow> nat \<times> byte list \<Rightarrow> nat \<times> byte list" where
  "readWord 0 d (i, buf) = (i, buf)"
| "readWord (Suc k) d (i, buf) =
     (if 0 < i then readWord k (drop_bit 8 d) (i - 1, buf[i - 1 := ucast d]) else (i, buf))"

definition ReadBits :: "int \<Rightarrow> byte list \<Rightarrow> byte list" where
  "ReadBits bigint buf = snd (fold (readWord wordBytes) (big_bits bigint) (length buf, buf))"

text \<open>The parameter \<open>n\<close> is not used by the code.\<close>

definition PaddedBigBytes :: "int \<Rightarrow> int \<Rightarrow> byte list" where
  "PaddedBigBytes bigint n =
     (if 8 \<le> big_bit_len bigint div 8 then big_bytes bigint else ReadBits bigint (replicate 8 0))"

definition bigEndianByteAt :: "int \<Rightarrow> nat \<Rightarrow> byte" where
  "bigEndianByteAt bigint n =
     (let words = big_bits bigint; i = n div wordBytes
      in if length words \<le> i then 0
         else (let word = words ! i; shift = 8 * (n mod wordBytes) in ucast (drop_bit shift word)))"

definition Byte :: "int \<Rightarrow> int \<Rightarrow> int \<Rightarrow> byte" where
  "Byte bigint padlength n =
     (if padlength \<le> n then 0 else bigEndianByteAt bigint (nat (padlength - 1 - n)))"

section \<open>256-bit arithmetic\<close>

definition U256 :: "int \<Rightarrow> int" where
  "U256 x = x AND tt256m1"

text \<open>The argument is overwritten by \<open>U256\<close>; the result is the bytes.\<close>

definition U256Bytes :: "int \<Rightarrow> byte list" where
  "U256Bytes n = PaddedBigBytes (U256 n) 32"

definition S256 :: "int \<Rightarrow> int" where
  "S256 x = (if x < tt255 then x else x - tt256)"

text \<open>The bits of one word of the exponent, \<open>k\<close> of them left: the result and the base are updated.\<close>

fun expBits :: "nat \<Rightarrow> uint64 \<Rightarrow> int \<times> int \<Rightarrow> int \<times> int" where
  "expBits 0 word (result, base) = (result, base)"
| "expBits (Suc k) word (result, base) =
     (let result = (if word AND 1 = 1 then U256 (result * base) else result);
          base = U256 (base * base)
      in expBits k (drop_bit 1 word) (result, base))"

text \<open>The result and what the call leaves in \<open>base\<close>.\<close>

definition Exp :: "int \<Rightarrow> int \<Rightarrow> int \<times> int" where
  "Exp base exponent = fold (expBits wordBits) (big_bits exponent) (1, base)"

section \<open>Words and bytes of a number\<close>

lemma words_value_less: "words_value ws < 2 ^ (64 * length ws)"
proof -
  have "be_value (2 ^ 64) (rev (map unat ws)) < (2 ^ 64) ^ length (rev (map unat ws))"
    by (rule be_value_less) (auto intro: order_less_le_trans [OF unsigned_less])
  then show ?thesis by (simp add: words_value_def power_mult)
qed

lemma words_value_nth:
  "i < length ws \<Longrightarrow> unat (ws ! i) = words_value ws div 2 ^ (64 * i) mod 2 ^ 64"
proof (induction ws arbitrary: i)
  case (Cons w ws)
  have w: "unat w < 2 ^ 64" using unsigned_less [of w] by simp
  show ?case
  proof (cases i)
    case 0
    with w show ?thesis by simp
  next
    case (Suc j)
    have "(unat w + 2 ^ 64 * words_value ws) div 2 ^ (64 * Suc j) =
        (unat w + 2 ^ 64 * words_value ws) div 2 ^ 64 div 2 ^ (64 * j)"
      unfolding mult_Suc_right power_add by (rule div_mult2_eq)
    also have "(unat w + 2 ^ 64 * words_value ws) div 2 ^ 64 = words_value ws" using w by simp
    finally show ?thesis using Suc Cons by simp
  qed
qed simp

definition byte_at :: "nat \<Rightarrow> nat \<Rightarrow> nat" where
  "byte_at v n = v div 256 ^ n mod 256"

lemma byte_of_word: "unat (ucast (drop_bit (8 * k) w) :: byte) = unat w div 256 ^ k mod 256"
  for w :: uint64
proof -
  have "unat (ucast (drop_bit (8 * k) w) :: byte) = take_bit 8 (unat (drop_bit (8 * k) w))"
    by (simp add: unsigned_ucast_eq)
  also have "\<dots> = take_bit 8 (drop_bit (8 * k) (unat w))" by (simp only: unat_drop_bit_eq)
  finally show ?thesis by (simp add: take_bit_eq_mod drop_bit_eq_div power_mult)
qed

lemma mod_div_mod: "a * b dvd m \<Longrightarrow> v mod m div a mod b = v div a mod b" for v :: nat
proof -
  assume "a * b dvd m"
  then obtain c where "m = a * (b * c)" by (metis dvdE mult.assoc)
  moreover have "(a * (v div a mod (b * c)) + v mod a) div a = v div a mod (b * c)" if "0 < a"
    using that by simp
  ultimately show ?thesis
    by (cases "a = 0") (simp_all only: mod_mult2_eq [of v a "b * c"] mod_mod_cancel dvd_triv_left
        neq0_conv simp_thms div_by_0 mult_zero_left mod_by_0)
qed

lemma byte_of_words:
  assumes "n div 8 < length ws"
  shows "unat (ucast (drop_bit (8 * (n mod 8)) (ws ! (n div 8))) :: byte) = byte_at (words_value ws) n"
proof -
  define i k where "i = n div 8" and "k = n mod 8"
  have n: "n = 8 * i + k" "k < 8" by (auto simp: i_def k_def)
  have d: "(256::nat) ^ k * 256 dvd 2 ^ 64"
    using n le_imp_power_dvd [of "8 * (k + 1)" 64 "2::nat"] by (simp add: power_mult power_add)
  have "unat (ws ! i) div 256 ^ k mod 256 = words_value ws div 2 ^ (64 * i) mod 2 ^ 64 div 256 ^ k mod 256"
    using assms by (simp add: words_value_nth i_def)
  also have "\<dots> = words_value ws div 2 ^ (64 * i) div 256 ^ k mod 256"
    by (rule mod_div_mod [OF d])
  also have "\<dots> = words_value ws div 256 ^ n mod 256"
  proof -
    have "(2::nat) ^ (64 * i) = 256 ^ (8 * i)"
      using power_mult [of "2::nat" 8 "8 * i"] by simp
    then show ?thesis by (simp add: n(1) div_mult2_eq [symmetric] power_add)
  qed
  finally show ?thesis by (simp add: byte_of_word byte_at_def i_def k_def)
qed

lemma byte_at_beyond: "length ws \<le> n div 8 \<Longrightarrow> byte_at (words_value ws) n = 0"
proof -
  assume "length ws \<le> n div 8"
  then have "64 * length ws \<le> 8 * n" by linarith
  then have "(2::nat) ^ (64 * length ws) \<le> 2 ^ (8 * n)" by (rule power_increasing) simp
  with words_value_less [of ws] have "words_value ws < 256 ^ n" by (simp add: power_mult)
  then show ?thesis by (simp add: byte_at_def)
qed

lemma be_value_bytes: "be_value 256 (map (byte_at v) (rev [0..<n])) = v mod 256 ^ n"
proof (induction n)
  case (Suc n)
  have "v mod 256 ^ Suc n = 256 ^ n * (v div 256 ^ n mod 256) + v mod 256 ^ n"
    using mod_mult2_eq [of v "256 ^ n" 256] by (simp add: mult.commute)
  with Suc show ?case by (simp add: be_value_Cons byte_at_def mult.commute)
qed simp

section \<open>The loops over words\<close>

lemma readWord_nth:
  "i \<le> length buf \<Longrightarrow> readWord k d (i, buf) = (i', buf') \<Longrightarrow>
   i' = i - k \<and> length buf' = length buf \<and>
   (\<forall>p < length buf. buf' ! p =
      (if i - k \<le> p \<and> p < i then ucast (drop_bit (8 * (i - 1 - p)) d) else buf ! p))"
proof (induction k arbitrary: d i buf)
  case (Suc k)
  show ?case
  proof (cases "0 < i")
    case True
    have "readWord k (drop_bit 8 d) (i - 1, buf[i - 1 := ucast d]) = (i', buf')"
      using Suc.prems True by simp
    from Suc.IH [OF _ this] Suc.prems(1)
    have IH: "i' = i - 1 - k" "length buf' = length buf"
      "\<And>p. p < length buf \<Longrightarrow> buf' ! p =
         (if i - 1 - k \<le> p \<and> p < i - 1 then ucast (drop_bit (8 * (i - 1 - 1 - p)) (drop_bit 8 d))
          else buf[i - 1 := ucast d] ! p)"
      by auto
    have "buf' ! p = (if i - Suc k \<le> p \<and> p < i then ucast (drop_bit (8 * (i - 1 - p)) d) else buf ! p)"
      if "p < length buf" for p
    proof (cases "p = i - 1")
      case p: True
      with True IH(3) [OF that] that show ?thesis by (auto simp: not_le)
    next
      case p: False
      have "8 * (i - 1 - 1 - p) + 8 = 8 * (i - 1 - p)" if "p < i - 1" using that by auto
      with p True IH(3) [OF that] that show ?thesis by (auto simp: drop_bit_drop_bit)
    qed
    with IH True show ?thesis by auto
  next
    case False
    with Suc.prems show ?thesis by auto
  qed
qed auto

lemma readWords_nth:
  "i \<le> length buf \<Longrightarrow> fold (readWord 8) ws (i, buf) = (i', buf') \<Longrightarrow>
   length buf' = length buf \<and>
   (\<forall>p < length buf. buf' ! p =
      (if i - 8 * length ws \<le> p \<and> p < i
       then ucast (drop_bit (8 * ((i - 1 - p) mod 8)) (ws ! ((i - 1 - p) div 8))) else buf ! p))"
proof (induction ws arbitrary: i buf)
  case (Cons w ws)
  obtain i1 buf1 where 1: "readWord 8 w (i, buf) = (i1, buf1)" by (cases "readWord 8 w (i, buf)")
  from readWord_nth [OF Cons.prems(1) 1]
  have r: "i1 = i - 8" "length buf1 = length buf"
    "\<And>p. p < length buf \<Longrightarrow> buf1 ! p =
       (if i - 8 \<le> p \<and> p < i then ucast (drop_bit (8 * (i - 1 - p)) w) else buf ! p)"
    by auto
  from Cons.IH [of i1 buf1] Cons.prems 1 r
  have IH: "length buf' = length buf"
    "\<And>p. p < length buf \<Longrightarrow> buf' ! p =
       (if i - 8 - 8 * length ws \<le> p \<and> p < i - 8
        then ucast (drop_bit (8 * ((i - 8 - 1 - p) mod 8)) (ws ! ((i - 8 - 1 - p) div 8))) else buf1 ! p)"
    by auto
  have "buf' ! p = (if i - 8 * length (w # ws) \<le> p \<and> p < i
       then ucast (drop_bit (8 * ((i - 1 - p) mod 8)) ((w # ws) ! ((i - 1 - p) div 8))) else buf ! p)"
    if p: "p < length buf" for p
  proof (cases "p < i - 8")
    case True
    then have e: "i - 1 - p = (i - 8 - 1 - p) + 8" by simp
    have m: "(i - 1 - p) mod 8 = (i - 8 - 1 - p) mod 8" "(i - 1 - p) div 8 = Suc ((i - 8 - 1 - p) div 8)"
      unfolding e by simp_all
    have c: "(i - 8 * length (w # ws) \<le> p \<and> p < i) = (i - 8 - 8 * length ws \<le> p)" using True by auto
    show ?thesis unfolding IH(2) [OF p] m c nth_Cons_Suc using True r(3) [OF p] by simp
  next
    case False
    show ?thesis
    proof (cases "p < i")
      case True
      then have "i - 1 - p < 8" using False by linarith
      then have m: "(i - 1 - p) mod 8 = i - 1 - p" "(i - 1 - p) div 8 = 0" by simp_all
      have c: "i - 8 * length (w # ws) \<le> p" "i - 8 \<le> p" using False True by auto
      show ?thesis unfolding IH(2) [OF p] m using c True False r(3) [OF p] by simp
    next
      case ge: False
      then show ?thesis unfolding IH(2) [OF p] using False r(3) [OF p] by simp
    qed
  qed
  with IH show ?case by blast
qed auto

lemma ReadBits_nth:
  assumes "p < length buf"
  shows "unat (ReadBits x buf ! p) =
    (if length buf - 8 * length (big_bits x) \<le> p then byte_at (nat \<bar>x\<bar>) (length buf - 1 - p)
     else unat (buf ! p))"
proof -
  obtain i' buf' where f: "fold (readWord 8) (big_bits x) (length buf, buf) = (i', buf')"
    by (cases "fold (readWord 8) (big_bits x) (length buf, buf)")
  have "ReadBits x buf = buf'" using f by (simp add: ReadBits_def wordBytes_def wordBits_def)
  moreover have "(length buf - 1 - p) div 8 < length (big_bits x)"
    if "length buf - 8 * length (big_bits x) \<le> p" using that assms by linarith
  ultimately show ?thesis
    using readWords_nth [OF order_refl f] assms byte_of_words [of "length buf - 1 - p" "big_bits x"]
    by auto
qed

lemma length_ReadBits [simp, len_simps]: "length (ReadBits x buf) = length buf"
proof -
  obtain i' buf' where f: "fold (readWord 8) (big_bits x) (length buf, buf) = (i', buf')"
    by (cases "fold (readWord 8) (big_bits x) (length buf, buf)")
  then show ?thesis
    using readWords_nth [OF order_refl f] by (simp add: ReadBits_def wordBytes_def wordBits_def)
qed

lemma ReadBits_zeros: "map unat (ReadBits x (replicate n 0)) = map (byte_at (nat \<bar>x\<bar>)) (rev [0..<n])"
proof (rule nth_equalityI)
  fix p assume "p < length (map unat (ReadBits x (replicate n 0)))"
  then have p: "p < n" by simp
  have "byte_at (nat \<bar>x\<bar>) (n - 1 - p) = 0" if "\<not> n - 8 * length (big_bits x) \<le> p"
  proof -
    have "length (big_bits x) \<le> (n - 1 - p) div 8" using that by linarith
    from byte_at_beyond [OF this] show ?thesis by simp
  qed
  with p ReadBits_nth [of p "replicate n 0" x]
  show "map unat (ReadBits x (replicate n 0)) ! p = map (byte_at (nat \<bar>x\<bar>)) (rev [0..<n]) ! p"
    by (auto simp: rev_nth)
qed simp

lemma ReadBits_value: "big_set_bytes (ReadBits x (replicate n 0)) = \<bar>x\<bar> mod 256 ^ n"
  unfolding big_set_bytes_def ReadBits_zeros be_value_bytes by (simp add: zmod_int)

lemma bigEndianByteAt_value: "unat (bigEndianByteAt x n) = byte_at (nat \<bar>x\<bar>) n"
  using byte_of_words [of n "big_bits x"] byte_at_beyond [of "big_bits x" n]
  by (simp add: bigEndianByteAt_def wordBytes_def wordBits_def Let_def not_le)

section \<open>256-bit arithmetic\<close>

lemma U256_eq: "U256 x = x mod 2 ^ 256"
proof -
  have m: "tt256m1 = mask 256" by (simp add: tt256m1_def tt256_def BigPow_def mask_eq_exp_minus_1)
  show ?thesis unfolding U256_def m take_bit_eq_mask [symmetric] take_bit_eq_mod by (rule refl)
qed

text \<open>The modulus, kept from being computed.\<close>

definition M256 :: int where
  "M256 = 2 ^ 256"

lemma U256_M [simp]: "U256 x = x mod M256"
  by (simp only: U256_eq M256_def)

lemma expBits_spec:
  "expBits k w (r, b) = (r', b') \<Longrightarrow>
   r' mod M256 = r * b ^ (unat w mod 2 ^ k) mod M256 \<and> b' mod M256 = b ^ 2 ^ k mod M256 \<and>
   (r' = r \<or> r' = r' mod M256) \<and> (0 < k \<longrightarrow> b' = b' mod M256)"
proof (induction k arbitrary: w r b)
  case (Suc k)
  define r1 where "r1 = (if w AND 1 = 1 then U256 (r * b) else r)"
  have step: "expBits k (drop_bit 1 w) (r1, U256 (b * b)) = (r', b')"
    using Suc.prems by (simp add: r1_def Let_def)
  note IH = Suc.IH [OF this]
  have w: "unat w mod 2 ^ Suc k = 2 * (unat (drop_bit 1 w) mod 2 ^ k) + unat w mod 2"
    unfolding unat_drop_bit_eq using mod_mult2_eq [of "unat w" 2 "2 ^ k"] by (simp add: drop_bit_eq_div)
  have "unat (w AND 1) = unat w mod 2" by (subst unsigned_and_eq) (simp add: and_one_eq)
  then have odd: "w AND 1 = 1 \<longleftrightarrow> unat w mod 2 = 1" by (metis unsigned_1 unsigned_word_eqI)
  have r1: "r1 mod M256 = r * b ^ (unat w mod 2) mod M256"
    by (cases "w AND 1 = 1") (auto simp: r1_def odd)
  have b: "(U256 (b * b)) ^ m mod M256 = b ^ (2 * m) mod M256" for m
    by (simp add: power_mod power_mult power2_eq_square)
  have "r' mod M256 = (r1 mod M256) * (U256 (b * b) ^ (unat (drop_bit 1 w) mod 2 ^ k) mod M256) mod M256"
    using IH by (simp only: mod_mult_eq)
  also have "\<dots> = r * b ^ (unat w mod 2 ^ Suc k) mod M256"
    unfolding r1 b w mod_mult_eq by (simp add: power_add mult_ac)
  finally have "r' mod M256 = r * b ^ (unat w mod 2 ^ Suc k) mod M256" .
  moreover have "b' mod M256 = b ^ 2 ^ Suc k mod M256"
    using IH b [of "2 ^ k"] by simp
  moreover have "r' = r \<or> r' = r' mod M256"
    using IH by (cases "w AND 1 = 1") (auto simp: r1_def)
  moreover have "b' = b' mod M256"
  proof (cases k)
    case 0
    with step show ?thesis by auto
  qed (use IH in simp)
  ultimately show ?case by blast
qed simp

lemma expWords_spec:
  "fold (expBits 64) ws (r, b) = (r', b') \<Longrightarrow>
   r' mod M256 = r * b ^ words_value ws mod M256 \<and> b' mod M256 = b ^ 2 ^ (64 * length ws) mod M256 \<and>
   (r' = r \<or> r' = r' mod M256) \<and> (ws \<noteq> [] \<longrightarrow> b' = b' mod M256)"
proof (induction ws arbitrary: r b)
  case (Cons w ws)
  obtain r1 b1 where 1: "expBits 64 w (r, b) = (r1, b1)" by (cases "expBits 64 w (r, b)")
  note A = expBits_spec [OF this]
  have "fold (expBits 64) ws (r1, b1) = (r', b')" using Cons.prems 1 by simp
  note B = Cons.IH [OF this]
  have w: "unat w mod 2 ^ 64 = unat w" 
    by (rule mod_less) (rule order_less_le_trans [OF unsigned_less], simp)
  have p: "b1 ^ m mod M256 = b ^ (2 ^ 64 * m) mod M256" for m
    using A by (metis power_mod power_mult)
  have "r' mod M256 = (r1 mod M256) * (b1 ^ words_value ws mod M256) mod M256"
    using B by (simp only: mod_mult_eq)
  also have "\<dots> = r * b ^ words_value (w # ws) mod M256"
    using A unfolding p w by (simp add: mod_mult_eq power_add mult_ac)
  finally have "r' mod M256 = r * b ^ words_value (w # ws) mod M256" .
  moreover have "b' mod M256 = b ^ 2 ^ (64 * length (w # ws)) mod M256"
    using B p [of "2 ^ (64 * length ws)"] by (simp add: power_add)
  moreover have "r' = r \<or> r' = r' mod M256" using A B by (metis mod_mod_trivial)
  moreover have "b' = b' mod M256" using A B \<open>fold (expBits 64) ws (r1, b1) = (r', b')\<close>
    by (cases ws) auto
  ultimately show ?case by blast
qed simp

lemma big_bits_Nil_iff [simp]: "big_bits x = [] \<longleftrightarrow> x = 0"
  by (simp add: big_bits_def be_digits_Nil_iff nat_eq_iff)

lemma big_bits_0 [simp]: "big_bits 0 = []"
  by simp

lemma Exp_aux:
  "fst (Exp b e) = b ^ nat \<bar>e\<bar> mod M256 \<and>
   snd (Exp b e) = (if e = 0 then b else b ^ 2 ^ (64 * length (big_bits e)) mod M256)"
proof -
  obtain r' b' where f: "fold (expBits 64) (big_bits e) (1, b) = (r', b')"
    by (cases "fold (expBits 64) (big_bits e) (1, b)")
  have E: "Exp b e = (r', b')" using f by (simp add: Exp_def wordBits_def)
  have "r' = r' mod M256" using expWords_spec [OF f] by (auto simp: M256_def)
  with expWords_spec [OF f] have "r' = b ^ nat \<bar>e\<bar> mod M256" by simp
  moreover have "b' = (if e = 0 then b else b ^ 2 ^ (64 * length (big_bits e)) mod M256)"
    using expWords_spec [OF f] f by auto
  ultimately show ?thesis by (simp add: E)
qed

lemma bit_len_bound: "\<bar>v\<bar> < 2 ^ big_bit_len v"
proof -
  have "be_value 2 (be_digits 2 (nat \<bar>v\<bar>)) < 2 ^ big_bit_len v"
    unfolding big_bit_len_def by (rule be_value_less) (rule be_digits_less)
  then have "nat \<bar>v\<bar> < 2 ^ big_bit_len v" by (simp add: be_value_digits)
  then show ?thesis by (metis abs_ge_zero nat_less_iff of_nat_numeral of_nat_power)
qed

lemma bit_len_lower: "k < big_bit_len v \<Longrightarrow> 2 ^ k \<le> \<bar>v\<bar>"
proof (rule ccontr)
  assume k: "k < big_bit_len v" and "\<not> 2 ^ k \<le> \<bar>v\<bar>"
  then have "nat \<bar>v\<bar> < 2 ^ k" by (simp add: nat_less_iff)
  then have "big_bit_len v \<le> k" unfolding big_bit_len_def by (rule length_be_digits [rotated]) simp
  with k show False by simp
qed

lemma big_bit_len_le_iff: "big_bit_len v \<le> k \<longleftrightarrow> \<bar>v\<bar> < 2 ^ k"
proof
  assume "big_bit_len v \<le> k"
  then have "(2::int) ^ big_bit_len v \<le> 2 ^ k" by (rule power_increasing) simp
  with bit_len_bound [of v] show "\<bar>v\<bar> < 2 ^ k" by linarith
next
  assume "\<bar>v\<bar> < 2 ^ k"
  then show "big_bit_len v \<le> k" using bit_len_lower [of k v] by (meson not_le)
qed

lemma FirstBitSet_loop_spec:
  "(\<And>j. j < i \<Longrightarrow> \<not> bit v j) \<Longrightarrow> i \<le> big_bit_len v \<Longrightarrow>
   FirstBitSet_loop v i \<le> big_bit_len v \<and> (\<forall>j < FirstBitSet_loop v i. \<not> bit v j) \<and>
   (FirstBitSet_loop v i < big_bit_len v \<longrightarrow> bit v (FirstBitSet_loop v i))"
proof (induction v i rule: FirstBitSet_loop.induct)
  case (1 v i)
  show ?case
  proof (cases "i < big_bit_len v \<and> \<not> bit v i")
    case True
    then have "FirstBitSet_loop v i = FirstBitSet_loop v (i + 1)" by (subst FirstBitSet_loop.simps) simp
    moreover have "\<not> bit v j" if "j < i + 1" for j
      using True 1(2) [of j] that by (cases "j = i") auto
    ultimately show ?thesis using 1(1) True by simp
  next
    case False
    then have "FirstBitSet_loop v i = (if i < big_bit_len v then i else big_bit_len v)"
      by (subst FirstBitSet_loop.simps) simp
    with False 1 show ?thesis by auto
  qed
qed

lemma FirstBitSet_dvd: "2 ^ FirstBitSet v dvd v"
proof -
  have "take_bit (FirstBitSet v) v = 0"
    using FirstBitSet_loop_spec [of 0 v]
    by (intro bit_eqI) (auto simp: bit_take_bit_iff FirstBitSet_def)
  then show ?thesis by (simp add: take_bit_eq_0_iff)
qed

lemma FirstBitSet_bit: "v \<noteq> 0 \<Longrightarrow> bit v (FirstBitSet v)"
proof -
  assume "v \<noteq> 0"
  have "FirstBitSet v < big_bit_len v"
  proof (rule ccontr)
    assume "\<not> FirstBitSet v < big_bit_len v"
    then have "\<bar>v\<bar> < 2 ^ FirstBitSet v" using big_bit_len_le_iff [of v "FirstBitSet v"] by simp
    moreover have "2 ^ FirstBitSet v \<le> \<bar>v\<bar>"
      using FirstBitSet_dvd [of v] \<open>v \<noteq> 0\<close> dvd_imp_le_int [of v "2 ^ FirstBitSet v"] by simp
    ultimately show False by simp
  qed
  then show ?thesis using FirstBitSet_loop_spec [of 0 v] by (simp add: FirstBitSet_def)
qed

section \<open>Texts of numbers\<close>

lemma digits_val_map:
  "(\<And>d. d \<in> set ds \<Longrightarrow> d < base) \<Longrightarrow> base \<le> 16 \<Longrightarrow>
   digits_val base acc (map hexdigit ds) = Some (foldl (\<lambda>a d. a * base + d) acc ds)"
proof (induction ds arbitrary: acc)
  case (Cons d ds)
  then have "d < base" "d < 16" by (auto intro: order_less_le_trans)
  with Cons show ?case by (simp add: digit_val_def)
qed simp

lemma digits_val_dec [simp]: "digits_val 10 0 (dec_digits n) = Some n"
proof (cases "n = 0")
  case True
  then show ?thesis by (simp add: dec_digits_def digit_val_def hexval_def)
next
  case False
  then show ?thesis
    using digits_val_map [of "be_digits 10 n" 10 0] be_value_digits [of 10 n] be_digits_less [of _ 10 n]
    by (simp add: dec_digits_def be_value_def)
qed

lemma digits_val_hex [simp]: "digits_val 16 0 (hex_digits n) = Some n"
proof (cases "n = 0")
  case True
  then show ?thesis by (simp add: hex_digits_def digit_val_def hexval_def)
next
  case False
  then show ?thesis
    using digits_val_map [of "be_digits 16 n" 16 0] be_value_digits [of 16 n] be_digits_less [of _ 16 n]
    by (simp add: hex_digits_def be_value_def)
qed

lemma dec_digits_Nil [simp]: "dec_digits n \<noteq> []"
  by (simp add: dec_digits_def be_digits_Nil_iff)

lemma dec_digits_is_hex: "c \<in> set (dec_digits n) \<Longrightarrow> is_hex c"
  by (auto simp: dec_digits_def dest!: be_digits_less split: if_splits)

lemma big_set_string_plain:
  assumes "list_all is_hex s" "s \<noteq> []"
  shows "big_set_string s base = map_option int (digits_val base 0 s)"
proof (cases s)
  case (Cons c cs)
  with assms have "is_hex c" by simp
  then have "c \<noteq> CHR ''-''" "c \<noteq> CHR ''+''" using not_hex by metis+
  with Cons show ?thesis by (simp add: big_set_string_def Let_def)
qed (use assms in simp)

lemma big_set_string_minus:
  "s \<noteq> [] \<Longrightarrow> big_set_string (CHR ''-'' # s) base = map_option (\<lambda>n. - int n) (digits_val base 0 s)"
  by (simp add: big_set_string_def)

lemma take2_not_prefix:
  assumes "list_all is_hex s"
  shows "take 2 s \<noteq> ''0x'' \<and> take 2 s \<noteq> ''0X''"
proof -
  have "list_all is_hex (take 2 s)" using assms by (auto simp: list_all_iff dest: in_set_takeD)
  then show ?thesis by auto
qed

lemma hex_digits_all: "list_all is_hex (hex_digits n)"
  using hex_digits_is_hex by (simp add: list_all_iff)

lemma dec_digits_all: "list_all is_hex (dec_digits n)"
  using dec_digits_is_hex by (simp add: list_all_iff)

lemma ParseBig256_hex: "\<bar>x\<bar> < 2 ^ 256 \<Longrightarrow> 0 \<le> x \<Longrightarrow> ParseBig256 (''0x'' @ hex_digits (nat x)) = Some x"
  using big_bit_len_le_iff [of x 256]
  by (simp add: ParseBig256_def big_set_string_plain hex_digits_all)

lemma ParseBig256_dec: "\<bar>x\<bar> < 2 ^ 256 \<Longrightarrow> ParseBig256 (Decimal256_String (Some x)) = Some x"
proof -
  assume x: "\<bar>x\<bar> < 2 ^ 256"
  show ?thesis
  proof (cases "x < 0")
    case True
    have "take 2 (CHR ''-'' # dec_digits (nat (- x))) \<noteq> ''0x''"
         "take 2 (CHR ''-'' # dec_digits (nat (- x))) \<noteq> ''0X''" by auto
    with True x big_bit_len_le_iff [of x 256] show ?thesis
      by (simp add: ParseBig256_def Decimal256_String_def big_set_string_minus Let_def)
  next
    case False
    with x take2_not_prefix [OF dec_digits_all [of "nat x"]] big_bit_len_le_iff [of x 256]
    show ?thesis
      by (simp add: ParseBig256_def Decimal256_String_def big_set_string_plain dec_digits_all Let_def)
  qed
qed

lemma ParseBig256_range: "ParseBig256 s = Some x \<Longrightarrow> \<bar>x\<bar> < 2 ^ 256"
  using big_bit_len_le_iff [of x 256]
  by (auto simp: ParseBig256_def Let_def not_less split: if_splits option.splits)

section \<open>Properties\<close>

text \<open>
  \<open>Exp\<close> computes the power modulo \<open>2^256\<close> for every base and exponent (of a negative exponent the
  absolute value counts). What it leaves in its argument \<open>base\<close> is a repeated square: for a non-zero
  exponent the base is changed.
\<close>

theorem Exp_spec:
  "fst (Exp b e) = b ^ nat \<bar>e\<bar> mod 2 ^ 256 \<and>
   snd (Exp b e) = (if e = 0 then b else b ^ 2 ^ (64 * length (big_bits e)) mod 2 ^ 256)"
  using Exp_aux [of b e] by (simp only: M256_def)

text \<open>
  \<open>PaddedBigBytes\<close> writes the absolute value in big-endian form, on the shortest whole number of
  bytes that is at least eight: the length asked for has no effect. So \<open>U256Bytes\<close> gives the two's
  complement form of its argument but not always on 32 bytes.
\<close>

theorem PaddedBigBytes_spec:
  "big_set_bytes (PaddedBigBytes x n) = \<bar>x\<bar> \<and>
   length (PaddedBigBytes x n) = max 8 (length (big_bytes x)) \<and>
   big_set_bytes (U256Bytes x) = x mod 2 ^ 256 \<and> length (U256Bytes 1) = 8"
proof -
  have len: "length (big_bytes x) \<le> 8 \<longleftrightarrow> \<bar>x\<bar> < 2 ^ 64" if "8 \<le> big_bit_len x div 8 \<or> big_bit_len x < 64" for x
  proof
    assume l: "length (big_bytes x) \<le> 8"
    have "\<bar>x\<bar> < 256 ^ length (big_bytes x)" using big_set_bytes_less [of "big_bytes x"] by simp
    also have "(256::int) ^ length (big_bytes x) \<le> 256 ^ 8" using l by (intro power_increasing) simp_all
    finally show "\<bar>x\<bar> < 2 ^ 64" by simp
  next
    assume "\<bar>x\<bar> < 2 ^ 64"
    then show "length (big_bytes x) \<le> 8" using length_big_bytes [of x 8] by simp
  qed
  have P: "big_set_bytes (PaddedBigBytes x n) = \<bar>x\<bar> \<and> length (PaddedBigBytes x n) = max 8 (length (big_bytes x))"
    for x n
  proof (cases "8 \<le> big_bit_len x div 8")
    case True
    then have "\<not> \<bar>x\<bar> < 2 ^ 63" using big_bit_len_le_iff [of x 63] by linarith
    have "\<not> length (big_bytes x) \<le> 7"
    proof
      assume l: "length (big_bytes x) \<le> 7"
      have "\<bar>x\<bar> < 256 ^ length (big_bytes x)" using big_set_bytes_less [of "big_bytes x"] by simp
      also have "(256::int) ^ length (big_bytes x) \<le> 256 ^ 7" using l by (intro power_increasing) simp_all
      finally show False using \<open>\<not> \<bar>x\<bar> < 2 ^ 63\<close> by simp
    qed
    with True show ?thesis by (simp add: PaddedBigBytes_def)
  next
    case False
    then have "big_bit_len x \<le> 64" by linarith
    then have "\<bar>x\<bar> < 2 ^ 64" by (simp only: big_bit_len_le_iff)
    moreover from this have "length (big_bytes x) \<le> 8" using length_big_bytes [of x 8] by simp
    ultimately show ?thesis using False ReadBits_value [of x 8] by (simp add: PaddedBigBytes_def)
  qed
  have "big_set_bytes (U256Bytes x) = x mod 2 ^ 256"
    using P [of "U256 x" 32] by (simp add: U256Bytes_def U256_eq del: U256_M)
  moreover have "length (U256Bytes 1) = 8"
    using length_big_bytes [of 1 1] P [of "U256 1" 32] by (simp add: U256Bytes_def U256_eq del: U256_M)
  ultimately show ?thesis using P by blast
qed

text \<open>
  \<open>Byte\<close> reads byte \<open>n\<close> of the big-endian form padded to \<open>padlength\<close>, and zero beyond it; \<open>U256\<close>
  reduces modulo \<open>2^256\<close>, and \<open>S256\<close> undoes it on the signed 256-bit numbers.
\<close>

theorem Byte_U256_S256_spec:
  "unat (Byte x padlength n) =
     (if n < padlength then nat \<bar>x\<bar> div 256 ^ nat (padlength - 1 - n) mod 256 else 0) \<and>
   U256 x = x mod 2 ^ 256 \<and>
   (- (2 ^ 255) \<le> x \<and> x < 2 ^ 255 \<longrightarrow> S256 (U256 x) = x) \<and>
   (0 \<le> x \<and> x < 2 ^ 256 \<longrightarrow> U256 (S256 x) = x \<and> - (2 ^ 255) \<le> S256 x \<and> S256 x < 2 ^ 255)"
proof (intro conjI impI)
  show "unat (Byte x padlength n) =
     (if n < padlength then nat \<bar>x\<bar> div 256 ^ nat (padlength - 1 - n) mod 256 else 0)"
    by (simp add: Byte_def bigEndianByteAt_value byte_at_def)
  show "U256 x = x mod 2 ^ 256" by (rule U256_eq)
next
  assume "- (2 ^ 255) \<le> x \<and> x < 2 ^ 255"
  moreover from this have "x mod 2 ^ 256 = (if 0 \<le> x then x else x + 2 ^ 256)"
    using mod_add_self2 [of x "2 ^ 256"] mod_pos_pos_trivial [of "x + 2 ^ 256" "2 ^ 256"]
      mod_pos_pos_trivial [of x "2 ^ 256"]
    by simp
  ultimately show "S256 (U256 x) = x"
    unfolding S256_def U256_eq tt255_def tt256_def BigPow_def by auto
next
  assume x: "0 \<le> x \<and> x < 2 ^ 256"
  then have m: "x mod 2 ^ 256 = x" "(x - 2 ^ 256) mod 2 ^ 256 = x" by simp_all
  with x show "U256 (S256 x) = x" unfolding S256_def U256_eq tt255_def tt256_def BigPow_def by auto
  show "- (2 ^ 255) \<le> S256 x" "S256 x < 2 ^ 255"
    using x by (simp_all add: S256_def tt255_def tt256_def BigPow_def)
qed

theorem Byte_U256_S256_witness: "S256 (U256 (- 5)) = - 5"
  using Byte_U256_S256_spec [of "- 5" 32 0, THEN conjunct2, THEN conjunct2, THEN conjunct1, THEN mp]
  by (simp del: U256_M)

text \<open>
  \<open>ParseBig256\<close> returns only numbers of at most 256 bits; every such number survives the decimal
  text form, every non-negative one the hexadecimal form, and a refused text leaves the receiver unchanged.
\<close>

theorem Big256_text_roundtrip:
  assumes "\<bar>x\<bar> < 2 ^ 256"
  shows "Decimal256_UnmarshalText y (Decimal256_MarshalText (Some x)) = (x, None) \<and>
         HexOrDecimal256_UnmarshalText y (Decimal256_MarshalText (Some x)) = (x, None) \<and>
         (0 \<le> x \<longrightarrow> HexOrDecimal256_UnmarshalText y (HexOrDecimal256_MarshalText (Some x)) = (x, None) \<and>
                    Decimal256_UnmarshalText y (HexOrDecimal256_MarshalText (Some x)) = (x, None)) \<and>
         (\<forall>s z. HexOrDecimal256_UnmarshalText y s = (z, None) \<longrightarrow> \<bar>z\<bar> < 2 ^ 256) \<and>
         (\<forall>s z e. HexOrDecimal256_UnmarshalText y s = (z, Some e) \<longrightarrow> z = y)"
proof -
  have "\<bar>z\<bar> < 2 ^ 256" if "HexOrDecimal256_UnmarshalText y s = (z, None)" for s z
    using that ParseBig256_range [of s z]
    by (auto simp: HexOrDecimal256_UnmarshalText_def split: option.splits)
  moreover have "z = y" if "HexOrDecimal256_UnmarshalText y s = (z, Some e)" for s z e
    using that by (auto simp: HexOrDecimal256_UnmarshalText_def split: option.splits)
  ultimately show ?thesis
    using ParseBig256_dec [OF assms] ParseBig256_hex [OF assms]
    by (simp add: Decimal256_UnmarshalText_def HexOrDecimal256_UnmarshalText_def
        Decimal256_MarshalText_def HexOrDecimal256_MarshalText_def)
qed

theorem Big256_text_roundtrip_witness:
  "Decimal256_UnmarshalText 0 (Decimal256_MarshalText (Some (- 42))) = (- 42, None)"
  using Big256_text_roundtrip [of "- 42" 0] by simp

end
