(* ===== verification/Bit_Curve.thy ===== *)
theory Bit_Curve
  imports Go_Std
begin

text \<open>
  \<open>src/crypto/curve.go\<close>: short Weierstrass curves \<open>y^2 = x^3 + b\<close> over a prime field, in Jacobian
  coordinates. Coordinates are integers; \<open>ModInverse\<close> of \<open>math/big\<close> is the extended Euclidean
  algorithm, and its nil result, which the code dereferences, is a panic.
\<close>

section \<open>Modular inverses\<close>

text \<open>The remainders \<open>r0, r1\<close> and the coefficients \<open>t0, t1\<close> of \<open>g\<close> in them.\<close>

function inverse_loop :: "int \<Rightarrow> int \<Rightarrow> int \<Rightarrow> int \<Rightarrow> int \<times> int" where
  "inverse_loop r0 r1 t0 t1 =
     (if r1 \<le> 0 then (r0, t0) else inverse_loop r1 (r0 mod r1) t1 (t0 - (r0 div r1) * t1))"
  by auto

termination
  by (relation "measure (\<lambda>(r0, r1, t0, t1). nat r1)") auto

declare inverse_loop.simps [simp del]

text \<open>\<open>new(big.Int).ModInverse(g, n)\<close> for positive \<open>n\<close>; \<open>None\<close> is nil.\<close>

definition mod_inverse :: "int \<Rightarrow> int \<Rightarrow> int option" where
  "mod_inverse g n = (let (r, t) = inverse_loop n (g mod n) 0 1 in if r = 1 then Some (t mod n) else None)"

section \<open>The curve\<close>

record BitCurve =
  cP :: int        \<comment> \<open>the order of the field\<close>
  cN :: int        \<comment> \<open>the order of the base point\<close>
  cB :: int        \<comment> \<open>the constant of the equation\<close>
  cGx :: int
  cGy :: int
  cBitSize :: nat

text \<open>\<open>elliptic.CurveParams\<close> of the standard library, with its fields in order.\<close>

definition Params :: "BitCurve \<Rightarrow> int \<times> int \<times> int \<times> int \<times> int \<times> nat \<times> string" where
  "Params c = (cP c, cN c, cB c, cGx c, cGy c, cBitSize c, '''')"

definition IsOnCurve :: "BitCurve \<Rightarrow> int \<Rightarrow> int \<Rightarrow> bool" where
  "IsOnCurve c x y =
     (let y2 = y * y; y2 = y2 mod cP c;
          x3 = x * x; x3 = x3 * x; x3 = x3 + cB c; x3 = x3 mod cP c
      in x3 = y2)"

type_synonym jacobian = "int \<times> int \<times> int"

text \<open>What a point operation gives: a point, the pair \<open>(nil, nil)\<close>, or a panic.\<close>

datatype curve_result = CurvePoint int int | CurveNil | CurvePanic

definition affineFromJacobian :: "BitCurve \<Rightarrow> jacobian \<Rightarrow> curve_result" where
  "affineFromJacobian c p =
     (let (x, y, z) = p
      in case mod_inverse z (cP c) of
           None \<Rightarrow> CurvePanic
         | Some zinv \<Rightarrow>
             (let zinvsq = zinv * zinv;
                  xOut = x * zinvsq; xOut = xOut mod cP c;
                  zinvsq = zinvsq * zinv;
                  yOut = y * zinvsq; yOut = yOut mod cP c
              in CurvePoint xOut yOut))"

definition addJacobian :: "BitCurve \<Rightarrow> jacobian \<Rightarrow> jacobian \<Rightarrow> jacobian" where
  "addJacobian c p q =
     (let (x1, y1, z1) = p; (x2, y2, z2) = q;
          z1z1 = z1 * z1; z1z1 = z1z1 mod cP c;
          z2z2 = z2 * z2; z2z2 = z2z2 mod cP c;
          u1 = x1 * z2z2; u1 = u1 mod cP c;
          u2 = x2 * z1z1; u2 = u2 mod cP c;
          h = u2 - u1; h = (if h < 0 then h + cP c else h);
          i = 2 * h; i = i * i;
          j = h * i;
          s1 = y1 * z2; s1 = s1 * z2z2; s1 = s1 mod cP c;
          s2 = y2 * z1; s2 = s2 * z1z1; s2 = s2 mod cP c;
          r = s2 - s1; r = (if r < 0 then r + cP c else r); r = 2 * r;
          v = u1 * i;
          x3 = r; x3 = x3 * x3; x3 = x3 - j; x3 = x3 - v; x3 = x3 - v; x3 = x3 mod cP c;
          y3 = r; v = v - x3; y3 = y3 * v; s1 = s1 * j; s1 = 2 * s1; y3 = y3 - s1; y3 = y3 mod cP c;
          z3 = z1 + z2; z3 = z3 * z3; z3 = z3 - z1z1; z3 = (if z3 < 0 then z3 + cP c else z3);
          z3 = z3 - z2z2; z3 = (if z3 < 0 then z3 + cP c else z3); z3 = z3 * h; z3 = z3 mod cP c
      in (x3, y3, z3))"

definition doubleJacobian :: "BitCurve \<Rightarrow> jacobian \<Rightarrow> jacobian" where
  "doubleJacobian c p =
     (let (x, y, z) = p;
          a = x * x;
          b = y * y;
          cc = b * b;
          d = x + b; d = d * d; d = d - a; d = d - cc; d = d * 2;
          e = 3 * a;
          f = e * e;
          x3 = 2 * d; x3 = f - x3; x3 = x3 mod cP c;
          y3 = d - x3; y3 = e * y3; y3 = y3 - 8 * cc; y3 = y3 mod cP c;
          z3 = y * z; z3 = 2 * z3; z3 = z3 mod cP c
      in (x3, y3, z3))"

definition curve_Add :: "BitCurve \<Rightarrow> int \<Rightarrow> int \<Rightarrow> int \<Rightarrow> int \<Rightarrow> curve_result" where
  "curve_Add c x1 y1 x2 y2 =
     (let z = 1 in affineFromJacobian c (addJacobian c (x1, y1, z) (x2, y2, z)))"

definition curve_Double :: "BitCurve \<Rightarrow> int \<Rightarrow> int \<Rightarrow> curve_result" where
  "curve_Double c x1 y1 = (let z1 = 1 in affineFromJacobian c (doubleJacobian c (x1, y1, z1)))"

section \<open>Scalar multiplication\<close>

text \<open>The loop over the bits of one byte, \<open>n\<close> bits left; the state is \<open>seenFirstTrue\<close> and the point.\<close>

fun scalar_bits :: "BitCurve \<Rightarrow> jacobian \<Rightarrow> nat \<Rightarrow> byte \<Rightarrow> bool \<times> jacobian \<Rightarrow> bool \<times> jacobian" where
  "scalar_bits c base 0 b (seen, p) = (seen, p)"
| "scalar_bits c base (Suc n) b (seen, p) =
     (let p = (if seen then doubleJacobian c p else p);
          (seen, p) = (if b AND 0x80 = 0x80
                       then if \<not> seen then (True, p) else (seen, addJacobian c base p)
                       else (seen, p))
      in scalar_bits c base n (push_bit 1 b) (seen, p))"

definition ScalarMult :: "BitCurve \<Rightarrow> int \<Rightarrow> int \<Rightarrow> byte list \<Rightarrow> curve_result" where
  "ScalarMult c Bx By k =
     (let (seenFirstTrue, p) = fold (scalar_bits c (Bx, By, 1) 8) k (False, (Bx, By, 1))
      in if \<not> seenFirstTrue then CurveNil else affineFromJacobian c p)"

definition ScalarBaseMult :: "BitCurve \<Rightarrow> byte list \<Rightarrow> curve_result" where
  "ScalarBaseMult c k = ScalarMult c (cGx c) (cGy c) k"

section \<open>Keys\<close>

definition mask_bytes :: "byte list" where
  "mask_bytes = [0xff, 0x1, 0x3, 0x7, 0xf, 0x1f, 0x3f, 0x7f]"

definition byteLen :: "BitCurve \<Rightarrow> nat" where
  "byteLen c = (cBitSize c + 7) div 8"

text \<open>
  The reader is the list of what \<open>io.ReadFull\<close> gives on successive calls: an error, or a full
  buffer. \<open>KeyWaits\<close> is a loop that has used them all and asks for more.
\<close>

datatype 'e key_result = Key "byte list" int int | KeyError 'e | KeyPanic | KeyWaits

fun GenerateKey :: "BitCurve \<Rightarrow> ('e + byte list) list \<Rightarrow> 'e key_result" where
  "GenerateKey c [] = KeyWaits"
| "GenerateKey c (Inl err # reads) = KeyError err"
| "GenerateKey c (Inr buf # reads) =
     (if length buf < 2 then KeyPanic
      else
        let priv = buf[0 := buf ! 0 AND mask_bytes ! (cBitSize c mod 8)];
            priv = priv[1 := priv ! 1 XOR 0x42]
        in case ScalarBaseMult c priv of
             CurvePanic \<Rightarrow> KeyPanic
           | CurveNil \<Rightarrow> GenerateKey c reads
           | CurvePoint x y \<Rightarrow> Key priv x y)"

section \<open>Serialisation\<close>

text \<open>\<open>None\<close> is the out-of-range slice for a coordinate longer than \<open>byteLen\<close> allows.\<close>

definition curve_Marshal :: "BitCurve \<Rightarrow> int \<Rightarrow> int \<Rightarrow> byte list option" where
  "curve_Marshal c x y =
     (let n = byteLen c;
          ret = replicate (1 + 2 * n) 0;
          ret = ret[0 := 4];
          xBytes = big_bytes x
      in if 1 + n < length xBytes then None
         else
           (let ret = go_copy_at ret (1 + n - length xBytes) xBytes;
                yBytes = big_bytes y
            in if 1 + 2 * n < length yBytes then None
               else Some (go_copy_at ret (1 + 2 * n - length yBytes) yBytes)))"

text \<open>\<open>None\<close> is the pair \<open>(nil, nil)\<close>.\<close>

definition curve_Unmarshal :: "BitCurve \<Rightarrow> byte list \<Rightarrow> (int \<times> int) option" where
  "curve_Unmarshal c data =
     (let n = byteLen c
      in if length data \<noteq> 1 + 2 * n then None
         else if data ! 0 \<noteq> 4 then None
         else Some (big_set_bytes (take n (drop 1 data)), big_set_bytes (drop (1 + n) data)))"

section \<open>The named curves\<close>

definition curve_S160 :: BitCurve where
  "curve_S160 =
     \<lparr>cP = 0xFFFFFFFFFFFFFFFFFFFFFFFFFFFFFFFEFFFFAC73,
      cN = 0x0100000000000000000001B8FA16DFAB9ACA16B6B3,
      cB = 7,
      cGx = 0x3B4C382CE37AA192A4019E763036F4F5DD4D7EBB,
      cGy = 0x938CF935318FDCED6BC28286531733C3F03C4FEE,
      cBitSize = 160\<rparr>"

definition curve_S192 :: BitCurve where
  "curve_S192 =
     \<lparr>cP = 0xFFFFFFFFFFFFFFFFFFFFFFFFFFFFFFFFFFFFFFFEFFFFEE37,
      cN = 0xFFFFFFFFFFFFFFFFFFFFFFFE26F2FC170F69466A74DEFD8D,
      cB = 3,
      cGx = 0xDB4FF10EC057E9AE26B07D0280B7F4341DA5D1B1EAE06C7D,
      cGy = 0x9B2F2F6D9C5628A7844163D015BE86344082AA88D95E2F9D,
      cBitSize = 192\<rparr>"

definition curve_S224 :: BitCurve where
  "curve_S224 =
     \<lparr>cP = 0xFFFFFFFFFFFFFFFFFFFFFFFFFFFFFFFFFFFFFFFFFFFFFFFEFFFFE56D,
      cN = 0x010000000000000000000000000001DCE8D2EC6184CAF0A971769FB1F7,
      cB = 5,
      cGx = 0xA1455B334DF099DF30FC28A169A467E9E47075A90F7E650EB6B7A45C,
      cGy = 0x7E089FED7FBA344282CAFBD6F7E319F7C0B0BD59E2CA4BDB556D61A5,
      cBitSize = 224\<rparr>"

definition curve_S256 :: BitCurve where
  "curve_S256 =
     \<lparr>cP = 0xFFFFFFFFFFFFFFFFFFFFFFFFFFFFFFFFFFFFFFFFFFFFFFFFFFFFFFFEFFFFFC2F,
      cN = 0xFFFFFFFFFFFFFFFFFFFFFFFFFFFFFFFEBAAEDCE6AF48A03BBFD25E8CD0364141,
      cB = 7,
      cGx = 0x79BE667EF9DCBBAC55A06295CE870B07029BFCDB2DCE28D959F2815B16F81798,
      cGy = 0x483ADA7726A3C4655DA4FBFC0E1108A8FD17B448A68554199C47D08FFB10D4B8,
      cBitSize = 256\<rparr>"

section \<open>Facts about modular inverses\<close>

lemma inverse_loop_spec:
  "inverse_loop r0 r1 t0 t1 = (r, t) \<Longrightarrow> n dvd t0 * g - r0 \<Longrightarrow> n dvd t1 * g - r1 \<Longrightarrow> 0 \<le> r1 \<Longrightarrow> 0 \<le> r0 \<Longrightarrow>
   r = gcd r0 r1 \<and> n dvd t * g - r"
proof (induction r0 r1 t0 t1 rule: inverse_loop.induct)
  case (1 r0 r1 t0 t1)
  show ?case
  proof (cases "r1 \<le> 0")
    case True
    with 1 show ?thesis by (subst (asm) inverse_loop.simps) auto
  next
    case False
    have "(t0 - r0 div r1 * t1) * g - r0 mod r1 = (t0 * g - r0) - (r0 div r1) * (t1 * g - r1)"
      by (simp add: algebra_simps minus_mult_div_eq_mod [symmetric])
    then have "n dvd (t0 - r0 div r1 * t1) * g - r0 mod r1" using "1.prems" by (simp add: dvd_diff)
    moreover have "inverse_loop r1 (r0 mod r1) t1 (t0 - r0 div r1 * t1) = (r, t)"
      using "1.prems" False by (subst (asm) inverse_loop.simps) simp
    ultimately have "r = gcd r1 (r0 mod r1) \<and> n dvd t * g - r"
      using False "1.prems" by (intro "1.IH") simp_all
    then show ?thesis by (metis gcd_red_int)
  qed
qed

lemma mod_inverse_Some: "0 < n \<Longrightarrow> mod_inverse g n = Some t \<Longrightarrow> n dvd t * g - 1"
proof -
  assume n: "0 < n" and s: "mod_inverse g n = Some t"
  obtain r t' where l: "inverse_loop n (g mod n) 0 1 = (r, t')" by (cases "inverse_loop n (g mod n) 0 1")
  have "n dvd t' * g - r"
    using inverse_loop_spec [OF l, of n g] n by (simp add: mod_eq_dvd_iff [symmetric])
  with s l have "n dvd t' * g - 1" "t = t' mod n" by (auto simp: mod_inverse_def split: if_splits)
  moreover have "t' mod n * g - 1 = (t' * g - 1) - n * (t' div n * g)"
    by (simp add: minus_mult_div_eq_mod [symmetric] algebra_simps)
  ultimately show ?thesis by (metis dvd_diff dvd_triv_left)
qed

lemma mod_inverse_None_iff: "0 < n \<Longrightarrow> mod_inverse g n = None \<longleftrightarrow> gcd g n \<noteq> 1"
proof -
  assume n: "0 < n"
  obtain r t' where l: "inverse_loop n (g mod n) 0 1 = (r, t')" by (cases "inverse_loop n (g mod n) 0 1")
  have "r = gcd n (g mod n)"
    using inverse_loop_spec [OF l, of n g] n by (simp add: mod_eq_dvd_iff [symmetric])
  then have "r = gcd g n" by (metis gcd_red_int)
  then show ?thesis using l by (simp add: mod_inverse_def)
qed

section \<open>Jacobian formulas as residues\<close>

definition ceq :: "int \<Rightarrow> int \<Rightarrow> int \<Rightarrow> bool" where
  "ceq p a b \<longleftrightarrow> p dvd a - b"

lemma ceq_refl: "ceq p a a"
  by (simp add: ceq_def)

lemma ceq_add: "ceq p a a' \<Longrightarrow> ceq p b b' \<Longrightarrow> ceq p (a + b) (a' + b')"
proof -
  assume "ceq p a a'" "ceq p b b'"
  then have "p dvd (a - a') + (b - b')" by (simp add: ceq_def)
  moreover have "(a - a') + (b - b') = (a + b) - (a' + b')" by simp
  ultimately show ?thesis by (simp only: ceq_def)
qed

lemma ceq_diff: "ceq p a a' \<Longrightarrow> ceq p b b' \<Longrightarrow> ceq p (a - b) (a' - b')"
proof -
  assume "ceq p a a'" "ceq p b b'"
  then have "p dvd (a - a') - (b - b')" by (simp add: ceq_def dvd_diff)
  moreover have "(a - a') - (b - b') = (a - b) - (a' - b')" by simp
  ultimately show ?thesis by (simp only: ceq_def)
qed

lemma ceq_mult: "ceq p a a' \<Longrightarrow> ceq p b b' \<Longrightarrow> ceq p (a * b) (a' * b')"
proof -
  assume "ceq p a a'" "ceq p b b'"
  then have "p dvd (a - a') * b + a' * (b - b')" by (simp add: ceq_def)
  moreover have "(a - a') * b + a' * (b - b') = a * b - a' * b'" by (simp add: algebra_simps)
  ultimately show ?thesis by (simp add: ceq_def)
qed

lemma ceq_mod: "ceq p a b \<Longrightarrow> ceq p (a mod p) b"
  by (simp add: ceq_def mod_eq_dvd_iff [symmetric])

lemma ceq_wrap: "ceq p a b \<Longrightarrow> ceq p (if a < 0 then a + p else a) b"
proof -
  assume "ceq p a b"
  then have "p dvd (a - b) + p" "p dvd a - b" by (simp_all add: ceq_def)
  then show ?thesis by (simp add: ceq_def algebra_simps)
qed

lemma ceq_mod_eq: "ceq p a b \<Longrightarrow> b = b' \<Longrightarrow> a mod p = b' mod p"
  by (simp add: ceq_def mod_eq_dvd_iff)

lemmas ceq_intros = ceq_wrap ceq_mod ceq_mult ceq_diff ceq_add

lemma addJacobian_residues:
  fixes x1 y1 z1 x2 y2 z2 :: int
  defines "u1 \<equiv> x1 * (z2 * z2)" and "u2 \<equiv> x2 * (z1 * z1)"
    and "s1 \<equiv> y1 * z2 * (z2 * z2)" and "s2 \<equiv> y2 * z1 * (z1 * z1)"
  defines "h \<equiv> u2 - u1" and "d \<equiv> s2 - s1"
  defines "x3 \<equiv> d ^ 2 - h ^ 3 - 2 * u1 * h ^ 2"
  shows "addJacobian c (x1, y1, z1) (x2, y2, z2) =
    (4 * x3 mod cP c, 8 * (d * (u1 * h ^ 2 - x3) - s1 * h ^ 3) mod cP c, 2 * z1 * z2 * h mod cP c)"
  unfolding addJacobian_def Let_def prod.case prod.inject
proof (intro conjI; rule ceq_mod_eq, (rule ceq_intros | rule ceq_refl)+)
qed (unfold u1_def [symmetric] u2_def [symmetric] s1_def [symmetric] s2_def [symmetric] h_def [symmetric]
   d_def [symmetric] x3_def, simp_all add: algebra_simps power2_eq_square power3_eq_cube)

lemma doubleJacobian_residues:
  fixes x y z :: int
  defines "x3 \<equiv> 9 * x ^ 4 - 8 * x * y ^ 2"
  shows "doubleJacobian c (x, y, z) =
    (x3 mod cP c, (3 * x ^ 2 * (4 * x * y ^ 2 - x3) - 8 * y ^ 4) mod cP c, 2 * y * z mod cP c)"
  unfolding doubleJacobian_def Let_def prod.case prod.inject
proof (intro conjI; rule ceq_mod_eq, (rule ceq_intros | rule ceq_refl)+)
qed (unfold x3_def, simp_all add: algebra_simps power2_eq_square power4_eq_xxxx)

section \<open>Points on the curve\<close>

lemma ceq_sym: "ceq p a b \<Longrightarrow> ceq p b a"
  by (simp add: ceq_def dvd_diff_commute)

lemma ceq_trans [trans]: "ceq p a b \<Longrightarrow> ceq p b c \<Longrightarrow> ceq p a c"
  unfolding ceq_def using dvd_add [of p "a - b" "b - c"] by simp

lemma ceq_eq [trans]: "ceq p a b \<Longrightarrow> b = c \<Longrightarrow> ceq p a c"
  by simp

lemma ceq_power: "ceq p a b \<Longrightarrow> ceq p (a ^ n) (b ^ n)"
  by (induction n) (simp_all add: ceq_refl ceq_mult)

lemma ceq_dvd: "p dvd a - b \<Longrightarrow> ceq p a b"
  by (simp add: ceq_def)

lemma ceq_imp_eq: "ceq p a b \<Longrightarrow> a mod p = b mod p"
  by (simp add: ceq_def mod_eq_dvd_iff)

definition on_jacobian :: "BitCurve \<Rightarrow> jacobian \<Rightarrow> bool" where
  "on_jacobian c p = (let (x, y, z) = p in ceq (cP c) (y ^ 2) (x ^ 3 + cB c * z ^ 6))"

lemma IsOnCurve_ceq: "IsOnCurve c x y \<longleftrightarrow> ceq (cP c) (y ^ 2) (x ^ 3 + cB c)"
  unfolding IsOnCurve_def ceq_def mod_eq_dvd_iff [symmetric] Let_def
  by (auto simp: power2_eq_square power3_eq_cube)

lemma on_jacobian_affine: "on_jacobian c (x, y, 1) \<longleftrightarrow> IsOnCurve c x y"
  by (simp add: on_jacobian_def IsOnCurve_ceq)

lemma affine_point:
  assumes "0 < cP c" "affineFromJacobian c (x, y, z) = CurvePoint x' y'"
  obtains t where "ceq (cP c) (t * z) 1" "x' = x * t ^ 2 mod cP c" "y' = y * t ^ 3 mod cP c"
proof -
  obtain t where t: "mod_inverse z (cP c) = Some t"
    using assms by (auto simp: affineFromJacobian_def split: option.splits)
  with assms have "x' = x * t ^ 2 mod cP c" "y' = y * t ^ 3 mod cP c"
    by (auto simp: affineFromJacobian_def Let_def power2_eq_square power3_eq_cube)
  moreover have "ceq (cP c) (t * z) 1" using mod_inverse_Some [OF assms(1) t] by (rule ceq_dvd)
  ultimately show thesis by (rule that [rotated])
qed

lemma affine_on_curve:
  assumes "0 < cP c" "affineFromJacobian c (x, y, z) = CurvePoint x' y'" "on_jacobian c (x, y, z)"
  shows "IsOnCurve c x' y'"
proof -
  let ?p = "cP c"
  obtain t where t: "ceq ?p (t * z) 1" "x' = x * t ^ 2 mod ?p" "y' = y * t ^ 3 mod ?p"
    using affine_point [OF assms(1,2)] .
  have x: "ceq ?p x' (x * t ^ 2)" and y: "ceq ?p y' (y * t ^ 3)"
    unfolding t by (rule ceq_mod, rule ceq_refl)+
  have "ceq ?p (y' ^ 2) ((y * t ^ 3) ^ 2)" by (rule ceq_power [OF y])
  also have "\<dots> = y ^ 2 * t ^ 6" by (simp add: power_mult_distrib power_mult [symmetric])
  also have "ceq ?p (y ^ 2 * t ^ 6) ((x ^ 3 + cB c * z ^ 6) * t ^ 6)"
    using assms(3) by (intro ceq_mult ceq_refl) (simp add: on_jacobian_def)
  also have "(x ^ 3 + cB c * z ^ 6) * t ^ 6 = (x * t ^ 2) ^ 3 + cB c * (t * z) ^ 6"
    by (simp add: algebra_simps power_mult_distrib power_mult [symmetric])
  also have "ceq ?p \<dots> (x' ^ 3 + cB c * 1 ^ 6)"
    by (intro ceq_add ceq_mult ceq_power ceq_refl ceq_sym [OF x] t(1))
  finally show ?thesis by (simp add: IsOnCurve_ceq)
qed

lemma chord_identity:
  fixes u1 h s1 d w :: int
  defines "x \<equiv> d ^ 2 - h ^ 3 - 2 * u1 * h ^ 2"
  shows "(d * (u1 * h ^ 2 - x) - s1 * h ^ 3) ^ 2 - x ^ 3 - w * h ^ 6 =
    (s1 ^ 2 - u1 ^ 3 - w) * h ^ 6 +
    (((s1 + d) ^ 2 - (u1 + h) ^ 3 - w) - (s1 ^ 2 - u1 ^ 3 - w)) * (x - u1 * h ^ 2) * h ^ 3"
  unfolding x_def by algebra

lemma add_on_curve:
  assumes "on_jacobian c p" "on_jacobian c q"
  shows "on_jacobian c (addJacobian c p q)"
proof -
  obtain x1 y1 z1 x2 y2 z2 where pq: "p = (x1, y1, z1)" "q = (x2, y2, z2)" by (cases p; cases q) auto
  define u1 u2 where "u1 = x1 * (z2 * z2)" and "u2 = x2 * (z1 * z1)"
  define s1 s2 where "s1 = y1 * z2 * (z2 * z2)" and "s2 = y2 * z1 * (z1 * z1)"
  define h d where "h = u2 - u1" and "d = s2 - s1"
  define x where "x = d ^ 2 - h ^ 3 - 2 * u1 * h ^ 2"
  define y where "y = d * (u1 * h ^ 2 - x) - s1 * h ^ 3"
  define w where "w = cB c * (z1 * z2) ^ 6"
  let ?p = "cP c"
  have r: "addJacobian c p q = (4 * x mod ?p, 8 * y mod ?p, 2 * z1 * z2 * h mod ?p)"
    unfolding pq addJacobian_residues u1_def u2_def s1_def s2_def h_def d_def x_def y_def ..
  have "s1 ^ 2 - u1 ^ 3 - w = (y1 ^ 2 - (x1 ^ 3 + cB c * z1 ^ 6)) * z2 ^ 6"
    unfolding s1_def u1_def w_def by algebra
  then have 1: "?p dvd s1 ^ 2 - u1 ^ 3 - w"
    using assms by (simp add: pq on_jacobian_def ceq_def)
  have "s2 ^ 2 - u2 ^ 3 - w = (y2 ^ 2 - (x2 ^ 3 + cB c * z2 ^ 6)) * z1 ^ 6"
    unfolding s2_def u2_def w_def by algebra
  then have 2: "?p dvd s2 ^ 2 - u2 ^ 3 - w"
    using assms by (simp add: pq on_jacobian_def ceq_def)
  have hd: "s2 = s1 + d" "u2 = u1 + h" by (simp_all add: h_def d_def)
  have "?p dvd y ^ 2 - x ^ 3 - w * h ^ 6"
    unfolding y_def x_def chord_identity
    using dvd_add [OF dvd_mult2 [OF 1] dvd_mult2 [OF dvd_mult2 [OF dvd_diff [OF 2 1]]]]
    unfolding hd x_def .
  then have "?p dvd 64 * (y ^ 2 - x ^ 3 - w * h ^ 6)" by (rule dvd_mult)
  moreover have "64 * (y ^ 2 - x ^ 3 - w * h ^ 6) = (8 * y) ^ 2 - ((4 * x) ^ 3 + cB c * (2 * z1 * z2 * h) ^ 6)"
    unfolding w_def by algebra
  ultimately have "ceq ?p ((8 * y) ^ 2) ((4 * x) ^ 3 + cB c * (2 * z1 * z2 * h) ^ 6)"
    by (simp only: ceq_def)
  moreover have "ceq ?p ((8 * y mod ?p) ^ 2) ((8 * y) ^ 2)"
    by (intro ceq_power ceq_mod ceq_refl)
  moreover have "ceq ?p ((4 * x) ^ 3 + cB c * (2 * z1 * z2 * h) ^ 6)
      ((4 * x mod ?p) ^ 3 + cB c * (2 * z1 * z2 * h mod ?p) ^ 6)"
    by (rule ceq_sym) (intro ceq_add ceq_mult ceq_power ceq_mod ceq_refl)
  ultimately have "ceq ?p ((8 * y mod ?p) ^ 2) ((4 * x mod ?p) ^ 3 + cB c * (2 * z1 * z2 * h mod ?p) ^ 6)"
    by (blast intro: ceq_trans)
  then show ?thesis by (simp only: r on_jacobian_def Let_def prod.case)
qed

lemma double_on_curve:
  assumes "on_jacobian c p"
  shows "on_jacobian c (doubleJacobian c p)"
proof -
  obtain x1 y1 z1 where p: "p = (x1, y1, z1)" by (cases p) auto
  define x where "x = 9 * x1 ^ 4 - 8 * x1 * y1 ^ 2"
  define y where "y = 3 * x1 ^ 2 * (4 * x1 * y1 ^ 2 - x) - 8 * y1 ^ 4"
  let ?p = "cP c"
  have r: "doubleJacobian c p = (x mod ?p, y mod ?p, 2 * y1 * z1 mod ?p)"
    unfolding p doubleJacobian_residues x_def y_def ..
  have "y ^ 2 - (x ^ 3 + cB c * (2 * y1 * z1) ^ 6) = 64 * y1 ^ 6 * (y1 ^ 2 - (x1 ^ 3 + cB c * z1 ^ 6))"
    unfolding y_def x_def by algebra
  then have "ceq ?p (y ^ 2) (x ^ 3 + cB c * (2 * y1 * z1) ^ 6)"
    using assms by (simp add: p on_jacobian_def ceq_def)
  moreover have "ceq ?p ((y mod ?p) ^ 2) (y ^ 2)"
    by (intro ceq_power ceq_mod ceq_refl)
  moreover have "ceq ?p (x ^ 3 + cB c * (2 * y1 * z1) ^ 6) ((x mod ?p) ^ 3 + cB c * (2 * y1 * z1 mod ?p) ^ 6)"
    by (rule ceq_sym) (intro ceq_add ceq_mult ceq_power ceq_mod ceq_refl)
  ultimately have "ceq ?p ((y mod ?p) ^ 2) ((x mod ?p) ^ 3 + cB c * (2 * y1 * z1 mod ?p) ^ 6)"
    by (blast intro: ceq_trans)
  then show ?thesis by (simp only: r on_jacobian_def Let_def prod.case)
qed

section \<open>The scalar loop\<close>

text \<open>The bits of a byte from the most significant one, and the step for one bit.\<close>

definition byte_bits :: "byte \<Rightarrow> bool list" where
  "byte_bits b = map (\<lambda>i. bit b (7 - i)) [0..<8]"

definition scalar_step :: "BitCurve \<Rightarrow> jacobian \<Rightarrow> bool \<Rightarrow> bool \<times> jacobian \<Rightarrow> bool \<times> jacobian" where
  "scalar_step c base on s =
     (let (seen, p) = s; p = (if seen then doubleJacobian c p else p)
      in if on then (True, if seen then addJacobian c base p else p) else (seen, p))"

text \<open>The multiple \<open>n\<close> of a point by the binary digits of \<open>n\<close>.\<close>

fun multiple :: "BitCurve \<Rightarrow> jacobian \<Rightarrow> nat \<Rightarrow> jacobian" where
  "multiple c base n =
     (if n \<le> 1 then base
      else let p = doubleJacobian c (multiple c base (n div 2))
           in if odd n then addJacobian c base p else p)"

declare multiple.simps [simp del]

lemma bit_0x80: "bit (0x80 :: byte) i \<longleftrightarrow> i = 7"
proof -
  have e: "(0x80 :: byte) = push_bit 7 1" by simp
  show ?thesis by (subst e, subst bit_push_bit_iff) (auto simp: bit_1_iff)
qed

lemma top_bit: "b AND 0x80 = 0x80 \<longleftrightarrow> bit b 7" for b :: byte
proof
  assume "b AND 0x80 = 0x80"
  then show "bit b 7" by (metis bit_and_iff bit_0x80)
next
  assume "bit b 7"
  then show "b AND 0x80 = 0x80" by (intro bit_eqI) (metis bit_and_iff bit_0x80)
qed

lemma push_bit_shift: "i < 7 \<Longrightarrow> bit (push_bit 1 b) (7 - i) = bit b (7 - Suc i)" for b :: byte
  by (subst bit_push_bit_iff) auto

lemma scalar_bits_fold:
  "n \<le> 8 \<Longrightarrow> scalar_bits c base n b s = fold (scalar_step c base) (map (\<lambda>i. bit b (7 - i)) [0..<n]) s"
proof (induction n arbitrary: b s)
  case (Suc n)
  obtain seen p where s: "s = (seen, p)" by (cases s) auto
  have "scalar_bits c base (Suc n) b s = scalar_bits c base n (push_bit 1 b) (scalar_step c base (bit b 7) s)"
    by (auto simp: s scalar_step_def top_bit Let_def)
  also have "\<dots> = fold (scalar_step c base) (map (\<lambda>i. bit (push_bit 1 b) (7 - i)) [0..<n])
      (scalar_step c base (bit b 7) s)"
    using Suc by simp
  also have "map (\<lambda>i. bit (push_bit 1 b) (7 - i)) [0..<n] = map (\<lambda>i. bit b (7 - Suc i)) [0..<n]"
    by (rule map_cong [OF refl], rule push_bit_shift) (use Suc.prems in auto)
  finally show ?case by (simp add: upt_conv_Cons map_Suc_upt [symmetric] comp_def del: upt_Suc map_Suc_upt)
next
  case 0
  then show ?case by (cases s) simp
qed

lemma scalar_loop_fold:
  "fold (scalar_bits c base 8) k s = fold (scalar_step c base) (concat (map byte_bits k)) s"
  by (induction k arbitrary: s) (simp_all add: scalar_bits_fold byte_bits_def)

definition bits_value :: "bool list \<Rightarrow> nat" where
  "bits_value bs = be_value 2 (map of_bool bs)"

lemma multiple_bit:
  "0 < n \<Longrightarrow> multiple c base (2 * n + of_bool b) =
     (if b then addJacobian c base (doubleJacobian c (multiple c base n))
      else doubleJacobian c (multiple c base n))"
proof -
  assume "0 < n"
  then have "\<not> 2 * n + of_bool b \<le> 1" "(2 * n + of_bool b) div 2 = n" "odd (2 * n + of_bool b) = b"
    by (cases b; simp)+
  then show ?thesis by (subst multiple.simps) (simp only: Let_def if_False)
qed

lemma scalar_step_multiple:
  "fold (scalar_step c base) bs (False, base) = (0 < bits_value bs, multiple c base (bits_value bs))"
proof (induction bs rule: rev_induct)
  case Nil
  then show ?case by (simp add: bits_value_def multiple.simps)
next
  case (snoc b bs)
  define n where "n = bits_value bs"
  have v: "bits_value (bs @ [b]) = 2 * n + of_bool b" by (simp add: bits_value_def n_def)
  have f: "fold (scalar_step c base) (bs @ [b]) (False, base) = scalar_step c base b (0 < n, multiple c base n)"
    using snoc by (simp add: n_def)
  show ?case
  proof (cases "n = 0")
    case True
    then show ?thesis
      unfolding f v by (cases b) (simp_all add: scalar_step_def multiple.simps [of _ _ 0] multiple.simps [of _ _ "Suc 0"])
  next
    case False
    then show ?thesis
      unfolding f v by (simp add: multiple_bit scalar_step_def Let_def)
  qed
qed

lemma be_value_concat:
  "(\<And>x. x \<in> set xs \<Longrightarrow> length (f x) = k \<and> be_value b (f x) = g x) \<Longrightarrow>
   be_value b (concat (map f xs)) = be_value (b ^ k) (map g xs)"
proof (induction xs)
  case (Cons x xs)
  have "length (concat (map f xs)) = k * length xs"
    using Cons.prems by (induction xs) auto
  with Cons show ?case by (simp add: be_value_append be_value_Cons power_mult)
qed simp

lemma byte_bits_value: "be_value 2 (map of_bool (byte_bits b)) = unat b"
proof -
  have "be_value 2 (map (\<lambda>i. of_bool (bit v i)) (rev [0..<n])) = v mod 2 ^ n" for v n :: nat
  proof (induction n)
    case (Suc n)
    have "v mod 2 ^ Suc n = of_bool (bit v n) * 2 ^ n + v mod 2 ^ n"
      using mod_mult2_eq [of v "2 ^ n" 2] by (simp add: bit_iff_odd mod_2_eq_odd mult.commute)
    with Suc show ?case by (simp add: be_value_Cons)
  qed simp
  from this [of "unat b" 8] have "be_value 2 (map (\<lambda>i. of_bool (bit (unat b) i)) (rev [0..<8])) = unat b"
    using unat_byte_less [of b] by simp
  moreover have "map of_bool (byte_bits b) = map (\<lambda>i. of_bool (bit (unat b) i) :: nat) (rev [0..<8])"
    by (intro nth_equalityI) (simp_all add: byte_bits_def rev_nth bit_unsigned_iff del: upt_Suc)
  ultimately show ?thesis by simp
qed

lemma bits_value_bytes: "bits_value (concat (map byte_bits k)) = nat (big_set_bytes k)"
proof -
  have "bits_value (concat (map byte_bits k)) = be_value 2 (concat (map (\<lambda>b. map of_bool (byte_bits b)) k))"
    by (simp add: bits_value_def map_concat comp_def)
  also have "\<dots> = be_value (2 ^ 8) (map unat k)"
    by (rule be_value_concat) (simp add: byte_bits_value, simp add: byte_bits_def)
  finally show ?thesis by (simp add: big_set_bytes_def)
qed

lemma ScalarMult_aux:
  "ScalarMult c Bx By k =
     (if big_set_bytes k = 0 then CurveNil
      else affineFromJacobian c (multiple c (Bx, By, 1) (nat (big_set_bytes k))))"
proof -
  have "0 < nat (big_set_bytes k) \<longleftrightarrow> big_set_bytes k \<noteq> 0"
    using big_set_bytes_nonneg [of k] by linarith
  then show ?thesis
    by (simp only: ScalarMult_def scalar_loop_fold scalar_step_multiple bits_value_bytes Let_def
        prod.case if_not_P simp_thms)
qed

lemma multiple_on_curve: "on_jacobian c base \<Longrightarrow> on_jacobian c (multiple c base n)"
proof (induction n rule: less_induct)
  case (less n)
  show ?case
  proof (cases "n \<le> 1")
    case True
    with less show ?thesis by (subst multiple.simps) simp
  next
    case False
    with less have "on_jacobian c (multiple c base (n div 2))" by simp
    with less False show ?thesis
      by (subst multiple.simps) (simp add: Let_def add_on_curve double_on_curve)
  qed
qed

section \<open>The affine formulas\<close>

lemma ceq_one_mult: "ceq p u 1 \<Longrightarrow> ceq p a (a * u ^ n)"
  using ceq_sym [OF ceq_mult [OF ceq_refl [of p a] ceq_power [of p u 1 n]]] by simp

lemma Add_chord_aux:
  assumes "0 < cP c" "curve_Add c x1 y1 x2 y2 = CurvePoint x y" "ceq (cP c) (l * (x2 - x1)) (y2 - y1)"
  shows "ceq (cP c) x (l ^ 2 - x1 - x2)" "ceq (cP c) y (l * (x1 - x) - y1)"
proof -
  let ?p = "cP c"
  define h d where "h = x2 - x1" and "d = y2 - y1"
  define X where "X = d ^ 2 - h ^ 3 - 2 * x1 * h ^ 2"
  define Y where "Y = 8 * (d * (x1 * h ^ 2 - X) - y1 * h ^ 3)"
  have "addJacobian c (x1, y1, 1) (x2, y2, 1) = (4 * X mod ?p, Y mod ?p, 2 * h mod ?p)"
    using addJacobian_residues [of c x1 y1 1 x2 y2 1] by (simp add: X_def Y_def h_def d_def)
  with assms(2) have A: "affineFromJacobian c (4 * X mod ?p, Y mod ?p, 2 * h mod ?p) = CurvePoint x y"
    by (simp add: curve_Add_def)
  obtain t where t: "ceq ?p (t * (2 * h mod ?p)) 1" "x = 4 * X mod ?p * t ^ 2 mod ?p" "y = Y mod ?p * t ^ 3 mod ?p"
    using affine_point [OF assms(1) A] .
  have u: "ceq ?p (t * (2 * h)) 1"
    by (rule ceq_trans [OF ceq_sym t(1)]) (intro ceq_mult ceq_mod ceq_refl)
  have x: "ceq ?p x (4 * X * t ^ 2)" unfolding t by (intro ceq_mod ceq_mult ceq_refl)
  have y: "ceq ?p y (Y * t ^ 3)" unfolding t by (intro ceq_mod ceq_mult ceq_refl)
  have "ceq ?p l (l * (t * (2 * h)))" using ceq_one_mult [OF u, of l 1] by simp
  also have "\<dots> = 2 * t * (l * h)" by simp
  also have "ceq ?p \<dots> (2 * t * d)" using assms(3) unfolding h_def d_def by (intro ceq_mult ceq_refl)
  finally have l: "ceq ?p l (2 * t * d)" .
  have "ceq ?p (l ^ 2 - x1 - x2) ((2 * t * d) ^ 2 - x1 * (t * (2 * h)) ^ 2 - x2 * (t * (2 * h)) ^ 2)"
    by (intro ceq_diff ceq_power l ceq_one_mult u)
  also have "\<dots> = 4 * X * t ^ 2" unfolding X_def h_def by algebra
  finally show "ceq ?p x (l ^ 2 - x1 - x2)" using x by (blast intro: ceq_trans ceq_sym)
  have "ceq ?p (l * (x1 - x) - y1)
      (2 * t * d * (x1 * (t * (2 * h)) ^ 2 - 4 * X * t ^ 2) - y1 * (t * (2 * h)) ^ 3)"
    by (intro ceq_diff ceq_mult l ceq_one_mult u x)
  also have "\<dots> = Y * t ^ 3" unfolding Y_def by algebra
  finally show "ceq ?p y (l * (x1 - x) - y1)" using y by (blast intro: ceq_trans ceq_sym)
qed

lemma Double_tangent_aux:
  assumes "0 < cP c" "curve_Double c x1 y1 = CurvePoint x y" "ceq (cP c) (l * (2 * y1)) (3 * x1 ^ 2)"
  shows "ceq (cP c) x (l ^ 2 - 2 * x1)" "ceq (cP c) y (l * (x1 - x) - y1)"
proof -
  let ?p = "cP c"
  define X where "X = 9 * x1 ^ 4 - 8 * x1 * y1 ^ 2"
  define Y where "Y = 3 * x1 ^ 2 * (4 * x1 * y1 ^ 2 - X) - 8 * y1 ^ 4"
  have "doubleJacobian c (x1, y1, 1) = (X mod ?p, Y mod ?p, 2 * y1 mod ?p)"
    using doubleJacobian_residues [of c x1 y1 1] by (simp add: X_def Y_def)
  with assms(2) have A: "affineFromJacobian c (X mod ?p, Y mod ?p, 2 * y1 mod ?p) = CurvePoint x y"
    by (simp add: curve_Double_def)
  obtain t where t: "ceq ?p (t * (2 * y1 mod ?p)) 1" "x = X mod ?p * t ^ 2 mod ?p" "y = Y mod ?p * t ^ 3 mod ?p"
    using affine_point [OF assms(1) A] .
  have u: "ceq ?p (t * (2 * y1)) 1"
    by (rule ceq_trans [OF ceq_sym t(1)]) (intro ceq_mult ceq_mod ceq_refl)
  have x: "ceq ?p x (X * t ^ 2)" unfolding t by (intro ceq_mod ceq_mult ceq_refl)
  have y: "ceq ?p y (Y * t ^ 3)" unfolding t by (intro ceq_mod ceq_mult ceq_refl)
  have "ceq ?p l (l * (t * (2 * y1)))" using ceq_one_mult [OF u, of l 1] by simp
  also have "\<dots> = t * (l * (2 * y1))" by simp
  also have "ceq ?p \<dots> (t * (3 * x1 ^ 2))" by (rule ceq_mult [OF ceq_refl assms(3)])
  finally have l: "ceq ?p l (t * (3 * x1 ^ 2))" .
  have "ceq ?p (l ^ 2 - 2 * x1) ((t * (3 * x1 ^ 2)) ^ 2 - 2 * x1 * (t * (2 * y1)) ^ 2)"
    by (intro ceq_diff ceq_power l ceq_one_mult u)
  also have "\<dots> = X * t ^ 2" unfolding X_def by algebra
  finally show "ceq ?p x (l ^ 2 - 2 * x1)" using x by (blast intro: ceq_trans ceq_sym)
  have "ceq ?p (l * (x1 - x) - y1)
      (t * (3 * x1 ^ 2) * (x1 * (t * (2 * y1)) ^ 2 - X * t ^ 2) - y1 * (t * (2 * y1)) ^ 3)"
    by (intro ceq_diff ceq_mult l ceq_one_mult u x)
  also have "\<dots> = Y * t ^ 3" unfolding Y_def by algebra
  finally show "ceq ?p y (l * (x1 - x) - y1)" using y by (blast intro: ceq_trans ceq_sym)
qed

lemma affine_reduced: "0 < cP c \<Longrightarrow> affineFromJacobian c p = CurvePoint x y \<Longrightarrow> x mod cP c = x \<and> y mod cP c = y"
  by (cases p) (auto elim!: affine_point)

lemma affine_panic_iff: "0 < cP c \<Longrightarrow> affineFromJacobian c (x, y, z) = CurvePanic \<longleftrightarrow> gcd z (cP c) \<noteq> 1"
  using mod_inverse_None_iff [of "cP c" z]
  by (auto simp: affineFromJacobian_def Let_def split: option.splits)

lemma affine_not_nil: "affineFromJacobian c p \<noteq> CurveNil"
  by (cases p) (auto simp: affineFromJacobian_def Let_def split: option.splits)

lemma Add_panic_aux: "0 < cP c \<Longrightarrow> curve_Add c x1 y1 x2 y2 = CurvePanic \<longleftrightarrow> gcd (2 * (x2 - x1)) (cP c) \<noteq> 1"
  using addJacobian_residues [of c x1 y1 1 x2 y2 1]
  by (simp add: curve_Add_def affine_panic_iff gcd.commute [of _ "cP c"] gcd_red_int [symmetric])

lemma Double_panic_aux: "0 < cP c \<Longrightarrow> curve_Double c x y = CurvePanic \<longleftrightarrow> gcd (2 * y) (cP c) \<noteq> 1"
  using doubleJacobian_residues [of c x y 1]
  by (simp add: curve_Double_def affine_panic_iff gcd.commute [of _ "cP c"] gcd_red_int [symmetric])

lemma curve_S160_generator: "IsOnCurve curve_S160 (cGx curve_S160) (cGy curve_S160)"
  unfolding IsOnCurve_ceq ceq_def
  by (rule dvdI [where k = "- 0x32e77eef8fc433bfaefa1f0769611437e5e5dc4d680e4bef27fe30206f40d4f9017153290e9c1e2"])
     (simp add: curve_S160_def power2_eq_square power3_eq_cube)

lemma curve_S192_generator: "IsOnCurve curve_S192 (cGx curve_S192) (cGy curve_S192)"
  unfolding IsOnCurve_ceq ceq_def
  by (rule dvdI [where k = "- 0xa0f4e5ba9409aedab5e56107b2723ac7ab4a930d106a6b18441155521d944e568d39c63a89a12c3a8b554ff141797659"])
     (simp add: curve_S192_def power2_eq_square power3_eq_cube)

lemma curve_S224_generator: "IsOnCurve curve_S224 (cGx curve_S224) (cGy curve_S224)"
  unfolding IsOnCurve_ceq ceq_def
  by (rule dvdI [where k = "- 0x4000503ef2709b546e33c4a3bd756ccb2ed7148e18ca35b5e0ecc638e816357b52e99e29301145d4b22b3f43007eb5c846c5f19e62477b9c"])
     (simp add: curve_S224_def power2_eq_square power3_eq_cube)

lemma curve_S256_generator: "IsOnCurve curve_S256 (cGx curve_S256) (cGy curve_S256)"
  unfolding IsOnCurve_ceq ceq_def
  by (rule dvdI [where k = "- 0x1b888e01a06e974017a28a5b4da436169761c9730b7aeedf75fc60f6a33cfc7792fe74711f025d590b10e57f1b3a7ce38ffc4c885c515894b45c19c9f413e5e9"])
     (simp add: curve_S256_def power2_eq_square power3_eq_cube)

section \<open>Keys and serialisation\<close>

lemma big_set_bytes_mask:
  assumes "priv = buf[0 := buf ! 0 AND mask_bytes ! (s mod 8)]" "2 \<le> length buf" "length buf = (s + 7) div 8"
  shows "unat (priv ! 0) * 256 ^ (length buf - 1) < 2 ^ s \<and> unat (priv ! 0) < 2 ^ (s - 8 * (length buf - 1))"
proof -
  define r where "r = s mod 8"
  have r: "r < 8" by (simp add: r_def)
  define n where "n = length buf - 1"
  have s: "s = 8 * n + (if r = 0 then 8 else r)"
  proof -
    obtain k where k: "s = 8 * k + r" using mult_div_mod_eq [of 8 s, symmetric] unfolding r_def by blast
    have "(8 * k + r + 7) div 8 = k + (r + 7) div 8"
      using div_mult_self4 [of 8 k "r + 7"] by (simp add: add.assoc)
    then have "length buf = k + (r + 7) div 8" using assms(3) k by (simp add: add.assoc)
    moreover have "(r + 7) div 8 = (if r = 0 then 0 else 1)" using r by auto
    ultimately show ?thesis using k assms(2) by (auto simp: n_def)
  qed
  have m: "mask_bytes ! r = mask (if r = 0 then 8 else r)"
  proof -
    have "r \<in> {0, 1, 2, 3, 4, 5, 6, 7}" using r by auto
    then show ?thesis by (elim insertE) (simp_all add: mask_bytes_def mask_eq_exp_minus_1)
  qed
  have "priv ! 0 = take_bit (if r = 0 then 8 else r) (buf ! 0)"
  proof -
    have "0 < length buf" using assms(2) by linarith
    with assms(1) have "priv ! 0 = buf ! 0 AND mask_bytes ! r" by (simp add: r_def)
    with m show ?thesis by (simp add: take_bit_eq_mask)
  qed
  then have "unat (priv ! 0) = take_bit (if r = 0 then 8 else r) (unat (buf ! 0))"
    by (simp add: unsigned_take_bit_eq)
  then have b: "unat (priv ! 0) < 2 ^ (if r = 0 then 8 else r)" by (simp add: take_bit_nat_less_exp)
  have "unat (priv ! 0) * 256 ^ n < 2 ^ (if r = 0 then 8 else r) * 256 ^ n"
    using b by (intro mult_strict_right_mono) simp_all
  also have "\<dots> = 2 ^ s" unfolding s by (simp add: power_add power_mult)
  finally show ?thesis using b s by (simp add: n_def)
qed

lemma be_bytes_less_bits:
  assumes "priv \<noteq> []" "unat (priv ! 0) < 2 ^ r"
  shows "big_set_bytes priv < 2 ^ (r + 8 * (length priv - 1))"
proof -
  obtain b bs where p: "priv = b # bs" using assms by (cases priv) auto
  have "be_value 256 (map unat bs) < 256 ^ length (map unat bs)"
    by (rule be_value_less) auto
  then have "be_value 256 (map unat priv) < Suc (unat b) * 256 ^ length bs"
    by (simp add: p be_value_Cons)
  also have "\<dots> \<le> 2 ^ r * 256 ^ length bs"
    using assms(2) p by (intro mult_right_mono) simp_all
  also have "\<dots> = 2 ^ (r + 8 * (length priv - 1))" by (simp add: p power_add power_mult)
  finally have "int (be_value 256 (map unat priv)) < int (2 ^ (r + 8 * (length priv - 1)))"
    by (simp only: of_nat_less_iff)
  then show ?thesis by (simp add: big_set_bytes_def)
qed

lemma GenerateKey_result:
  "GenerateKey c reads = Key priv x y \<Longrightarrow>
   \<exists>buf. Inr buf \<in> set reads \<and> 2 \<le> length buf \<and> ScalarBaseMult c priv = CurvePoint x y \<and>
     priv = (buf[0 := buf ! 0 AND mask_bytes ! (cBitSize c mod 8)])[1 :=
       buf[0 := buf ! 0 AND mask_bytes ! (cBitSize c mod 8)] ! 1 XOR 0x42]"
proof (induction c reads rule: GenerateKey.induct)
  case (3 c buf reads)
  show ?case
  proof (cases "length buf < 2")
    case False
    with 3 show ?thesis by (auto simp: Let_def split: curve_result.splits)
  qed (use 3 in simp)
qed simp_all

lemma point_of_affine:
  "affineFromJacobian c p = CurvePoint x y \<Longrightarrow> 0 < cP c \<Longrightarrow> on_jacobian c p \<Longrightarrow> IsOnCurve c x y"
  by (cases p) (auto intro: affine_on_curve)

lemma ScalarMult_on_curve_aux:
  assumes "0 < cP c" "IsOnCurve c Bx By" "ScalarMult c Bx By k = CurvePoint x y"
  shows "IsOnCurve c x y"
  using assms multiple_on_curve [of c "(Bx, By, 1)"]
  by (auto simp: ScalarMult_aux on_jacobian_affine split: if_splits intro: point_of_affine)

section \<open>Properties\<close>

text \<open>
  C15. \<open>Add\<close> computes the chord rule: whenever it returns a point, for the slope \<open>l\<close> of the line
  through the arguments modulo the field order, the result is the third point of the line reflected;
  it lies on the curve when both arguments do. It panics exactly when the difference of the
  abscissae has no inverse, so adding a point to itself always panics.
\<close>

theorem curve_Add_chord:
  assumes "1 < cP c"
  shows "(curve_Add c x1 y1 x2 y2 = CurvePoint x y \<and> (l * (x2 - x1)) mod cP c = (y2 - y1) mod cP c \<longrightarrow>
            x = (l ^ 2 - x1 - x2) mod cP c \<and> y = (l * (x1 - x) - y1) mod cP c) \<and>
         (curve_Add c x1 y1 x2 y2 = CurvePoint x y \<and> IsOnCurve c x1 y1 \<and> IsOnCurve c x2 y2 \<longrightarrow>
            IsOnCurve c x y) \<and>
         (curve_Add c x1 y1 x2 y2 = CurvePanic \<longleftrightarrow> gcd (2 * (x2 - x1)) (cP c) \<noteq> 1) \<and>
         curve_Add c x1 y1 x1 y1 = CurvePanic"
proof (intro conjI impI)
  have p: "0 < cP c" using assms by simp
  assume a: "curve_Add c x1 y1 x2 y2 = CurvePoint x y \<and> (l * (x2 - x1)) mod cP c = (y2 - y1) mod cP c"
  then have c: "ceq (cP c) (l * (x2 - x1)) (y2 - y1)" by (simp add: ceq_def mod_eq_dvd_iff)
  have "x mod cP c = x \<and> y mod cP c = y" using a p by (auto simp: curve_Add_def dest: affine_reduced)
  then show "x = (l ^ 2 - x1 - x2) mod cP c" "y = (l * (x1 - x) - y1) mod cP c"
    using Add_chord_aux [OF p conjunct1 [OF a] c] by (auto dest!: ceq_imp_eq)
next
  assume "curve_Add c x1 y1 x2 y2 = CurvePoint x y \<and> IsOnCurve c x1 y1 \<and> IsOnCurve c x2 y2"
  with assms show "IsOnCurve c x y"
    by (auto simp: curve_Add_def on_jacobian_affine intro!: point_of_affine add_on_curve)
next
  show "curve_Add c x1 y1 x2 y2 = CurvePanic \<longleftrightarrow> gcd (2 * (x2 - x1)) (cP c) \<noteq> 1"
    "curve_Add c x1 y1 x1 y1 = CurvePanic"
    using assms by (simp_all add: Add_panic_aux)
qed

theorem curve_Add_chord_witness: "curve_Add curve_S256 1 2 1 2 = CurvePanic"
  using curve_Add_chord [of curve_S256 1 2 1 2 0 0 0] by (simp add: curve_S256_def)

text \<open>
  \<open>Double\<close> computes the tangent rule, keeps points on the curve, and panics exactly when twice
  the ordinate has no inverse.
\<close>

theorem curve_Double_tangent:
  assumes "1 < cP c"
  shows "(curve_Double c x1 y1 = CurvePoint x y \<and> (l * (2 * y1)) mod cP c = (3 * x1 ^ 2) mod cP c \<longrightarrow>
            x = (l ^ 2 - 2 * x1) mod cP c \<and> y = (l * (x1 - x) - y1) mod cP c) \<and>
         (curve_Double c x1 y1 = CurvePoint x y \<and> IsOnCurve c x1 y1 \<longrightarrow> IsOnCurve c x y) \<and>
         (curve_Double c x1 y1 = CurvePanic \<longleftrightarrow> gcd (2 * y1) (cP c) \<noteq> 1)"
proof (intro conjI impI)
  have p: "0 < cP c" using assms by simp
  assume a: "curve_Double c x1 y1 = CurvePoint x y \<and> (l * (2 * y1)) mod cP c = (3 * x1 ^ 2) mod cP c"
  then have c: "ceq (cP c) (l * (2 * y1)) (3 * x1 ^ 2)" by (simp add: ceq_def mod_eq_dvd_iff)
  have "x mod cP c = x \<and> y mod cP c = y" using a p by (auto simp: curve_Double_def dest: affine_reduced)
  then show "x = (l ^ 2 - 2 * x1) mod cP c" "y = (l * (x1 - x) - y1) mod cP c"
    using Double_tangent_aux [OF p conjunct1 [OF a] c] by (auto dest!: ceq_imp_eq)
next
  assume "curve_Double c x1 y1 = CurvePoint x y \<and> IsOnCurve c x1 y1"
  with assms show "IsOnCurve c x y"
    by (auto simp: curve_Double_def on_jacobian_affine intro!: point_of_affine double_on_curve)
next
  show "curve_Double c x1 y1 = CurvePanic \<longleftrightarrow> gcd (2 * y1) (cP c) \<noteq> 1"
    using assms by (simp add: Double_panic_aux)
qed

theorem curve_Double_tangent_witness: "curve_Double curve_S256 1 0 = CurvePanic"
  using curve_Double_tangent [of curve_S256 1 0 0 0 0] by (simp add: curve_S256_def)

text \<open>
  C5. \<open>ScalarMult\<close> depends only on the number its bytes write in big-endian form, leading zeros
  included: it is nil for zero and otherwise the multiple by the binary digits of the number, taken
  to affine form. A point it returns for a point of the curve lies on the curve.
\<close>

theorem ScalarMult_multiple:
  assumes "0 < cP c"
  shows "ScalarMult c Bx By k =
           (if big_set_bytes k = 0 then CurveNil
            else affineFromJacobian c (multiple c (Bx, By, 1) (nat (big_set_bytes k)))) \<and>
         (ScalarMult c Bx By k = CurvePoint x y \<and> IsOnCurve c Bx By \<longrightarrow> IsOnCurve c x y)"
  using ScalarMult_aux [of c Bx By k] ScalarMult_on_curve_aux [OF assms, of Bx By k x y] by blast

theorem ScalarMult_multiple_witness: "ScalarMult curve_S256 1 2 [0, 0] = CurveNil"
proof -
  have "big_set_bytes [0, 0] = 0" by (simp add: big_set_bytes_def be_value_Cons)
  then show ?thesis
    using ScalarMult_multiple [of curve_S256 1 2 "[0, 0]" 0 0] by (simp add: curve_S256_def)
qed

text \<open>
  A generated key is a number of at most \<open>BitSize\<close> bits on as many bytes as the reader was asked
  for, its point is the multiple of the base point, and it lies on the curve when the base point does.
\<close>

theorem GenerateKey_sound:
  assumes "0 < cP c" "IsOnCurve c (cGx c) (cGy c)"
    and "\<And>buf. Inr buf \<in> set reads \<Longrightarrow> length buf = byteLen c"
    and "GenerateKey c reads = Key priv x y"
  shows "length priv = byteLen c \<and> big_set_bytes priv < 2 ^ cBitSize c \<and>
         ScalarBaseMult c priv = CurvePoint x y \<and> IsOnCurve c x y"
proof -
  obtain buf where b: "Inr buf \<in> set reads" "2 \<le> length buf" "ScalarBaseMult c priv = CurvePoint x y"
    "priv = (buf[0 := buf ! 0 AND mask_bytes ! (cBitSize c mod 8)])[1 :=
       buf[0 := buf ! 0 AND mask_bytes ! (cBitSize c mod 8)] ! 1 XOR 0x42]"
    using GenerateKey_result [OF assms(4)] by blast
  define p0 where "p0 = buf[0 := buf ! 0 AND mask_bytes ! (cBitSize c mod 8)]"
  have len: "length buf = (cBitSize c + 7) div 8" using assms(3) [OF b(1)] by (simp add: byteLen_def)
  have "priv ! 0 = p0 ! 0" "length priv = length buf" "priv \<noteq> []"
    using b(2,4) by (auto simp: p0_def)
  moreover from big_set_bytes_mask [OF p0_def b(2) len]
  have "unat (p0 ! 0) < 2 ^ (cBitSize c - 8 * (length buf - 1))" by blast
  moreover have "cBitSize c - 8 * (length buf - 1) + 8 * (length buf - 1) = cBitSize c"
    using len b(2) by linarith
  ultimately have "big_set_bytes priv < 2 ^ cBitSize c"
    using be_bytes_less_bits [of priv "cBitSize c - 8 * (length buf - 1)"] by simp
  moreover have "IsOnCurve c x y"
    using ScalarMult_on_curve_aux [OF assms(1,2)] b(3) by (simp add: ScalarBaseMult_def)
  ultimately show ?thesis using b(3) len \<open>length priv = length buf\<close> by (simp add: byteLen_def)
qed

theorem GenerateKey_sound_witness:
  "\<exists>priv x y. GenerateKey \<lparr>cP = 7, cN = 7, cB = 0, cGx = 1, cGy = 1, cBitSize = 16\<rparr> [Inr [0, 0x43] :: string + byte list]
     = Key priv x y \<and> big_set_bytes priv < 2 ^ 16"
proof -
  let ?c = "\<lparr>cP = 7, cN = 7, cB = 0, cGx = 1, cGy = 1, cBitSize = 16\<rparr> :: BitCurve"
  have k: "GenerateKey ?c [Inr [0, 0x43] :: string + byte list] = Key [0, 1] 1 1" by code_simp
  have c: "IsOnCurve ?c (cGx ?c) (cGy ?c)" by code_simp
  show ?thesis
    using GenerateKey_sound [OF _ c _ k] k by (auto simp: byteLen_def)
qed

text \<open>
  Serialisation: points with coordinates that fit in \<open>byteLen\<close> bytes marshal to the tag 4 and
  two full-width coordinates and unmarshal to themselves; \<open>Unmarshal\<close> refuses every other length
  and every other tag.
\<close>

theorem curve_Marshal_roundtrip:
  assumes "0 \<le> x" "x < 256 ^ byteLen c" "0 \<le> y" "y < 256 ^ byteLen c"
  shows "\<exists>data. curve_Marshal c x y = Some data \<and> length data = 1 + 2 * byteLen c \<and> data ! 0 = 4 \<and>
           curve_Unmarshal c data = Some (x, y) \<and>
           (\<forall>bad. curve_Unmarshal c bad \<noteq> None \<longrightarrow> length bad = length data \<and> bad ! 0 = data ! 0)"
proof -
  define n where "n = byteLen c"
  define xb yb where "xb = big_bytes x" and "yb = big_bytes y"
  have l: "length xb \<le> n" "length yb \<le> n"
    using assms length_big_bytes [of x n] length_big_bytes [of y n] by (simp_all add: xb_def yb_def n_def)
  define ret0 where "ret0 = (replicate (1 + 2 * n) 0)[0 := 4 :: byte]"
  have r0: "ret0 = 4 # replicate (2 * n) 0" by (simp add: ret0_def)
  define X where "X = replicate (n - length xb) 0 @ xb"
  define Y where "Y = replicate (n - length yb) 0 @ yb"
  have r1: "go_copy_at ret0 (1 + n - length xb) xb = 4 # X @ replicate n 0"
  proof -
    have "n - length xb \<le> 2 * n" by linarith
    then show ?thesis
      using l(1) by (simp add: go_copy_at_def go_copy_def r0 X_def Suc_diff_le take_Cons' min_def)
  qed
  have r2: "go_copy_at (4 # X @ replicate n 0) (1 + 2 * n - length yb) yb = 4 # X @ Y"
  proof -
    have "1 + 2 * n - length yb = Suc (n + (n - length yb))" using l(2) by simp
    moreover have "length X = n" using l(1) by (simp add: X_def)
    ultimately show ?thesis using l(2) by (simp add: go_copy_at_def go_copy_def Y_def min_def)
  qed
  have "curve_Marshal c x y = Some (4 # X @ Y)"
    using l r1 [unfolded r0] r2
    by (simp add: curve_Marshal_def n_def [symmetric] xb_def [symmetric] yb_def [symmetric] Let_def)
  moreover have "length X = n" "length Y = n" using l by (simp_all add: X_def Y_def)
  moreover have "curve_Unmarshal c (4 # X @ Y) = Some (x, y)"
    using assms \<open>length X = n\<close> \<open>length Y = n\<close>
    by (simp add: curve_Unmarshal_def n_def [symmetric] Let_def) (simp add: X_def Y_def xb_def yb_def)
  ultimately show ?thesis
    by (intro exI [of _ "4 # X @ Y"]) (auto simp: n_def curve_Unmarshal_def Let_def split: if_splits)
qed

theorem curve_Marshal_roundtrip_witness:
  "\<exists>data. curve_Marshal curve_S256 1 2 = Some data \<and> curve_Unmarshal curve_S256 data = Some (1, 2)"
  using curve_Marshal_roundtrip [of 1 curve_S256 2] by (auto simp: byteLen_def curve_S256_def)

text \<open>
  The four named curves are well formed: the base point satisfies the equation, the field order
  has exactly \<open>BitSize\<close> bits, the coordinates are reduced, and the base point survives serialisation.
\<close>

theorem named_curves_ok:
  "list_all (\<lambda>c. IsOnCurve c (cGx c) (cGy c) \<and> 2 ^ (cBitSize c - 1) < cP c \<and> cP c < 2 ^ cBitSize c \<and>
       0 < cGx c \<and> cGx c < cP c \<and> 0 < cGy c \<and> cGy c < cP c \<and> 8 * byteLen c = cBitSize c)
     [curve_S160, curve_S192, curve_S224, curve_S256]"
  using curve_S160_generator curve_S192_generator curve_S224_generator curve_S256_generator
  by (simp add: byteLen_def) (simp add: curve_S160_def curve_S192_def curve_S224_def curve_S256_def)

end
