(* ===== verification/Mnemonic_Distinct.thy ===== *)
theory Mnemonic_Distinct
  imports Mnemonic_Words
begin

text \<open>
  The 1626 mnemonic words are pairwise different. Each piece of the list is sorted by a checking
  merge sort on integer keys of the words, whose sorted result is stated, and the sorted pieces are
  compared pairwise.
\<close>

section \<open>Keys and the checking merge sort\<close>

text \<open>The key of a word: five bits per letter after a leading one.\<close>

fun push_char :: "num \<Rightarrow> char \<Rightarrow> num" where
  "push_char n (Char b0 b1 b2 b3 b4 b5 b6 b7) =
     fold (\<lambda>b n. if b then num.Bit1 n else num.Bit0 n) [b4, b3, b2, b1, b0] n"

definition word_key :: "string \<Rightarrow> int" where
  "word_key w = numeral (foldl push_char num.One w)"

fun merge_keys :: "int list \<Rightarrow> int list \<Rightarrow> int list option" where
  "merge_keys [] ys = Some ys"
| "merge_keys (x # xs) [] = Some (x # xs)"
| "merge_keys (x # xs) (y # ys) =
     (if x < y then map_option (Cons x) (merge_keys xs (y # ys))
      else if y < x then map_option (Cons y) (merge_keys (x # xs) ys)
      else None)"

fun merge_pairs :: "int list list \<Rightarrow> int list list option" where
  "merge_pairs [] = Some []"
| "merge_pairs [xs] = Some [xs]"
| "merge_pairs (xs # ys # zs) =
     (case (merge_keys xs ys, merge_pairs zs) of
        (Some m, Some ms) \<Rightarrow> Some (m # ms)
      | _ \<Rightarrow> None)"

lemma merge_keys_spec:
  "merge_keys xs ys = Some zs \<Longrightarrow> sorted_wrt (<) xs \<Longrightarrow> sorted_wrt (<) ys \<Longrightarrow>
   sorted_wrt (<) zs \<and> set zs = set xs \<union> set ys \<and> length zs = length xs + length ys"
proof (induction xs ys arbitrary: zs rule: merge_keys.induct)
  case (3 x xs y ys)
  have sx: "sorted_wrt (<) xs" "\<forall>a \<in> set xs. x < a" and sy: "sorted_wrt (<) ys" "\<forall>a \<in> set ys. y < a"
    using "3.prems" by simp_all
  consider "x < y" | "y < x" | "x = y" by (cases x y rule: linorder_cases)
  then show ?case
  proof cases
    case 1
    with "3.prems"(1) obtain zs' where z: "merge_keys xs (y # ys) = Some zs'" "zs = x # zs'" by auto
    from "3.IH"(1) [OF 1 z(1) sx(1) "3.prems"(3)]
    have r: "sorted_wrt (<) zs'" "set zs' = set xs \<union> set (y # ys)" "length zs' = length xs + length (y # ys)"
      by blast+
    have "\<forall>a \<in> set zs'. x < a" unfolding r(2) using sx(2) sy(2) 1 by (auto intro: less_trans)
    with r show ?thesis unfolding z(2) by auto
  next
    case 2
    then have n: "\<not> x < y" by simp
    with 2 "3.prems"(1) obtain zs' where z: "merge_keys (x # xs) ys = Some zs'" "zs = y # zs'" by auto
    from "3.IH"(2) [OF n 2 z(1) "3.prems"(2) sy(1)]
    have r: "sorted_wrt (<) zs'" "set zs' = set (x # xs) \<union> set ys" "length zs' = length (x # xs) + length ys"
      by blast+
    have "\<forall>a \<in> set zs'. y < a" unfolding r(2) using sx(2) sy(2) 2 by (auto intro: less_trans)
    with r show ?thesis unfolding z(2) by auto
  next
    case 3
    with "3.prems"(1) show ?thesis by simp
  qed
qed auto

lemma merge_pairs_spec:
  "merge_pairs xss = Some yss \<Longrightarrow> \<forall>xs \<in> set xss. sorted_wrt (<) xs \<Longrightarrow>
   (\<forall>ys \<in> set yss. sorted_wrt (<) ys) \<and> set (concat yss) = set (concat xss) \<and>
   length (concat yss) = length (concat xss)"
proof (induction xss arbitrary: yss rule: merge_pairs.induct)
  case (3 xs ys zs)
  then obtain m ms where m: "merge_keys xs ys = Some m" "merge_pairs zs = Some ms" "yss = m # ms"
    by (auto split: option.splits)
  with 3 merge_keys_spec [OF m(1)] show ?case by auto
qed auto

fun merge_rounds :: "nat \<Rightarrow> int list list \<Rightarrow> int list list option" where
  "merge_rounds 0 xss = Some xss"
| "merge_rounds (Suc k) xss = (case merge_pairs xss of None \<Rightarrow> None | Some yss \<Rightarrow> merge_rounds k yss)"

lemma merge_rounds_spec:
  "merge_rounds k xss = Some yss \<Longrightarrow> \<forall>xs \<in> set xss. sorted_wrt (<) xs \<Longrightarrow>
   (\<forall>ys \<in> set yss. sorted_wrt (<) ys) \<and> set (concat yss) = set (concat xss) \<and>
   length (concat yss) = length (concat xss)"
proof (induction k arbitrary: xss)
  case (Suc k)
  then obtain zss where z: "merge_pairs xss = Some zss" "merge_rounds k zss = Some yss"
    by (auto split: option.splits)
  from merge_pairs_spec [OF z(1) Suc.prems(2)] Suc.IH [OF z(2)] show ?case by metis
qed auto

text \<open>A piece of the words with its sorted keys.\<close>

definition keyed :: "string list \<Rightarrow> int list \<Rightarrow> bool" where
  "keyed ws ks \<longleftrightarrow> distinct ws \<and> word_key ` set ws = set ks \<and> sorted_wrt (<) ks"

lemma keyed_by_merging:
  assumes "merge_rounds k (map (\<lambda>w. [word_key w]) ws) = Some [ks]"
  shows "keyed ws ks"
proof -
  have c: "concat (map (\<lambda>w. [word_key w]) ws) = map word_key ws" by (induction ws) auto
  have s: "sorted_wrt (<) ks" "set ks = set (map word_key ws)" "length ks = length (map word_key ws)"
    using merge_rounds_spec [OF assms] c by auto
  then have "card (set (map word_key ws)) = length (map word_key ws)"
    by (metis distinct_card strict_sorted_iff)
  then have "distinct (map word_key ws)" by (rule card_distinct)
  then have "distinct ws" by (simp add: distinct_map)
  with s show ?thesis by (simp add: keyed_def)
qed

fun apart :: "int list \<Rightarrow> int list \<Rightarrow> bool" where
  "apart [] ys = True"
| "apart (x # xs) [] = True"
| "apart (x # xs) (y # ys) =
     (if x < y then apart xs (y # ys) else if y < x then apart (x # xs) ys else False)"

lemma apart_disjoint:
  "apart xs ys \<Longrightarrow> sorted_wrt (<) xs \<Longrightarrow> sorted_wrt (<) ys \<Longrightarrow> set xs \<inter> set ys = {}"
proof (induction xs ys rule: apart.induct)
  case (3 x xs y ys)
  consider "x < y" | "y < x" | "x = y" by (cases x y rule: linorder_cases)
  then show ?case
  proof cases
    case 1
    with 3 have "set xs \<inter> set (y # ys) = {}" by simp
    moreover have "x \<notin> set (y # ys)" using 1 "3.prems"(3) by auto
    ultimately show ?thesis by auto
  next
    case 2
    with 3 have "set (x # xs) \<inter> set ys = {}" by simp
    moreover have "y \<notin> set (x # xs)" using 2 "3.prems"(2) by auto
    ultimately show ?thesis by auto
  next
    case 3
    with "3.prems"(1) show ?thesis by simp
  qed
qed auto

fun all_apart :: "int list list \<Rightarrow> bool" where
  "all_apart [] = True"
| "all_apart (ks # kss) = (list_all (apart ks) kss \<and> all_apart kss)"

lemma keyed_apart:
  assumes "keyed ws ks" "list_all2 keyed wss kss" "list_all (apart ks) kss"
  shows "set ws \<inter> set (concat wss) = {}"
  using assms(2,3)
proof (induction wss kss rule: list_all2_induct)
  case (Cons vs wss ls kss)
  then have "set ks \<inter> set ls = {}" using assms(1) by (intro apart_disjoint) (auto simp: keyed_def)
  then have "word_key ` set ws \<inter> word_key ` set vs = {}"
    using assms(1) Cons.hyps(1) by (simp add: keyed_def)
  then have "set ws \<inter> set vs = {}" by blast
  with Cons show ?case by auto
qed simp

lemma distinct_by_keys:
  "list_all2 keyed wss kss \<Longrightarrow> all_apart kss \<Longrightarrow> distinct (concat wss)"
proof (induction wss kss rule: list_all2_induct)
  case (Cons ws wss ks kss)
  then have "set ws \<inter> set (concat wss) = {}" by (intro keyed_apart) auto
  with Cons show ?case by (simp add: keyed_def)
qed simp

section \<open>The pieces\<close>

definition word_keys_1 :: "int list" where
  "word_keys_1 =
    [34265, 34411, 36441, 38340, 38693, 40420, 40436, 47287, 48326, 48820, 48878, 49844, 51886,
     52601, 53743, 53849, 53999, 54885, 58548, 1104953, 1115243, 1119406, 1119860, 1129625,
     1148325, 1162628, 1181259, 1184944, 1195506, 1195758, 1213544, 1235118, 1235122, 1250354,
     1254852, 1287756, 1287877, 1293765, 1293796, 1312050, 1312196, 1312389, 1316240, 1316421,
     1326501, 1326597, 1332820, 1358479, 1398388, 1414320, 1423863, 1447124, 1451365, 1457607,
     1457643, 1457861, 1475717, 1475941, 1476057, 1479726, 1484228, 1490501, 1496168, 1508773,
     1512612, 1554533, 1554841, 1556654, 1562802, 1585209, 1672484, 1676461, 1679863, 1686949,
     1687212, 1691705, 1692144, 1692776, 1705317, 1705355, 1709452, 1712301, 1712302, 1713573,
     1723045, 1726030, 1753582, 1803572, 1803659, 1803732, 1812072, 1818187, 34684596,
     34820274, 34833710, 35012037, 36045931, 36246571, 37109349, 38343725, 40159860, 41489460,
     41992729, 42108500, 46191848, 46302917, 47244357, 48421042, 48536852, 49946802, 50725989,
     53912965, 54134212, 54134356, 54142348, 54793797, 54797767, 54797771, 54804069, 57725032,
     57725106, 57943685, 58182020, 1120634675, 1126684100, 1146306117, 1146365380, 1146769586,
     1182841061, 1294243268, 1343766702, 1391043717, 1486508421, 1511674034, 1536791942,
     1616363909, 1683009945, 1720178052, 1861685426, 35919634610, 36687877829, 41324566706,
     49916683719, 55277960645, 56119434516, 56122397928, 1723797506226, 1803053310130,
     56604636751303, 1326203009246663]"

definition word_keys_2 :: "int list" where
  "word_keys_2 =
    [34098, 36900, 37940, 39321, 40633, 41268, 44324, 45360, 51364, 1115225, 1127077, 1130120,
     1136206, 1184818, 1246341, 1250484, 1254796, 1254981, 1263781, 1279397, 1296887, 1320069,
     1320168, 1418636, 1418867, 1443268, 1451461, 1484229, 1490414, 1513236, 1551417, 1574515,
     1574516, 1594764, 1594984, 1643564, 1644148, 1672901, 1682734, 1686740, 1686983, 1687022,
     1691824, 1693253, 1722533, 1775193, 1803660, 1803853, 34684613, 35012039, 35069100,
     35128916, 35822638, 35822894, 36060644, 36251079, 36755045, 36971908, 37204466, 37795941,
     37914248, 38849160, 39240345, 40254962, 41289331, 41489582, 41588339, 42108484, 42456677,
     46302798, 47488276, 47699592, 50631781, 50832852, 52593768, 53740940, 53749189, 53786725,
     53875888, 53904780, 53908876, 53987929, 53990852, 54006827, 54134341, 54148697, 54236340,
     54806693, 55021625, 55039080, 55137928, 56037554, 57123941, 57949573, 58271365, 58277319,
     60282311, 1111047795, 1120321140, 1122622642, 1146148505, 1146207653, 1159890568,
     1160027412, 1160228014, 1256707304, 1276552601, 1276780722, 1284971698, 1291394228,
     1328010692, 1486475438, 1515634265, 1526109652, 1526341810, 1559897189, 1616465390,
     1623361125, 1683017198, 1714699756, 1715016749, 1716633028, 1716635828, 1719702007,
     1724374425, 1732842676, 1732853191, 1855594798, 35669719668, 35855172761, 35929898565,
     36696724654, 37116498181, 37127594162, 41118904729, 48841041351, 51726455924, 52159751781,
     53856315205, 55075584101, 59334312114, 1149763855815, 1238640301683, 1295120121285,
     1706364118510, 1975335359878, 37556993694380, 39898305861076, 56604636787891,
     1880308315719108]"

definition word_keys_3 :: "int list" where
  "word_keys_3 =
    [33908, 34021, 35124, 37465, 39095, 41639, 42085, 43513, 45223, 45556, 46254, 46573, 52260,
     52276, 52385, 52718, 56370, 1083781, 1094255, 1123908, 1126903, 1129925, 1129963, 1162732,
     1181102, 1198576, 1214073, 1235244, 1246324, 1246853, 1257975, 1261133, 1296569, 1312134,
     1312199, 1316228, 1326770, 1398192, 1418695, 1423525, 1446948, 1446950, 1447539, 1479860,
     1512498, 1516645, 1574536, 1588397, 1591353, 1648071, 1648229, 1653796, 1653867, 1654156,
     1654373, 1672389, 1674290, 1676678, 1680491, 1803973, 1807531, 35006149, 35069106,
     36050084, 36054468, 36751961, 36753512, 36968052, 37095027, 37098542, 37098546, 37109412,
     37214386, 37291115, 37305971, 37785753, 38344307, 38348235, 38348485, 40155180, 40355941,
     40451540, 42644526, 45563630, 46302836, 47351252, 47893795, 50374100, 50380978, 50496613,
     50846898, 52077748, 52078213, 52593817, 53656165, 53919077, 54578821, 54789579, 54807031,
     54828308, 54839460, 55137689, 55137908, 57724549, 58176558, 58182233, 58182280,
     1114178852, 1122811333, 1176149268, 1182840933, 1190738098, 1190840933, 1193444997,
     1213310085, 1213834821, 1261536773, 1291203063, 1297765957, 1347475630, 1492587929,
     1519867525, 1612256724, 1629672089, 1683391790, 1683400132, 1683641934, 1716570216,
     1721112020, 1721155973, 1721356466, 1727613431, 1761314372, 1855394295, 36689839752,
     40167343205, 40181048814, 42395110181, 44513760292, 51192112261, 51726517779, 51845420613,
     52149491140, 52159393965, 53856315033, 55482793573, 1211495499950, 1761462325426,
     1775516591717, 44032551491187]"

definition word_keys_4 :: "int list" where
  "word_keys_4 =
    [34408, 34983, 37351, 40622, 41145, 43490, 49209, 51504, 56622, 1084677, 1115532, 1148301,
     1156761, 1201780, 1215759, 1216741, 1246508, 1255016, 1255109, 1261044, 1279813, 1290743,
     1296567, 1296686, 1315884, 1315892, 1320332, 1347745, 1414676, 1451220, 1457828, 1480307,
     1512555, 1523301, 1585198, 1594949, 1660520, 1676459, 1676756, 1679845, 1680052, 1680616,
     1680622, 1686007, 1687854, 1713625, 1720046, 1803880, 1807403, 1820720, 1872936, 1873292,
     35009015, 35069529, 36046245, 36242734, 36257518, 36349316, 36967595, 37291865, 37407333,
     38261844, 38347988, 39266809, 39593588, 40146308, 40240549, 40254516, 41212078, 41485939,
     42108633, 43418853, 45556933, 46188773, 47692424, 49386542, 49486002, 49500334, 50609605,
     52073646, 53741061, 53755572, 54002789, 54134062, 54148549, 54148580, 54148685, 54154347,
     54561157, 54570158, 55289460, 58182245, 60282451, 1110545940, 1122819129, 1142575493,
     1146928580, 1159894853, 1183294565, 1183301221, 1251614898, 1266783764, 1284757061,
     1284974184, 1288166578, 1321252965, 1351749806, 1383546437, 1519995378, 1545229893,
     1679433906, 1721155993, 1721179525, 1728366900, 1728648228, 1732952356, 1733499058,
     1733735602, 1753824308, 1761025701, 38098124372, 38099179109, 38099634668, 38106780249,
     38843075065, 41325135428, 44460910021, 48640951653, 53327539609, 55277953527, 55303054380,
     55448077416, 56352873748, 1147436258536, 1219188013733, 1222087693893, 1247272810597,
     1295120109625, 1513614495922, 1563014333742, 1774426823956, 1774426987698, 1774431182472,
     1775033825689, 1775518602692, 1803265067511, 1898430257330, 39912108201010,
     42316416569518, 56604639893061]"

definition word_keys_5 :: "int list" where
  "word_keys_5 =
    [34388, 35320, 39224, 49326, 52536, 53541, 56500, 1115717, 1123973, 1130062, 1159225,
     1181422, 1184812, 1198135, 1250468, 1287380, 1296418, 1296688, 1391918, 1391973, 1418347,
     1442969, 1463924, 1476171, 1476203, 1480084, 1523333, 1574475, 1588722, 1588914, 1660293,
     1709684, 1722672, 1811653, 1818084, 35030853, 36050547, 36257125, 36263528, 36963634,
     36963941, 36971916, 36978021, 37103010, 37213652, 37291624, 37291756, 37295149, 37306084,
     37312104, 39276722, 39888520, 39900564, 40244840, 40441448, 40451822, 40548825, 41485413,
     41591941, 41997780, 45562987, 46644837, 46828921, 47370284, 47691961, 47700261, 50383513,
     50726356, 50927219, 50930821, 50937541, 52077675, 52471397, 52746418, 53749332, 54006948,
     54011276, 54137900, 54142059, 54154438, 54236212, 54240711, 54690920, 54797419, 58182260,
     58185156, 58271348, 1122284588, 1124602930, 1142494617, 1146193317, 1146502599,
     1146725509, 1157243058, 1157255557, 1157255661, 1184435589, 1267209332, 1291392628,
     1291394548, 1314345349, 1314345369, 1397331334, 1482313906, 1511641266, 1519522181,
     1559313561, 1565952178, 1683212468, 1683690540, 1721129138, 1725415048, 1732842541,
     1733891481, 1746574612, 1793463923, 1822008814, 1847005362, 1847146120, 1851038996,
     1918251511, 38000009395, 38099604901, 38842583749, 40202802803, 41324619461, 51593717230,
     52159976564, 53867611749, 54799046259, 55030993074, 55450980456, 55484548197, 55485081285,
     56003502258, 56454973829, 1137785745817, 1219150354053, 1238736588978, 1307498325637,
     1424267253204, 1669100243353, 1774447730053, 1795822290372, 36992736437742,
     45544356054484, 50894578550341, 1248409962550681, 1357112429617456, 1807493359836176688]"

definition word_keys_6 :: "int list" where
  "word_keys_6 =
    [33924, 34866, 35513, 36528, 42443, 44217, 49648, 53733, 56814, 1129890, 1136217, 1148133,
     1148532, 1168972, 1181317, 1185241, 1189460, 1198759, 1201548, 1257524, 1279278, 1316431,
     1457732, 1457779, 1463751, 1529250, 1573995, 1574117, 1574194, 1574277, 1582539, 1588716,
     1660206, 1694777, 1695021, 1744281, 1774894, 1811844, 34870308, 35044807, 35965576,
     36045957, 36060267, 36963630, 37094701, 37108843, 37295275, 37311660, 37926382, 37929608,
     37935404, 38062745, 38848921, 39261625, 39891557, 40240744, 41172596, 41485445, 41485936,
     41500398, 47237721, 49877170, 50379411, 50845124, 50937508, 52465967, 52609433, 52716965,
     53581253, 53663918, 53740677, 53740965, 53744820, 53755380, 53879941, 54007236, 54134405,
     54236210, 54240844, 54246980, 54695560, 54806711, 55120948, 55288933, 56937780, 57939116,
     1127617712, 1150963890, 1153939589, 1157274900, 1176049267, 1180127410, 1183500392,
     1187499188, 1223807474, 1243194777, 1266800229, 1310335154, 1343689093, 1391035845,
     1486298290, 1492850073, 1559835692, 1595980005, 1633239429, 1683183205, 1683493940,
     1727222169, 1763760300, 1855410354, 36911393972, 38097261797, 38099621332, 38842934917,
     38977275348, 40851080825, 41411580397, 43272257113, 43477293234, 43669145764, 48633357806,
     48837021874, 52149356101, 52149458388, 52263665253, 53858182853, 53875315828, 55277948985,
     55450843365, 55475020933, 55534039543, 56444225925, 57390087918, 59236269477, 59669893294,
     1219186954418, 1292972271257, 1391150288940, 1424458585716, 1668766023347, 1668783134277,
     1898558183602, 38799713424005, 39911155181038, 45576552101989, 47776926961893,
     1326203012388421, 1328765784471653, 1838569842170035, 1278413356496725486]"

definition word_keys_7 :: "int list" where
  "word_keys_7 =
    [34855, 35507, 38119, 46392, 1115591, 1127090, 1129524, 1162292, 1162821, 1169029, 1255028,
     1260932, 1279600, 1290276, 1326489, 1357928, 1362414, 1391723, 1484171, 1508652, 1574285,
     1578162, 1582745, 1653810, 1654260, 1680843, 1685552, 1688052, 1709101, 1725893, 1730053,
     1778871, 1803854, 1807536, 1811973, 34747700, 34850981, 35076601, 35339556, 35358004,
     35358053, 36165060, 36243141, 36349332, 36963917, 37103047, 37291717, 38354629, 38360523,
     40254948, 40341171, 40356488, 40437157, 40440875, 40457524, 41485780, 41493670, 42453605,
     44732645, 46445876, 47226147, 47239272, 48735845, 53581268, 53660357, 53741136, 53748948,
     53754987, 53755589, 53904980, 54014260, 54142407, 54154393, 54810032, 55117100, 55117102,
     55125099, 55137387, 57845316, 58176686, 58277509, 1111107054, 1128924267, 1159772264,
     1217870002, 1256376569, 1287953684, 1291492628, 1358311927, 1358370420, 1364663474,
     1482280430, 1520014937, 1526343150, 1532595589, 1620232293, 1620455927, 1626451124,
     1626656238, 1629545650, 1687699845, 1712793241, 1715016878, 1716571630, 1728352434,
     1728652743, 1732843123, 1732846949, 1732847047, 1769126553, 1793100165, 1793467749,
     1821495597, 1828083109, 35906688468, 36125718036, 37988911513, 38099424372, 38839850611,
     38842926386, 40405383212, 40534921625, 40550925614, 40550939781, 41526370482, 48506701029,
     49177826905, 49919825477, 51943952675, 53861553268, 54863220914, 54941394536, 55276872882,
     55454370181, 56125493426, 59330142386, 1178519998521, 1219187312084, 1307189847090,
     1668782667877, 1762418708889, 1765541171609, 1836423760485, 38127101614489,
     38774007793285, 52967890866585, 61003708045996, 1323267722883481, 1764935377495534,
     46620643182650862]"

definition word_keys_8 :: "int list" where
  "word_keys_8 =
    [34981, 46756, 47588, 51874, 1129924, 1129965, 1148484, 1152396, 1162868, 1165360, 1198119,
     1201570, 1293356, 1316012, 1443108, 1446960, 1451426, 1480132, 1480261, 1490308, 1516997,
     1588404, 1654277, 1672492, 1679664, 1681221, 1683501, 1683504, 1686578, 1687124, 1719923,
     1812069, 34690661, 34750021, 35144069, 35234949, 36046283, 36054475, 36060653, 36144708,
     36246564, 36358772, 36967531, 37295280, 37299621, 37407429, 38343716, 39888340, 39888473,
     41190868, 41289285, 41407105, 41485764, 41489588, 41500336, 42119567, 42449081, 42449394,
     44205523, 46323884, 47237224, 48278692, 48417477, 50386533, 50726190, 52604984, 53784985,
     53937509, 54011333, 54138028, 54148485, 55116901, 56118452, 56668837, 60282504,
     1111926341, 1159890548, 1160423013, 1163276468, 1163547118, 1175916933, 1190336677,
     1190838661, 1190841646, 1213383065, 1213629892, 1213830740, 1230579143, 1248018004,
     1256859205, 1294461102, 1325027502, 1343820185, 1486411044, 1532563634, 1623242932,
     1626526297, 1629796453, 1679233517, 1683064204, 1686950157, 1717195141, 1719982258,
     1728556206, 1732853093, 1733431470, 1750682098, 1767278981, 36217521732, 36553406565,
     38097261684, 38707537351, 41227538610, 41407456645, 42996227129, 43472185838, 45623097529,
     46493966510, 48355354053, 49579507379, 51583064748, 53872034917, 55267595929, 56144187801,
     56357443141, 59225284786, 1137202828756, 1151607473256, 1219150349614, 1247255451826,
     1322301116592, 1422059480558, 1513380021477, 1556001103124, 1563038225876, 1662321808965,
     1666031323525, 1666151160492, 1668911568499, 1768894315673, 1795905605806, 38536768827801,
     38767855680996, 41146467686003, 45584957606277, 52418571557043, 1248447807574425,
     1272704224830958, 1276745787553893, 1326198547329433]"

definition word_keys_9 :: "int list" where
  "word_keys_9 =
    [37159, 37165, 37364, 39399, 39993, 41456, 41645, 45220, 48260, 49447, 52706, 53296, 56823,
     1100217, 1115595, 1119277, 1130220, 1136048, 1159223, 1195404, 1195717, 1257776, 1326828,
     1332453, 1443673, 1451115, 1476211, 1476232, 1490027, 1513028, 1582469, 1647720, 1653805,
     1682736, 1691682, 1691954, 1770798, 1785124, 1869380, 35823278, 36054643, 36752069,
     36865637, 36967472, 36967602, 37213288, 41303641, 41401957, 41584196, 41592212, 41994856,
     43464882, 46648498, 46839912, 47699534, 50496616, 50930789, 52942056, 53591621, 53594295,
     53749209, 53755371, 53755461, 53941291, 54134066, 54158725, 54691429, 54804046, 55039208,
     55041202, 55289420, 56036741, 59934286, 1112220773, 1126770373, 1129993646, 1157281893,
     1160024293, 1175935027, 1187696744, 1190573364, 1190636837, 1343899812, 1391056276,
     1526321561, 1548798361, 1548915077, 1629529701, 1633511813, 1678838068, 1683406533,
     1719965060, 1720179890, 1727516933, 1732412569, 1732751534, 1746345349, 1753825006,
     36926246381, 37631972933, 38106891493, 38194826734, 38207392133, 38211801132, 38835363092,
     38842504644, 40551126643, 40971673778, 43674305988, 49447356460, 49569996978, 51012642286,
     52159420019, 53327614361, 53876429876, 54947790515, 55034925234, 55039145138, 55454078420,
     55467906164, 55482793556, 59108828658, 59669687685, 1169984929261, 1219112256101,
     1222087681518, 1242430023150, 1322300540300, 1325307023534, 1586226268658, 1654673021612,
     1758206277733, 1758253876869, 1775377882388, 1806203213381, 36496656180718,
     36850164279109, 39013559412206, 41516886308965, 44153962566708, 50010008100116,
     56124607465049, 62865039495225, 1179245719357061, 1382717696808388, 1389445087925716,
     1456188706719365, 1694972507727342, 1839018735320756, 40729764957918617]"

definition word_keys_10 :: "int list" where
  "word_keys_10 =
    [34093, 35108, 37541, 38958, 39602, 45111, 52505, 1093683, 1136249, 1155374, 1159845,
     1185387, 1195501, 1257511, 1261228, 1312333, 1332692, 1442917, 1476001, 1496677, 1578156,
     1627444, 1639892, 1672596, 1672645, 1686571, 1692334, 1705579, 1713285, 1725547, 1774892,
     1817990, 35016882, 35211767, 35817028, 36242884, 37791129, 37915705, 38340334, 38507916,
     38837426, 39388773, 40240709, 40248916, 40451700, 41297029, 47368313, 48745096, 50516012,
     50726533, 51032677, 51034216, 53523097, 53744816, 53755630, 53847436, 53876244, 53879909,
     54007180, 54017620, 54133989, 54148203, 54151225, 54151472, 54568404, 54797892, 56250546,
     1131457710, 1146146990, 1146496166, 1153940633, 1162938757, 1163464878, 1182963301,
     1213404212, 1224378757, 1227151538, 1294112581, 1310265518, 1318296965, 1330958386,
     1364663897, 1390548132, 1515601049, 1519624857, 1526148281, 1545217518, 1579488372,
     1616317740, 1626804402, 1713055218, 1727112236, 1729791557, 1732846789, 1754377605,
     1813393593, 36679794157, 37633563308, 37758576071, 37768267054, 38098437701, 38099064398,
     38305137966, 38958185924, 39263974578, 40386082917, 40472356295, 41214389426, 42481422753,
     43002543577, 45266386611, 48487847493, 51594434004, 53730544119, 53875326404, 54815673561,
     54880424040, 57551492723, 59334316421, 59578622256, 1149766997573, 1219170473605,
     1242960569413, 1247259829861, 1311450965657, 1353437200051, 1391118813573, 1521699133043,
     1632640804485, 1650946352741, 1651021887589, 1658716458028, 1666021205486, 1666031323545,
     1668632159333, 1895199872627, 36511704104430, 37925855466948, 41443844040101,
     44513215820185, 45336049530981, 48695555335623, 51769706728857, 56406511855086,
     56803307128453, 61008542832243, 1248433482676325, 1248441937831406, 1328779317847534,
     1880308309984904]"

definition word_keys_11 :: "int list" where
  "word_keys_11 =
    [34533, 35888, 37047, 39397, 39987, 43063, 48261, 49445, 51255, 53409, 1084708, 1103316,
     1129860, 1181268, 1189480, 1198765, 1201259, 1201285, 1326571, 1332812, 1484404, 1489966,
     1594566, 1639941, 1640005, 1660037, 1692980, 1719788, 1771124, 34848217, 35828121,
     35829864, 36050372, 36066920, 36967476, 37102699, 37295147, 38340001, 38456985, 40011380,
     40546713, 41303749, 42650201, 43132404, 44737637, 47695916, 52594860, 52945964, 53577093,
     53577305, 54236556, 54797544, 55037996, 55116933, 56805989, 57714292, 57837145, 57837253,
     57987176, 1190573550, 1190889028, 1209474226, 1213239705, 1213408709, 1213732292,
     1226874350, 1256433093, 1291400370, 1294112153, 1294245140, 1330950809, 1347465864,
     1390675333, 1391142533, 1511458021, 1532397957, 1532645554, 1629657266, 1715013125,
     1724161300, 1728366636, 1732838702, 1733774516, 1746277844, 1750536370, 1753814052,
     1753824709, 1793692846, 1817598132, 1850786286, 36079449252, 38098437593, 38190240242,
     38828948069, 40535245189, 40550940229, 46487802349, 48501499374, 50553080517, 51594794574,
     52063475315, 53878110437, 54951856172, 55353448261, 55485928900, 56357197268, 56448101765,
     57567916441, 1242731480709, 1322385675300, 1651020845347, 1774528314958, 1779643240729,
     1792698255749, 1865605625957, 38674705463705, 38759463768242, 39012800079342,
     39775161091717, 39775879210437, 41130807330419, 41443843456153, 42423124821637,
     1378175080343022, 1457419426498949, 40729906557625838]"

lemma keyed_1: "keyed MnemonicWords_1 word_keys_1"
  by (rule keyed_by_merging [of 8]) code_simp

lemma keyed_2: "keyed MnemonicWords_2 word_keys_2"
  by (rule keyed_by_merging [of 8]) code_simp

lemma keyed_3: "keyed MnemonicWords_3 word_keys_3"
  by (rule keyed_by_merging [of 8]) code_simp

lemma keyed_4: "keyed MnemonicWords_4 word_keys_4"
  by (rule keyed_by_merging [of 8]) code_simp

lemma keyed_5: "keyed MnemonicWords_5 word_keys_5"
  by (rule keyed_by_merging [of 8]) code_simp

lemma keyed_6: "keyed MnemonicWords_6 word_keys_6"
  by (rule keyed_by_merging [of 8]) code_simp

lemma keyed_7: "keyed MnemonicWords_7 word_keys_7"
  by (rule keyed_by_merging [of 8]) code_simp

lemma keyed_8: "keyed MnemonicWords_8 word_keys_8"
  by (rule keyed_by_merging [of 8]) code_simp

lemma keyed_9: "keyed MnemonicWords_9 word_keys_9"
  by (rule keyed_by_merging [of 8]) code_simp

lemma keyed_10: "keyed MnemonicWords_10 word_keys_10"
  by (rule keyed_by_merging [of 8]) code_simp

lemma keyed_11: "keyed MnemonicWords_11 word_keys_11"
  by (rule keyed_by_merging [of 8]) code_simp

lemma apart_1: "list_all (apart word_keys_1) [word_keys_2, word_keys_3, word_keys_4, word_keys_5, word_keys_6, word_keys_7, word_keys_8, word_keys_9, word_keys_10, word_keys_11]"
  by code_simp

lemma apart_2: "list_all (apart word_keys_2) [word_keys_3, word_keys_4, word_keys_5, word_keys_6, word_keys_7, word_keys_8, word_keys_9, word_keys_10, word_keys_11]"
  by code_simp

lemma apart_3: "list_all (apart word_keys_3) [word_keys_4, word_keys_5, word_keys_6, word_keys_7, word_keys_8, word_keys_9, word_keys_10, word_keys_11]"
  by code_simp

lemma apart_4: "list_all (apart word_keys_4) [word_keys_5, word_keys_6, word_keys_7, word_keys_8, word_keys_9, word_keys_10, word_keys_11]"
  by code_simp

lemma apart_5: "list_all (apart word_keys_5) [word_keys_6, word_keys_7, word_keys_8, word_keys_9, word_keys_10, word_keys_11]"
  by code_simp

lemma apart_6: "list_all (apart word_keys_6) [word_keys_7, word_keys_8, word_keys_9, word_keys_10, word_keys_11]"
  by code_simp

lemma apart_7: "list_all (apart word_keys_7) [word_keys_8, word_keys_9, word_keys_10, word_keys_11]"
  by code_simp

lemma apart_8: "list_all (apart word_keys_8) [word_keys_9, word_keys_10, word_keys_11]"
  by code_simp

lemma apart_9: "list_all (apart word_keys_9) [word_keys_10, word_keys_11]"
  by code_simp

lemma apart_10: "list_all (apart word_keys_10) [word_keys_11]"
  by code_simp

lemma distinct_MnemonicWords: "distinct MnemonicWords"
proof -
  have "distinct (concat [MnemonicWords_1, MnemonicWords_2, MnemonicWords_3, MnemonicWords_4, MnemonicWords_5, MnemonicWords_6, MnemonicWords_7, MnemonicWords_8, MnemonicWords_9, MnemonicWords_10, MnemonicWords_11])"
    by (rule distinct_by_keys [of _ "[word_keys_1, word_keys_2, word_keys_3, word_keys_4, word_keys_5, word_keys_6, word_keys_7, word_keys_8, word_keys_9, word_keys_10, word_keys_11]"])
       (insert keyed_1 keyed_2 keyed_3 keyed_4 keyed_5 keyed_6 keyed_7 keyed_8 keyed_9 keyed_10 keyed_11 apart_1 apart_2 apart_3 apart_4 apart_5 apart_6 apart_7 apart_8 apart_9 apart_10, simp_all)
  then show ?thesis by (simp add: MnemonicWords_def)
qed

lemma length_MnemonicWords [simp]: "length MnemonicWords = 1626"
  by (simp add: MnemonicWords_def MnemonicWords_1_def MnemonicWords_2_def MnemonicWords_3_def
      MnemonicWords_4_def MnemonicWords_5_def MnemonicWords_6_def MnemonicWords_7_def
      MnemonicWords_8_def MnemonicWords_9_def MnemonicWords_10_def MnemonicWords_11_def)

end
