(* ===== verification/Mnemonic.thy ===== *)
theory Mnemonic
  imports Go_Std Mnemonic_Distinct "HOL-Library.Signed_Division"
begin

text \<open>
  \<open>src/crypto/mnemonic.go\<close>: hexadecimal messages as words of a list of 1626, three words for eight
  digits. A panic is \<open>None\<close>. Go's \<open>%\<close> truncates towards zero, which is \<open>smod\<close>.
\<close>

section \<open>Words\<close>

fun IndexOf_from :: "nat \<Rightarrow> string list \<Rightarrow> string \<Rightarrow> int" where
  "IndexOf_from p [] value = - 1"
| "IndexOf_from p (v # vs) value = (if v = value then int p else IndexOf_from (Suc p) vs value)"

definition IndexOf :: "string list \<Rightarrow> string \<Rightarrow> int" where
  "IndexOf s value = IndexOf_from 0 s value"

definition word_at :: "int \<Rightarrow> string option" where
  "word_at i = (if 0 \<le> i \<and> i < int (length MnemonicWords) then Some (MnemonicWords ! nat i) else None)"

section \<open>Encoding\<close>

text \<open>
  The value of \<open>strconv.ParseInt(x, 16, 64)\<close>, whose error the code drops: an optional sign, then
  digits; a syntax error gives zero, a value out of range the nearest bound.
\<close>

definition ParseInt16 :: "string \<Rightarrow> int" where
  "ParseInt16 x =
     (let (neg, ds) = (case x of
            c # cs \<Rightarrow> if c = CHR ''-'' then (True, cs) else if c = CHR ''+'' then (False, cs) else (False, x)
          | [] \<Rightarrow> (False, x))
      in case ParseUint16 ds of
           (un, Some (NumError NumErrRange)) \<Rightarrow> if neg then - (2 ^ 63) else 2 ^ 63 - 1
         | (un, Some _) \<Rightarrow> 0
         | (un, None) \<Rightarrow>
             if \<not> neg \<and> 2 ^ 63 \<le> uint un then 2 ^ 63 - 1
             else if neg \<and> 2 ^ 63 < uint un then - (2 ^ 63)
             else if neg then - uint un else uint un)"

definition encodeWords :: "int \<Rightarrow> string list option" where
  "encodeWords v =
     (let n = int (length MnemonicWords);
          w1 = v smod n;
          w2 = (v sdiv n + w1) smod n;
          w3 = (v sdiv n sdiv n + w2) smod n
      in case (word_at w1, word_at w2, word_at w3) of
           (Some a, Some b, Some c) \<Rightarrow> Some [a, b, c]
         | _ \<Rightarrow> None)"

text \<open>The loop at index \<open>i\<close>; the slice panics before an index that does not advance is used again.\<close>

function encodeLoop :: "string \<Rightarrow> nat \<Rightarrow> string list \<Rightarrow> string list option" where
  "encodeLoop message i out =
     (if i < length message then
        (case go_slice message i (i + 8) of
           None \<Rightarrow> None
         | Some x \<Rightarrow>
             (case encodeWords (ParseInt16 x) of
                None \<Rightarrow> None
              | Some ws \<Rightarrow> encodeLoop message (i + length message div 8) (out @ ws)))
      else Some out)"
  by auto

termination
proof (relation "measure (\<lambda>(message, i, out). length message - i)")
  fix message :: string and i :: nat and out ws :: "string list" and x
  assume "i < length message" "go_slice message i (i + 8) = Some x"
  then have "0 < length message div 8" by (auto dest: go_slice_Some)
  with \<open>i < length message\<close>
  show "((message, i + length message div 8, out @ ws), (message, i, out))
      \<in> measure (\<lambda>(message, i, out). length message - i)"
    by auto
qed simp

declare encodeLoop.simps [simp del]

definition MnemonicEncode :: "string \<Rightarrow> string list option" where
  "MnemonicEncode message = encodeLoop message 0 []"

section \<open>Decoding\<close>

text \<open>\<open>fmt.Sprintf("%08x", x)\<close>: zeros between the sign and the digits up to a width of eight.\<close>

definition format08x :: "int \<Rightarrow> string" where
  "format08x x =
     (if x < 0 then CHR ''-'' # replicate (7 - length (hex_digits (nat (- x)))) CHR ''0'' @ hex_digits (nat (- x))
      else replicate (8 - length (hex_digits (nat x))) CHR ''0'' @ hex_digits (nat x))"

definition decodeWords :: "string \<Rightarrow> string \<Rightarrow> string \<Rightarrow> int" where
  "decodeWords word1 word2 word3 =
     (let n = int (length MnemonicWords);
          w1 = IndexOf MnemonicWords word1;
          w2 = IndexOf MnemonicWords word2;
          w3 = IndexOf MnemonicWords word3;
          y = (w2 - w1) smod n;
          z = (w3 - w2) smod n;
          z = (if z < 0 then z + n else z);
          y = (if y < 0 then y + n else y)
      in w1 + n * y + n * n * z)"

fun MnemonicDecode :: "string list \<Rightarrow> string option" where
  "MnemonicDecode [] = Some []"
| "MnemonicDecode (word1 # word2 # word3 # rest) =
     map_option (\<lambda>out. format08x (decodeWords word1 word2 word3) @ out) (MnemonicDecode rest)"
| "MnemonicDecode _ = None"

section \<open>Facts\<close>

lemma IndexOf_nth: "distinct vs \<Longrightarrow> k < length vs \<Longrightarrow> IndexOf vs (vs ! k) = int k"
proof -
  have "IndexOf_from p vs (vs ! k) = int (p + k)" if "distinct vs" "k < length vs" for p
    using that
  proof (induction vs arbitrary: k p)
    case (Cons v vs)
    then show ?case by (cases k) auto
  qed simp
  from this [of 0] show "distinct vs \<Longrightarrow> k < length vs \<Longrightarrow> IndexOf vs (vs ! k) = int k"
    by (simp add: IndexOf_def)
qed

lemma IndexOf_word:
  assumes "word_at i = Some w"
  shows "IndexOf MnemonicWords w = i"
proof -
  have "0 \<le> i" "nat i < length MnemonicWords" "w = MnemonicWords ! nat i"
    using assms by (auto simp: word_at_def split: if_splits)
  then show ?thesis using IndexOf_nth [OF distinct_MnemonicWords, of "nat i"] by simp
qed

lemma smod_fix: "0 < n \<Longrightarrow> (if a smod n < 0 then a smod n + n else a smod n) = a mod (n::int)"
proof -
  assume n: "0 < n"
  have "a smod n mod n = a mod n"
    using n by (cases "0 \<le> a") (auto simp: signed_modulo_int_def mod_minus_eq sgn_if)
  moreover have "- n < a smod n" "a smod n < n"
    using n smod_int_range [of n a] by auto
  ultimately show ?thesis
    using n mod_pos_pos_trivial [of "a smod n" n] mod_pos_pos_trivial [of "a smod n + n" n]
      mod_add_self2 [of "a smod n" n]
    by (auto simp: not_less)
qed

lemma int_div_less: "0 < n \<Longrightarrow> v < n * k \<Longrightarrow> v div n < (k::int)"
proof (rule ccontr)
  assume n: "0 < n" "v < n * k" and "\<not> v div n < k"
  then have "n * k \<le> n * (v div n)" by simp
  also have "\<dots> \<le> v" using n(1) mult_div_mod_eq [of n v] pos_mod_sign [OF n(1), of v] by linarith
  finally show False using n by simp
qed

lemma sdiv_smod_nonneg: "0 \<le> a \<Longrightarrow> 0 < n \<Longrightarrow> a sdiv n = a div n \<and> a smod n = a mod (n::int)"
  by (simp add: signed_divide_int_def signed_modulo_int_def minus_div_mult_eq_mod sgn_if abs_if)

text \<open>The three words of a number below \<open>1626^3\<close> exist and decode to the number.\<close>

lemma encode_decode_words:
  assumes "0 \<le> v" "v < 1626 ^ 3"
  shows "\<exists>a b c. encodeWords v = Some [a, b, c] \<and> decodeWords a b c = v"
proof -
  define n :: int where "n = 1626"
  define w1 w2 w3 where "w1 = v mod n" and "w2 = (v div n + w1) mod n" and "w3 = (v div n div n + w2) mod n"
  have r: "0 \<le> w1" "w1 < n" "0 \<le> w2" "w2 < n" "0 \<le> w3" "w3 < n" by (simp_all add: w1_def w2_def w3_def n_def)
  then obtain a b c where w: "word_at w1 = Some a" "word_at w2 = Some b" "word_at w3 = Some c"
    by (simp add: word_at_def n_def)
  have nn: "0 < n" "int (length MnemonicWords) = n" by (simp_all add: n_def)
  have q: "0 \<le> v div n" "0 \<le> v div n div n" "0 \<le> v div n + w1" "0 \<le> v div n div n + w2"
    using assms(1) nn(1) r by (simp_all add: pos_imp_zdiv_nonneg_iff)
  have e: "encodeWords v = Some [a, b, c]"
    unfolding encodeWords_def Let_def nn(2)
    using assms(1) nn(1) q w by (simp add: sdiv_smod_nonneg w1_def [symmetric] w2_def [symmetric] w3_def [symmetric])
  have "v div n div n < n"
  proof -
    have "v < n * (n * n)" using assms(2) by (simp add: n_def)
    then have "v div n < n * n" by (rule int_div_less [OF nn(1)])
    then show ?thesis by (rule int_div_less [OF nn(1)])
  qed
  then have z: "(w3 - w2) mod n = v div n div n"
    using q(2) by (simp add: w3_def mod_diff_left_eq)
  have y: "(w2 - w1) mod n = v div n mod n" by (simp add: w2_def mod_diff_left_eq)
  have "decodeWords a b c = w1 + n * ((w2 - w1) mod n) + n * n * ((w3 - w2) mod n)"
    unfolding decodeWords_def Let_def nn(2) IndexOf_word [OF w(1)] IndexOf_word [OF w(2)] IndexOf_word [OF w(3)]
      smod_fix [OF nn(1)] ..
  also have "\<dots> = v mod n + n * (v div n mod n) + n * n * (v div n div n)"
    unfolding y z by (simp add: w1_def)
  also have "\<dots> = v mod n + n * (v div n mod n + n * (v div n div n))"
    by (simp only: distrib_left mult.assoc add.assoc)
  also have "\<dots> = v" by (simp only: mod_mult_div_eq)
  finally show ?thesis using e by blast
qed

lemma hexnum_zeros: "hexnum (replicate k CHR ''0'' @ s) = hexnum s"
  by (induction k) simp_all

lemma format08x_hexnum:
  assumes "list_all is_hex x" "map to_lower x = x" "length x = 8"
  shows "format08x (int (hexnum x)) = x"
proof -
  define y where "y = dropWhile (\<lambda>c. c = CHR ''0'') x"
  define k where "k = length x - length y"
  have x: "x = replicate k CHR ''0'' @ y"
    using length_dropWhile_replicate [of x "CHR ''0''"] by (simp add: k_def y_def)
  have n: "hexnum x = hexnum y" by (subst x) (rule hexnum_zeros)
  have len: "k + length y = 8" using arg_cong [OF x, of length] assms(3) by simp
  show ?thesis
  proof (cases "y = []")
    case True
    then have e0: "x = replicate 8 CHR ''0''" using x len by simp
    have e1: "replicate 8 CHR ''0'' = replicate 7 CHR ''0'' @ ''0''"
      using replicate_append_same [of 7 "CHR ''0''"] by (simp add: numeral_eq_Suc)
    have h0: "hexnum x = 0" using n True by simp
    have f0: "format08x 0 = replicate 7 CHR ''0'' @ ''0''" by (simp add: format08x_def hex_digits_def)
    show ?thesis unfolding h0 semiring_1_class.of_nat_0 f0 e1 [symmetric] by (rule e0 [symmetric])
  next
    case False
    then have "hd y \<noteq> CHR ''0''" using hd_dropWhile [of "\<lambda>c. c = CHR ''0''" x] unfolding y_def by blast
    moreover have "is_hex c" if "c \<in> set y" for c
      using that assms(1) unfolding y_def by (auto simp: list_all_iff dest: set_dropWhileD)
    ultimately have "hex_digits (hexnum y) = map to_lower y" using False by (intro hex_digits_hexnum) auto
    also have "\<dots> = y"
    proof -
      have "map to_lower (replicate k CHR ''0'' @ y) = replicate k CHR ''0'' @ y" using assms(2) x by simp
      then show ?thesis by (simp add: append_eq_append_conv)
    qed
    finally have "hex_digits (hexnum y) = y" .
    moreover have "8 - length y = k" using len by simp
    ultimately show ?thesis using x [symmetric] by (simp add: format08x_def n)
  qed
qed

lemma ParseInt16_hex:
  assumes "list_all is_hex x" "x \<noteq> []" "length x \<le> 8"
  shows "ParseInt16 x = int (hexnum x)"
proof -
  obtain c cs where x: "x = c # cs" using assms(2) by (cases x) auto
  then have "is_hex c" using assms(1) by simp
  then have "c \<noteq> CHR ''-''" "c \<noteq> CHR ''+''" using not_hex by metis+
  have "hexnum x < 16 ^ length x" by (rule hexnum_less)
  also have "\<dots> \<le> 16 ^ 8" using assms(3) by (intro power_increasing) simp_all
  finally have b: "hexnum x < 2 ^ 32" by simp
  then have p: "ParseUint16 x = (of_nat (hexnum x), None)"
    using assms by (intro ParseUint16_value) (auto simp: list_all_iff)
  have "uint (of_nat (hexnum x) :: uint64) = int (hexnum x)"
    using b by (simp add: uint_nat unat_of_nat)
  with b p \<open>c \<noteq> CHR ''-''\<close> \<open>c \<noteq> CHR ''+''\<close> show ?thesis
    by (simp add: ParseInt16_def x)
qed

lemma encodeLoop_roundtrip:
  assumes "length m = 64" "list_all is_hex m" "map to_lower m = m"
  shows "k \<le> 8 \<Longrightarrow> \<exists>ws. encodeLoop m (8 * (8 - k)) out = Some (out @ ws) \<and> length ws = 3 * k \<and>
           MnemonicDecode ws = Some (drop (8 * (8 - k)) m)"
proof (induction k arbitrary: out)
  case 0
  show ?case by (subst encodeLoop.simps) (simp add: assms(1))
next
  case (Suc k)
  define i where "i = 8 * (8 - Suc k)"
  define x where "x = take 8 (drop i m)"
  have i: "i + 8 \<le> length m" "i < length m" "i + length m div 8 = 8 * (8 - k)"
    using Suc.prems assms(1) by (auto simp: i_def)
  have s: "go_slice m i (i + 8) = Some x" using i by (simp add: go_slice_def x_def)
  have "set x \<subseteq> set m" unfolding x_def by (meson order_trans set_drop_subset set_take_subset)
  then have x: "list_all is_hex x" "length x = 8" "x \<noteq> []"
    using assms(2) i by (auto simp: list_all_iff x_def)
  have xl: "map to_lower x = x" unfolding x_def by (metis assms(3) drop_map take_map)
  have "int (hexnum x) < 1626 ^ 3"
  proof -
    have "hexnum x < 16 ^ 8" using hexnum_less [of x] x by simp
    then show ?thesis by simp
  qed
  then obtain a b c where e: "encodeWords (int (hexnum x)) = Some [a, b, c]" "decodeWords a b c = int (hexnum x)"
    using encode_decode_words [of "int (hexnum x)"] by auto
  obtain ws where ws: "encodeLoop m (8 * (8 - k)) (out @ [a, b, c]) = Some ((out @ [a, b, c]) @ ws)"
    "length ws = 3 * k" "MnemonicDecode ws = Some (drop (8 * (8 - k)) m)"
    using Suc.IH [of "out @ [a, b, c]"] Suc.prems by auto
  have "encodeLoop m i out = encodeLoop m (8 * (8 - k)) (out @ [a, b, c])"
    using i s e(1) ParseInt16_hex [of x] x by (subst encodeLoop.simps) simp
  moreover have "MnemonicDecode (a # b # c # ws) = Some (drop i m)"
  proof -
    have "drop i m = x @ drop (i + 8) m" using append_take_drop_id [of 8 "drop i m"] by (simp add: x_def add.commute)
    moreover have "i + 8 = 8 * (8 - k)" using i(3) assms(1) by simp
    ultimately show ?thesis using ws(3) e(2) format08x_hexnum [of x] x xl by simp
  qed
  ultimately show ?case using ws by (intro exI [of _ "a # b # c # ws"]) (simp add: i_def)
qed

section \<open>Properties\<close>

text \<open>
  C3. Every message of 64 lower-case hexadecimal digits encodes to 24 words, and decoding the words
  gives the message back. This rests on the 1626 words being pairwise different and on every chunk of
  eight digits being below \<open>1626^3\<close>.
\<close>

theorem Mnemonic_roundtrip:
  assumes "length m = 64" "list_all is_hex m" "map to_lower m = m"
  shows "\<exists>ws. MnemonicEncode m = Some ws \<and> length ws = 24 \<and> MnemonicDecode ws = Some m"
  using encodeLoop_roundtrip [OF assms, of 8 "[]"] by (simp add: MnemonicEncode_def)

theorem Mnemonic_roundtrip_witness:
  "\<exists>ws. MnemonicEncode (replicate 64 CHR ''a'') = Some ws \<and> MnemonicDecode ws = Some (replicate 64 CHR ''a'')"
proof -
  have "is_hex CHR ''a''" "to_lower CHR ''a'' = CHR ''a''" by code_simp+
  then show ?thesis
    using Mnemonic_roundtrip [of "replicate 64 CHR ''a''"] by (auto simp: list_all_iff)
qed

text \<open>
  Lengths: a non-empty message of fewer than eight characters panics, the empty message gives no
  words, and \<open>MnemonicDecode\<close> panics exactly when the number of words is not a multiple of three.
\<close>

theorem Mnemonic_lengths:
  "(MnemonicEncode m = Some [] \<longleftrightarrow> m = []) \<and>
   (0 < length m \<and> length m < 8 \<longrightarrow> MnemonicEncode m = None) \<and>
   (MnemonicDecode ws = None \<longleftrightarrow> length ws mod 3 \<noteq> 0)"
proof (intro conjI impI)
  have pre: "\<exists>zs. encodeLoop m i out = Some (out @ zs)" if "encodeLoop m i out \<noteq> None" for m i out
    using that
  proof (induction m i out rule: encodeLoop.induct)
    case (1 m i out)
    show ?case
    proof (cases "i < length m")
      case True
      with "1.prems" obtain x ws where x: "go_slice m i (i + 8) = Some x" "encodeWords (ParseInt16 x) = Some ws"
        by (subst (asm) encodeLoop.simps) (auto split: option.splits)
      with True have e: "encodeLoop m i out = encodeLoop m (i + length m div 8) (out @ ws)"
        by (subst encodeLoop.simps) simp
      with "1.IH" [OF True x] "1.prems" show ?thesis by auto
    next
      case False
      then show ?thesis by (subst encodeLoop.simps) simp
    qed
  qed
  show "MnemonicEncode m = Some [] \<longleftrightarrow> m = []"
  proof
    assume "MnemonicEncode m = Some []"
    then have l: "encodeLoop m 0 [] = Some []" by (simp add: MnemonicEncode_def)
    show "m = []"
    proof (rule ccontr)
      assume "m \<noteq> []"
      with l obtain x ws where x: "encodeWords (ParseInt16 x) = Some ws"
        "encodeLoop m (length m div 8) ws = Some []"
        by (subst (asm) encodeLoop.simps) (auto split: option.splits)
      moreover have "ws \<noteq> []" using x(1) by (auto simp: encodeWords_def Let_def split: option.splits)
      ultimately show False using pre [of m "length m div 8" ws] by auto
    qed
  next
    assume "m = []"
    then show "MnemonicEncode m = Some []" by (simp add: MnemonicEncode_def encodeLoop.simps)
  qed
  show "MnemonicEncode m = None" if "0 < length m \<and> length m < 8"
    using that by (simp add: MnemonicEncode_def encodeLoop.simps go_slice_def)
  show "MnemonicDecode ws = None \<longleftrightarrow> length ws mod 3 \<noteq> 0"
    by (induction ws rule: MnemonicDecode.induct) (auto simp: mod_Suc)
qed

theorem Mnemonic_lengths_witness: "MnemonicEncode ''abc'' = None"
  using Mnemonic_lengths [of "''abc''" "[]"] by simp

end
