(* ===== verification/Keccakf.thy ===== *)
theory Keccakf
  imports Go_Prelude
begin

text \<open>
  \<open>src/crypto/sha3/keccakf.go\<close>: the permutation Keccak-f[1600], four rounds unrolled per turn of the
  loop and worked in place. Each unrolled round is two definitions: the column sums with the
  differences \<open>d0 .. d4\<close>, and the five groups that rewrite the lanes. The reference is the textbook
  round on a 5 x 5 matrix; a round in place is the textbook round up to a fixed placement of the lanes.
\<close>

unbundle bit_operations_syntax

section \<open>The code\<close>

definition rc :: "uint64 list" where
  "rc =
    [0x0000000000000001, 0x0000000000008082, 0x800000000000808A, 0x8000000080008000,
     0x000000000000808B, 0x0000000080000001, 0x8000000080008081, 0x8000000000008009,
     0x000000000000008A, 0x0000000000000088, 0x0000000080008009, 0x000000008000000A,
     0x000000008000808B, 0x800000000000008B, 0x8000000000008089, 0x8000000000008003,
     0x8000000000008002, 0x8000000000000080, 0x000000000000800A, 0x800000008000000A,
     0x8000000080008081, 0x8000000000008080, 0x0000000080000001, 0x8000000080008008]"

definition round1_rows :: "uint64 \<Rightarrow> uint64 list \<Rightarrow> uint64 \<Rightarrow> uint64 \<Rightarrow> uint64 \<Rightarrow> uint64 \<Rightarrow> uint64 \<Rightarrow> uint64 list" where
  "round1_rows r a d0 d1 d2 d3 d4 =
     (let bc0 = a ! 0 XOR d0;
          t = a ! 6 XOR d1;
          bc1 = push_bit 44 t OR drop_bit (64 - 44) t;
          t = a ! 12 XOR d2;
          bc2 = push_bit 43 t OR drop_bit (64 - 43) t;
          t = a ! 18 XOR d3;
          bc3 = push_bit 21 t OR drop_bit (64 - 21) t;
          t = a ! 24 XOR d4;
          bc4 = push_bit 14 t OR drop_bit (64 - 14) t;
          a = a[0 := bc0 XOR (bc2 AND NOT bc1) XOR r];
          a = a[6 := bc1 XOR (bc3 AND NOT bc2)];
          a = a[12 := bc2 XOR (bc4 AND NOT bc3)];
          a = a[18 := bc3 XOR (bc0 AND NOT bc4)];
          a = a[24 := bc4 XOR (bc1 AND NOT bc0)];
          t = a ! 10 XOR d0;
          bc2 = push_bit 3 t OR drop_bit (64 - 3) t;
          t = a ! 16 XOR d1;
          bc3 = push_bit 45 t OR drop_bit (64 - 45) t;
          t = a ! 22 XOR d2;
          bc4 = push_bit 61 t OR drop_bit (64 - 61) t;
          t = a ! 3 XOR d3;
          bc0 = push_bit 28 t OR drop_bit (64 - 28) t;
          t = a ! 9 XOR d4;
          bc1 = push_bit 20 t OR drop_bit (64 - 20) t;
          a = a[10 := bc0 XOR (bc2 AND NOT bc1)];
          a = a[16 := bc1 XOR (bc3 AND NOT bc2)];
          a = a[22 := bc2 XOR (bc4 AND NOT bc3)];
          a = a[3 := bc3 XOR (bc0 AND NOT bc4)];
          a = a[9 := bc4 XOR (bc1 AND NOT bc0)];
          t = a ! 20 XOR d0;
          bc4 = push_bit 18 t OR drop_bit (64 - 18) t;
          t = a ! 1 XOR d1;
          bc0 = push_bit 1 t OR drop_bit (64 - 1) t;
          t = a ! 7 XOR d2;
          bc1 = push_bit 6 t OR drop_bit (64 - 6) t;
          t = a ! 13 XOR d3;
          bc2 = push_bit 25 t OR drop_bit (64 - 25) t;
          t = a ! 19 XOR d4;
          bc3 = push_bit 8 t OR drop_bit (64 - 8) t;
          a = a[20 := bc0 XOR (bc2 AND NOT bc1)];
          a = a[1 := bc1 XOR (bc3 AND NOT bc2)];
          a = a[7 := bc2 XOR (bc4 AND NOT bc3)];
          a = a[13 := bc3 XOR (bc0 AND NOT bc4)];
          a = a[19 := bc4 XOR (bc1 AND NOT bc0)];
          t = a ! 5 XOR d0;
          bc1 = push_bit 36 t OR drop_bit (64 - 36) t;
          t = a ! 11 XOR d1;
          bc2 = push_bit 10 t OR drop_bit (64 - 10) t;
          t = a ! 17 XOR d2;
          bc3 = push_bit 15 t OR drop_bit (64 - 15) t;
          t = a ! 23 XOR d3;
          bc4 = push_bit 56 t OR drop_bit (64 - 56) t;
          t = a ! 4 XOR d4;
          bc0 = push_bit 27 t OR drop_bit (64 - 27) t;
          a = a[5 := bc0 XOR (bc2 AND NOT bc1)];
          a = a[11 := bc1 XOR (bc3 AND NOT bc2)];
          a = a[17 := bc2 XOR (bc4 AND NOT bc3)];
          a = a[23 := bc3 XOR (bc0 AND NOT bc4)];
          a = a[4 := bc4 XOR (bc1 AND NOT bc0)];
          t = a ! 15 XOR d0;
          bc2 = push_bit 41 t OR drop_bit (64 - 41) t;
          t = a ! 21 XOR d1;
          bc3 = push_bit 2 t OR drop_bit (64 - 2) t;
          t = a ! 2 XOR d2;
          bc4 = push_bit 62 t OR drop_bit (64 - 62) t;
          t = a ! 8 XOR d3;
          bc0 = push_bit 55 t OR drop_bit (64 - 55) t;
          t = a ! 14 XOR d4;
          bc1 = push_bit 39 t OR drop_bit (64 - 39) t;
          a = a[15 := bc0 XOR (bc2 AND NOT bc1)];
          a = a[21 := bc1 XOR (bc3 AND NOT bc2)];
          a = a[2 := bc2 XOR (bc4 AND NOT bc3)];
          a = a[8 := bc3 XOR (bc0 AND NOT bc4)];
          a = a[14 := bc4 XOR (bc1 AND NOT bc0)]
      in a)"

definition round1 :: "uint64 \<Rightarrow> uint64 list \<Rightarrow> uint64 list" where
  "round1 r a =
     (let bc0 = a ! 0 XOR a ! 5 XOR a ! 10 XOR a ! 15 XOR a ! 20;
          bc1 = a ! 1 XOR a ! 6 XOR a ! 11 XOR a ! 16 XOR a ! 21;
          bc2 = a ! 2 XOR a ! 7 XOR a ! 12 XOR a ! 17 XOR a ! 22;
          bc3 = a ! 3 XOR a ! 8 XOR a ! 13 XOR a ! 18 XOR a ! 23;
          bc4 = a ! 4 XOR a ! 9 XOR a ! 14 XOR a ! 19 XOR a ! 24;
          d0 = bc4 XOR (push_bit 1 bc1 OR drop_bit 63 bc1);
          d1 = bc0 XOR (push_bit 1 bc2 OR drop_bit 63 bc2);
          d2 = bc1 XOR (push_bit 1 bc3 OR drop_bit 63 bc3);
          d3 = bc2 XOR (push_bit 1 bc4 OR drop_bit 63 bc4);
          d4 = bc3 XOR (push_bit 1 bc0 OR drop_bit 63 bc0)
      in round1_rows r a d0 d1 d2 d3 d4)"

definition round2_rows :: "uint64 \<Rightarrow> uint64 list \<Rightarrow> uint64 \<Rightarrow> uint64 \<Rightarrow> uint64 \<Rightarrow> uint64 \<Rightarrow> uint64 \<Rightarrow> uint64 list" where
  "round2_rows r a d0 d1 d2 d3 d4 =
     (let bc0 = a ! 0 XOR d0;
          t = a ! 16 XOR d1;
          bc1 = push_bit 44 t OR drop_bit (64 - 44) t;
          t = a ! 7 XOR d2;
          bc2 = push_bit 43 t OR drop_bit (64 - 43) t;
          t = a ! 23 XOR d3;
          bc3 = push_bit 21 t OR drop_bit (64 - 21) t;
          t = a ! 14 XOR d4;
          bc4 = push_bit 14 t OR drop_bit (64 - 14) t;
          a = a[0 := bc0 XOR (bc2 AND NOT bc1) XOR r];
          a = a[16 := bc1 XOR (bc3 AND NOT bc2)];
          a = a[7 := bc2 XOR (bc4 AND NOT bc3)];
          a = a[23 := bc3 XOR (bc0 AND NOT bc4)];
          a = a[14 := bc4 XOR (bc1 AND NOT bc0)];
          t = a ! 20 XOR d0;
          bc2 = push_bit 3 t OR drop_bit (64 - 3) t;
          t = a ! 11 XOR d1;
          bc3 = push_bit 45 t OR drop_bit (64 - 45) t;
          t = a ! 2 XOR d2;
          bc4 = push_bit 61 t OR drop_bit (64 - 61) t;
          t = a ! 18 XOR d3;
          bc0 = push_bit 28 t OR drop_bit (64 - 28) t;
          t = a ! 9 XOR d4;
          bc1 = push_bit 20 t OR drop_bit (64 - 20) t;
          a = a[20 := bc0 XOR (bc2 AND NOT bc1)];
          a = a[11 := bc1 XOR (bc3 AND NOT bc2)];
          a = a[2 := bc2 XOR (bc4 AND NOT bc3)];
          a = a[18 := bc3 XOR (bc0 AND NOT bc4)];
          a = a[9 := bc4 XOR (bc1 AND NOT bc0)];
          t = a ! 15 XOR d0;
          bc4 = push_bit 18 t OR drop_bit (64 - 18) t;
          t = a ! 6 XOR d1;
          bc0 = push_bit 1 t OR drop_bit (64 - 1) t;
          t = a ! 22 XOR d2;
          bc1 = push_bit 6 t OR drop_bit (64 - 6) t;
          t = a ! 13 XOR d3;
          bc2 = push_bit 25 t OR drop_bit (64 - 25) t;
          t = a ! 4 XOR d4;
          bc3 = push_bit 8 t OR drop_bit (64 - 8) t;
          a = a[15 := bc0 XOR (bc2 AND NOT bc1)];
          a = a[6 := bc1 XOR (bc3 AND NOT bc2)];
          a = a[22 := bc2 XOR (bc4 AND NOT bc3)];
          a = a[13 := bc3 XOR (bc0 AND NOT bc4)];
          a = a[4 := bc4 XOR (bc1 AND NOT bc0)];
          t = a ! 10 XOR d0;
          bc1 = push_bit 36 t OR drop_bit (64 - 36) t;
          t = a ! 1 XOR d1;
          bc2 = push_bit 10 t OR drop_bit (64 - 10) t;
          t = a ! 17 XOR d2;
          bc3 = push_bit 15 t OR drop_bit (64 - 15) t;
          t = a ! 8 XOR d3;
          bc4 = push_bit 56 t OR drop_bit (64 - 56) t;
          t = a ! 24 XOR d4;
          bc0 = push_bit 27 t OR drop_bit (64 - 27) t;
          a = a[10 := bc0 XOR (bc2 AND NOT bc1)];
          a = a[1 := bc1 XOR (bc3 AND NOT bc2)];
          a = a[17 := bc2 XOR (bc4 AND NOT bc3)];
          a = a[8 := bc3 XOR (bc0 AND NOT bc4)];
          a = a[24 := bc4 XOR (bc1 AND NOT bc0)];
          t = a ! 5 XOR d0;
          bc3 = push_bit 41 t OR drop_bit (64 - 41) t;
          t = a ! 21 XOR d1;
          bc4 = push_bit 2 t OR drop_bit (64 - 2) t;
          t = a ! 12 XOR d2;
          bc0 = push_bit 62 t OR drop_bit (64 - 62) t;
          t = a ! 3 XOR d3;
          bc1 = push_bit 55 t OR drop_bit (64 - 55) t;
          t = a ! 19 XOR d4;
          bc2 = push_bit 39 t OR drop_bit (64 - 39) t;
          a = a[5 := bc0 XOR (bc2 AND NOT bc1)];
          a = a[21 := bc1 XOR (bc3 AND NOT bc2)];
          a = a[12 := bc2 XOR (bc4 AND NOT bc3)];
          a = a[3 := bc3 XOR (bc0 AND NOT bc4)];
          a = a[19 := bc4 XOR (bc1 AND NOT bc0)]
      in a)"

definition round2 :: "uint64 \<Rightarrow> uint64 list \<Rightarrow> uint64 list" where
  "round2 r a =
     (let bc0 = a ! 0 XOR a ! 5 XOR a ! 10 XOR a ! 15 XOR a ! 20;
          bc1 = a ! 1 XOR a ! 6 XOR a ! 11 XOR a ! 16 XOR a ! 21;
          bc2 = a ! 2 XOR a ! 7 XOR a ! 12 XOR a ! 17 XOR a ! 22;
          bc3 = a ! 3 XOR a ! 8 XOR a ! 13 XOR a ! 18 XOR a ! 23;
          bc4 = a ! 4 XOR a ! 9 XOR a ! 14 XOR a ! 19 XOR a ! 24;
          d0 = bc4 XOR (push_bit 1 bc1 OR drop_bit 63 bc1);
          d1 = bc0 XOR (push_bit 1 bc2 OR drop_bit 63 bc2);
          d2 = bc1 XOR (push_bit 1 bc3 OR drop_bit 63 bc3);
          d3 = bc2 XOR (push_bit 1 bc4 OR drop_bit 63 bc4);
          d4 = bc3 XOR (push_bit 1 bc0 OR drop_bit 63 bc0)
      in round2_rows r a d0 d1 d2 d3 d4)"

definition round3_rows :: "uint64 \<Rightarrow> uint64 list \<Rightarrow> uint64 \<Rightarrow> uint64 \<Rightarrow> uint64 \<Rightarrow> uint64 \<Rightarrow> uint64 \<Rightarrow> uint64 list" where
  "round3_rows r a d0 d1 d2 d3 d4 =
     (let bc0 = a ! 0 XOR d0;
          t = a ! 11 XOR d1;
          bc1 = push_bit 44 t OR drop_bit (64 - 44) t;
          t = a ! 22 XOR d2;
          bc2 = push_bit 43 t OR drop_bit (64 - 43) t;
          t = a ! 8 XOR d3;
          bc3 = push_bit 21 t OR drop_bit (64 - 21) t;
          t = a ! 19 XOR d4;
          bc4 = push_bit 14 t OR drop_bit (64 - 14) t;
          a = a[0 := bc0 XOR (bc2 AND NOT bc1) XOR r];
          a = a[11 := bc1 XOR (bc3 AND NOT bc2)];
          a = a[22 := bc2 XOR (bc4 AND NOT bc3)];
          a = a[8 := bc3 XOR (bc0 AND NOT bc4)];
          a = a[19 := bc4 XOR (bc1 AND NOT bc0)];
          t = a ! 15 XOR d0;
          bc2 = push_bit 3 t OR drop_bit (64 - 3) t;
          t = a ! 1 XOR d1;
          bc3 = push_bit 45 t OR drop_bit (64 - 45) t;
          t = a ! 12 XOR d2;
          bc4 = push_bit 61 t OR drop_bit (64 - 61) t;
          t = a ! 23 XOR d3;
          bc0 = push_bit 28 t OR drop_bit (64 - 28) t;
          t = a ! 9 XOR d4;
          bc1 = push_bit 20 t OR drop_bit (64 - 20) t;
          a = a[15 := bc0 XOR (bc2 AND NOT bc1)];
          a = a[1 := bc1 XOR (bc3 AND NOT bc2)];
          a = a[12 := bc2 XOR (bc4 AND NOT bc3)];
          a = a[23 := bc3 XOR (bc0 AND NOT bc4)];
          a = a[9 := bc4 XOR (bc1 AND NOT bc0)];
          t = a ! 5 XOR d0;
          bc4 = push_bit 18 t OR drop_bit (64 - 18) t;
          t = a ! 16 XOR d1;
          bc0 = push_bit 1 t OR drop_bit (64 - 1) t;
          t = a ! 2 XOR d2;
          bc1 = push_bit 6 t OR drop_bit (64 - 6) t;
          t = a ! 13 XOR d3;
          bc2 = push_bit 25 t OR drop_bit (64 - 25) t;
          t = a ! 24 XOR d4;
          bc3 = push_bit 8 t OR drop_bit (64 - 8) t;
          a = a[5 := bc0 XOR (bc2 AND NOT bc1)];
          a = a[16 := bc1 XOR (bc3 AND NOT bc2)];
          a = a[2 := bc2 XOR (bc4 AND NOT bc3)];
          a = a[13 := bc3 XOR (bc0 AND NOT bc4)];
          a = a[24 := bc4 XOR (bc1 AND NOT bc0)];
          t = a ! 20 XOR d0;
          bc1 = push_bit 36 t OR drop_bit (64 - 36) t;
          t = a ! 6 XOR d1;
          bc2 = push_bit 10 t OR drop_bit (64 - 10) t;
          t = a ! 17 XOR d2;
          bc3 = push_bit 15 t OR drop_bit (64 - 15) t;
          t = a ! 3 XOR d3;
          bc4 = push_bit 56 t OR drop_bit (64 - 56) t;
          t = a ! 14 XOR d4;
          bc0 = push_bit 27 t OR drop_bit (64 - 27) t;
          a = a[20 := bc0 XOR (bc2 AND NOT bc1)];
          a = a[6 := bc1 XOR (bc3 AND NOT bc2)];
          a = a[17 := bc2 XOR (bc4 AND NOT bc3)];
          a = a[3 := bc3 XOR (bc0 AND NOT bc4)];
          a = a[14 := bc4 XOR (bc1 AND NOT bc0)];
          t = a ! 10 XOR d0;
          bc3 = push_bit 41 t OR drop_bit (64 - 41) t;
          t = a ! 21 XOR d1;
          bc4 = push_bit 2 t OR drop_bit (64 - 2) t;
          t = a ! 7 XOR d2;
          bc0 = push_bit 62 t OR drop_bit (64 - 62) t;
          t = a ! 18 XOR d3;
          bc1 = push_bit 55 t OR drop_bit (64 - 55) t;
          t = a ! 4 XOR d4;
          bc2 = push_bit 39 t OR drop_bit (64 - 39) t;
          a = a[10 := bc0 XOR (bc2 AND NOT bc1)];
          a = a[21 := bc1 XOR (bc3 AND NOT bc2)];
          a = a[7 := bc2 XOR (bc4 AND NOT bc3)];
          a = a[18 := bc3 XOR (bc0 AND NOT bc4)];
          a = a[4 := bc4 XOR (bc1 AND NOT bc0)]
      in a)"

definition round3 :: "uint64 \<Rightarrow> uint64 list \<Rightarrow> uint64 list" where
  "round3 r a =
     (let bc0 = a ! 0 XOR a ! 5 XOR a ! 10 XOR a ! 15 XOR a ! 20;
          bc1 = a ! 1 XOR a ! 6 XOR a ! 11 XOR a ! 16 XOR a ! 21;
          bc2 = a ! 2 XOR a ! 7 XOR a ! 12 XOR a ! 17 XOR a ! 22;
          bc3 = a ! 3 XOR a ! 8 XOR a ! 13 XOR a ! 18 XOR a ! 23;
          bc4 = a ! 4 XOR a ! 9 XOR a ! 14 XOR a ! 19 XOR a ! 24;
          d0 = bc4 XOR (push_bit 1 bc1 OR drop_bit 63 bc1);
          d1 = bc0 XOR (push_bit 1 bc2 OR drop_bit 63 bc2);
          d2 = bc1 XOR (push_bit 1 bc3 OR drop_bit 63 bc3);
          d3 = bc2 XOR (push_bit 1 bc4 OR drop_bit 63 bc4);
          d4 = bc3 XOR (push_bit 1 bc0 OR drop_bit 63 bc0)
      in round3_rows r a d0 d1 d2 d3 d4)"

definition round4_rows :: "uint64 \<Rightarrow> uint64 list \<Rightarrow> uint64 \<Rightarrow> uint64 \<Rightarrow> uint64 \<Rightarrow> uint64 \<Rightarrow> uint64 \<Rightarrow> uint64 list" where
  "round4_rows r a d0 d1 d2 d3 d4 =
     (let bc0 = a ! 0 XOR d0;
          t = a ! 1 XOR d1;
          bc1 = push_bit 44 t OR drop_bit (64 - 44) t;
          t = a ! 2 XOR d2;
          bc2 = push_bit 43 t OR drop_bit (64 - 43) t;
          t = a ! 3 XOR d3;
          bc3 = push_bit 21 t OR drop_bit (64 - 21) t;
          t = a ! 4 XOR d4;
          bc4 = push_bit 14 t OR drop_bit (64 - 14) t;
          a = a[0 := bc0 XOR (bc2 AND NOT bc1) XOR r];
          a = a[1 := bc1 XOR (bc3 AND NOT bc2)];
          a = a[2 := bc2 XOR (bc4 AND NOT bc3)];
          a = a[3 := bc3 XOR (bc0 AND NOT bc4)];
          a = a[4 := bc4 XOR (bc1 AND NOT bc0)];
          t = a ! 5 XOR d0;
          bc2 = push_bit 3 t OR drop_bit (64 - 3) t;
          t = a ! 6 XOR d1;
          bc3 = push_bit 45 t OR drop_bit (64 - 45) t;
          t = a ! 7 XOR d2;
          bc4 = push_bit 61 t OR drop_bit (64 - 61) t;
          t = a ! 8 XOR d3;
          bc0 = push_bit 28 t OR drop_bit (64 - 28) t;
          t = a ! 9 XOR d4;
          bc1 = push_bit 20 t OR drop_bit (64 - 20) t;
          a = a[5 := bc0 XOR (bc2 AND NOT bc1)];
          a = a[6 := bc1 XOR (bc3 AND NOT bc2)];
          a = a[7 := bc2 XOR (bc4 AND NOT bc3)];
          a = a[8 := bc3 XOR (bc0 AND NOT bc4)];
          a = a[9 := bc4 XOR (bc1 AND NOT bc0)];
          t = a ! 10 XOR d0;
          bc4 = push_bit 18 t OR drop_bit (64 - 18) t;
          t = a ! 11 XOR d1;
          bc0 = push_bit 1 t OR drop_bit (64 - 1) t;
          t = a ! 12 XOR d2;
          bc1 = push_bit 6 t OR drop_bit (64 - 6) t;
          t = a ! 13 XOR d3;
          bc2 = push_bit 25 t OR drop_bit (64 - 25) t;
          t = a ! 14 XOR d4;
          bc3 = push_bit 8 t OR drop_bit (64 - 8) t;
          a = a[10 := bc0 XOR (bc2 AND NOT bc1)];
          a = a[11 := bc1 XOR (bc3 AND NOT bc2)];
          a = a[12 := bc2 XOR (bc4 AND NOT bc3)];
          a = a[13 := bc3 XOR (bc0 AND NOT bc4)];
          a = a[14 := bc4 XOR (bc1 AND NOT bc0)];
          t = a ! 15 XOR d0;
          bc1 = push_bit 36 t OR drop_bit (64 - 36) t;
          t = a ! 16 XOR d1;
          bc2 = push_bit 10 t OR drop_bit (64 - 10) t;
          t = a ! 17 XOR d2;
          bc3 = push_bit 15 t OR drop_bit (64 - 15) t;
          t = a ! 18 XOR d3;
          bc4 = push_bit 56 t OR drop_bit (64 - 56) t;
          t = a ! 19 XOR d4;
          bc0 = push_bit 27 t OR drop_bit (64 - 27) t;
          a = a[15 := bc0 XOR (bc2 AND NOT bc1)];
          a = a[16 := bc1 XOR (bc3 AND NOT bc2)];
          a = a[17 := bc2 XOR (bc4 AND NOT bc3)];
          a = a[18 := bc3 XOR (bc0 AND NOT bc4)];
          a = a[19 := bc4 XOR (bc1 AND NOT bc0)];
          t = a ! 20 XOR d0;
          bc3 = push_bit 41 t OR drop_bit (64 - 41) t;
          t = a ! 21 XOR d1;
          bc4 = push_bit 2 t OR drop_bit (64 - 2) t;
          t = a ! 22 XOR d2;
          bc0 = push_bit 62 t OR drop_bit (64 - 62) t;
          t = a ! 23 XOR d3;
          bc1 = push_bit 55 t OR drop_bit (64 - 55) t;
          t = a ! 24 XOR d4;
          bc2 = push_bit 39 t OR drop_bit (64 - 39) t;
          a = a[20 := bc0 XOR (bc2 AND NOT bc1)];
          a = a[21 := bc1 XOR (bc3 AND NOT bc2)];
          a = a[22 := bc2 XOR (bc4 AND NOT bc3)];
          a = a[23 := bc3 XOR (bc0 AND NOT bc4)];
          a = a[24 := bc4 XOR (bc1 AND NOT bc0)]
      in a)"

definition round4 :: "uint64 \<Rightarrow> uint64 list \<Rightarrow> uint64 list" where
  "round4 r a =
     (let bc0 = a ! 0 XOR a ! 5 XOR a ! 10 XOR a ! 15 XOR a ! 20;
          bc1 = a ! 1 XOR a ! 6 XOR a ! 11 XOR a ! 16 XOR a ! 21;
          bc2 = a ! 2 XOR a ! 7 XOR a ! 12 XOR a ! 17 XOR a ! 22;
          bc3 = a ! 3 XOR a ! 8 XOR a ! 13 XOR a ! 18 XOR a ! 23;
          bc4 = a ! 4 XOR a ! 9 XOR a ! 14 XOR a ! 19 XOR a ! 24;
          d0 = bc4 XOR (push_bit 1 bc1 OR drop_bit 63 bc1);
          d1 = bc0 XOR (push_bit 1 bc2 OR drop_bit 63 bc2);
          d2 = bc1 XOR (push_bit 1 bc3 OR drop_bit 63 bc3);
          d3 = bc2 XOR (push_bit 1 bc4 OR drop_bit 63 bc4);
          d4 = bc3 XOR (push_bit 1 bc0 OR drop_bit 63 bc0)
      in round4_rows r a d0 d1 d2 d3 d4)"

text \<open>One turn of the loop at index \<open>i\<close>, and the loop \<open>for i := 0; i < 24; i += 4\<close>.\<close>

definition keccak_turn :: "nat \<Rightarrow> uint64 list \<Rightarrow> uint64 list" where
  "keccak_turn i a =
     (let a = round1 (rc ! i) a;
          a = round2 (rc ! (i + 1)) a;
          a = round3 (rc ! (i + 2)) a;
          a = round4 (rc ! (i + 3)) a
      in a)"

definition keccakF1600 :: "uint64 list \<Rightarrow> uint64 list" where
  "keccakF1600 a = fold keccak_turn [0, 4, 8, 12, 16, 20] a"

section \<open>The textbook permutation\<close>

text \<open>Lane \<open>(x, y)\<close> is at position \<open>x + 5 * y\<close>; \<open>rho_offsets\<close> are the rotations of the rho step.\<close>

definition rho_offsets :: "nat list" where
  "rho_offsets =
    [0, 1, 62, 28, 27, 36, 44, 6, 55, 20, 3, 10, 43, 25, 39, 41, 45, 15, 21, 8, 18, 2, 61, 56, 14]"

definition rotl :: "nat \<Rightarrow> uint64 \<Rightarrow> uint64" where
  "rotl k w = word_rotl k w"

definition theta_c :: "uint64 list \<Rightarrow> nat \<Rightarrow> uint64" where
  "theta_c s x = s ! x XOR s ! (x + 5) XOR s ! (x + 10) XOR s ! (x + 15) XOR s ! (x + 20)"

definition theta_d :: "uint64 list \<Rightarrow> nat \<Rightarrow> uint64" where
  "theta_d s x = theta_c s ((x + 4) mod 5) XOR rotl 1 (theta_c s ((x + 1) mod 5))"

text \<open>The lane that theta, rho and pi bring to \<open>(x, y)\<close>: it comes from \<open>(x + 3y, x)\<close>.\<close>

definition rho_pi :: "uint64 list \<Rightarrow> nat \<Rightarrow> nat \<Rightarrow> uint64" where
  "rho_pi s x y =
     (let x' = (x + 3 * y) mod 5; k = x' + 5 * x in rotl (rho_offsets ! k) (s ! k XOR theta_d s x'))"

definition keccak_round :: "uint64 \<Rightarrow> uint64 list \<Rightarrow> uint64 list" where
  "keccak_round r s =
     map (\<lambda>k. let x = k mod 5; y = k div 5;
                  b = rho_pi s x y XOR (rho_pi s ((x + 2) mod 5) y AND NOT (rho_pi s ((x + 1) mod 5) y))
              in if k = 0 then b XOR r else b)
       [0..<25]"

definition keccak_f :: "uint64 list \<Rightarrow> uint64 list" where
  "keccak_f s = fold (\<lambda>i. keccak_round (rc ! i)) [0..<24] s"

text \<open>Where the lanes of the matrix are after one, two and three rounds in place.\<close>

definition place1 :: "nat list" where
  "place1 = [0, 6, 12, 18, 24, 10, 16, 22, 3, 9, 20, 1, 7, 13, 19, 5, 11, 17, 23, 4, 15, 21, 2, 8, 14]"

definition place2 :: "nat list" where
  "place2 = [0, 16, 7, 23, 14, 20, 11, 2, 18, 9, 15, 6, 22, 13, 4, 10, 1, 17, 8, 24, 5, 21, 12, 3, 19]"

definition place3 :: "nat list" where
  "place3 = [0, 11, 22, 8, 19, 15, 1, 12, 23, 9, 5, 16, 2, 13, 24, 20, 6, 17, 3, 14, 10, 21, 7, 18, 4]"

definition lanes :: "nat list \<Rightarrow> uint64 list \<Rightarrow> uint64 list" where
  "lanes p a = map (\<lambda>k. a ! k) p"

text \<open>The last row moved by one lane, which is what the first unrolled round does in addition.\<close>

definition shift_last_row :: "uint64 list \<Rightarrow> uint64 list" where
  "shift_last_row s = take 20 s @ rotate1 (drop 20 s)"

text \<open>What one turn of the loop computes, in terms of the textbook rounds.\<close>

definition keccak_turn_spec :: "nat \<Rightarrow> uint64 list \<Rightarrow> uint64 list" where
  "keccak_turn_spec i s =
     keccak_round (rc ! (i + 3)) (keccak_round (rc ! (i + 2)) (keccak_round (rc ! (i + 1))
       (shift_last_row (keccak_round (rc ! i) s))))"

section \<open>Rounds in place\<close>

lemma rotl_eq: "0 < k \<Longrightarrow> k < 64 \<Longrightarrow> push_bit k w OR drop_bit (64 - k) w = rotl k w"
proof -
  assume k: "0 < k" "k < 64"
  have "(n + 64 - k) mod 64 = (if k \<le> n then n - k else n + 64 - k)" if "n < 64" for n
  proof (cases "k \<le> n")
    case True
    then have "(n + 64 - k) mod 64 = ((n - k) + 64) mod 64" by simp
    also have "\<dots> = n - k" using that by (simp only: mod_add_self2) simp
    finally show ?thesis using True by simp
  qed (use that k in auto)
  note m = this
  show ?thesis
    unfolding rotl_def
  proof (rule bit_word_eqI)
    fix n assume "n < LENGTH(64)"
    then have n: "n < 64" by simp
    have "bit w (64 - k + n) = (\<not> k \<le> n \<and> bit w (n + 64 - k))"
    proof (cases "k \<le> n")
      case True
      then have "\<not> bit w (64 - k + n)" using bit_imp_le_length [of w "64 - k + n"] k by auto
      with True show ?thesis by simp
    next
      case False
      with k have "64 - k + n = n + 64 - k" by simp
      with False show ?thesis by simp
    qed
    then show "bit (push_bit k w OR drop_bit (64 - k) w) n = bit (word_rotl k w) n"
      using n m [OF n] k
      by (simp add: bit_or_iff bit_push_bit_iff bit_drop_bit_eq bit_word_rotl_iff)
  qed
qed

lemma rotl_0 [simp]: "rotl 0 w = w"
  unfolding rotl_def by (rule bit_word_eqI) (simp add: bit_word_rotl_iff)

lemma rotl_fold1: "push_bit 1 w OR drop_bit 63 w = rotl 1 w"
  using rotl_eq [of 1 w] by simp

lemma rotl_folds:
  "push_bit 1 w OR drop_bit (64 - 1) w = rotl 1 w" 
  "push_bit 2 w OR drop_bit (64 - 2) w = rotl 2 w" 
  "push_bit 3 w OR drop_bit (64 - 3) w = rotl 3 w" 
  "push_bit 6 w OR drop_bit (64 - 6) w = rotl 6 w" 
  "push_bit 8 w OR drop_bit (64 - 8) w = rotl 8 w" 
  "push_bit 10 w OR drop_bit (64 - 10) w = rotl 10 w" 
  "push_bit 14 w OR drop_bit (64 - 14) w = rotl 14 w" 
  "push_bit 15 w OR drop_bit (64 - 15) w = rotl 15 w" 
  "push_bit 18 w OR drop_bit (64 - 18) w = rotl 18 w" 
  "push_bit 20 w OR drop_bit (64 - 20) w = rotl 20 w" 
  "push_bit 21 w OR drop_bit (64 - 21) w = rotl 21 w" 
  "push_bit 25 w OR drop_bit (64 - 25) w = rotl 25 w" 
  "push_bit 27 w OR drop_bit (64 - 27) w = rotl 27 w" 
  "push_bit 28 w OR drop_bit (64 - 28) w = rotl 28 w" 
  "push_bit 36 w OR drop_bit (64 - 36) w = rotl 36 w" 
  "push_bit 39 w OR drop_bit (64 - 39) w = rotl 39 w" 
  "push_bit 41 w OR drop_bit (64 - 41) w = rotl 41 w" 
  "push_bit 43 w OR drop_bit (64 - 43) w = rotl 43 w" 
  "push_bit 44 w OR drop_bit (64 - 44) w = rotl 44 w" 
  "push_bit 45 w OR drop_bit (64 - 45) w = rotl 45 w" 
  "push_bit 55 w OR drop_bit (64 - 55) w = rotl 55 w" 
  "push_bit 56 w OR drop_bit (64 - 56) w = rotl 56 w" 
  "push_bit 61 w OR drop_bit (64 - 61) w = rotl 61 w" 
  "push_bit 62 w OR drop_bit (64 - 62) w = rotl 62 w"
  by (rule rotl_eq; simp)+

text \<open>Reading and writing a list of 25 lanes, so that the rounds are evaluated step by step.\<close>

lemma nth25:
  "[x0, x1, x2, x3, x4, x5, x6, x7, x8, x9, x10, x11, x12,
     x13, x14, x15, x16, x17, x18, x19, x20, x21, x22, x23, x24] ! 0 = x0"
  "[x0, x1, x2, x3, x4, x5, x6, x7, x8, x9, x10, x11, x12,
     x13, x14, x15, x16, x17, x18, x19, x20, x21, x22, x23, x24] ! 1 = x1"
  "[x0, x1, x2, x3, x4, x5, x6, x7, x8, x9, x10, x11, x12,
     x13, x14, x15, x16, x17, x18, x19, x20, x21, x22, x23, x24] ! 2 = x2"
  "[x0, x1, x2, x3, x4, x5, x6, x7, x8, x9, x10, x11, x12,
     x13, x14, x15, x16, x17, x18, x19, x20, x21, x22, x23, x24] ! 3 = x3"
  "[x0, x1, x2, x3, x4, x5, x6, x7, x8, x9, x10, x11, x12,
     x13, x14, x15, x16, x17, x18, x19, x20, x21, x22, x23, x24] ! 4 = x4"
  "[x0, x1, x2, x3, x4, x5, x6, x7, x8, x9, x10, x11, x12,
     x13, x14, x15, x16, x17, x18, x19, x20, x21, x22, x23, x24] ! 5 = x5"
  "[x0, x1, x2, x3, x4, x5, x6, x7, x8, x9, x10, x11, x12,
     x13, x14, x15, x16, x17, x18, x19, x20, x21, x22, x23, x24] ! 6 = x6"
  "[x0, x1, x2, x3, x4, x5, x6, x7, x8, x9, x10, x11, x12,
     x13, x14, x15, x16, x17, x18, x19, x20, x21, x22, x23, x24] ! 7 = x7"
  "[x0, x1, x2, x3, x4, x5, x6, x7, x8, x9, x10, x11, x12,
     x13, x14, x15, x16, x17, x18, x19, x20, x21, x22, x23, x24] ! 8 = x8"
  "[x0, x1, x2, x3, x4, x5, x6, x7, x8, x9, x10, x11, x12,
     x13, x14, x15, x16, x17, x18, x19, x20, x21, x22, x23, x24] ! 9 = x9"
  "[x0, x1, x2, x3, x4, x5, x6, x7, x8, x9, x10, x11, x12,
     x13, x14, x15, x16, x17, x18, x19, x20, x21, x22, x23, x24] ! 10 = x10"
  "[x0, x1, x2, x3, x4, x5, x6, x7, x8, x9, x10, x11, x12,
     x13, x14, x15, x16, x17, x18, x19, x20, x21, x22, x23, x24] ! 11 = x11"
  "[x0, x1, x2, x3, x4, x5, x6, x7, x8, x9, x10, x11, x12,
     x13, x14, x15, x16, x17, x18, x19, x20, x21, x22, x23, x24] ! 12 = x12"
  "[x0, x1, x2, x3, x4, x5, x6, x7, x8, x9, x10, x11, x12,
     x13, x14, x15, x16, x17, x18, x19, x20, x21, x22, x23, x24] ! 13 = x13"
  "[x0, x1, x2, x3, x4, x5, x6, x7, x8, x9, x10, x11, x12,
     x13, x14, x15, x16, x17, x18, x19, x20, x21, x22, x23, x24] ! 14 = x14"
  "[x0, x1, x2, x3, x4, x5, x6, x7, x8, x9, x10, x11, x12,
     x13, x14, x15, x16, x17, x18, x19, x20, x21, x22, x23, x24] ! 15 = x15"
  "[x0, x1, x2, x3, x4, x5, x6, x7, x8, x9, x10, x11, x12,
     x13, x14, x15, x16, x17, x18, x19, x20, x21, x22, x23, x24] ! 16 = x16"
  "[x0, x1, x2, x3, x4, x5, x6, x7, x8, x9, x10, x11, x12,
     x13, x14, x15, x16, x17, x18, x19, x20, x21, x22, x23, x24] ! 17 = x17"
  "[x0, x1, x2, x3, x4, x5, x6, x7, x8, x9, x10, x11, x12,
     x13, x14, x15, x16, x17, x18, x19, x20, x21, x22, x23, x24] ! 18 = x18"
  "[x0, x1, x2, x3, x4, x5, x6, x7, x8, x9, x10, x11, x12,
     x13, x14, x15, x16, x17, x18, x19, x20, x21, x22, x23, x24] ! 19 = x19"
  "[x0, x1, x2, x3, x4, x5, x6, x7, x8, x9, x10, x11, x12,
     x13, x14, x15, x16, x17, x18, x19, x20, x21, x22, x23, x24] ! 20 = x20"
  "[x0, x1, x2, x3, x4, x5, x6, x7, x8, x9, x10, x11, x12,
     x13, x14, x15, x16, x17, x18, x19, x20, x21, x22, x23, x24] ! 21 = x21"
  "[x0, x1, x2, x3, x4, x5, x6, x7, x8, x9, x10, x11, x12,
     x13, x14, x15, x16, x17, x18, x19, x20, x21, x22, x23, x24] ! 22 = x22"
  "[x0, x1, x2, x3, x4, x5, x6, x7, x8, x9, x10, x11, x12,
     x13, x14, x15, x16, x17, x18, x19, x20, x21, x22, x23, x24] ! 23 = x23"
  "[x0, x1, x2, x3, x4, x5, x6, x7, x8, x9, x10, x11, x12,
     x13, x14, x15, x16, x17, x18, x19, x20, x21, x22, x23, x24] ! 24 = x24"
  by simp_all

lemma upd25:
  "[x0, x1, x2, x3, x4, x5, x6, x7, x8, x9, x10, x11, x12,
     x13, x14, x15, x16, x17, x18, x19, x20, x21, x22, x23, x24][0 := v] =
    [v, x1, x2, x3, x4, x5, x6, x7, x8, x9, x10, x11, x12,
     x13, x14, x15, x16, x17, x18, x19, x20, x21, x22, x23, x24]"
  "[x0, x1, x2, x3, x4, x5, x6, x7, x8, x9, x10, x11, x12,
     x13, x14, x15, x16, x17, x18, x19, x20, x21, x22, x23, x24][1 := v] =
    [x0, v, x2, x3, x4, x5, x6, x7, x8, x9, x10, x11, x12,
     x13, x14, x15, x16, x17, x18, x19, x20, x21, x22, x23, x24]"
  "[x0, x1, x2, x3, x4, x5, x6, x7, x8, x9, x10, x11, x12,
     x13, x14, x15, x16, x17, x18, x19, x20, x21, x22, x23, x24][2 := v] =
    [x0, x1, v, x3, x4, x5, x6, x7, x8, x9, x10, x11, x12,
     x13, x14, x15, x16, x17, x18, x19, x20, x21, x22, x23, x24]"
  "[x0, x1, x2, x3, x4, x5, x6, x7, x8, x9, x10, x11, x12,
     x13, x14, x15, x16, x17, x18, x19, x20, x21, x22, x23, x24][3 := v] =
    [x0, x1, x2, v, x4, x5, x6, x7, x8, x9, x10, x11, x12,
     x13, x14, x15, x16, x17, x18, x19, x20, x21, x22, x23, x24]"
  "[x0, x1, x2, x3, x4, x5, x6, x7, x8, x9, x10, x11, x12,
     x13, x14, x15, x16, x17, x18, x19, x20, x21, x22, x23, x24][4 := v] =
    [x0, x1, x2, x3, v, x5, x6, x7, x8, x9, x10, x11, x12,
     x13, x14, x15, x16, x17, x18, x19, x20, x21, x22, x23, x24]"
  "[x0, x1, x2, x3, x4, x5, x6, x7, x8, x9, x10, x11, x12,
     x13, x14, x15, x16, x17, x18, x19, x20, x21, x22, x23, x24][5 := v] =
    [x0, x1, x2, x3, x4, v, x6, x7, x8, x9, x10, x11, x12,
     x13, x14, x15, x16, x17, x18, x19, x20, x21, x22, x23, x24]"
  "[x0, x1, x2, x3, x4, x5, x6, x7, x8, x9, x10, x11, x12,
     x13, x14, x15, x16, x17, x18, x19, x20, x21, x22, x23, x24][6 := v] =
    [x0, x1, x2, x3, x4, x5, v, x7, x8, x9, x10, x11, x12,
     x13, x14, x15, x16, x17, x18, x19, x20, x21, x22, x23, x24]"
  "[x0, x1, x2, x3, x4, x5, x6, x7, x8, x9, x10, x11, x12,
     x13, x14, x15, x16, x17, x18, x19, x20, x21, x22, x23, x24][7 := v] =
    [x0, x1, x2, x3, x4, x5, x6, v, x8, x9, x10, x11, x12,
     x13, x14, x15, x16, x17, x18, x19, x20, x21, x22, x23, x24]"
  "[x0, x1, x2, x3, x4, x5, x6, x7, x8, x9, x10, x11, x12,
     x13, x14, x15, x16, x17, x18, x19, x20, x21, x22, x23, x24][8 := v] =
    [x0, x1, x2, x3, x4, x5, x6, x7, v, x9, x10, x11, x12,
     x13, x14, x15, x16, x17, x18, x19, x20, x21, x22, x23, x24]"
  "[x0, x1, x2, x3, x4, x5, x6, x7, x8, x9, x10, x11, x12,
     x13, x14, x15, x16, x17, x18, x19, x20, x21, x22, x23, x24][9 := v] =
    [x0, x1, x2, x3, x4, x5, x6, x7, x8, v, x10, x11, x12,
     x13, x14, x15, x16, x17, x18, x19, x20, x21, x22, x23, x24]"
  "[x0, x1, x2, x3, x4, x5, x6, x7, x8, x9, x10, x11, x12,
     x13, x14, x15, x16, x17, x18, x19, x20, x21, x22, x23, x24][10 := v] =
    [x0, x1, x2, x3, x4, x5, x6, x7, x8, x9, v, x11, x12,
     x13, x14, x15, x16, x17, x18, x19, x20, x21, x22, x23, x24]"
  "[x0, x1, x2, x3, x4, x5, x6, x7, x8, x9, x10, x11, x12,
     x13, x14, x15, x16, x17, x18, x19, x20, x21, x22, x23, x24][11 := v] =
    [x0, x1, x2, x3, x4, x5, x6, x7, x8, x9, x10, v, x12,
     x13, x14, x15, x16, x17, x18, x19, x20, x21, x22, x23, x24]"
  "[x0, x1, x2, x3, x4, x5, x6, x7, x8, x9, x10, x11, x12,
     x13, x14, x15, x16, x17, x18, x19, x20, x21, x22, x23, x24][12 := v] =
    [x0, x1, x2, x3, x4, x5, x6, x7, x8, x9, x10, x11, v,
     x13, x14, x15, x16, x17, x18, x19, x20, x21, x22, x23, x24]"
  "[x0, x1, x2, x3, x4, x5, x6, x7, x8, x9, x10, x11, x12,
     x13, x14, x15, x16, x17, x18, x19, x20, x21, x22, x23, x24][13 := v] =
    [x0, x1, x2, x3, x4, x5, x6, x7, x8, x9, x10, x11, x12,
     v, x14, x15, x16, x17, x18, x19, x20, x21, x22, x23, x24]"
  "[x0, x1, x2, x3, x4, x5, x6, x7, x8, x9, x10, x11, x12,
     x13, x14, x15, x16, x17, x18, x19, x20, x21, x22, x23, x24][14 := v] =
    [x0, x1, x2, x3, x4, x5, x6, x7, x8, x9, x10, x11, x12,
     x13, v, x15, x16, x17, x18, x19, x20, x21, x22, x23, x24]"
  "[x0, x1, x2, x3, x4, x5, x6, x7, x8, x9, x10, x11, x12,
     x13, x14, x15, x16, x17, x18, x19, x20, x21, x22, x23, x24][15 := v] =
    [x0, x1, x2, x3, x4, x5, x6, x7, x8, x9, x10, x11, x12,
     x13, x14, v, x16, x17, x18, x19, x20, x21, x22, x23, x24]"
  "[x0, x1, x2, x3, x4, x5, x6, x7, x8, x9, x10, x11, x12,
     x13, x14, x15, x16, x17, x18, x19, x20, x21, x22, x23, x24][16 := v] =
    [x0, x1, x2, x3, x4, x5, x6, x7, x8, x9, x10, x11, x12,
     x13, x14, x15, v, x17, x18, x19, x20, x21, x22, x23, x24]"
  "[x0, x1, x2, x3, x4, x5, x6, x7, x8, x9, x10, x11, x12,
     x13, x14, x15, x16, x17, x18, x19, x20, x21, x22, x23, x24][17 := v] =
    [x0, x1, x2, x3, x4, x5, x6, x7, x8, x9, x10, x11, x12,
     x13, x14, x15, x16, v, x18, x19, x20, x21, x22, x23, x24]"
  "[x0, x1, x2, x3, x4, x5, x6, x7, x8, x9, x10, x11, x12,
     x13, x14, x15, x16, x17, x18, x19, x20, x21, x22, x23, x24][18 := v] =
    [x0, x1, x2, x3, x4, x5, x6, x7, x8, x9, x10, x11, x12,
     x13, x14, x15, x16, x17, v, x19, x20, x21, x22, x23, x24]"
  "[x0, x1, x2, x3, x4, x5, x6, x7, x8, x9, x10, x11, x12,
     x13, x14, x15, x16, x17, x18, x19, x20, x21, x22, x23, x24][19 := v] =
    [x0, x1, x2, x3, x4, x5, x6, x7, x8, x9, x10, x11, x12,
     x13, x14, x15, x16, x17, x18, v, x20, x21, x22, x23, x24]"
  "[x0, x1, x2, x3, x4, x5, x6, x7, x8, x9, x10, x11, x12,
     x13, x14, x15, x16, x17, x18, x19, x20, x21, x22, x23, x24][20 := v] =
    [x0, x1, x2, x3, x4, x5, x6, x7, x8, x9, x10, x11, x12,
     x13, x14, x15, x16, x17, x18, x19, v, x21, x22, x23, x24]"
  "[x0, x1, x2, x3, x4, x5, x6, x7, x8, x9, x10, x11, x12,
     x13, x14, x15, x16, x17, x18, x19, x20, x21, x22, x23, x24][21 := v] =
    [x0, x1, x2, x3, x4, x5, x6, x7, x8, x9, x10, x11, x12,
     x13, x14, x15, x16, x17, x18, x19, x20, v, x22, x23, x24]"
  "[x0, x1, x2, x3, x4, x5, x6, x7, x8, x9, x10, x11, x12,
     x13, x14, x15, x16, x17, x18, x19, x20, x21, x22, x23, x24][22 := v] =
    [x0, x1, x2, x3, x4, x5, x6, x7, x8, x9, x10, x11, x12,
     x13, x14, x15, x16, x17, x18, x19, x20, x21, v, x23, x24]"
  "[x0, x1, x2, x3, x4, x5, x6, x7, x8, x9, x10, x11, x12,
     x13, x14, x15, x16, x17, x18, x19, x20, x21, x22, x23, x24][23 := v] =
    [x0, x1, x2, x3, x4, x5, x6, x7, x8, x9, x10, x11, x12,
     x13, x14, x15, x16, x17, x18, x19, x20, x21, x22, v, x24]"
  "[x0, x1, x2, x3, x4, x5, x6, x7, x8, x9, x10, x11, x12,
     x13, x14, x15, x16, x17, x18, x19, x20, x21, x22, x23, x24][24 := v] =
    [x0, x1, x2, x3, x4, x5, x6, x7, x8, x9, x10, x11, x12,
     x13, x14, x15, x16, x17, x18, x19, x20, x21, x22, x23, v]"
  by simp_all

lemma list25E:
  assumes "length (a :: 'a list) = 25"
  obtains a0 a1 a2 a3 a4 a5 a6 a7 a8 a9 a10 a11 a12 a13 a14 a15 a16 a17 a18 a19 a20 a21 a22 a23 a24
  where "a = [a0, a1, a2, a3, a4, a5, a6, a7, a8, a9, a10, a11, a12, a13, a14, a15, a16, a17, a18,
    a19, a20, a21, a22, a23, a24]"
  using assms by (auto simp: numeral_eq_Suc length_Suc_conv)

lemma round1_columns:
  assumes "length a = 25"
  shows "round1 r a = round1_rows r a (theta_d a 0) (theta_d a 1) (theta_d a 2) (theta_d a 3) (theta_d a 4)"
proof -
  obtain a0 a1 a2 a3 a4 a5 a6 a7 a8 a9 a10 a11 a12 a13 a14 a15 a16 a17 a18 a19 a20 a21 a22 a23 a24 where
    "a = [a0, a1, a2, a3, a4, a5, a6, a7, a8, a9, a10, a11, a12, a13, a14, a15, a16, a17, a18,
      a19, a20, a21, a22, a23, a24]"
    using list25E [OF assms] .
  then show ?thesis
    unfolding round1_def Let_def rotl_fold1
    by (simp add: theta_d_def theta_c_def lanes_def place1_def xor.assoc xor.left_commute xor.commute)
qed

lemma round1_spec:
  assumes "length a = 25"
  shows "lanes place1 (round1 r a) = shift_last_row (keccak_round r a)"
proof -
  obtain a0 a1 a2 a3 a4 a5 a6 a7 a8 a9 a10 a11 a12 a13 a14 a15 a16 a17 a18 a19 a20 a21 a22 a23 a24 where
    a: "a = [a0, a1, a2, a3, a4, a5, a6, a7, a8, a9, a10, a11, a12, a13, a14, a15, a16, a17, a18,
      a19, a20, a21, a22, a23, a24]"
    using list25E [OF assms] .
  define d where "d = theta_d a"
  show ?thesis
    unfolding round1_columns [OF assms] keccak_round_def rho_pi_def d_def [symmetric]
    unfolding a round1_rows_def
    by (simp only: Let_def rotl_folds nth25 upd25 cong: let_weak_cong)
       (simp add: rho_offsets_def lanes_def shift_last_row_def upt_rec place1_def,
         simp add: numeral_2_eq_2 xor.assoc)
qed

lemma round2_columns:
  assumes "length a = 25"
  shows "round2 r a = round2_rows r a (theta_d (lanes place1 a) 0) (theta_d (lanes place1 a) 1) (theta_d (lanes place1 a) 2) (theta_d (lanes place1 a) 3) (theta_d (lanes place1 a) 4)"
proof -
  obtain a0 a1 a2 a3 a4 a5 a6 a7 a8 a9 a10 a11 a12 a13 a14 a15 a16 a17 a18 a19 a20 a21 a22 a23 a24 where
    "a = [a0, a1, a2, a3, a4, a5, a6, a7, a8, a9, a10, a11, a12, a13, a14, a15, a16, a17, a18,
      a19, a20, a21, a22, a23, a24]"
    using list25E [OF assms] .
  then show ?thesis
    unfolding round2_def Let_def rotl_fold1
    by (simp add: theta_d_def theta_c_def lanes_def place1_def place2_def xor.assoc xor.left_commute xor.commute)
qed

lemma round2_spec:
  assumes "length a = 25"
  shows "lanes place2 (round2 r a) = keccak_round r (lanes place1 a)"
proof -
  obtain a0 a1 a2 a3 a4 a5 a6 a7 a8 a9 a10 a11 a12 a13 a14 a15 a16 a17 a18 a19 a20 a21 a22 a23 a24 where
    a: "a = [a0, a1, a2, a3, a4, a5, a6, a7, a8, a9, a10, a11, a12, a13, a14, a15, a16, a17, a18,
      a19, a20, a21, a22, a23, a24]"
    using list25E [OF assms] .
  define d where "d = theta_d (lanes place1 a)"
  show ?thesis
    unfolding round2_columns [OF assms] keccak_round_def rho_pi_def d_def [symmetric]
    unfolding a round2_rows_def
    by (simp only: Let_def rotl_folds nth25 upd25 cong: let_weak_cong)
       (simp add: rho_offsets_def lanes_def shift_last_row_def upt_rec place1_def place2_def,
         simp add: numeral_2_eq_2 xor.assoc)
qed

lemma round3_columns:
  assumes "length a = 25"
  shows "round3 r a = round3_rows r a (theta_d (lanes place2 a) 0) (theta_d (lanes place2 a) 1) (theta_d (lanes place2 a) 2) (theta_d (lanes place2 a) 3) (theta_d (lanes place2 a) 4)"
proof -
  obtain a0 a1 a2 a3 a4 a5 a6 a7 a8 a9 a10 a11 a12 a13 a14 a15 a16 a17 a18 a19 a20 a21 a22 a23 a24 where
    "a = [a0, a1, a2, a3, a4, a5, a6, a7, a8, a9, a10, a11, a12, a13, a14, a15, a16, a17, a18,
      a19, a20, a21, a22, a23, a24]"
    using list25E [OF assms] .
  then show ?thesis
    unfolding round3_def Let_def rotl_fold1
    by (simp add: theta_d_def theta_c_def lanes_def place2_def place3_def xor.assoc xor.left_commute xor.commute)
qed

lemma round3_spec:
  assumes "length a = 25"
  shows "lanes place3 (round3 r a) = keccak_round r (lanes place2 a)"
proof -
  obtain a0 a1 a2 a3 a4 a5 a6 a7 a8 a9 a10 a11 a12 a13 a14 a15 a16 a17 a18 a19 a20 a21 a22 a23 a24 where
    a: "a = [a0, a1, a2, a3, a4, a5, a6, a7, a8, a9, a10, a11, a12, a13, a14, a15, a16, a17, a18,
      a19, a20, a21, a22, a23, a24]"
    using list25E [OF assms] .
  define d where "d = theta_d (lanes place2 a)"
  show ?thesis
    unfolding round3_columns [OF assms] keccak_round_def rho_pi_def d_def [symmetric]
    unfolding a round3_rows_def
    by (simp only: Let_def rotl_folds nth25 upd25 cong: let_weak_cong)
       (simp add: rho_offsets_def lanes_def shift_last_row_def upt_rec place2_def place3_def,
         simp add: numeral_2_eq_2 xor.assoc)
qed

lemma round4_columns:
  assumes "length a = 25"
  shows "round4 r a = round4_rows r a (theta_d (lanes place3 a) 0) (theta_d (lanes place3 a) 1) (theta_d (lanes place3 a) 2) (theta_d (lanes place3 a) 3) (theta_d (lanes place3 a) 4)"
proof -
  obtain a0 a1 a2 a3 a4 a5 a6 a7 a8 a9 a10 a11 a12 a13 a14 a15 a16 a17 a18 a19 a20 a21 a22 a23 a24 where
    "a = [a0, a1, a2, a3, a4, a5, a6, a7, a8, a9, a10, a11, a12, a13, a14, a15, a16, a17, a18,
      a19, a20, a21, a22, a23, a24]"
    using list25E [OF assms] .
  then show ?thesis
    unfolding round4_def Let_def rotl_fold1
    by (simp add: theta_d_def theta_c_def lanes_def place3_def xor.assoc xor.left_commute xor.commute)
qed

lemma round4_spec:
  assumes "length a = 25"
  shows "round4 r a = keccak_round r (lanes place3 a)"
proof -
  obtain a0 a1 a2 a3 a4 a5 a6 a7 a8 a9 a10 a11 a12 a13 a14 a15 a16 a17 a18 a19 a20 a21 a22 a23 a24 where
    a: "a = [a0, a1, a2, a3, a4, a5, a6, a7, a8, a9, a10, a11, a12, a13, a14, a15, a16, a17, a18,
      a19, a20, a21, a22, a23, a24]"
    using list25E [OF assms] .
  define d where "d = theta_d (lanes place3 a)"
  show ?thesis
    unfolding round4_columns [OF assms] keccak_round_def rho_pi_def d_def [symmetric]
    unfolding a round4_rows_def
    by (simp only: Let_def rotl_folds nth25 upd25 cong: let_weak_cong)
       (simp add: rho_offsets_def lanes_def shift_last_row_def upt_rec place3_def,
         simp add: numeral_2_eq_2 xor.assoc)
qed

section \<open>The permutation\<close>

lemma length_Let_update:
  "length xs = n \<Longrightarrow> (\<And>a. length a = n \<Longrightarrow> length (f a) = n) \<Longrightarrow> length (let a = xs[i := v] in f a) = n"
  by (simp add: Let_def)

lemma length_Let: "(\<And>x. length (f x) = n) \<Longrightarrow> length (let x = v in f x) = n"
  by (simp add: Let_def)

lemma length_rows [simp]:
  "length (round1_rows r a d0 d1 d2 d3 d4) = length a"
  "length (round2_rows r a d0 d1 d2 d3 d4) = length a"
  "length (round3_rows r a d0 d1 d2 d3 d4) = length a"
  "length (round4_rows r a d0 d1 d2 d3 d4) = length a"
  unfolding round1_rows_def round2_rows_def round3_rows_def round4_rows_def
  by (rule refl | assumption | rule length_Let_update | rule length_Let)+

lemma length_rounds [simp]:
  "length (round1 r a) = length a" "length (round2 r a) = length a"
  "length (round3 r a) = length a" "length (round4 r a) = length a"
  by (simp_all add: round1_def round2_def round3_def round4_def Let_def)

lemma length_keccak_turn [simp]: "length (keccak_turn i a) = length a"
  by (simp add: keccak_turn_def Let_def)

lemma length_fold_turns: "length (fold keccak_turn is a) = length a"
  by (induction "is" arbitrary: a) simp_all

lemma length_keccakF1600 [simp]: "length (keccakF1600 a) = length a"
  by (simp only: keccakF1600_def length_fold_turns)

lemma keccak_turn_spec: "length a = 25 \<Longrightarrow> keccak_turn i a = keccak_turn_spec i a"
  by (simp only: keccak_turn_def keccak_turn_spec_def Let_def round1_spec round2_spec round3_spec round4_spec length_rounds)

lemma fold_turns_spec:
  "length a = 25 \<Longrightarrow> fold keccak_turn is a = fold keccak_turn_spec is a"
proof (induction "is" arbitrary: a)
  case (Cons i "is")
  have "length (keccak_turn i a) = 25" using Cons.prems by simp
  then have "fold keccak_turn is (keccak_turn i a) = fold keccak_turn_spec is (keccak_turn i a)"
    by (rule Cons.IH)
  then show ?case by (simp add: keccak_turn_spec [OF Cons.prems])
qed simp

lemma all_nat_less5: "(\<forall>k<5. Q k) \<longleftrightarrow> Q 0 \<and> Q 1 \<and> Q 2 \<and> Q 3 \<and> Q (4::nat)"
  by (auto simp: numeral_eq_Suc less_Suc_eq)

text \<open>
  C2. On any state of 25 lanes, \<open>keccakF1600\<close> is the six turns of four textbook rounds with the round
  constants in order, except that the last row is rotated by one lane after the first round of each turn.
\<close>
theorem keccakF1600_exact:
  "length a = 25 \<Longrightarrow> keccakF1600 a = fold keccak_turn_spec [0, 4, 8, 12, 16, 20] a"
  by (simp only: keccakF1600_def fold_turns_spec)

theorem keccakF1600_exact_witness:
  "length (replicate 25 0 :: uint64 list) = 25 \<and>
   keccakF1600 (replicate 25 0) = fold keccak_turn_spec [0, 4, 8, 12, 16, 20] (replicate 25 0)"
  using keccakF1600_exact [of "replicate 25 0"] by simp

text \<open>
  The first unrolled round is the textbook round exactly on the states whose last row comes out
  with five equal lanes; on every other state that row is left rotated by one lane.
\<close>
theorem round1_textbook_iff:
  assumes "length a = 25"
  shows "lanes place1 (round1 r a) = keccak_round r a \<longleftrightarrow>
    (\<forall>k<5. keccak_round r a ! (20 + k) = keccak_round r a ! 20)"
proof -
  have len: "length (keccak_round r a) = 25" by (simp add: keccak_round_def)
  obtain a0 a1 a2 a3 a4 a5 a6 a7 a8 a9 a10 a11 a12 a13 a14 a15 a16 a17 a18 a19 a20 a21 a22 a23 a24 where
    "keccak_round r a = [a0, a1, a2, a3, a4, a5, a6, a7, a8, a9, a10, a11, a12, a13, a14, a15, a16, a17, a18,
      a19, a20, a21, a22, a23, a24]"
    using list25E [OF len] .
  then show ?thesis
    by (simp add: round1_spec [OF assms] shift_last_row_def all_nat_less5) metis
qed
theorem round1_textbook_iff_witness:
  "length ((replicate 25 0)[2 := 1, 7 := 1] :: uint64 list) = 25 \<and>
   lanes place1 (round1 1 ((replicate 25 0)[2 := 1, 7 := 1])) \<noteq> keccak_round 1 ((replicate 25 0)[2 := 1, 7 := 1])"
proof -
  have "keccak_round 1 ((replicate 25 0)[2 := 1, 7 := 1]) ! 22 \<noteq> keccak_round 1 ((replicate 25 0)[2 := 1, 7 := 1]) ! 20"
    by (simp add: keccak_round_def rho_pi_def theta_d_def theta_c_def rho_offsets_def rotl_eq [symmetric] Let_def nth_list_update numeral_2_eq_2 [symmetric])
  then have "\<not> (\<forall>k<5. keccak_round 1 ((replicate 25 0)[2 := 1, 7 := 1]) ! (20 + k) =
    keccak_round 1 ((replicate 25 0)[2 := 1, 7 := 1]) ! 20)"
    by (intro notI) (drule spec [of _ 2], simp)
  then show ?thesis
    using round1_textbook_iff [of "(replicate 25 0)[2 := 1, 7 := 1]" 1] by simp
qed

end
