(* ===== verification/Sha3.thy ===== *)
theory Sha3
  imports Keccakf "HOL-Library.Signed_Division"
begin

text \<open>
  \<open>src/crypto/sha3/sha3.go\<close>, the sponge over \<open>keccakF1600\<close>, and its client
  \<open>src/crypto/randentropy/rand_entropy.go\<close>. Go's \<open>%\<close> and \<open>/\<close> truncate towards zero and are
  \<open>smod\<close> and \<open>sdiv\<close>; a call that panics is the outcome \<open>Panics\<close>, and a call that never returns is
  \<open>None\<close>. The lengths of messages are unbounded integers.

  The constant \<open>stateSize\<close> is 64 and \<open>minInt\<close> returns its first argument, as the source has them, so
  that only \<open>NewKeccak224\<close>, with a rate of 8 bytes, is usable. The lemmas show that it is a sponge
  of that rate, byte by byte, and how the other three fail.
\<close>

section \<open>The digest\<close>

datatype 'a outcome = Returns 'a | Panics

definition laneSize :: int where "laneSize = 8"

definition sliceSize :: int where "sliceSize = 5"

definition numLanes :: int where "numLanes = sliceSize * sliceSize"

definition stateSize :: int where "stateSize = laneSize * laneSize"

record digest =
  da :: "uint64 list"
  outputSize :: int
  capacity :: int
  absorbed :: int

definition minInt :: "int \<Rightarrow> int \<Rightarrow> int" where
  "minInt v1 v2 = (if v1 \<le> v1 then v1 else v2)"

definition rate :: "digest \<Rightarrow> int" where
  "rate d = stateSize - capacity d"

definition digest_Reset :: "digest \<Rightarrow> digest" where
  "digest_Reset d = d\<lparr>absorbed := 0, da := map (\<lambda>_. 0) (da d)\<rparr>"

definition BlockSize :: "digest \<Rightarrow> int" where
  "BlockSize d = rate d"

definition digest_Size :: "digest \<Rightarrow> int" where
  "digest_Size d = outputSize d"

definition new_digest :: "int \<Rightarrow> int \<Rightarrow> digest" where
  "new_digest out cap = \<lparr>da = replicate (nat numLanes) 0, outputSize = out, capacity = cap, absorbed = 0\<rparr>"

definition NewKeccak224 :: digest where
  "NewKeccak224 = new_digest (224 div 8) (2 * 224 div 8)"

definition NewKeccak256 :: digest where
  "NewKeccak256 = new_digest (256 div 8) (2 * 256 div 8)"

definition NewKeccak384 :: digest where
  "NewKeccak384 = new_digest (384 div 8) (2 * 384 div 8)"

definition NewKeccak512 :: digest where
  "NewKeccak512 = new_digest (512 div 8) (2 * 512 div 8)"

text \<open>\<open>d.a[i] ^= t\<close>\<close>

definition xor_lane :: "uint64 list \<Rightarrow> int \<Rightarrow> uint64 \<Rightarrow> uint64 list outcome" where
  "xor_lane a i t =
     (if 0 \<le> i \<and> i < int (length a) then Returns (a[nat i := a ! nat i XOR t]) else Panics)"

section \<open>Absorbing\<close>

text \<open>The loop of \<open>unalignedAbsorb\<close>, from the last byte to the first; also \<open>binary.LittleEndian.Uint64\<close>.\<close>

definition le_word :: "byte list \<Rightarrow> uint64" where
  "le_word p = foldr (\<lambda>b t. push_bit 8 t OR ucast b) p 0"

definition unalignedAbsorb :: "digest \<Rightarrow> byte list \<Rightarrow> digest outcome" where
  "unalignedAbsorb d p =
     (let t = le_word p
      in if rate d = 0 then Panics
         else (let offset = absorbed d smod rate d;
                   t = push_bit (unat (8 * (of_int (offset smod laneSize) :: uint64))) t
               in case xor_lane (da d) (offset sdiv laneSize) t of
                    Panics \<Rightarrow> Panics
                  | Returns a \<Rightarrow> Returns (d\<lparr>da := a, absorbed := absorbed d + int (length p)\<rparr>)))"

text \<open>The permutation, when a multiple of the rate is absorbed.\<close>

definition permute_full :: "digest \<Rightarrow> digest" where
  "permute_full d = (if absorbed d smod rate d = 0 then d\<lparr>da := keccakF1600 (da d)\<rparr> else d)"

text \<open>
  The first, partial lane. \<open>p[:toAbsorb]\<close> may reach into the capacity of \<open>p\<close>, but then
  \<open>p[toAbsorb:]\<close> panics.
\<close>

definition absorb_partial :: "digest \<Rightarrow> byte list \<Rightarrow> int \<Rightarrow> (digest \<times> byte list \<times> int) outcome" where
  "absorb_partial d p offset =
     (if (offset smod laneSize \<noteq> 0 \<or> length p < 8) \<and> 0 < length p
      then (let toAbsorb = minInt (laneSize - (offset smod laneSize)) (int (length p))
            in if toAbsorb < 0 \<or> int (length p) < toAbsorb then Panics
               else (case unalignedAbsorb d (take (nat toAbsorb) p) of
                       Panics \<Rightarrow> Panics
                     | Returns d \<Rightarrow>
                         Returns (permute_full d, drop (nat toAbsorb) p, absorbed d smod rate d)))
      else Returns (d, p, offset))"

text \<open>The inner loop of \<open>Write\<close>, over the given lanes.\<close>

fun absorb_lanes :: "int list \<Rightarrow> uint64 list \<Rightarrow> byte list \<Rightarrow> (uint64 list \<times> byte list) outcome" where
  "absorb_lanes [] a p = Returns (a, p)"
| "absorb_lanes (lane # ls) a p =
     (if length p < nat laneSize then Panics
      else (case xor_lane a lane (le_word (take (nat laneSize) p)) of
              Panics \<Rightarrow> Panics
            | Returns a \<Rightarrow> absorb_lanes ls a (drop (nat laneSize) p)))"

partial_function (option) write_loop ::
  "digest \<Rightarrow> byte list \<Rightarrow> int \<Rightarrow> (digest \<times> byte list) outcome option" where
  "write_loop d p offset =
     (if 7 < length p
      then (let firstLane = offset sdiv laneSize;
                lastLane = minInt (rate d sdiv laneSize) (firstLane + int (length p) sdiv laneSize)
            in case absorb_lanes [firstLane..lastLane - 1] (da d) p of
                 Panics \<Rightarrow> Some Panics
               | Returns (a, p) \<Rightarrow>
                   write_loop
                     (permute_full (d\<lparr>da := a, absorbed := absorbed d + (lastLane - firstLane) * laneSize\<rparr>)) p 0)
      else Some (Returns (d, p)))"

declare write_loop.simps [code]

text \<open>\<open>Write\<close>: the digest afterwards and the number of bytes written.\<close>

definition digest_Write :: "digest \<Rightarrow> byte list \<Rightarrow> (digest \<times> int) outcome option" where
  "digest_Write d p =
     (if rate d = 0 then Some Panics
      else (case absorb_partial d p (absorbed d smod rate d) of
              Panics \<Rightarrow> Some Panics
            | Returns (d, p', offset) \<Rightarrow>
                (case write_loop d p' offset of
                   None \<Rightarrow> None
                 | Some Panics \<Rightarrow> Some Panics
                 | Some (Returns (d, p'')) \<Rightarrow>
                     if 0 < length p''
                     then (case unalignedAbsorb d p'' of
                             Panics \<Rightarrow> Some Panics
                           | Returns d \<Rightarrow> Some (Returns (d, int (length p))))
                     else Some (Returns (d, int (length p))))))"

section \<open>Squeezing\<close>

definition pad :: "digest \<Rightarrow> digest outcome" where
  "pad d =
     (if rate d = 0 then Panics
      else (let offset = absorbed d smod rate d;
                padOpenLane = offset sdiv laneSize
            in case xor_lane (da d) padOpenLane
                      (push_bit (unat (of_int (8 * (offset smod laneSize)) :: uint64)) 1) of
                 Panics \<Rightarrow> Panics
               | Returns a \<Rightarrow>
                   (let padCloseLane = rate d sdiv laneSize - 1
                    in case xor_lane a padCloseLane 0x8000000000000000 of
                         Panics \<Rightarrow> Panics
                       | Returns a \<Rightarrow> Returns (d\<lparr>da := a\<rparr>))))"

definition finalize :: "digest \<Rightarrow> digest outcome" where
  "finalize d = (case pad d of Panics \<Rightarrow> Panics | Returns d \<Rightarrow> Returns (d\<lparr>da := keccakF1600 (da d)\<rparr>))"

text \<open>\<open>binary.LittleEndian.PutUint64\<close>\<close>

definition le_bytes :: "uint64 \<Rightarrow> byte list" where
  "le_bytes w = map (\<lambda>i. ucast (drop_bit (8 * i) w)) [0..<8]"

text \<open>One pass of the inner loop of \<open>squeeze\<close>: \<open>n\<close> bytes are left to fill, \<open>out\<close> are filled.\<close>

function squeeze_block :: "int \<Rightarrow> int \<Rightarrow> uint64 list \<Rightarrow> nat \<Rightarrow> byte list \<Rightarrow> (nat \<times> byte list) outcome" where
  "squeeze_block r i a n out =
     (if i < r \<and> 0 < n
      then (if n < 8 \<or> i sdiv laneSize < 0 \<or> int (length a) \<le> i sdiv laneSize then Panics
            else squeeze_block r (i + laneSize) a (n - 8) (out @ le_bytes (a ! nat (i sdiv laneSize))))
      else Returns (n, out))"
  by pat_completeness auto
termination
  by (relation "measure (\<lambda>(r, i, a, n, out). n)") auto

declare squeeze_block.simps [simp del]

partial_function (option) squeeze_loop ::
  "int \<Rightarrow> uint64 list \<Rightarrow> nat \<Rightarrow> byte list \<Rightarrow> byte list outcome option" where
  "squeeze_loop r a n out =
     (if 0 < n
      then (case squeeze_block r 0 a n out of
              Panics \<Rightarrow> Some Panics
            | Returns (n, out) \<Rightarrow> squeeze_loop r (if 0 < n then keccakF1600 a else a) n out)
      else Some (Returns out))"

declare squeeze_loop.simps [code]

definition squeeze :: "digest \<Rightarrow> byte list \<Rightarrow> int \<Rightarrow> byte list outcome option" where
  "squeeze d inp toSqueeze =
     (let needed = toSqueeze + (laneSize - toSqueeze smod laneSize) smod laneSize
      in if needed < 0 then Some Panics
         else (case squeeze_loop (rate d) (da d) (nat needed) [] of
                 None \<Rightarrow> None
               | Some Panics \<Rightarrow> Some Panics
               | Some (Returns out) \<Rightarrow> Some (Returns (take (length inp + nat toSqueeze) (inp @ out)))))"

text \<open>\<open>Sum\<close> works on a copy; the result has the digest itself as it is afterwards.\<close>

definition digest_Sum :: "digest \<Rightarrow> byte list \<Rightarrow> (byte list \<times> digest) outcome option" where
  "digest_Sum d inp =
     (let dup = d
      in case finalize dup of
           Panics \<Rightarrow> Some Panics
         | Returns dup \<Rightarrow>
             (case squeeze dup inp (outputSize dup) of
                None \<Rightarrow> None
              | Some Panics \<Rightarrow> Some Panics
              | Some (Returns out) \<Rightarrow> Some (Returns (out, d))))"

section \<open>rand_entropy.go\<close>

text \<open>\<open>randentropy.Sha3\<close>\<close>

definition randentropy_Sha3 :: "byte list \<Rightarrow> byte list outcome option" where
  "randentropy_Sha3 data =
     (case digest_Write NewKeccak256 data of
        None \<Rightarrow> None
      | Some Panics \<Rightarrow> Some Panics
      | Some (Returns (d, _)) \<Rightarrow>
          (case digest_Sum d [] of
             None \<Rightarrow> None
           | Some Panics \<Rightarrow> Some Panics
           | Some (Returns (out, _)) \<Rightarrow> Some (Returns out)))"

text \<open>
  \<open>readFull n\<close> stands for \<open>io.ReadFull(crand.Reader, buf)\<close> on a buffer of \<open>n\<close> bytes: the bytes of
  the buffer afterwards and the error.
\<close>

definition GetEntropyCSPRNG :: "(nat \<Rightarrow> byte list \<times> string option) \<Rightarrow> int \<Rightarrow> byte list outcome" where
  "GetEntropyCSPRNG readFull n =
     (if n < 0 then Panics
      else (case readFull (nat n) of
              (mainBuff, None) \<Rightarrow> Returns mainBuff
            | (mainBuff, Some err) \<Rightarrow> Panics))"

definition randEntropy_Read ::
  "(nat \<Rightarrow> byte list \<times> string option) \<Rightarrow> byte list \<Rightarrow> (byte list \<times> nat) outcome" where
  "randEntropy_Read readFull bytes =
     (case GetEntropyCSPRNG readFull (int (length bytes)) of
        Panics \<Rightarrow> Panics
      | Returns readBytes \<Rightarrow> Returns (go_copy bytes readBytes, length bytes))"

section \<open>The sponge, byte by byte\<close>

text \<open>
  The reference for rate 8: each byte is added to its place in lane 0, and the state is permuted when
  the lane is full. The state is the lanes and the number of bytes absorbed.
\<close>

definition absorb_byte :: "byte \<Rightarrow> uint64 list \<times> int \<Rightarrow> uint64 list \<times> int" where
  "absorb_byte b s =
     (let (a, n) = s;
          a = a[0 := a ! 0 XOR push_bit (8 * nat (n mod 8)) (ucast b)]
      in (if (n + 1) mod 8 = 0 then keccakF1600 a else a, n + 1))"

definition absorb_bytes :: "byte list \<Rightarrow> uint64 list \<times> int \<Rightarrow> uint64 list \<times> int" where
  "absorb_bytes = fold absorb_byte"

text \<open>Digests of rate 8, which are the states of \<open>NewKeccak224\<close>.\<close>

definition rate8 :: "digest \<Rightarrow> bool" where
  "rate8 d \<longleftrightarrow> length (da d) = 25 \<and> capacity d = 56 \<and> outputSize d = 28 \<and> 0 \<le> absorbed d"

definition sponge_state :: "digest \<Rightarrow> uint64 list \<times> int" where
  "sponge_state d = (da d, absorbed d)"

definition with_state :: "digest \<Rightarrow> uint64 list \<times> int \<Rightarrow> digest" where
  "with_state d s = d\<lparr>da := fst s, absorbed := snd s\<rparr>"

named_theorems sponge_simps "the constants and division of the sponge"

lemma smod_nonneg [sponge_simps]: "0 \<le> n \<Longrightarrow> n smod 8 = n mod (8 :: int)"
  by (auto simp: signed_modulo_int_def sgn_if)

lemma sdiv_nonneg [sponge_simps]: "0 \<le> n \<Longrightarrow> n sdiv 8 = n div (8 :: int)"
  by (auto simp: signed_divide_int_def sgn_if)

lemma minInt_fst [sponge_simps]: "minInt a b = a"
  by (simp add: minInt_def)

lemma stateSize_64 [sponge_simps]: "stateSize = 64"
  by (simp add: stateSize_def laneSize_def)

lemma laneSize_8 [sponge_simps]: "laneSize = 8"
  by (simp add: laneSize_def)

lemma rate8_rate [simp]: "rate8 d \<Longrightarrow> rate d = 8"
  by (simp add: rate8_def rate_def stateSize_64)

lemma rate8_simps:
  "rate8 d \<Longrightarrow> length (da d) = 25" "rate8 d \<Longrightarrow> 0 \<le> absorbed d" "rate8 d \<Longrightarrow> outputSize d = 28"
  by (simp_all add: rate8_def)

lemma rate8_upd [intro]:
  "rate8 d \<Longrightarrow> length a = 25 \<Longrightarrow> 0 \<le> n \<Longrightarrow> rate8 (d\<lparr>da := a, absorbed := n\<rparr>)"
  by (simp add: rate8_def)

lemma length_absorb_byte: "length (fst (absorb_byte b s)) = length (fst s)"
  by (simp add: absorb_byte_def Let_def split: prod.split)

lemma absorb_bytes_Nil [simp]: "absorb_bytes [] s = s"
  by (simp add: absorb_bytes_def)

lemma absorb_bytes_append: "absorb_bytes (xs @ ys) s = absorb_bytes ys (absorb_bytes xs s)"
  by (simp add: absorb_bytes_def)

lemma length_absorb_bytes: "length (fst (absorb_bytes bs s)) = length (fst s)"
  unfolding absorb_bytes_def by (induction bs arbitrary: s) (simp_all add: length_absorb_byte)

lemma snd_absorb_bytes: "snd (absorb_bytes bs s) = snd s + int (length bs)"
  unfolding absorb_bytes_def
  by (induction bs arbitrary: s) (simp_all add: absorb_byte_def Let_def split: prod.split)

lemma le_word_Cons: "le_word (b # bs) = push_bit 8 (le_word bs) XOR ucast b"
proof -
  have "push_bit 8 (le_word bs) AND ucast b = 0"
    by (rule bit_word_eqI) (auto simp: bit_and_iff bit_push_bit_iff bit_ucast_iff dest: bit_imp_le_length)
  then have "push_bit 8 (le_word bs) OR ucast b = push_bit 8 (le_word bs) XOR ucast b"
    by (rule disjunctive_xor_eq_or [symmetric])
  then show ?thesis by (simp add: le_word_def)
qed

text \<open>Bytes that stay within the lane are added as one word.\<close>

lemma absorb_run:
  "0 \<le> n \<Longrightarrow> bs \<noteq> [] \<Longrightarrow> n mod 8 + int (length bs) \<le> 8 \<Longrightarrow> a \<noteq> [] \<Longrightarrow>
   absorb_bytes bs (a, n) =
     (let a' = a[0 := a ! 0 XOR push_bit (8 * nat (n mod 8)) (le_word bs)]
      in (if (n + int (length bs)) mod 8 = 0 then keccakF1600 a' else a', n + int (length bs)))"
proof (induction bs arbitrary: a n)
  case (Cons b bs)
  show ?case
  proof (cases "bs = []")
    case True
    then show ?thesis
      by (simp add: absorb_bytes_def absorb_byte_def le_word_def Let_def)
  next
    case False
    then have "1 \<le> int (length bs)" by (cases bs) simp_all
    with Cons.prems(3) have lt: "n mod 8 < 7" unfolding length_Cons by linarith
    then have m: "(n + 1) mod 8 = n mod 8 + 1"
      using Cons.prems(1) by presburger
    define a1 where "a1 = a[0 := a ! 0 XOR push_bit (8 * nat (n mod 8)) (ucast b)]"
    have "(n + 1) mod 8 \<noteq> 0"
      unfolding m using pos_mod_sign [of 8 n] by linarith
    then have "absorb_bytes (b # bs) (a, n) = absorb_bytes bs (a1, n + 1)"
      using m by (simp add: absorb_bytes_def absorb_byte_def a1_def Let_def)
    also have "\<dots> =
      (let a' = a1[0 := a1 ! 0 XOR push_bit (8 * nat ((n + 1) mod 8)) (le_word bs)]
       in (if (n + 1 + int (length bs)) mod 8 = 0 then keccakF1600 a' else a', n + 1 + int (length bs)))"
      using Cons.prems False m by (intro Cons.IH) (simp_all add: a1_def)
    also have "a1 ! 0 XOR push_bit (8 * nat ((n + 1) mod 8)) (le_word bs) =
      a ! 0 XOR push_bit (8 * nat (n mod 8)) (le_word (b # bs))"
    proof -
      have "8 * nat (n mod 8 + 1) = 8 * nat (n mod 8) + 8"
        by (simp add: nat_add_distrib)
      then show ?thesis
        using Cons.prems(4)
        by (simp add: a1_def m le_word_Cons push_bit_xor xor.assoc xor.commute)
    qed
    finally show ?thesis
      by (simp add: a1_def add.assoc Let_def)
  qed
qed simp

lemma unat_shift: "0 \<le> k \<Longrightarrow> k < 8 \<Longrightarrow> unat (8 * (of_int k :: uint64)) = 8 * nat k"
proof -
  assume k: "0 \<le> k" "k < 8"
  then have "8 * (of_int k :: uint64) = of_nat (8 * nat k)" by simp
  moreover have "8 * nat k < 2 ^ 64" using k by simp
  ultimately show ?thesis by (simp only: unat_of_nat) (simp add: take_bit_nat_eq_self)
qed

lemma xor_lane_0 [simp]: "length a = 25 \<Longrightarrow> xor_lane a 0 t = Returns (a[0 := a ! 0 XOR t])"
  by (simp add: xor_lane_def)

lemma unalignedAbsorb_rate8:
  assumes "rate8 d"
  shows "unalignedAbsorb d p =
    Returns (d\<lparr>da := (da d)[0 := da d ! 0 XOR push_bit (8 * nat (absorbed d mod 8)) (le_word p)],
              absorbed := absorbed d + int (length p)\<rparr>)"
  using assms rate8_simps [OF assms]
  by (simp add: unalignedAbsorb_def sponge_simps Let_def unat_shift)

lemma permute_full_rate8:
  "rate8 d \<Longrightarrow> permute_full d = (if absorbed d mod 8 = 0 then d\<lparr>da := keccakF1600 (da d)\<rparr> else d)"
  using rate8_simps [of d] by (simp add: permute_full_def sponge_simps)

lemma absorb_fit:
  assumes "rate8 d" "p \<noteq> []" "absorbed d mod 8 + int (length p) \<le> 8"
  obtains d' where "unalignedAbsorb d p = Returns d'" "absorbed d' = absorbed d + int (length p)"
    "permute_full d' = with_state d (absorb_bytes p (sponge_state d))"
    "absorbed d' mod 8 \<noteq> 0 \<longrightarrow> d' = with_state d (absorb_bytes p (sponge_state d))" "rate8 d'"
proof -
  let ?a = "(da d)[0 := da d ! 0 XOR push_bit (8 * nat (absorbed d mod 8)) (le_word p)]"
  let ?d = "d\<lparr>da := ?a, absorbed := absorbed d + int (length p)\<rparr>"
  note r = rate8_simps [OF assms(1)]
  have r': "rate8 ?d" using assms(1) r by auto
  have "da d \<noteq> []" using r(1) by auto
  then have s: "absorb_bytes p (sponge_state d) =
    (if (absorbed d + int (length p)) mod 8 = 0 then keccakF1600 ?a else ?a, absorbed d + int (length p))"
    using absorb_run [OF r(2) assms(2,3)] by (simp add: sponge_state_def Let_def)
  show thesis
  proof (rule that [of ?d])
    show "unalignedAbsorb d p = Returns ?d" by (rule unalignedAbsorb_rate8 [OF assms(1)])
    show "permute_full ?d = with_state d (absorb_bytes p (sponge_state d))"
      unfolding permute_full_rate8 [OF r'] s by (simp add: with_state_def)
    show "absorbed ?d mod 8 \<noteq> 0 \<longrightarrow> ?d = with_state d (absorb_bytes p (sponge_state d))"
      unfolding s by (simp add: with_state_def)
  qed (use r' in simp_all)
qed

lemma with_state_simps [simp]:
  "sponge_state (with_state d s) = s" "with_state (with_state d s) t = with_state d t"
  "with_state d (sponge_state d) = d" "absorbed (with_state d s) = snd s" "da (with_state d s) = fst s"
  by (simp_all add: sponge_state_def with_state_def)

lemma rate8_absorb: "rate8 d \<Longrightarrow> rate8 (with_state d (absorb_bytes p (sponge_state d)))"
  by (auto simp: rate8_def with_state_def length_absorb_bytes snd_absorb_bytes sponge_state_def)

text \<open>The loop of \<open>Write\<close> on a lane boundary.\<close>

lemma write_loop_rate8:
  "rate8 d \<Longrightarrow> absorbed d mod 8 = 0 \<Longrightarrow>
   write_loop d p 0 =
     Some (Returns (with_state d (absorb_bytes (take (8 * (length p div 8)) p) (sponge_state d)),
                    drop (8 * (length p div 8)) p))"
proof (induction "length p" arbitrary: d p rule: less_induct)
  case less
  note r = rate8_simps [OF less.prems(1)]
  show ?case
  proof (cases "7 < length p")
    case False
    then show ?thesis by (subst write_loop.simps) simp
  next
    case True
    let ?h = "take 8 p" and ?t = "drop 8 p"
    let ?a = "(da d)[0 := da d ! 0 XOR le_word ?h]"
    let ?d = "d\<lparr>da := ?a, absorbed := absorbed d + 8\<rparr>"
    define d' where "d' = permute_full ?d"
    have len: "length ?h = 8" using True by simp
    have r': "rate8 ?d" using less.prems(1) r by auto
    have m8: "(absorbed d + 8) mod 8 = 0" using less.prems(2) by simp
    have ne: "?h \<noteq> []" "da d \<noteq> []" using True r(1) by auto
    have "absorbed d mod 8 + int (length ?h) \<le> 8" using less.prems(2) len by simp
    then have run: "absorb_bytes ?h (sponge_state d) = (keccakF1600 ?a, absorbed d + 8)"
      using absorb_run [OF r(2) ne(1) _ ne(2)] less.prems(2) m8 unfolding sponge_state_def len
      by (simp add: Let_def)
    have d': "d' = with_state d (absorb_bytes ?h (sponge_state d))"
      unfolding d'_def permute_full_rate8 [OF r'] run using m8 by (simp add: with_state_def)
    have div: "8 * (length p div 8) = 8 + 8 * (length ?t div 8)"
      using True by (simp add: div_nat_eqI le_div_geq)
    have "write_loop d p 0 = write_loop d' ?t 0"
      using True r less.prems(1)
      by (subst write_loop.simps) (simp add: sponge_simps Let_def d'_def)
    also have "\<dots> =
      Some (Returns (with_state d' (absorb_bytes (take (8 * (length ?t div 8)) ?t) (sponge_state d')),
                     drop (8 * (length ?t div 8)) ?t))"
    proof (rule less.hyps)
      show "length ?t < length p" using True by simp
      show "rate8 d'" unfolding d' by (rule rate8_absorb) (rule less.prems)
      show "absorbed d' mod 8 = 0" unfolding d' run using m8 by simp
    qed
    also have "take (8 * (length p div 8)) p = ?h @ take (8 * (length ?t div 8)) ?t"
      unfolding div by (rule take_add)
    then have "absorb_bytes (take (8 * (length ?t div 8)) ?t) (sponge_state d') =
      absorb_bytes (take (8 * (length p div 8)) p) (sponge_state d)"
      by (simp add: d' absorb_bytes_append)
    moreover have "drop (8 * (length ?t div 8)) ?t = drop (8 * (length p div 8)) p"
      unfolding div by (simp add: add.commute)
    ultimately show ?thesis by (simp add: d')
  qed
qed

text \<open>The loop and the remaining bytes, from a lane boundary on.\<close>

lemma write_tail_rate8:
  assumes "rate8 d" "absorbed d mod 8 = 0"
  shows "(case write_loop d p 0 of
            None \<Rightarrow> None
          | Some Panics \<Rightarrow> Some Panics
          | Some (Returns (d, p'')) \<Rightarrow>
              if 0 < length p''
              then (case unalignedAbsorb d p'' of Panics \<Rightarrow> Some Panics | Returns d \<Rightarrow> Some (Returns (d, k)))
              else Some (Returns (d, k))) =
         Some (Returns (with_state d (absorb_bytes p (sponge_state d)), k))"
proof -
  let ?n = "8 * (length p div 8)"
  let ?d = "with_state d (absorb_bytes (take ?n p) (sponge_state d))"
  have r: "rate8 ?d" by (rule rate8_absorb) (rule assms)
  have p: "absorb_bytes (drop ?n p) (sponge_state ?d) = absorb_bytes p (sponge_state d)"
    by (simp add: absorb_bytes_append [symmetric])
  have n: "?n \<le> length p" by simp
  have len: "length (take ?n p) = ?n" using n by simp
  have al: "absorbed ?d mod 8 = 0"
    using assms(2) unfolding with_state_simps snd_absorb_bytes len by (simp add: sponge_state_def)
  show ?thesis
  proof (cases "drop ?n p = []")
    case True
    then show ?thesis using p by (simp add: write_loop_rate8 [OF assms])
  next
    case False
    have "length p - ?n < 8" by presburger
    then have short: "0 < length (drop ?n p)" "length (drop ?n p) < 8"
      using False by simp_all
    then have fit: "absorbed ?d mod 8 + int (length (drop ?n p)) \<le> 8" using al by simp
    obtain d' where d': "unalignedAbsorb ?d (drop ?n p) = Returns d'"
      "absorbed d' = absorbed ?d + int (length (drop ?n p))"
      "permute_full d' = with_state ?d (absorb_bytes (drop ?n p) (sponge_state ?d))"
      "absorbed d' mod 8 \<noteq> 0 \<longrightarrow> d' = with_state ?d (absorb_bytes (drop ?n p) (sponge_state ?d))" "rate8 d'"
      using absorb_fit [OF r False fit] .
    have "absorbed d' mod 8 = (absorbed ?d mod 8 + int (length (drop ?n p))) mod 8"
      unfolding d'(2) by (simp only: mod_add_left_eq)
    also have "\<dots> = int (length (drop ?n p))"
      unfolding al using short(2) by (simp only: add_0) (rule mod_pos_pos_trivial; linarith)
    finally have "absorbed d' mod 8 \<noteq> 0" using short(1) by linarith
    then have "d' = with_state ?d (absorb_bytes (drop ?n p) (sponge_state ?d))" by (rule d'(4) [rule_format])
    then have "d' = with_state d (absorb_bytes p (sponge_state d))" unfolding p by simp
    then show ?thesis using d'(1) short(1) by (simp add: write_loop_rate8 [OF assms])
  qed
qed

lemma digest_Write_rate8:
  assumes "rate8 d"
  shows "digest_Write d p =
    Some (if p \<noteq> [] \<and> int (length p) < 8 - absorbed d mod 8 then Panics
          else Returns (with_state d (absorb_bytes p (sponge_state d)), int (length p)))"
proof -
  note r = rate8_simps [OF assms]
  let ?off = "absorbed d mod 8"
  have off: "0 \<le> ?off" "?off < 8" by simp_all
  have smod: "?off smod 8 = ?off" using off by (simp add: sponge_simps)
  have W: "digest_Write d p =
    (case absorb_partial d p ?off of
       Panics \<Rightarrow> Some Panics
     | Returns (d, p', offset) \<Rightarrow>
         (case write_loop d p' offset of
            None \<Rightarrow> None
          | Some Panics \<Rightarrow> Some Panics
          | Some (Returns (d, p'')) \<Rightarrow>
              if 0 < length p''
              then (case unalignedAbsorb d p'' of
                      Panics \<Rightarrow> Some Panics
                    | Returns d \<Rightarrow> Some (Returns (d, int (length p))))
              else Some (Returns (d, int (length p)))))"
    using assms r by (simp add: digest_Write_def sponge_simps)
  consider (empty) "p = []" | (whole) "p \<noteq> []" "?off = 0" "8 \<le> length p"
    | (short) "p \<noteq> []" "int (length p) < 8 - ?off"
    | (partial) "p \<noteq> []" "?off \<noteq> 0" "8 - ?off \<le> int (length p)"
    using off by fastforce
  then show ?thesis
  proof cases
    case empty
    then show ?thesis
      unfolding W by (subst write_loop.simps) (simp add: absorb_partial_def)
  next
    case whole
    then have "absorb_partial d p ?off = Returns (d, p, 0)"
      using smod by (simp add: absorb_partial_def sponge_simps)
    then show ?thesis
      unfolding W using whole write_tail_rate8 [OF assms whole(2), where p = p and k = "int (length p)"] by simp
  next
    case short
    then have "absorb_partial d p ?off = Panics"
      using smod off by (auto simp: absorb_partial_def sponge_simps Let_def)
    then show ?thesis unfolding W using short by simp
  next
    case partial
    let ?n = "nat (8 - ?off)"
    have n: "int ?n = 8 - ?off" "?n \<le> length p" "0 < ?n" using off partial by auto
    have h: "take ?n p \<noteq> []" "length (take ?n p) = ?n" using n partial(1) by auto
    then have fit: "?off + int (length (take ?n p)) \<le> 8" using n by simp
    obtain d1 where d1: "unalignedAbsorb d (take ?n p) = Returns d1"
      "absorbed d1 = absorbed d + int (length (take ?n p))"
      "permute_full d1 = with_state d (absorb_bytes (take ?n p) (sponge_state d))"
      "absorbed d1 mod 8 \<noteq> 0 \<longrightarrow> d1 = with_state d (absorb_bytes (take ?n p) (sponge_state d))" "rate8 d1"
      using absorb_fit [OF assms h(1) fit] .
    let ?d = "with_state d (absorb_bytes (take ?n p) (sponge_state d))"
    have z: "(absorbed d + (8 - ?off)) mod 8 = 0" by presburger
    have al: "absorbed d1 mod 8 = 0" "absorbed ?d mod 8 = 0"
      using z h(2) n(1) by (simp_all add: d1(2) snd_absorb_bytes sponge_state_def)
    have rd: "rate8 ?d" by (rule rate8_absorb) (rule assms)
    have guard: "\<not> 8 < ?off" "\<not> int (length p) < 8 - ?off" using off partial by linarith+
    have "absorb_partial d p ?off = Returns (?d, drop ?n p, 0)"
      using smod off partial n d1(1,3) al(1) rate8_rate [OF d1(5)] rate8_simps(2) [OF d1(5)] guard
      by (simp add: absorb_partial_def sponge_simps Let_def)
    then show ?thesis
      unfolding W using partial write_tail_rate8 [OF rd al(2), where p = "drop ?n p" and k = "int (length p)"]
      by (simp add: absorb_bytes_append [symmetric])
  qed
qed

text \<open>Squeezing at rate 8: lane 0 of the state and of its iterated permutations.\<close>

fun squeeze_lanes :: "uint64 list \<Rightarrow> nat \<Rightarrow> byte list" where
  "squeeze_lanes a 0 = []"
| "squeeze_lanes a (Suc k) = le_bytes (a ! 0) @ squeeze_lanes (keccakF1600 a) k"

definition sponge_pad :: "uint64 list \<times> int \<Rightarrow> uint64 list" where
  "sponge_pad s =
     (let (a, n) = s in a[0 := a ! 0 XOR push_bit (8 * nat (n mod 8)) 1 XOR 0x8000000000000000])"

definition sponge_digest :: "uint64 list \<times> int \<Rightarrow> byte list" where
  "sponge_digest s = take 28 (squeeze_lanes (keccakF1600 (sponge_pad s)) 4)"

lemma length_le_bytes [simp]: "length (le_bytes w) = 8"
  by (simp add: le_bytes_def)

lemma length_squeeze_lanes [simp]: "length (squeeze_lanes a k) = 8 * k"
  by (induction k arbitrary: a) simp_all

lemma length_sponge_digest: "length (sponge_digest s) = 28"
  by (simp add: sponge_digest_def)

lemma squeeze_block_8:
  "length a = 25 \<Longrightarrow> squeeze_block 8 0 a (8 * Suc k) out = Returns (8 * k, out @ le_bytes (a ! 0))"
  by (subst squeeze_block.simps, simp add: sponge_simps, subst squeeze_block.simps) simp

lemma squeeze_loop_8:
  "length a = 25 \<Longrightarrow> squeeze_loop 8 a (8 * k) out = Some (Returns (out @ squeeze_lanes a k))"
proof (induction k arbitrary: a out)
  case 0
  show ?case by (subst squeeze_loop.simps) simp
next
  case (Suc k)
  let ?o = "out @ le_bytes (a ! 0)"
  have "squeeze_loop 8 a (8 * Suc k) out = squeeze_loop 8 (if 0 < 8 * k then keccakF1600 a else a) (8 * k) ?o"
    by (subst squeeze_loop.simps) (simp only: squeeze_block_8 [OF Suc.prems], simp)
  also have "\<dots> = Some (Returns (?o @ squeeze_lanes (keccakF1600 a) k))"
  proof (cases k)
    case 0
    then show ?thesis by (subst squeeze_loop.simps) simp
  next
    case (Suc k')
    then show ?thesis using Suc.IH [of "keccakF1600 a" ?o] Suc.prems by simp
  qed
  finally show ?case by simp
qed

lemma pad_rate8: "rate8 d \<Longrightarrow> pad d = Returns (d\<lparr>da := sponge_pad (sponge_state d)\<rparr>)"
proof -
  assume r: "rate8 d"
  note rr = rate8_simps [OF r]
  have "unat (of_int (8 * (absorbed d mod 8)) :: uint64) = 8 * nat (absorbed d mod 8)"
    using unat_shift [of "absorbed d mod 8"] by simp
  then show ?thesis
    using r rr
    by (simp add: pad_def sponge_simps Let_def sponge_pad_def sponge_state_def xor.assoc)
qed

lemma digest_Sum_rate8:
  assumes "rate8 d"
  shows "digest_Sum d inp = Some (Returns (inp @ sponge_digest (sponge_state d), d))"
proof -
  let ?a = "keccakF1600 (sponge_pad (sponge_state d))"
  have len: "length ?a = 25"
    using rate8_simps(1) [OF assms] by (simp add: sponge_pad_def sponge_state_def Let_def)
  have "finalize d = Returns (d\<lparr>da := ?a\<rparr>)"
    by (simp add: finalize_def pad_rate8 [OF assms])
  moreover have "rate (d\<lparr>da := ?a\<rparr>) = 8"
    using rate8_rate [OF assms] by (simp add: rate_def)
  moreover have "squeeze_loop 8 ?a 32 [] = Some (Returns (squeeze_lanes ?a 4))"
    using squeeze_loop_8 [OF len, of 4 "[]"] by simp
  ultimately show ?thesis
    using rate8_simps(3) [OF assms]
    by (simp add: digest_Sum_def squeeze_def sponge_simps Let_def sponge_digest_def)
qed

section \<open>The other sizes\<close>

lemma negative_rate_loop:
  assumes "write_loop d p n = Some r"
  shows "rate d < 0 \<longrightarrow> 7 < length p \<longrightarrow> n = 0 \<longrightarrow> False"
proof (rule write_loop.raw_induct [OF _ assms], intro impI)
  fix loop d p n r
  assume IH: "\<And>d p n r. loop d p n = Some r \<Longrightarrow> rate d < 0 \<longrightarrow> 7 < length p \<longrightarrow> n = 0 \<longrightarrow> False"
    and step: "(if 7 < length p
       then let firstLane = n sdiv laneSize;
                lastLane = minInt (rate d sdiv laneSize) (firstLane + int (length p) sdiv laneSize)
            in case absorb_lanes [firstLane..lastLane - 1] (da d) p of
                 Returns (a, p) \<Rightarrow>
                   loop (permute_full (d\<lparr>da := a, absorbed := absorbed d + (lastLane - firstLane) * laneSize\<rparr>)) p 0
               | Panics \<Rightarrow> Some Panics
       else Some (Returns (d, p))) = Some r"
    and neg: "rate d < 0" and len: "7 < length p" and n: "n = 0"
  have "rate d sdiv 8 \<le> 0"
    using neg by (simp add: signed_divide_int_def sgn_if pos_imp_zdiv_nonneg_iff)
  then have lanes: "[0..rate d sdiv 8 - 1] = []" by simp
  let ?d = "permute_full (d\<lparr>absorbed := absorbed d + rate d sdiv 8 * 8\<rparr>)"
  have "loop ?d p 0 = Some r"
    using step len n lanes by (simp add: sponge_simps Let_def)
  from IH [OF this] show False
    using neg len by (simp add: permute_full_def rate_def split: if_splits)
qed

lemmas Keccak_defs = NewKeccak224_def NewKeccak256_def NewKeccak384_def NewKeccak512_def new_digest_def

lemma rate8_NewKeccak224: "rate8 NewKeccak224"
  by (simp add: rate8_def Keccak_defs numLanes_def sliceSize_def)

lemma sponge_state_NewKeccak224: "sponge_state NewKeccak224 = (replicate 25 0, 0)"
  by (simp add: sponge_state_def Keccak_defs numLanes_def sliceSize_def)

lemma rates: "rate NewKeccak256 = 0" "rate NewKeccak384 = - 32" "rate NewKeccak512 = - 64"
  by (simp_all add: rate_def stateSize_64 Keccak_defs)

lemma fresh: "absorbed NewKeccak384 = 0" "absorbed NewKeccak512 = 0"
  "length (da NewKeccak384) = 25" "length (da NewKeccak512) = 25"
  by (simp_all add: Keccak_defs numLanes_def sliceSize_def)

lemma negative_rate_Write:
  assumes "rate d < 0" "absorbed d = 0"
  shows "digest_Write d p =
    (if p = [] then Some (Returns (d, 0)) else if length p < 8 then Some Panics else None)"
proof -
  have part: "absorb_partial d p 0 = (if p \<noteq> [] \<and> length p < 8 then Panics else Returns (d, p, 0))"
    by (auto simp: absorb_partial_def sponge_simps Let_def)
  have stop: "write_loop d [] 0 = Some (Returns (d, []))"
    by (subst write_loop.simps) simp
  have "write_loop d p 0 = None" if "8 \<le> length p"
    using negative_rate_loop [of d p 0] assms(1) that by (cases "write_loop d p 0") auto
  then show ?thesis
    using assms part stop by (auto simp: digest_Write_def)
qed

lemma pad_close_panics:
  "rate d < 0 \<Longrightarrow> length (da d) = 25 \<Longrightarrow> absorbed d = 0 \<Longrightarrow> digest_Sum d inp = Some Panics"
proof -
  assume r: "rate d < 0" "length (da d) = 25" "absorbed d = 0"
  then have "rate d sdiv 8 \<le> 0"
    by (simp add: signed_divide_int_def sgn_if pos_imp_zdiv_nonneg_iff)
  then show ?thesis
    using r by (simp add: digest_Sum_def finalize_def pad_def sponge_simps Let_def xor_lane_def)
qed

section \<open>Properties\<close>

lemma Write_refines_sponge_parts:
  assumes "rate8 d"
  shows "digest_Write d p =
      Some (if p \<noteq> [] \<and> int (length p) < 8 - absorbed d mod 8 then Panics
            else Returns (with_state d (absorb_bytes p (sponge_state d)), int (length p)))"
    and "rate8 (with_state d (absorb_bytes p (sponge_state d)))"
  by (rule digest_Write_rate8 [OF assms], rule rate8_absorb [OF assms])

text \<open>
  C1. A digest of \<open>NewKeccak224\<close> stays one, and \<open>Write\<close> on it always returns: it panics exactly
  when a non-empty argument does not fill the current lane, and otherwise it leaves the state to which
  the byte-by-byte sponge of rate 8 comes, and reports all bytes written.
\<close>
theorem Write_refines_sponge:
  assumes "rate8 d"
  shows "(digest_Write d p =
      Some (if p \<noteq> [] \<and> int (length p) < 8 - absorbed d mod 8 then Panics
            else Returns (with_state d (absorb_bytes p (sponge_state d)), int (length p)))) \<and>
    (rate8 (with_state d (absorb_bytes p (sponge_state d))))"
  by (rule conjI, rule Write_refines_sponge_parts(1) [OF assms],
      rule Write_refines_sponge_parts(2) [OF assms])

theorem Write_refines_sponge_witness:
  "digest_Write NewKeccak224 [1, 2, 3] = Some Panics \<and>
   rate8 (with_state NewKeccak224 (absorb_bytes [1, 2, 3] (sponge_state NewKeccak224)))"
  using Write_refines_sponge [OF rate8_NewKeccak224, of "[1, 2, 3]"] by (simp_all add: Keccak_defs)

text \<open>A client that writes a message piece by piece, as long as no write panics.\<close>

fun write_pieces :: "digest \<Rightarrow> byte list list \<Rightarrow> (digest \<times> int) outcome option" where
  "write_pieces d [] = Some (Returns (d, 0))"
| "write_pieces d (m # ms) =
     (case digest_Write d m of
        Some (Returns (d, n)) \<Rightarrow>
          (case write_pieces d ms of
             Some (Returns (d, k)) \<Rightarrow> Some (Returns (d, n + k))
           | r \<Rightarrow> r)
      | r \<Rightarrow> r)"

lemma long_piece: "8 \<le> length x \<Longrightarrow> \<not> int (length x) < 8 - k mod 8" for x :: "byte list" and k :: int
proof -
  assume "8 \<le> length x"
  moreover have "0 \<le> k mod 8" by simp
  ultimately show ?thesis by linarith
qed

lemma with_state_twice: "sponge_state (with_state d s) = s" "with_state (with_state d s) t = with_state d t"
  by (cases s; cases t; simp add: sponge_state_def with_state_def)+

lemma write_pieces_rate8:
  assumes "rate8 d" "\<forall>m\<in>set ms. 8 \<le> length m"
  shows "write_pieces d ms =
      Some (Returns (with_state d (absorb_bytes (concat ms) (sponge_state d)), int (length (concat ms)))) \<and>
    rate8 (with_state d (absorb_bytes (concat ms) (sponge_state d)))"
  using assms
proof (induction ms arbitrary: d)
  case Nil
  have "with_state d (sponge_state d) = d" by (simp add: with_state_def sponge_state_def)
  then show ?case using Nil.prems by (simp add: absorb_bytes_def)
next
  case (Cons m ms)
  let ?d = "with_state d (absorb_bytes m (sponge_state d))"
  have r: "rate8 ?d" using Cons.prems(1) by (rule rate8_absorb)
  have "digest_Write d m = Some (Returns (?d, int (length m)))"
    using digest_Write_rate8 [OF Cons.prems(1), of m] Cons.prems(2) long_piece by simp
  then show ?case using Cons.IH [OF r] Cons.prems(2) by (simp add: with_state_twice absorb_bytes_append)
qed

text \<open>
  C21. A message written to \<open>NewKeccak224\<close> in any number of pieces, each of at least 8 bytes, is hashed to
  the 28 bytes that the sponge of rate 8 squeezes from all its bytes, appended to the argument of \<open>Sum\<close>.
  \<open>Sum\<close> leaves the digest as it is: pieces written after it are hashed with those before it.
\<close>
theorem Sum_of_message:
  assumes "\<forall>m\<in>set ms. 8 \<le> length m" "\<forall>m\<in>set ms'. 8 \<le> length m"
  shows "\<exists>d d'. write_pieces NewKeccak224 ms = Some (Returns (d, int (length (concat ms)))) \<and>
     digest_Sum d inp = Some (Returns (inp @ sponge_digest (absorb_bytes (concat ms) (replicate 25 0, 0)), d)) \<and>
     write_pieces d ms' = Some (Returns (d', int (length (concat ms')))) \<and>
     digest_Sum d' inp = Some (Returns (inp @ sponge_digest (absorb_bytes (concat (ms @ ms')) (replicate 25 0, 0)), d')) \<and>
     length (sponge_digest (absorb_bytes (concat (ms @ ms')) (replicate 25 0, 0))) = 28"
proof -
  let ?d = "with_state NewKeccak224 (absorb_bytes (concat ms) (sponge_state NewKeccak224))"
  let ?d' = "with_state ?d (absorb_bytes (concat ms') (sponge_state ?d))"
  note w = write_pieces_rate8 [OF rate8_NewKeccak224 assms(1)]
  note w' = write_pieces_rate8 [OF conjunct2 [OF w] assms(2)]
  note digest_Sum_rate8 [OF conjunct2 [OF w], of inp] digest_Sum_rate8 [OF conjunct2 [OF w'], of inp]
  then show ?thesis
    using w w'
    by (intro exI [of _ ?d] exI [of _ ?d'])
      (simp add: with_state_twice sponge_state_NewKeccak224 absorb_bytes_append length_sponge_digest)
qed

theorem Sum_of_message_witness:
  "\<exists>d. write_pieces NewKeccak224 [replicate 8 1, replicate 9 2, replicate 20 3] = Some (Returns (d, 37)) \<and>
     digest_Sum d [7] =
       Some (Returns (7 # sponge_digest (absorb_bytes (replicate 8 1 @ replicate 9 2 @ replicate 20 3) (replicate 25 0, 0)), d))"
  using Sum_of_message [of "[replicate 8 1, replicate 9 2, replicate 20 3]" "[]" "[7]"] by auto

text \<open>
  C23. The other sizes cannot hash anything. With \<open>NewKeccak256\<close> the rate is 0, so that \<open>Write\<close> and
  \<open>Sum\<close> divide by zero, and \<open>randentropy.Sha3\<close> panics on every input. With \<open>NewKeccak384\<close> and
  \<open>NewKeccak512\<close> the rate is negative: \<open>Write\<close> never returns from 8 bytes on and panics on fewer,
  and \<open>Sum\<close> panics.
\<close>
theorem other_sizes_unusable:
  "digest_Write NewKeccak256 p = Some Panics \<and> digest_Sum NewKeccak256 inp = Some Panics \<and>
   randentropy_Sha3 p = Some Panics \<and>
   digest_Write NewKeccak384 p =
     (if p = [] then Some (Returns (NewKeccak384, 0)) else if length p < 8 then Some Panics else None) \<and>
   digest_Sum NewKeccak384 inp = Some Panics \<and>
   digest_Write NewKeccak512 p =
     (if p = [] then Some (Returns (NewKeccak512, 0)) else if length p < 8 then Some Panics else None) \<and>
   digest_Sum NewKeccak512 inp = Some Panics"
  by (simp add: negative_rate_Write pad_close_panics rates fresh randentropy_Sha3_def digest_Write_def [of NewKeccak256]
      digest_Sum_def [of NewKeccak256] finalize_def pad_def)

end
