(* ===== verification/Go_Heap.thy ===== *)
theory Go_Heap
  imports Go_Prelude "HOL-Library.Multiset"
begin

text \<open>
  Go's \<open>container/heap\<close>, as its source has it, over the operations of a \<open>heap.Interface\<close> given as
  arguments, and the contract between the two: the locale \<open>heap_order\<close> states what \<open>Less\<close> and
  \<open>Swap\<close> promise, \<open>heap_container\<close> adds \<open>Push\<close> and \<open>Pop\<close>, and the lemmas in them are what a
  client may rely on, whatever its representation of the elements.
\<close>

section \<open>The algorithms\<close>

definition heap_parent :: "nat \<Rightarrow> nat" where
  "heap_parent j = (j - 1) div 2"

lemma heap_parent_less: "0 < j \<Longrightarrow> heap_parent j < j"
  by (simp add: heap_parent_def)

function heap_up :: "('s \<Rightarrow> nat \<Rightarrow> nat \<Rightarrow> bool) \<Rightarrow> ('s \<Rightarrow> nat \<Rightarrow> nat \<Rightarrow> 's) \<Rightarrow> 's \<Rightarrow> nat \<Rightarrow> 's" where
  "heap_up lt swap h j =
     (let i = heap_parent j
      in if i = j \<or> \<not> lt h j i then h else heap_up lt swap (swap h i j) i)"
  by pat_completeness auto
termination
  by (relation "measure (\<lambda>(lt, swap, h, j). j)") (auto simp: heap_parent_def)

text \<open>The loop of \<open>down\<close>, with the index at which it stops.\<close>

function heap_down_loop ::
  "('s \<Rightarrow> nat \<Rightarrow> nat \<Rightarrow> bool) \<Rightarrow> ('s \<Rightarrow> nat \<Rightarrow> nat \<Rightarrow> 's) \<Rightarrow> 's \<Rightarrow> nat \<Rightarrow> nat \<Rightarrow> 's \<times> nat" where
  "heap_down_loop lt swap h i n =
     (let j1 = 2 * i + 1
      in if n \<le> j1 then (h, i)
         else (let j2 = j1 + 1;
                   j = (if j2 < n \<and> lt h j2 j1 then j2 else j1)
               in if \<not> lt h j i then (h, i) else heap_down_loop lt swap (swap h i j) j n))"
  by pat_completeness auto
termination
  by (relation "measure (\<lambda>(lt, swap, h, i, n). n - i)") auto

declare heap_up.simps [simp del] heap_down_loop.simps [simp del]

text \<open>The child that \<open>down\<close> compares with.\<close>

definition min_child :: "('s \<Rightarrow> nat \<Rightarrow> nat \<Rightarrow> bool) \<Rightarrow> 's \<Rightarrow> nat \<Rightarrow> nat \<Rightarrow> nat" where
  "min_child lt h i n = (if 2 * i + 2 < n \<and> lt h (2 * i + 2) (2 * i + 1) then 2 * i + 2 else 2 * i + 1)"

lemma heap_down_loop_step:
  "heap_down_loop lt swap h i n =
     (let j = min_child lt h i n
      in if n \<le> 2 * i + 1 \<or> \<not> lt h j i then (h, i) else heap_down_loop lt swap (swap h i j) j n)"
  by (subst heap_down_loop.simps) (simp add: min_child_def Let_def)

lemma min_child_range: "\<not> n \<le> 2 * i + 1 \<Longrightarrow> i < min_child lt h i n \<and> min_child lt h i n < n"
  by (simp add: min_child_def)

lemma min_child_parent: "heap_parent (min_child lt h i n) = i"
  by (simp add: min_child_def heap_parent_def)

definition heap_down ::
  "('s \<Rightarrow> nat \<Rightarrow> nat \<Rightarrow> bool) \<Rightarrow> ('s \<Rightarrow> nat \<Rightarrow> nat \<Rightarrow> 's) \<Rightarrow> 's \<Rightarrow> nat \<Rightarrow> nat \<Rightarrow> 's \<times> bool" where
  "heap_down lt swap h i0 n = (let (h, i) = heap_down_loop lt swap h i0 n in (h, i0 < i))"

definition heap_push where
  "heap_push lt swap len push h x =
     (let h = push h x in heap_up lt swap h (len h - 1))"

definition heap_pop where
  "heap_pop lt swap len pop h =
     (let n = len h - 1; h = swap h 0 n; (h, _) = heap_down lt swap h 0 n in pop h)"

definition heap_remove where
  "heap_remove lt swap len pop h i =
     (let n = len h - 1;
          h = (if n \<noteq> i
               then (let h = swap h i n; (h, moved) = heap_down lt swap h i n
                     in if moved then h else heap_up lt swap h i)
               else h)
      in pop h)"

definition heap_fix where
  "heap_fix lt swap len h i =
     (let (h, moved) = heap_down lt swap h i (len h)
      in if moved then h else heap_up lt swap h i)"

section \<open>The order of a heap\<close>

text \<open>
  On the sequence of keys: the heap order on the first \<open>n\<close> positions, and the two weaker forms that
  \<open>up\<close> and \<open>down\<close> start from, where the key at one position may be too small or too large.
\<close>

definition swap_keys :: "(nat \<Rightarrow> 'k) \<Rightarrow> nat \<Rightarrow> nat \<Rightarrow> nat \<Rightarrow> 'k" where
  "swap_keys f i j = f(i := f j, j := f i)"

definition heap_upto :: "(nat \<Rightarrow> 'k :: linorder) \<Rightarrow> nat \<Rightarrow> bool" where
  "heap_upto f n \<longleftrightarrow> (\<forall>k. 0 < k \<and> k < n \<longrightarrow> f (heap_parent k) \<le> f k)"

definition up_ok :: "(nat \<Rightarrow> 'k :: linorder) \<Rightarrow> nat \<Rightarrow> nat \<Rightarrow> bool" where
  "up_ok f n j \<longleftrightarrow>
     (\<forall>k. 0 < k \<and> k < n \<and> k \<noteq> j \<longrightarrow> f (heap_parent k) \<le> f k) \<and>
     (\<forall>k. 0 < k \<and> k < n \<and> heap_parent k = j \<and> 0 < j \<longrightarrow> f (heap_parent j) \<le> f k)"

definition down_ok :: "(nat \<Rightarrow> 'k :: linorder) \<Rightarrow> nat \<Rightarrow> nat \<Rightarrow> bool" where
  "down_ok f n i \<longleftrightarrow>
     (\<forall>k. 0 < k \<and> k < n \<and> k \<noteq> i \<and> heap_parent k \<noteq> i \<longrightarrow> f (heap_parent k) \<le> f k) \<and>
     (\<forall>k. 0 < k \<and> k < n \<and> heap_parent k = i \<and> 0 < i \<longrightarrow> f (heap_parent i) \<le> f k)"

lemma up_step:
  assumes ok: "up_ok f n j" and j: "0 < j" and less: "f j < f (heap_parent j)"
  shows "up_ok (swap_keys f (heap_parent j) j) n (heap_parent j)"
proof -
  define i where "i = heap_parent j"
  have ij: "i < j" using heap_parent_less [OF j] by (simp add: i_def)
  have o1: "f (heap_parent k) \<le> f k" if "0 < k" "k < n" "k \<noteq> j" for k
    using ok that by (simp add: up_ok_def)
  have o2: "f i \<le> f k" if "0 < k" "k < n" "heap_parent k = j" for k
    using ok that j by (simp add: up_ok_def i_def)
  let ?g = "swap_keys f i j"
  have g: "?g i = f j" "?g j = f i" "\<And>k. k \<noteq> i \<Longrightarrow> k \<noteq> j \<Longrightarrow> ?g k = f k"
    using ij by (auto simp: swap_keys_def)
  have less': "f j < f i" using less by (simp add: i_def)
  have "?g (heap_parent k) \<le> ?g k" if k: "0 < k" "k < n" "k \<noteq> i" for k
  proof (cases "k = j")
    case True
    then show ?thesis using g less' by (simp add: i_def [symmetric])
  next
    case False
    then have gk: "?g k = f k" using k g(3) by blast
    consider "heap_parent k = i" | "heap_parent k = j" | "heap_parent k \<noteq> i" "heap_parent k \<noteq> j" by blast
    then show ?thesis
    proof cases
      case 1
      then show ?thesis using o1 [OF k(1,2) False] less' gk g by simp
    next
      case 2
      then show ?thesis using o2 [OF k(1,2)] gk g by simp
    next
      case 3
      then show ?thesis using o1 [OF k(1,2) False] gk g by simp
    qed
  qed
  moreover have "?g (heap_parent i) \<le> ?g k" if k: "0 < k" "k < n" "heap_parent k = i" "0 < i" for k
  proof -
    have pi: "heap_parent i < i" using heap_parent_less [OF k(4)] .
    have "j < n \<or> k \<noteq> j" using k by blast
    have fi: "f (heap_parent i) \<le> f i" if "i < n" using o1 [of i] that k(4) ij by simp
    have "k > i" using heap_parent_less [OF k(1)] k(3) by simp
    then have "f (heap_parent i) \<le> f i" using fi k(2) by simp
    moreover have "f i \<le> ?g k"
    proof (cases "k = j")
      case False
      then show ?thesis using o1 [OF k(1,2) False] k(3) g(3) \<open>k > i\<close> by simp
    qed (simp add: g)
    moreover have "?g (heap_parent i) = f (heap_parent i)" using g(3) pi ij by simp
    ultimately show ?thesis by simp
  qed
  ultimately show ?thesis unfolding up_ok_def i_def by blast
qed

lemma up_stop: "up_ok f n j \<Longrightarrow> j = 0 \<or> f (heap_parent j) \<le> f j \<Longrightarrow> heap_upto f n"
  by (auto simp: up_ok_def heap_upto_def)

lemma child_cases: "0 < k \<Longrightarrow> heap_parent k = i \<longleftrightarrow> k = 2 * i + 1 \<or> k = 2 * i + 2"
  unfolding heap_parent_def by presburger

lemma down_step:
  assumes ok: "down_ok f n i" and j: "j < n" "0 < j" "heap_parent j = i" and less: "f j < f i"
    and min: "\<And>k. 0 < k \<Longrightarrow> k < n \<Longrightarrow> heap_parent k = i \<Longrightarrow> f j \<le> f k"
  shows "down_ok (swap_keys f i j) n j"
    and "0 < i \<Longrightarrow> swap_keys f i j (heap_parent i) \<le> swap_keys f i j i"
proof -
  have ij: "i < j" using heap_parent_less [OF j(2)] j(3) by simp
  have o1: "f (heap_parent k) \<le> f k" if "0 < k" "k < n" "k \<noteq> i" "heap_parent k \<noteq> i" for k
    using ok that by (simp add: down_ok_def)
  have o2: "f (heap_parent i) \<le> f k" if "0 < k" "k < n" "heap_parent k = i" "0 < i" for k
    using ok that by (simp add: down_ok_def)
  let ?g = "swap_keys f i j"
  have g: "?g i = f j" "?g j = f i" "\<And>k. k \<noteq> i \<Longrightarrow> k \<noteq> j \<Longrightarrow> ?g k = f k"
    using ij by (auto simp: swap_keys_def)
  show root: "?g (heap_parent i) \<le> ?g i" if "0 < i"
    using o2 [OF j(2,1,3) that] heap_parent_less [OF that] ij g by simp
  have "?g (heap_parent k) \<le> ?g k" if k: "0 < k" "k < n" "k \<noteq> j" "heap_parent k \<noteq> j" for k
  proof (cases "k = i")
    case True
    then show ?thesis using root k(1) by simp
  next
    case False
    then have gk: "?g k = f k" using k(3) g(3) by blast
    show ?thesis
    proof (cases "heap_parent k = i")
      case True
      then show ?thesis using min [OF k(1,2)] gk g by simp
    next
      case F: False
      then show ?thesis using o1 [OF k(1,2) False F] gk g(3) [OF F k(4)] by simp
    qed
  qed
  moreover have "?g (heap_parent j) \<le> ?g k" if k: "0 < k" "k < n" "heap_parent k = j" "0 < j" for k
  proof -
    have "j < k" using heap_parent_less [OF k(1)] k(3) by simp
    then show ?thesis using o1 [OF k(1,2)] k(3) j(3) ij g by auto
  qed
  ultimately show "down_ok ?g n j" unfolding down_ok_def by blast
qed

lemma down_stop:
  "down_ok f n i \<Longrightarrow> (\<And>k. 0 < k \<Longrightarrow> k < n \<Longrightarrow> heap_parent k = i \<Longrightarrow> f i \<le> f k) \<Longrightarrow> up_ok f n i"
  by (auto simp: down_ok_def up_ok_def)

lemma heap_root: "heap_upto f n \<Longrightarrow> k < n \<Longrightarrow> f 0 \<le> f k"
proof (induction k rule: less_induct)
  case (less k)
  show ?case
  proof (cases "k = 0")
    case False
    then have p: "heap_parent k < k" by (simp add: heap_parent_less)
    then have "f 0 \<le> f (heap_parent k)" using less by simp
    also have "\<dots> \<le> f k" using less.prems False by (simp add: heap_upto_def)
    finally show ?thesis .
  qed simp
qed

lemma heap_upto_cong: "(\<And>k. k < n \<Longrightarrow> f k = g k) \<Longrightarrow> heap_upto f n \<longleftrightarrow> heap_upto g n"
  unfolding heap_upto_def by (metis heap_parent_less less_trans)

section \<open>The contract of heap.Interface\<close>

definition keys_of :: "('s \<Rightarrow> 'e list) \<Rightarrow> ('s \<Rightarrow> 'e \<Rightarrow> 'k) \<Rightarrow> 's \<Rightarrow> nat \<Rightarrow> 'k" where
  "keys_of elems key h k = key h (elems h ! k)"

definition is_heap :: "('s \<Rightarrow> 'e list) \<Rightarrow> ('s \<Rightarrow> 'e \<Rightarrow> 'k :: linorder) \<Rightarrow> 's \<Rightarrow> bool" where
  "is_heap elems key h \<longleftrightarrow> heap_upto (keys_of elems key h) (length (elems h))"

locale heap_order =
  fixes elems :: "'s \<Rightarrow> 'e list"
    and key :: "'s \<Rightarrow> 'e \<Rightarrow> 'k :: linorder"
    and lt :: "'s \<Rightarrow> nat \<Rightarrow> nat \<Rightarrow> bool"
    and swap :: "'s \<Rightarrow> nat \<Rightarrow> nat \<Rightarrow> 's"
  assumes lt_key: "i < length (elems h) \<Longrightarrow> j < length (elems h) \<Longrightarrow>
      lt h i j \<longleftrightarrow> key h (elems h ! i) < key h (elems h ! j)"
    and elems_swap: "i < length (elems h) \<Longrightarrow> j < length (elems h) \<Longrightarrow>
      elems (swap h i j) = (elems h)[i := elems h ! j, j := elems h ! i]"
    and key_swap: "i < length (elems h) \<Longrightarrow> j < length (elems h) \<Longrightarrow> key (swap h i j) = key h"
begin

lemma length_swap: "i < length (elems h) \<Longrightarrow> j < length (elems h) \<Longrightarrow> length (elems (swap h i j)) = length (elems h)"
  by (simp add: elems_swap)

lemma mset_elems_swap: "i < length (elems h) \<Longrightarrow> j < length (elems h) \<Longrightarrow> mset (elems (swap h i j)) = mset (elems h)"
  by (simp add: elems_swap mset_swap)

lemma keys_swap:
  "i < length (elems h) \<Longrightarrow> j < length (elems h) \<Longrightarrow>
   keys_of elems key (swap h i j) = swap_keys (keys_of elems key h) i j"
  by (rule ext) (auto simp: keys_of_def swap_keys_def elems_swap key_swap nth_list_update)

text \<open>What every swap preserves, \<open>up\<close> and \<open>down\<close> preserve.\<close>

lemma heap_up_preserves:
  assumes step: "\<And>h i j. I h \<Longrightarrow> i < n \<Longrightarrow> j < n \<Longrightarrow> n \<le> length (elems h) \<Longrightarrow> I (swap h i j)"
  shows "I h \<Longrightarrow> n \<le> length (elems h) \<Longrightarrow> j < n \<Longrightarrow> I (heap_up lt swap h j)"
proof (induction j arbitrary: h rule: less_induct)
  case (less j)
  let ?i = "heap_parent j"
  show ?case
  proof (cases "?i = j \<or> \<not> lt h j ?i")
    case True
    then show ?thesis using less.prems by (subst heap_up.simps) (auto simp: Let_def)
  next
    case False
    then have i: "?i < j" by (metis heap_parent_less gr0I heap_parent_def diff_0_eq_0 div_0)
    then have "I (heap_up lt swap (swap h ?i j) ?i)"
      using less.prems by (intro less.IH) (simp_all add: step length_swap)
    then show ?thesis using False by (subst heap_up.simps) (simp add: Let_def)
  qed
qed

lemma heap_down_loop_preserves:
  assumes step: "\<And>h i j. I h \<Longrightarrow> i < n \<Longrightarrow> j < n \<Longrightarrow> n \<le> length (elems h) \<Longrightarrow> I (swap h i j)"
  shows "I h \<Longrightarrow> n \<le> length (elems h) \<Longrightarrow> I (fst (heap_down_loop lt swap h i n))"
proof (induction "n - i" arbitrary: h i rule: less_induct)
  case less
  let ?j = "min_child lt h i n"
  show ?case
  proof (cases "n \<le> 2 * i + 1 \<or> \<not> lt h ?j i")
    case True
    then show ?thesis
      using less.prems by (subst heap_down_loop_step) (simp add: Let_def)
  next
    case False
    then have j: "i < ?j" "?j < n" using min_child_range [of n i lt h] by auto
    then have "I (fst (heap_down_loop lt swap (swap h i ?j) ?j n))"
      using less.prems by (intro less.hyps) (auto simp: length_swap step)
    then show ?thesis
      using False by (subst heap_down_loop_step) (simp add: Let_def)
  qed
qed

lemma heap_up_heap:
  "up_ok (keys_of elems key h) n j \<Longrightarrow> j < n \<Longrightarrow> n \<le> length (elems h) \<Longrightarrow>
   heap_upto (keys_of elems key (heap_up lt swap h j)) n"
proof (induction j arbitrary: h rule: less_induct)
  case (less j)
  let ?i = "heap_parent j"
  have lt: "lt h j ?i \<longleftrightarrow> keys_of elems key h j < keys_of elems key h ?i" if "0 < j"
    using less.prems heap_parent_less [OF that] by (simp add: lt_key keys_of_def)
  show ?case
  proof (cases "j = 0 \<or> \<not> lt h j ?i")
    case True
    then have "j = 0 \<or> keys_of elems key h ?i \<le> keys_of elems key h j"
      using lt by (cases "j = 0") auto
    then have "heap_upto (keys_of elems key h) n"
      by (rule up_stop [OF less.prems(1)])
    then show ?thesis
      using True by (subst heap_up.simps) (auto simp: Let_def heap_parent_def)
  next
    case False
    then have j: "0 < j" "lt h j ?i" by auto
    note i = heap_parent_less [OF j(1)]
    have k: "keys_of elems key (swap h ?i j) = swap_keys (keys_of elems key h) ?i j"
      using less.prems i by (intro keys_swap) auto
    have "up_ok (keys_of elems key (swap h ?i j)) n ?i"
      unfolding k using less.prems(1) j lt by (intro up_step) auto
    then have "heap_upto (keys_of elems key (heap_up lt swap (swap h ?i j) ?i)) n"
      using less.prems i by (intro less.IH) (auto simp: length_swap)
    then show ?thesis using j i by (subst heap_up.simps) (simp add: Let_def)
  qed
qed

lemma heap_down_loop_heap:
  "down_ok (keys_of elems key h) n i \<Longrightarrow> n \<le> length (elems h) \<Longrightarrow> heap_down_loop lt swap h i n = (h', i') \<Longrightarrow>
   i' = i \<and> h' = h \<and> up_ok (keys_of elems key h) n i \<or> i < i' \<and> heap_upto (keys_of elems key h') n"
proof (induction "n - i" arbitrary: h i rule: less_induct)
  case less
  let ?f = "keys_of elems key h" and ?j = "min_child lt h i n"
  let ?h = "swap h i ?j"
  have lt: "lt h a b \<longleftrightarrow> ?f a < ?f b" if "a < n" "b < n" for a b
    using less.prems(2) that by (simp add: lt_key keys_of_def)
  have min: "?f ?j \<le> ?f k" if "0 < k" "k < n" "heap_parent k = i" for k
    using child_cases [OF that(1), of i] that(2,3) lt by (auto simp: min_child_def)
  show ?case
  proof (cases "n \<le> 2 * i + 1 \<or> \<not> lt h ?j i")
    case True
    then have "(h', i') = (h, i)"
      using less.prems(3) by (subst (asm) heap_down_loop_step) (auto simp: Let_def)
    moreover have "?f i \<le> ?f k" if k: "0 < k" "k < n" "heap_parent k = i" for k
    proof -
      have "\<not> n \<le> 2 * i + 1" using child_cases [OF k(1), of i] k(2,3) by auto
      with True have "\<not> ?f ?j < ?f i" using lt [of ?j i] min_child_range [of n i lt h] by auto
      with min [OF k] show ?thesis by simp
    qed
    ultimately show ?thesis using down_stop [OF less.prems(1)] by blast
  next
    case False
    then have j: "i < ?j" "?j < n" using min_child_range [of n i lt h] by auto
    then have lt_j: "?f ?j < ?f i" using lt [of ?j i] False by auto
    have step: "heap_down_loop lt swap ?h ?j n = (h', i')"
      using less.prems(3) False by (subst (asm) heap_down_loop_step) (simp add: Let_def)
    have k: "keys_of elems key ?h = swap_keys ?f i ?j"
      using less.prems j by (intro keys_swap) auto
    have "down_ok (keys_of elems key ?h) n ?j"
      unfolding k using j by (intro down_step(1) [OF less.prems(1) _ _ min_child_parent lt_j min]) auto
    then have "i' = ?j \<and> h' = ?h \<and> up_ok (keys_of elems key ?h) n ?j \<or> ?j < i' \<and> heap_upto (keys_of elems key h') n"
      using less.prems(2) j step by (intro less.hyps) (auto simp: length_swap)
    moreover have "heap_upto (keys_of elems key ?h) n" if "up_ok (keys_of elems key ?h) n ?j"
      using up_stop [OF that] lt_j j unfolding k by (simp add: swap_keys_def min_child_parent)
    ultimately show ?thesis using j by auto
  qed
qed

text \<open>\<open>up\<close> and \<open>down\<close> on the first \<open>n\<close> positions only rearrange them.\<close>

lemma rearranges_swap:
  assumes "key h = key h0 \<and> mset (elems h) = mset (elems h0) \<and> drop n (elems h) = drop n (elems h0)"
    "i < n" "j < n" "n \<le> length (elems h)"
  shows "key (swap h i j) = key h0 \<and> mset (elems (swap h i j)) = mset (elems h0) \<and>
    drop n (elems (swap h i j)) = drop n (elems h0)"
  using assms by (simp add: key_swap mset_elems_swap) (simp add: elems_swap)

lemma heap_up_rearranges:
  "n \<le> length (elems h) \<Longrightarrow> j < n \<Longrightarrow>
   key (heap_up lt swap h j) = key h \<and> mset (elems (heap_up lt swap h j)) = mset (elems h) \<and>
   drop n (elems (heap_up lt swap h j)) = drop n (elems h)"
  using heap_up_preserves [where n = n and h = h and j = j and
      I = "\<lambda>h'. key h' = key h \<and> mset (elems h') = mset (elems h) \<and> drop n (elems h') = drop n (elems h)"]
    rearranges_swap by blast

lemma heap_down_rearranges:
  assumes "n \<le> length (elems h)" "heap_down lt swap h i n = (h', m)"
  shows "key h' = key h \<and> mset (elems h') = mset (elems h) \<and> drop n (elems h') = drop n (elems h)"
proof -
  have "h' = fst (heap_down_loop lt swap h i n)"
    using assms(2) by (simp add: heap_down_def split: prod.splits)
  then show ?thesis
    using heap_down_loop_preserves [where n = n and h = h and i = i and
        I = "\<lambda>h'. key h' = key h \<and> mset (elems h') = mset (elems h) \<and> drop n (elems h') = drop n (elems h)"]
      rearranges_swap assms(1) by blast
qed

lemma heap_down_heap:
  assumes "down_ok (keys_of elems key h) n i" "n \<le> length (elems h)" "heap_down lt swap h i n = (h', m)"
  shows "if m then heap_upto (keys_of elems key h') n else h' = h \<and> up_ok (keys_of elems key h) n i"
proof -
  obtain i' where "heap_down_loop lt swap h i n = (h', i')" "m = (i < i')"
    using assms(3) by (auto simp: heap_down_def split: prod.splits)
  with heap_down_loop_heap [OF assms(1,2)] show ?thesis by fastforce
qed

text \<open>\<open>down\<close> and then, when nothing moved, \<open>up\<close>.\<close>

lemma down_up_heap:
  assumes "down_ok (keys_of elems key h) n i" "i < n" "n \<le> length (elems h)"
    "(let (h, moved) = heap_down lt swap h i n in if moved then h else heap_up lt swap h i) = h'"
  shows "heap_upto (keys_of elems key h') n \<and> key h' = key h \<and> mset (elems h') = mset (elems h) \<and>
    drop n (elems h') = drop n (elems h)"
proof -
  obtain h1 m where d: "heap_down lt swap h i n = (h1, m)" by fastforce
  note r = heap_down_rearranges [OF assms(3) d]
  note o = heap_down_heap [OF assms(1,3) d]
  show ?thesis
  proof (cases m)
    case True
    then show ?thesis using o r assms(4) d by simp
  next
    case False
    then have "h' = heap_up lt swap h i" "up_ok (keys_of elems key h) n i" using o assms(4) d by auto
    then show ?thesis
      using heap_up_heap [of h n i] heap_up_rearranges [of n h i] assms(2,3) by simp
  qed
qed

end

locale heap_container = heap_order elems key lt swap
  for elems :: "'s \<Rightarrow> 'e list" and key :: "'s \<Rightarrow> 'e \<Rightarrow> 'k :: linorder" and lt swap +
  fixes len :: "'s \<Rightarrow> nat"
    and push :: "'s \<Rightarrow> 'e \<Rightarrow> 's"
    and pop :: "'s \<Rightarrow> 's \<times> 'e"
  assumes len: "len h = length (elems h)"
    and elems_push: "elems (push h x) = elems h @ [x]"
    and key_push: "key (push h x) = key h"
    and elems_pop: "elems h \<noteq> [] \<Longrightarrow> elems (fst (pop h)) = butlast (elems h)"
    and snd_pop: "elems h \<noteq> [] \<Longrightarrow> snd (pop h) = last (elems h)"
    and key_pop: "elems h \<noteq> [] \<Longrightarrow> key (fst (pop h)) = key h"
begin

lemma push_heap:
  assumes "is_heap elems key h"
  shows "is_heap elems key (heap_push lt swap len push h x) \<and>
    mset (elems (heap_push lt swap len push h x)) = add_mset x (mset (elems h)) \<and>
    key (heap_push lt swap len push h x) = key h"
proof -
  let ?h = "push h x" and ?n = "length (elems h)"
  have le: "length (elems ?h) = Suc ?n" by (simp add: elems_push)
  have "heap_upto (keys_of elems key ?h) ?n"
    using assms unfolding is_heap_def
    by (subst heap_upto_cong [of _ _ "keys_of elems key h"]) (simp_all add: keys_of_def elems_push key_push nth_append)
  then have "up_ok (keys_of elems key ?h) (Suc ?n) ?n"
    by (auto simp: heap_upto_def up_ok_def less_Suc_eq dest: heap_parent_less)
  then have "heap_upto (keys_of elems key (heap_up lt swap ?h ?n)) (Suc ?n)"
    by (rule heap_up_heap) (simp_all add: le)
  moreover note r = heap_up_rearranges [of "Suc ?n" ?h ?n]
  moreover have "length (elems (heap_up lt swap ?h ?n)) = Suc ?n"
    using r le by (metis lessI order_refl size_mset)
  ultimately show ?thesis
    by (simp add: heap_push_def Let_def len le is_heap_def elems_push key_push)
qed

text \<open>The last step of \<open>Pop\<close> and \<open>Remove\<close>.\<close>

lemma pop_last:
  assumes "heap_upto (keys_of elems key h) n" "length (elems h) = Suc n" "elems h ! n = x"
  shows "is_heap elems key (fst (pop h)) \<and> snd (pop h) = x \<and> key (fst (pop h)) = key h \<and>
    mset (elems h) = add_mset x (mset (elems (fst (pop h))))"
proof -
  have ne: "elems h \<noteq> []" using assms(2) by auto
  then have "last (elems h) = x" using assms by (simp add: last_conv_nth)
  moreover from this have "mset (elems h) = add_mset x (mset (butlast (elems h)))"
    by (metis append_butlast_last_id ne mset.simps(2) mset_append union_mset_add_mset_right add.right_neutral mset.simps(1))
  moreover have "heap_upto (keys_of elems key (fst (pop h))) n"
    using assms
    by (subst heap_upto_cong [of _ _ "keys_of elems key h"])
       (simp_all add: keys_of_def elems_pop [OF ne] key_pop [OF ne] nth_butlast)
  ultimately show ?thesis
    using assms(2) by (simp add: is_heap_def elems_pop [OF ne] snd_pop [OF ne] key_pop [OF ne])
qed

lemma swap_down_ok:
  assumes "is_heap elems key h" "length (elems h) = Suc n" "i < n"
  shows "down_ok (keys_of elems key (swap h i n)) n i"
proof -
  let ?f = "keys_of elems key h" and ?g = "keys_of elems key (swap h i n)"
  have k: "?g k = ?f k" if "k < n" "k \<noteq> i" for k
    using that assms by (simp add: keys_of_def elems_swap key_swap)
  have H: "?f (heap_parent m) \<le> ?f m" if "0 < m" "m < Suc n" for m
    using assms that by (simp add: is_heap_def heap_upto_def)
  show ?thesis
    unfolding down_ok_def
  proof (intro conjI allI impI)
    fix k assume a: "0 < k \<and> k < n \<and> k \<noteq> i \<and> heap_parent k \<noteq> i"
    then have "heap_parent k < n" using heap_parent_less [of k] by simp
    then show "?g (heap_parent k) \<le> ?g k" using a k H [of k] by simp
  next
    fix k assume a: "0 < k \<and> k < n \<and> heap_parent k = i \<and> 0 < i"
    then have p: "heap_parent i < i" "k \<noteq> i" using heap_parent_less [of i] heap_parent_less [of k] by auto
    have "?f (heap_parent i) \<le> ?f i" using H [of i] a assms(3) by simp
    also have "\<dots> \<le> ?f k" using H [of k] a by simp
    finally show "?g (heap_parent i) \<le> ?g k" using k a p assms(3) by simp
  qed
qed

lemma remove_heap:
  assumes "is_heap elems key h" "i < length (elems h)" "heap_remove lt swap len pop h i = (h', x)"
  shows "is_heap elems key h' \<and> x = elems h ! i \<and> key h' = key h \<and>
    mset (elems h) = add_mset x (mset (elems h'))"
proof -
  obtain n where n: "length (elems h) = Suc n" using assms(2) by (cases "length (elems h)") auto
  define h1 where "h1 = (if n \<noteq> i
               then (let h = swap h i n; (h, moved) = heap_down lt swap h i n
                     in if moved then h else heap_up lt swap h i)
               else h)"
  have pop: "pop h1 = (h', x)"
    using assms(3) n by (simp add: heap_remove_def Let_def len h1_def)
  have "heap_upto (keys_of elems key h1) n \<and> key h1 = key h \<and> mset (elems h1) = mset (elems h) \<and>
    length (elems h1) = Suc n \<and> elems h1 ! n = elems h ! i"
  proof (cases "n = i")
    case True
    then show ?thesis using assms(1) n by (auto simp: h1_def is_heap_def heap_upto_def)
  next
    case False
    then have i: "i < n" using assms(2) n by simp
    let ?s = "swap h i n"
    have s: "length (elems ?s) = Suc n" "elems ?s ! n = elems h ! i" "key ?s = key h"
      "mset (elems ?s) = mset (elems h)"
      using i n by (simp_all add: length_swap mset_elems_swap key_swap) (simp add: elems_swap)
    have "down_ok (keys_of elems key ?s) n i"
      using assms(1) n i by (rule swap_down_ok)
    then have r: "heap_upto (keys_of elems key h1) n \<and> key h1 = key ?s \<and> mset (elems h1) = mset (elems ?s) \<and>
      drop n (elems h1) = drop n (elems ?s)"
      using i s(1) False by (intro down_up_heap) (simp_all add: h1_def)
    then have l: "length (elems h1) = Suc n" by (metis s(1) size_mset)
    then have "elems h1 ! n = elems ?s ! n"
      using r s(1) by (metis lessI nth_via_drop Cons_nth_drop_Suc)
    then show ?thesis using r s l by simp
  qed
  then show ?thesis using pop_last [of h1 n "elems h ! i"] pop by simp
qed

lemma pop_heap:
  assumes "is_heap elems key h" "elems h \<noteq> []" "heap_pop lt swap len pop h = (h', x)"
  shows "is_heap elems key h' \<and> x = elems h ! 0 \<and> key h' = key h \<and>
    mset (elems h) = add_mset x (mset (elems h')) \<and> (\<forall>y\<in>set (elems h). key h x \<le> key h y)"
proof -
  obtain n where n: "length (elems h) = Suc n" using assms(2) by (cases "length (elems h)") auto
  let ?s = "swap h 0 n"
  obtain h1 m where d: "heap_down lt swap ?s 0 n = (h1, m)" by fastforce
  have s: "length (elems ?s) = Suc n" "elems ?s ! n = elems h ! 0" "key ?s = key h" "mset (elems ?s) = mset (elems h)"
    using n by (simp_all add: length_swap mset_elems_swap key_swap) (simp add: elems_swap)
  have ok: "down_ok (keys_of elems key ?s) n 0"
    using swap_down_ok [OF assms(1) n, of 0] by (cases n) (auto simp: down_ok_def)
  have r: "key h1 = key ?s \<and> mset (elems h1) = mset (elems ?s) \<and> drop n (elems h1) = drop n (elems ?s)"
    using heap_down_rearranges [OF _ d] s(1) by simp
  have "heap_upto (keys_of elems key h1) n"
    using heap_down_heap [OF ok _ d] s(1) up_stop [of "keys_of elems key ?s" n 0] by (auto split: if_splits)
  moreover have l: "length (elems h1) = Suc n" using r s(1) by (metis size_mset)
  moreover have "elems h1 ! n = elems ?s ! n"
    using r s(1) l by (metis lessI nth_via_drop Cons_nth_drop_Suc)
  ultimately have "is_heap elems key (fst (pop h1)) \<and> snd (pop h1) = elems h ! 0 \<and>
    key (fst (pop h1)) = key h1 \<and> mset (elems h1) = add_mset (elems h ! 0) (mset (elems (fst (pop h1))))"
    using s(2) by (intro pop_last) auto
  moreover have "pop h1 = (h', x)"
    using assms(3) n d by (simp add: heap_pop_def Let_def len)
  moreover have "key h (elems h ! 0) \<le> key h y" if "y \<in> set (elems h)" for y
    using that heap_root [of "keys_of elems key h" "length (elems h)"] assms(1)
    by (auto simp: is_heap_def keys_of_def in_set_conv_nth)
  ultimately show ?thesis using r s by simp
qed

text \<open>\<open>Fix\<close>, after the key at one position has changed.\<close>

lemma fix_heap:
  assumes "is_heap elems key h0" "elems h = elems h0" "i < length (elems h)"
    "\<And>k. k \<noteq> i \<Longrightarrow> k < length (elems h) \<Longrightarrow> key h (elems h ! k) = key h0 (elems h ! k)"
    "heap_fix lt swap len h i = h'"
  shows "is_heap elems key h' \<and> key h' = key h \<and> mset (elems h') = mset (elems h)"
proof -
  let ?f = "keys_of elems key h0" and ?g = "keys_of elems key h" and ?n = "length (elems h)"
  have k: "?g k = ?f k" if "k < ?n" "k \<noteq> i" for k
    using assms(2,4) that by (simp add: keys_of_def)
  have H: "?f (heap_parent m) \<le> ?f m" if "0 < m" "m < ?n" for m
    using assms(1,2) that by (simp add: is_heap_def heap_upto_def)
  have "down_ok ?g ?n i"
    unfolding down_ok_def
  proof (intro conjI allI impI)
    fix k assume a: "0 < k \<and> k < ?n \<and> k \<noteq> i \<and> heap_parent k \<noteq> i"
    then have "heap_parent k < ?n" using heap_parent_less [of k] by simp
    then show "?g (heap_parent k) \<le> ?g k" using a k H [of k] by simp
  next
    fix k assume a: "0 < k \<and> k < ?n \<and> heap_parent k = i \<and> 0 < i"
    then have p: "heap_parent i < i" "k \<noteq> i" using heap_parent_less [of i] heap_parent_less [of k] by auto
    have "?f (heap_parent i) \<le> ?f i" using H [of i] a assms(3) by simp
    also have "\<dots> \<le> ?f k" using H [of k] a by simp
    finally show "?g (heap_parent i) \<le> ?g k" using k a p assms(3) by simp
  qed
  moreover have "(let (h, moved) = heap_down lt swap h i ?n in if moved then h else heap_up lt swap h i) = h'"
    using assms(5) by (simp add: heap_fix_def len)
  ultimately have "heap_upto (keys_of elems key h') ?n \<and> key h' = key h \<and> mset (elems h') = mset (elems h)"
    using down_up_heap [of h ?n i h'] assms(3) by blast
  moreover from this have "length (elems h') = ?n" by (metis size_mset)
  ultimately show ?thesis by (simp add: is_heap_def)
qed

text \<open>What \<open>Swap\<close> preserves holds of the container until \<open>Pop\<close> is called, and after \<open>Fix\<close>.\<close>

lemma down_preserves:
  assumes "\<And>h i j. I h \<Longrightarrow> i < n \<Longrightarrow> j < n \<Longrightarrow> n \<le> length (elems h) \<Longrightarrow> I (swap h i j)"
    "I h" "n \<le> length (elems h)" "heap_down lt swap h i n = (h', m)"
  shows "I h'"
  using heap_down_loop_preserves [of I n h i] assms by (auto simp: heap_down_def split: prod.splits)

lemma down_up_preserves:
  assumes step: "\<And>h i j. I h \<Longrightarrow> i < n \<Longrightarrow> j < n \<Longrightarrow> n \<le> length (elems h) \<Longrightarrow> I (swap h i j)"
    and h: "I h" "n \<le> length (elems h)" "i < n"
  shows "I (let (h, moved) = heap_down lt swap h i n in if moved then h else heap_up lt swap h i)"
proof -
  obtain h1 m where d: "heap_down lt swap h i n = (h1, m)" by fastforce
  have "I h1" by (rule down_preserves [of I n h i]) (use step h d in auto)
  moreover have "n \<le> length (elems h1)"
    using heap_down_rearranges [OF h(2) d] h(2) by (metis size_mset)
  ultimately show ?thesis
    using heap_up_preserves [of I n h1 i] step h(3) by (simp add: d)
qed

lemma push_preserves:
  assumes step: "\<And>h i j. I h \<Longrightarrow> i < length (elems h) \<Longrightarrow> j < length (elems h) \<Longrightarrow> I (swap h i j)"
    and "I (push h x)"
  shows "I (heap_push lt swap len push h x)"
  using heap_up_preserves [of I "length (elems (push h x))" "push h x" "len (push h x) - 1"] assms
  by (simp add: heap_push_def Let_def len elems_push)

lemma pop_preserves:
  assumes step: "\<And>h i j. I h \<Longrightarrow> i < length (elems h) \<Longrightarrow> j < length (elems h) \<Longrightarrow> I (swap h i j)"
    and h: "I h" "elems h \<noteq> []"
  shows "\<exists>h1. heap_pop lt swap len pop h = pop h1 \<and> I h1 \<and> length (elems h1) = length (elems h)"
proof -
  let ?n = "length (elems h) - 1"
  obtain h1 m where d: "heap_down lt swap (swap h 0 ?n) 0 ?n = (h1, m)" by fastforce
  have s: "I (swap h 0 ?n)" "length (elems (swap h 0 ?n)) = length (elems h)"
    using h by (simp_all add: step length_swap)
  show ?thesis
  proof (intro exI conjI)
    show "heap_pop lt swap len pop h = pop h1" using d by (simp add: heap_pop_def Let_def len)
    show "I h1" by (rule down_preserves [of I ?n "swap h 0 ?n" 0 h1 m]) (use step s d in auto)
    show "length (elems h1) = length (elems h)"
      using heap_down_rearranges [OF _ d] s(2) by (metis diff_le_self size_mset)
  qed
qed

lemma remove_preserves:
  assumes step: "\<And>h i j. I h \<Longrightarrow> i < length (elems h) \<Longrightarrow> j < length (elems h) \<Longrightarrow> I (swap h i j)"
    and h: "I h" "i < length (elems h)"
  shows "\<exists>h1. heap_remove lt swap len pop h i = pop h1 \<and> I h1 \<and> length (elems h1) = length (elems h)"
proof -
  define n where "n = length (elems h) - 1"
  define h1 where "h1 = (if n \<noteq> i
      then (let h = swap h i n; (h, moved) = heap_down lt swap h i n in if moved then h else heap_up lt swap h i)
      else h)"
  have "I h1 \<and> length (elems h1) = length (elems h)"
  proof (cases "n = i")
    case True
    then show ?thesis using h by (simp add: h1_def)
  next
    case False
    then have n: "i < n" "n < length (elems h)" using h(2) by (auto simp: n_def)
    have "I (swap h i n) \<and> length (elems (swap h i n)) = length (elems h)"
      using h n by (simp add: step length_swap)
    then have "(\<lambda>h'. I h' \<and> length (elems h') = length (elems h))
        (let (h, moved) = heap_down lt swap (swap h i n) i n in if moved then h else heap_up lt swap h i)"
      using n
      by (intro down_up_preserves [where I = "\<lambda>h'. I h' \<and> length (elems h') = length (elems h)" and n = n])
         (simp_all add: step length_swap)
    then show ?thesis using False by (simp add: h1_def Let_def)
  qed
  moreover have "heap_remove lt swap len pop h i = pop h1"
    by (simp add: heap_remove_def Let_def len h1_def n_def)
  ultimately show ?thesis by blast
qed

lemma fix_preserves:
  assumes step: "\<And>h i j. I h \<Longrightarrow> i < length (elems h) \<Longrightarrow> j < length (elems h) \<Longrightarrow> I (swap h i j)"
    and h: "I h" "i < length (elems h)"
  shows "I (heap_fix lt swap len h i)"
  using down_up_preserves [of I "length (elems h)" h i] assms by (simp add: heap_fix_def len)

lemma length_heap_pop:
  assumes "elems h \<noteq> []"
  shows "length (elems (fst (heap_pop lt swap len pop h))) < length (elems h)"
proof -
  obtain h1 where "heap_pop lt swap len pop h = pop h1" "length (elems h1) = length (elems h)"
    using pop_preserves [of "\<lambda>_. True" h] assms by blast
  with assms show ?thesis by (cases "elems h1") (auto simp: elems_pop)
qed

end

end
