(* ===== verification/Sim_Clock.thy ===== *)
theory Sim_Clock
  imports Go_Heap
begin

text \<open>
  \<open>src/common/mclock/simclock.go\<close>: the simulated clock. \<open>AbsTime\<close> and \<open>time.Duration\<close> are 64-bit
  and compared as signed integers. A \<open>*simTimer\<close> is a number, the timers are a store from numbers to
  records, and the channel of a timer is its one-element buffer. Each method runs under the clock's
  mutex and is one step; \<open>Run\<close> collects the due callbacks in one step and then runs them.
\<close>

section \<open>The clock\<close>

type_synonym abstime = "64 word"
type_synonym duration = "64 word"

text \<open>\<open>AbsTime.Add\<close>, \<open>AbsTime.Sub\<close> and the comparison of times.\<close>

definition AbsTime_Add :: "abstime \<Rightarrow> duration \<Rightarrow> abstime" where
  "AbsTime_Add t d = t + d"

definition AbsTime_Sub :: "abstime \<Rightarrow> abstime \<Rightarrow> duration" where
  "AbsTime_Sub t t2 = t - t2"

definition time_less :: "abstime \<Rightarrow> abstime \<Rightarrow> bool" where
  "time_less a b \<longleftrightarrow> sint a < sint b"

definition time_le :: "abstime \<Rightarrow> abstime \<Rightarrow> bool" where
  "time_le a b \<longleftrightarrow> sint a \<le> sint b"

text \<open>The callback of a timer: the send on the timer's own channel, or the user's function.\<close>

datatype 'f action = SendOn nat | Call 'f

record 'f simTimer =
  tm_at :: abstime
  tm_index :: int
  tm_do :: "'f action"
  tm_ch :: bool

record 'f simulated =
  sim_now :: abstime
  scheduled :: "nat list"
  timers :: "nat \<Rightarrow> 'f simTimer"
  allocated :: nat
  channel :: "nat \<Rightarrow> abstime option"

definition set_index :: "'f simulated \<Rightarrow> nat \<Rightarrow> int \<Rightarrow> 'f simulated" where
  "set_index s t k = s\<lparr>timers := (timers s)(t := (timers s t)\<lparr>tm_index := k\<rparr>)\<rparr>"

definition set_at :: "'f simulated \<Rightarrow> nat \<Rightarrow> abstime \<Rightarrow> 'f simulated" where
  "set_at s t a = s\<lparr>timers := (timers s)(t := (timers s t)\<lparr>tm_at := a\<rparr>)\<rparr>"

section \<open>simTimerHeap\<close>

definition simHeap_Len :: "'f simulated \<Rightarrow> nat" where
  "simHeap_Len s = length (scheduled s)"

definition simHeap_Less :: "'f simulated \<Rightarrow> nat \<Rightarrow> nat \<Rightarrow> bool" where
  "simHeap_Less s i j \<longleftrightarrow>
     time_less (tm_at (timers s (scheduled s ! i))) (tm_at (timers s (scheduled s ! j)))"

definition simHeap_Swap :: "'f simulated \<Rightarrow> nat \<Rightarrow> nat \<Rightarrow> 'f simulated" where
  "simHeap_Swap s i j =
     (let h = scheduled s;
          s = s\<lparr>scheduled := h[i := h ! j, j := h ! i]\<rparr>;
          s = set_index s (scheduled s ! i) (int i)
      in set_index s (scheduled s ! j) (int j))"

definition simHeap_Push :: "'f simulated \<Rightarrow> nat \<Rightarrow> 'f simulated" where
  "simHeap_Push s t =
     (let s = set_index s t (int (length (scheduled s))) in s\<lparr>scheduled := scheduled s @ [t]\<rparr>)"

definition simHeap_Pop :: "'f simulated \<Rightarrow> 'f simulated \<times> nat" where
  "simHeap_Pop s =
     (let n = length (scheduled s) - 1;
          t = scheduled s ! n;
          s = set_index s t (- 1)
      in (s\<lparr>scheduled := take n (scheduled s)\<rparr>, t))"

abbreviation sim_push :: "'f simulated \<Rightarrow> nat \<Rightarrow> 'f simulated" where
  "sim_push \<equiv> heap_push simHeap_Less simHeap_Swap simHeap_Len simHeap_Push"

abbreviation sim_pop :: "'f simulated \<Rightarrow> 'f simulated \<times> nat" where
  "sim_pop \<equiv> heap_pop simHeap_Less simHeap_Swap simHeap_Len simHeap_Pop"

abbreviation sim_remove :: "'f simulated \<Rightarrow> nat \<Rightarrow> 'f simulated \<times> nat" where
  "sim_remove \<equiv> heap_remove simHeap_Less simHeap_Swap simHeap_Len simHeap_Pop"

abbreviation sim_fix :: "'f simulated \<Rightarrow> nat \<Rightarrow> 'f simulated" where
  "sim_fix \<equiv> heap_fix simHeap_Less simHeap_Swap simHeap_Len"

text \<open>The key of the heap.\<close>

definition sim_key :: "'f simulated \<Rightarrow> nat \<Rightarrow> int" where
  "sim_key s t = sint (tm_at (timers s t))"

lemma sim_key_set_index [simp]: "sim_key (set_index s t k) = sim_key s"
  by (rule ext) (simp add: sim_key_def set_index_def)

lemma scheduled_set_index [simp]: "scheduled (set_index s t k) = scheduled s"
  by (simp add: set_index_def)

lemma sim_key_scheduled [simp]: "sim_key (s\<lparr>scheduled := h\<rparr>) = sim_key s"
  by (rule ext) (simp add: sim_key_def)

interpretation simq: heap_container scheduled sim_key simHeap_Less simHeap_Swap simHeap_Len simHeap_Push simHeap_Pop
  by unfold_locales
    (auto simp: simHeap_Less_def time_less_def sim_key_def [of _ "scheduled _ ! _"] simHeap_Swap_def
      simHeap_Len_def simHeap_Push_def simHeap_Pop_def Let_def butlast_conv_take last_conv_nth)

section \<open>The methods\<close>

text \<open>\<open>schedule\<close>: a new timer whose callback may mention it.\<close>

definition sim_schedule :: "'f simulated \<Rightarrow> duration \<Rightarrow> (nat \<Rightarrow> 'f action) \<Rightarrow> 'f simulated \<times> nat" where
  "sim_schedule s d fn =
     (let at = AbsTime_Add (sim_now s) d;
          ev = allocated s;
          s = s\<lparr>allocated := Suc ev,
                timers := (timers s)(ev := \<lparr>tm_at = at, tm_index = 0, tm_do = fn ev, tm_ch = False\<rparr>)\<rparr>
      in (sim_push s ev, ev))"

definition NewTimer :: "'f simulated \<Rightarrow> duration \<Rightarrow> 'f simulated \<times> nat" where
  "NewTimer s d =
     (let (s, timer) = sim_schedule s d SendOn
      in (s\<lparr>timers := (timers s)(timer := (timers s timer)\<lparr>tm_ch := True\<rparr>),
            channel := (channel s)(timer := None)\<rparr>, timer))"

definition AfterFunc :: "'f simulated \<Rightarrow> duration \<Rightarrow> 'f \<Rightarrow> 'f simulated \<times> nat" where
  "AfterFunc s d fn = sim_schedule s d (\<lambda>_. Call fn)"

definition timer_Stop :: "'f simulated \<Rightarrow> nat \<Rightarrow> 'f simulated \<times> bool" where
  "timer_Stop s ev =
     (if tm_index (timers s ev) < 0 then (s, False)
      else (let (s, _) = sim_remove s (nat (tm_index (timers s ev)))
            in (set_index s ev (- 1), True)))"

text \<open>\<open>Reset\<close>; \<open>None\<close> is the panic of a timer without a channel.\<close>

definition timer_Reset :: "'f simulated \<Rightarrow> nat \<Rightarrow> duration \<Rightarrow> 'f simulated option" where
  "timer_Reset s ev d =
     (if \<not> tm_ch (timers s ev) then None
      else (let s = set_at s ev (AbsTime_Add (sim_now s) d)
            in if tm_index (timers s ev) < 0 then Some (sim_push s ev)
               else Some (sim_fix s (nat (tm_index (timers s ev))))))"

text \<open>\<open>C\<close>: the channel, which is named by its timer.\<close>

definition timer_C :: "'f simulated \<Rightarrow> nat \<Rightarrow> nat option" where
  "timer_C s ev = (if \<not> tm_ch (timers s ev) then None else Some ev)"

definition After :: "'f simulated \<Rightarrow> duration \<Rightarrow> 'f simulated \<times> nat option" where
  "After s d = (let (s, timer) = NewTimer s d in (s, timer_C s timer))"

definition Simulated_Now :: "'f simulated \<Rightarrow> abstime" where
  "Simulated_Now s = sim_now s"

text \<open>\<open>Sleep\<close> makes a timer and waits for its channel.\<close>

definition sim_Sleep :: "'f simulated \<Rightarrow> duration \<Rightarrow> 'f simulated \<times> nat option" where
  "sim_Sleep s d = After s d"

definition ActiveTimers :: "'f simulated \<Rightarrow> nat" where
  "ActiveTimers s = length (scheduled s)"

text \<open>The condition that ends the wait of \<open>WaitForTimers\<close>.\<close>

definition WaitForTimers_done :: "'f simulated \<Rightarrow> nat \<Rightarrow> bool" where
  "WaitForTimers_done s n \<longleftrightarrow> \<not> length (scheduled s) < n"

text \<open>The loop of \<open>Run\<close>: the timers popped, in order.\<close>

function run_due :: "'f simulated \<Rightarrow> abstime \<Rightarrow> 'f simulated \<times> nat list" where
  "run_due s fin =
     (if 0 < length (scheduled s) \<and> time_le (tm_at (timers s (scheduled s ! 0))) fin
      then (let (s', ev) = sim_pop s; (s'', evs) = run_due s' fin in (s'', ev # evs))
      else (s, []))"
  by pat_completeness auto
termination
proof (relation "measure (\<lambda>(s, fin). length (scheduled s))")
  fix s :: "'f simulated" and fin x s' ev
  assume "0 < length (scheduled s) \<and> time_le (tm_at (timers s (scheduled s ! 0))) fin"
    and "x = sim_pop s" "(s', ev) = x"
  then show "((s', fin), s, fin) \<in> measure (\<lambda>(s, fin). length (scheduled s))"
    using simq.length_heap_pop [of s] by (metis case_prod_conv fst_conv in_measure length_greater_0_conv)
qed simp

declare run_due.simps [simp del]

text \<open>The part of \<open>Run\<close> under the mutex: the callbacks in the order in which they will run.\<close>

definition run_locked :: "'f simulated \<Rightarrow> duration \<Rightarrow> 'f simulated \<times> nat list" where
  "run_locked s d =
     (let fin = AbsTime_Add (sim_now s) d; (s, evs) = run_due s fin in (s\<lparr>sim_now := fin\<rparr>, evs))"

text \<open>
  One callback. A send on a full channel blocks, and \<open>call\<close> is what the user's functions do to the
  clock; \<open>None\<close> is a callback that does not return.
\<close>

definition run_callback ::
  "('f \<Rightarrow> 'f simulated \<Rightarrow> 'f simulated option) \<Rightarrow> 'f action \<Rightarrow> 'f simulated \<Rightarrow> 'f simulated option" where
  "run_callback call act s =
     (case act of
        SendOn t \<Rightarrow>
          (case channel s t of
             None \<Rightarrow> Some (s\<lparr>channel := (channel s)(t := Some (tm_at (timers s t)))\<rparr>)
           | Some _ \<Rightarrow> None)
      | Call fn \<Rightarrow> call fn s)"

fun run_callbacks ::
  "('f \<Rightarrow> 'f simulated \<Rightarrow> 'f simulated option) \<Rightarrow> 'f action list \<Rightarrow> 'f simulated \<Rightarrow> 'f simulated option" where
  "run_callbacks call [] s = Some s"
| "run_callbacks call (a # as) s =
     (case run_callback call a s of None \<Rightarrow> None | Some s \<Rightarrow> run_callbacks call as s)"

definition sim_Run ::
  "('f \<Rightarrow> 'f simulated \<Rightarrow> 'f simulated option) \<Rightarrow> 'f simulated \<Rightarrow> duration \<Rightarrow> 'f simulated option" where
  "sim_Run call s d =
     (let (s', evs) = run_locked s d
      in run_callbacks call (map (\<lambda>ev. tm_do (timers s ev)) evs) s')"

text \<open>A receive from a timer's channel, when it has a value.\<close>

definition timer_recv :: "'f simulated \<Rightarrow> nat \<Rightarrow> ('f simulated \<times> abstime) option" where
  "timer_recv s t =
     (case channel s t of None \<Rightarrow> None | Some v \<Rightarrow> Some (s\<lparr>channel := (channel s)(t := None)\<rparr>, v))"

text \<open>The zero value of \<open>Simulated\<close>.\<close>

definition sim_init :: "'f simulated" where
  "sim_init = \<lparr>sim_now = 0, scheduled = [], timers = (\<lambda>_. \<lparr>tm_at = 0, tm_index = 0, tm_do = SendOn 0, tm_ch = False\<rparr>),
     allocated = 0, channel = (\<lambda>_. None)\<rparr>"

section \<open>Well-formed clocks\<close>

text \<open>
  Each scheduled timer knows its position, and every other one has index -1, except possibly one
  that is about to be pushed; on top of it the heap order.
\<close>

definition positions_except :: "'f simulated \<Rightarrow> nat \<Rightarrow> bool" where
  "positions_except s e \<longleftrightarrow>
     distinct (scheduled s) \<and>
     (\<forall>k<length (scheduled s). tm_index (timers s (scheduled s ! k)) = int k) \<and>
     (\<forall>t<allocated s. t \<notin> set (scheduled s) \<longrightarrow> t \<noteq> e \<longrightarrow> tm_index (timers s t) = - 1) \<and>
     (\<forall>t\<in>set (scheduled s). t < allocated s)"

definition positions :: "'f simulated \<Rightarrow> bool" where
  "positions s \<longleftrightarrow> positions_except s (allocated s)"

definition sim_wf :: "'f simulated \<Rightarrow> bool" where
  "sim_wf s \<longleftrightarrow> is_heap scheduled sim_key s \<and> positions s"

text \<open>What the heap operations leave alone.\<close>

definition sim_frame :: "'f simulated \<Rightarrow> 'f simulated \<Rightarrow> bool" where
  "sim_frame s s' \<longleftrightarrow>
     sim_now s' = sim_now s \<and> allocated s' = allocated s \<and> channel s' = channel s \<and>
     (\<forall>t. tm_at (timers s' t) = tm_at (timers s t) \<and> tm_do (timers s' t) = tm_do (timers s t) \<and>
          tm_ch (timers s' t) = tm_ch (timers s t))"

lemma sim_frame_refl [simp]: "sim_frame s s"
  by (simp add: sim_frame_def)

lemma sim_frame_trans: "sim_frame s s' \<Longrightarrow> sim_frame s' s'' \<Longrightarrow> sim_frame s s''"
  by (simp add: sim_frame_def)

lemma sim_frame_set_index [simp]: "sim_frame s (set_index s' t k) = sim_frame s s'"
  by (auto simp: sim_frame_def set_index_def split: if_splits)

lemma sim_frame_scheduled [simp]: "sim_frame s (s'\<lparr>scheduled := h\<rparr>) = sim_frame s s'"
  by (simp add: sim_frame_def)

lemma sim_frame_Swap: "sim_frame s s' \<Longrightarrow> sim_frame s (simHeap_Swap s' i j)"
  by (simp add: simHeap_Swap_def Let_def)

lemma sim_frame_Pop: "sim_frame s (fst (simHeap_Pop s')) = sim_frame s s'"
  by (simp add: simHeap_Pop_def Let_def)

lemma index_set_index: "tm_index (timers (set_index s t k) u) = (if u = t then k else tm_index (timers s u))"
  by (simp add: set_index_def)

lemma allocated_set_index [simp]: "allocated (set_index s t k) = allocated s"
  by (simp add: set_index_def)

lemma positions_except_Swap:
  assumes "positions_except s e" "i < length (scheduled s)" "j < length (scheduled s)"
  shows "positions_except (simHeap_Swap s i j) e"
proof -
  let ?h = "scheduled s"
  define h' where "h' = ?h[i := ?h ! j, j := ?h ! i]"
  have s: "scheduled (simHeap_Swap s i j) = h'" "allocated (simHeap_Swap s i j) = allocated s"
    by (simp_all add: simHeap_Swap_def Let_def h'_def)
  have len: "length h' = length ?h" and set: "set h' = set ?h"
    using assms(2,3) by (simp_all add: h'_def set_swap)
  have dist: "distinct h'" using assms by (simp add: positions_except_def distinct_swap h'_def)
  have idx: "tm_index (timers (simHeap_Swap s i j) t) =
      (if t = h' ! j then int j else if t = h' ! i then int i else tm_index (timers s t))" for t
    by (simp add: simHeap_Swap_def Let_def index_set_index h'_def)
  have "tm_index (timers (simHeap_Swap s i j) (h' ! k)) = int k" if "k < length ?h" for k
  proof -
    have "h' ! k = h' ! j \<longleftrightarrow> k = j" "h' ! k = h' ! i \<longleftrightarrow> k = i"
      using dist that assms(2,3) len by (simp_all add: nth_eq_iff_index_eq)
    moreover have "h' ! k = ?h ! k" if "k \<noteq> i" "k \<noteq> j" using that by (simp add: h'_def)
    ultimately show ?thesis
      using idx [of "h' ! k"] that assms(1) by (auto simp: positions_except_def)
  qed
  moreover have "tm_index (timers (simHeap_Swap s i j) t) = - 1"
    if "t < allocated s" "t \<notin> set ?h" "t \<noteq> e" for t
  proof -
    have "h' ! j \<in> set ?h" "h' ! i \<in> set ?h" using set len nth_mem assms(2,3) by metis+
    then have "t \<noteq> h' ! j" "t \<noteq> h' ! i" using that(2) by auto
    then show ?thesis using idx [of t] that assms(1) by (simp add: positions_except_def)
  qed
  ultimately show ?thesis
    using assms(1) dist set len unfolding positions_except_def s by simp
qed

lemma positions_Push:
  assumes "positions_except s t" "t < allocated s" "t \<notin> set (scheduled s)"
  shows "positions (simHeap_Push s t)"
  using assms
  by (auto simp: positions_def positions_except_def simHeap_Push_def Let_def index_set_index nth_append)

lemma positions_Pop:
  assumes "positions s" "scheduled s \<noteq> []"
  shows "positions (fst (simHeap_Pop s))"
proof -
  let ?h = "scheduled s" and ?n = "length (scheduled s) - 1"
  have n: "?n < length ?h" "Suc ?n = length ?h" using assms(2) by auto
  have h: "?h = take ?n ?h @ [?h ! ?n]" using take_Suc_conv_app_nth [OF n(1)] n(2) by simp
  then have d: "distinct (take ?n ?h)" "?h ! ?n \<notin> set (take ?n ?h)"
    and set: "set ?h = insert (?h ! ?n) (set (take ?n ?h))"
    using assms(1) by (metis distinct_append positions_def positions_except_def disjoint_iff list.set_intros(1))
      (metis h distinct_append positions_def positions_except_def assms(1) disjoint_iff list.set_intros(1),
       metis h set_append list.simps(15) set_empty Un_insert_right sup_bot.right_neutral empty_set)
  have ne: "?h ! k \<noteq> ?h ! ?n" if "k < ?n" for k
    using d(2) that n(1) by (metis in_set_conv_nth length_take min.absorb4 nth_take)
  show ?thesis
    using assms(1) d set ne
    by (auto simp: positions_def positions_except_def simHeap_Pop_def Let_def index_set_index)
qed



text \<open>The abstract clock: the pending timers with their times.\<close>

definition pending :: "'f simulated \<Rightarrow> nat \<Rightarrow> abstime option" where
  "pending s t = (if t \<in> set (scheduled s) then Some (tm_at (timers s t)) else None)"

lemma sim_frame_keys: "sim_frame s s' \<Longrightarrow> sim_key s' = sim_key s"
  by (rule ext) (simp add: sim_frame_def sim_key_def)

lemma allocated_Swap [simp]: "allocated (simHeap_Swap s i j) = allocated s"
  by (simp add: simHeap_Swap_def Let_def)

lemma positions_frame_Swap:
  "positions s' \<and> sim_frame s s' \<Longrightarrow> i < length (scheduled s') \<Longrightarrow> j < length (scheduled s') \<Longrightarrow>
   positions (simHeap_Swap s' i j) \<and> sim_frame s (simHeap_Swap s' i j)"
  by (simp add: positions_def sim_frame_Swap positions_except_Swap)

lemma sim_push_wf:
  assumes "is_heap scheduled sim_key s" "positions_except s t" "t < allocated s" "t \<notin> set (scheduled s)"
  shows "sim_wf (sim_push s t) \<and> sim_frame s (sim_push s t) \<and>
    set (scheduled (sim_push s t)) = insert t (set (scheduled s))"
proof -
  have "positions (sim_push s t) \<and> sim_frame s (sim_push s t)"
    by (rule simq.push_preserves [where I = "\<lambda>s'. positions s' \<and> sim_frame s s'"])
       (use positions_frame_Swap positions_Push [OF assms(2-4)] in \<open>auto simp: simHeap_Push_def Let_def\<close>)
  then show ?thesis
    using simq.push_heap [OF assms(1), of t] by (metis set_mset_add_mset_insert set_mset_mset sim_wf_def)
qed

lemma sim_remove_wf:
  assumes "sim_wf s" "k < length (scheduled s)" "sim_remove s k = (s', t)"
  shows "sim_wf s' \<and> sim_frame s s' \<and> t = scheduled s ! k \<and>
    set (scheduled s') = set (scheduled s) - {t} \<and> t \<in> set (scheduled s)"
proof -
  have p: "positions s \<and> sim_frame s s" and h: "is_heap scheduled sim_key s"
    using assms(1) by (simp_all add: sim_wf_def)
  obtain s1 where s1: "sim_remove s k = simHeap_Pop s1" "positions s1 \<and> sim_frame s s1"
      "length (scheduled s1) = length (scheduled s)"
    using simq.remove_preserves [where I = "\<lambda>s'. positions s' \<and> sim_frame s s'" and h = s, OF positions_frame_Swap p assms(2)]
    by blast
  then have "scheduled s1 \<noteq> []" using assms(2) by auto
  moreover have "simHeap_Pop s1 = (s', t)" using s1(1) assms(3) by simp
  ultimately have "positions s'" "sim_frame s s'"
    using s1(2) positions_Pop [of s1] sim_frame_Pop [of s s1] by auto
  moreover have r: "is_heap scheduled sim_key s'" "t = scheduled s ! k" "mset (scheduled s) = mset (t # scheduled s')"
    using simq.remove_heap [OF h assms(2,3)] by auto
  moreover have "distinct (t # scheduled s')"
    using mset_eq_imp_distinct_iff [OF r(3)] assms(1) by (simp add: sim_wf_def positions_def positions_except_def)
  moreover have "set (scheduled s) = set (t # scheduled s')"
    using r(3) by (rule mset_eq_setD)
  ultimately show ?thesis by (auto simp: sim_wf_def)
qed

lemma sim_pop_wf:
  assumes "sim_wf s" "scheduled s \<noteq> []" "sim_pop s = (s', t)"
  shows "sim_wf s' \<and> sim_frame s s' \<and> t = scheduled s ! 0 \<and>
    set (scheduled s') = set (scheduled s) - {t} \<and> t \<in> set (scheduled s) \<and>
    (\<forall>u\<in>set (scheduled s). sim_key s t \<le> sim_key s u)"
proof -
  have p: "positions s \<and> sim_frame s s" and h: "is_heap scheduled sim_key s"
    using assms(1) by (simp_all add: sim_wf_def)
  obtain s1 where s1: "sim_pop s = simHeap_Pop s1" "positions s1 \<and> sim_frame s s1"
      "length (scheduled s1) = length (scheduled s)"
    using simq.pop_preserves [where I = "\<lambda>s'. positions s' \<and> sim_frame s s'" and h = s, OF positions_frame_Swap p assms(2)]
    by blast
  then have "scheduled s1 \<noteq> []" using assms(2) by auto
  moreover have "simHeap_Pop s1 = (s', t)" using s1(1) assms(3) by simp
  ultimately have "positions s'" "sim_frame s s'"
    using s1(2) positions_Pop [of s1] sim_frame_Pop [of s s1] by auto
  moreover have r: "is_heap scheduled sim_key s'" "t = scheduled s ! 0" "mset (scheduled s) = mset (t # scheduled s')"
      "\<forall>u\<in>set (scheduled s). sim_key s t \<le> sim_key s u"
    using simq.pop_heap [OF h assms(2,3)] by auto
  moreover have "distinct (t # scheduled s')"
    using mset_eq_imp_distinct_iff [OF r(3)] assms(1) by (simp add: sim_wf_def positions_def positions_except_def)
  moreover have "set (scheduled s) = set (t # scheduled s')"
    using r(3) by (rule mset_eq_setD)
  ultimately show ?thesis by (auto simp: sim_wf_def)
qed

text \<open>The methods, as operations on the pending timers.\<close>

lemma sim_wf_init: "sim_wf sim_init"
  by (simp add: sim_wf_def positions_def positions_except_def sim_init_def is_heap_def heap_upto_def)

lemma sim_wf_simps:
  "sim_wf s \<Longrightarrow> t \<in> set (scheduled s) \<Longrightarrow> t < allocated s"
  "sim_wf s \<Longrightarrow> t < allocated s \<Longrightarrow> tm_index (timers s t) < 0 \<longleftrightarrow> t \<notin> set (scheduled s)"
  "sim_wf s \<Longrightarrow> t \<in> set (scheduled s) \<Longrightarrow>
     nat (tm_index (timers s t)) < length (scheduled s) \<and> scheduled s ! nat (tm_index (timers s t)) = t"
proof -
  assume w: "sim_wf s"
  then have p: "\<forall>k<length (scheduled s). tm_index (timers s (scheduled s ! k)) = int k"
    "\<forall>t<allocated s. t \<notin> set (scheduled s) \<longrightarrow> t \<noteq> allocated s \<longrightarrow> tm_index (timers s t) = - 1"
    "\<forall>t\<in>set (scheduled s). t < allocated s"
    by (simp_all add: sim_wf_def positions_def positions_except_def)
  show "t < allocated s" if "t \<in> set (scheduled s)" using p(3) that by blast
  show "tm_index (timers s t) < 0 \<longleftrightarrow> t \<notin> set (scheduled s)" if "t < allocated s"
    using p(1,2) that by (auto simp: in_set_conv_nth)
  show "nat (tm_index (timers s t)) < length (scheduled s) \<and> scheduled s ! nat (tm_index (timers s t)) = t"
    if "t \<in> set (scheduled s)"
    using p(1) that by (auto simp: in_set_conv_nth)
qed

lemma is_heap_cong:
  "is_heap scheduled sim_key s \<Longrightarrow> scheduled s' = scheduled s \<Longrightarrow>
   (\<And>t. t \<in> set (scheduled s) \<Longrightarrow> tm_at (timers s' t) = tm_at (timers s t)) \<Longrightarrow> is_heap scheduled sim_key s'"
  unfolding is_heap_def
  by (subst heap_upto_cong [of _ _ "keys_of scheduled sim_key s"]) (simp_all add: keys_of_def sim_key_def)

lemma sim_schedule_spec:
  assumes "sim_wf s" "sim_schedule s d fn = (s', t)"
  shows "sim_wf s'" "t = allocated s" "allocated s' = Suc t" "sim_now s' = sim_now s" "channel s' = channel s"
    "pending s' = (pending s)(t \<mapsto> sim_now s + d)"
    "timers s' t = (timers s' t)\<lparr>tm_at := sim_now s + d, tm_do := fn t, tm_ch := False\<rparr>"
    "\<And>u. u \<noteq> t \<Longrightarrow> tm_at (timers s' u) = tm_at (timers s u) \<and> tm_do (timers s' u) = tm_do (timers s u) \<and>
       tm_ch (timers s' u) = tm_ch (timers s u)"
proof -
  let ?t = "allocated s"
  let ?s = "s\<lparr>allocated := Suc ?t,
     timers := (timers s)(?t := \<lparr>tm_at = sim_now s + d, tm_index = 0, tm_do = fn ?t, tm_ch = False\<rparr>)\<rparr>"
  have t: "t = ?t" and s': "s' = sim_push ?s ?t"
    using assms(2) by (auto simp: sim_schedule_def Let_def AbsTime_Add_def)
  have w: "is_heap scheduled sim_key s" "positions s" using assms(1) by (simp_all add: sim_wf_def)
  have nin: "?t \<notin> set (scheduled s)" using sim_wf_simps(1) [OF assms(1)] by auto
  have h: "is_heap scheduled sim_key ?s"
    by (rule is_heap_cong [OF w(1)]) (use nin in auto)
  have "scheduled s ! k \<noteq> ?t" if "k < length (scheduled s)" for k
    using nin nth_mem [OF that] by auto
  then have p: "positions_except ?s ?t"
    using w(2) nin by (auto simp: positions_def positions_except_def less_Suc_eq nth_mem)
  have r: "sim_wf s' \<and> sim_frame ?s s' \<and> set (scheduled s') = insert ?t (set (scheduled s))"
    unfolding s' using sim_push_wf [OF h p] nin by simp
  then show "sim_wf s'" by simp
  show "t = allocated s" by (rule t)
  show "allocated s' = Suc t" "sim_now s' = sim_now s" "channel s' = channel s"
    using r t by (auto simp: sim_frame_def)
  show "pending s' = (pending s)(t \<mapsto> sim_now s + d)"
    using r t by (auto simp: sim_frame_def pending_def fun_eq_iff)
  show "timers s' t = (timers s' t)\<lparr>tm_at := sim_now s + d, tm_do := fn t, tm_ch := False\<rparr>"
    using r t by (auto simp: sim_frame_def)
  show "tm_at (timers s' u) = tm_at (timers s u) \<and> tm_do (timers s' u) = tm_do (timers s u) \<and>
       tm_ch (timers s' u) = tm_ch (timers s u)" if "u \<noteq> t" for u
    using r t that by (auto simp: sim_frame_def)
qed

lemma sim_wf_cong:
  assumes "sim_wf s" "scheduled s' = scheduled s" "allocated s' = allocated s"
    "\<And>t. tm_at (timers s' t) = tm_at (timers s t) \<and> tm_index (timers s' t) = tm_index (timers s t)"
  shows "sim_wf s'"
  using assms is_heap_cong [of s s'] by (auto simp: sim_wf_def positions_def positions_except_def)

lemma NewTimer_spec:
  assumes "sim_wf s" "NewTimer s d = (s', t)"
  shows "sim_wf s'" "t = allocated s" "allocated s' = Suc t" "sim_now s' = sim_now s"
    "pending s' = (pending s)(t \<mapsto> sim_now s + d)" "tm_ch (timers s' t)" "channel s' = (channel s)(t := None)"
proof -
  obtain s1 where s1: "sim_schedule s d SendOn = (s1, t)"
    and s': "s' = s1\<lparr>timers := (timers s1)(t := (timers s1 t)\<lparr>tm_ch := True\<rparr>), channel := (channel s1)(t := None)\<rparr>"
    using assms(2) by (auto simp: NewTimer_def split: prod.splits)
  note r = sim_schedule_spec [OF assms(1) s1]
  show "sim_wf s'" by (rule sim_wf_cong [OF r(1)]) (simp_all add: s')
  show "t = allocated s" "allocated s' = Suc t" "sim_now s' = sim_now s"
    "tm_ch (timers s' t)" "channel s' = (channel s)(t := None)"
    using r(2-5) by (simp_all add: s')
  have "pending s' = pending s1" by (rule ext) (simp add: pending_def s')
  then show "pending s' = (pending s)(t \<mapsto> sim_now s + d)" using r(6) by simp
qed

lemma sim_wf_set_index:
  "sim_wf s \<Longrightarrow> t < allocated s \<Longrightarrow> t \<notin> set (scheduled s) \<Longrightarrow> sim_wf (set_index s t (- 1))"
proof -
  assume a: "sim_wf s" "t < allocated s" "t \<notin> set (scheduled s)"
  then have "tm_index (timers s t) = - 1"
    by (simp add: sim_wf_def positions_def positions_except_def)
  then show ?thesis
    by (intro sim_wf_cong [OF a(1)]) (simp_all add: index_set_index, simp add: set_index_def)
qed

lemma timer_Stop_spec:
  assumes "sim_wf s" "t < allocated s" "timer_Stop s t = (s', b)"
  shows "sim_wf s'" "sim_frame s s'" "b \<longleftrightarrow> pending s t \<noteq> None" "pending s' = (pending s)(t := None)"
proof -
  have "sim_wf s' \<and> sim_frame s s' \<and> (b \<longleftrightarrow> t \<in> set (scheduled s)) \<and> set (scheduled s') = set (scheduled s) - {t}"
  proof (cases "t \<in> set (scheduled s)")
    case False
    then have "s' = s" "\<not> b"
      using assms(3) sim_wf_simps(2) [OF assms(1,2)] by (auto simp: timer_Stop_def)
    with False assms(1) show ?thesis by simp
  next
    case True
    let ?k = "nat (tm_index (timers s t))"
    obtain s1 u where r: "sim_remove s ?k = (s1, u)" by fastforce
    note k = sim_wf_simps(3) [OF assms(1) True]
    have w: "sim_wf s1 \<and> sim_frame s s1 \<and> u = t \<and> set (scheduled s1) = set (scheduled s) - {t}"
      using sim_remove_wf [OF assms(1) _ r] k by simp
    have "s' = set_index s1 t (- 1)" "b"
      using assms(3) r True sim_wf_simps(2) [OF assms(1,2)] by (auto simp: timer_Stop_def)
    moreover have "t < allocated s1" using w assms(2) by (simp add: sim_frame_def)
    ultimately show ?thesis using w True sim_wf_set_index [of s1 t] by simp
  qed
  then show "sim_wf s'" "sim_frame s s'" "b \<longleftrightarrow> pending s t \<noteq> None" "pending s' = (pending s)(t := None)"
    by (auto simp: pending_def sim_frame_def fun_eq_iff)
qed

lemma timer_Reset_spec:
  assumes "sim_wf s" "t < allocated s" "timer_Reset s t d = Some s'"
  shows "sim_wf s'" "pending s' = (pending s)(t \<mapsto> sim_now s + d)"
    "allocated s' = allocated s" "sim_now s' = sim_now s" "channel s' = channel s"
proof -
  let ?s = "set_at s t (sim_now s + d)"
  have f: "scheduled ?s = scheduled s" "allocated ?s = allocated s" "sim_now ?s = sim_now s" "channel ?s = channel s"
    "\<And>u. tm_index (timers ?s u) = tm_index (timers s u)"
    "\<And>u. tm_at (timers ?s u) = (if u = t then sim_now s + d else tm_at (timers s u))"
    by (simp_all add: set_at_def)
  have w: "is_heap scheduled sim_key s" "positions s" using assms(1) by (simp_all add: sim_wf_def)
  then have pos: "positions ?s" using f by (simp add: positions_def positions_except_def)
  have "sim_wf s' \<and> sim_frame ?s s' \<and> set (scheduled s') = insert t (set (scheduled s))"
  proof (cases "t \<in> set (scheduled s)")
    case False
    have "is_heap scheduled sim_key ?s"
      by (rule is_heap_cong [OF w(1)]) (use False f in auto)
    moreover have "positions_except ?s t" using pos by (simp add: positions_def positions_except_def)
    moreover have "s' = sim_push ?s t"
      using assms(3) False sim_wf_simps(2) [OF assms(1,2)] f
      by (auto simp: timer_Reset_def Let_def AbsTime_Add_def split: if_splits)
    ultimately show ?thesis using sim_push_wf [of ?s t] False f assms(2) by simp
  next
    case True
    let ?k = "nat (tm_index (timers s t))"
    note k = sim_wf_simps(3) [OF assms(1) True]
    have s': "s' = sim_fix ?s ?k"
      using assms(3) True sim_wf_simps(2) [OF assms(1,2)] f
      by (auto simp: timer_Reset_def Let_def AbsTime_Add_def split: if_splits)
    have dist: "distinct (scheduled s)" using w(2) by (simp add: positions_def positions_except_def)
    have "is_heap scheduled sim_key s' \<and> sim_key s' = sim_key ?s \<and> mset (scheduled s') = mset (scheduled ?s)"
    proof (rule simq.fix_heap [OF w(1)])
      show "scheduled ?s = scheduled s" by (rule f)
      show "?k < length (scheduled ?s)" using k f by simp
      show "sim_key ?s (scheduled ?s ! m) = sim_key s (scheduled ?s ! m)"
        if "m \<noteq> ?k" "m < length (scheduled ?s)" for m
        using that k dist f nth_eq_iff_index_eq [OF dist, of m ?k] by (simp add: sim_key_def)
      show "sim_fix ?s ?k = s'" by (rule s' [symmetric])
    qed
    moreover have "positions s' \<and> sim_frame ?s s'"
      unfolding s'
      by (rule simq.fix_preserves [where I = "\<lambda>s'. positions s' \<and> sim_frame ?s s'", OF positions_frame_Swap])
         (use pos k f in auto)
    ultimately show ?thesis
      using True f(1) by (metis insert_absorb set_mset_mset sim_wf_def)
  qed
  then show "sim_wf s'" "pending s' = (pending s)(t \<mapsto> sim_now s + d)"
    "allocated s' = allocated s" "sim_now s' = sim_now s" "channel s' = channel s"
    using f by (auto simp: sim_frame_def pending_def fun_eq_iff)
qed

text \<open>The loop of \<open>Run\<close> pops the due timers in order of their times and leaves the others.\<close>

lemma run_due_spec:
  "sim_wf s \<Longrightarrow> run_due s fin = (s', evs) \<Longrightarrow>
   sim_wf s' \<and> sim_frame s s' \<and>
   set evs = {t \<in> set (scheduled s). time_le (tm_at (timers s t)) fin} \<and>
   set (scheduled s') = set (scheduled s) - set evs \<and> distinct evs \<and>
   sorted (map (sim_key s) evs)"
proof (induction s fin arbitrary: s' evs rule: run_due.induct)
  case (1 s fin)
  note key = sim_key_def time_le_def
  show ?case
  proof (cases "0 < length (scheduled s) \<and> time_le (tm_at (timers s (scheduled s ! 0))) fin")
    case False
    then have "run_due s fin = (s, [])" by (subst run_due.simps) (rule if_not_P)
    then have e: "s' = s" "evs = []" using "1.prems"(2) by simp_all
    have "\<not> time_le (tm_at (timers s t)) fin" if "t \<in> set (scheduled s)" for t
    proof -
      have "scheduled s \<noteq> []" using that by auto
      then have "sim_key s (scheduled s ! 0) \<le> sim_key s t"
        using \<open>scheduled s \<noteq> []\<close> sim_pop_wf [OF "1.prems"(1), of "fst (sim_pop s)" "snd (sim_pop s)"] that by (metis prod.collapse)
      with False \<open>scheduled s \<noteq> []\<close> show ?thesis by (simp add: key)
    qed
    then show ?thesis using e "1.prems"(1) by auto
  next
    case True
    obtain s1 ev where p: "sim_pop s = (s1, ev)" by fastforce
    obtain s2 es where r: "run_due s1 fin = (s2, es)" by fastforce
    have "run_due s fin = (s2, ev # es)"
      by (subst run_due.simps) (simp only: if_P [OF True] p, simp add: r)
    then have e: "s' = s2" "evs = ev # es" using "1.prems"(2) by simp_all
    have pop: "sim_wf s1 \<and> sim_frame s s1 \<and> ev = scheduled s ! 0 \<and> set (scheduled s1) = set (scheduled s) - {ev} \<and>
      ev \<in> set (scheduled s) \<and> (\<forall>u\<in>set (scheduled s). sim_key s ev \<le> sim_key s u)"
      using True by (intro sim_pop_wf [OF "1.prems"(1) _ p]) auto
    then have at: "tm_at (timers s1 t) = tm_at (timers s t)" for t by (simp add: sim_frame_def)
    have IH: "sim_wf s2 \<and> sim_frame s1 s2 \<and> set es = {t \<in> set (scheduled s1). time_le (tm_at (timers s1 t)) fin} \<and>
      set (scheduled s2) = set (scheduled s1) - set es \<and> distinct es \<and> sorted (map (sim_key s1) es)"
      using "1.IH" [OF True, of "(s1, ev)" s1 ev s2 es] p pop r by simp
    have k: "sim_key s1 = sim_key s" using pop sim_frame_keys by blast
    show ?thesis
      using IH pop True at k sim_frame_trans [of s s1 s2] unfolding e by auto
  qed
qed

lemma run_locked_spec:
  assumes "sim_wf s" "run_locked s d = (s', evs)"
  shows "sim_wf s'" "sim_now s' = sim_now s + d" "allocated s' = allocated s" "channel s' = channel s"
    "pending s' = (\<lambda>t. case pending s t of None \<Rightarrow> None
        | Some a \<Rightarrow> if time_le a (sim_now s + d) then None else Some a)"
    "set evs = {t. \<exists>a. pending s t = Some a \<and> time_le a (sim_now s + d)}"
    "distinct evs" "sorted (map (\<lambda>t. sint (the (pending s t))) evs)"
proof -
  obtain s1 where r: "run_due s (sim_now s + d) = (s1, evs)" and s': "s' = s1\<lparr>sim_now := sim_now s + d\<rparr>"
    using assms(2) by (auto simp: run_locked_def Let_def AbsTime_Add_def split: prod.splits)
  note w = run_due_spec [OF assms(1) r]
  show "sim_wf s'" by (rule sim_wf_cong [of s1]) (use w in \<open>auto simp: s'\<close>)
  show "sim_now s' = sim_now s + d" "allocated s' = allocated s" "channel s' = channel s"
    using w by (auto simp: s' sim_frame_def)
  show "pending s' = (\<lambda>t. case pending s t of None \<Rightarrow> None
        | Some a \<Rightarrow> if time_le a (sim_now s + d) then None else Some a)"
    using w by (auto simp: s' sim_frame_def pending_def fun_eq_iff)
  show "set evs = {t. \<exists>a. pending s t = Some a \<and> time_le a (sim_now s + d)}" "distinct evs"
    using w by (auto simp: pending_def)
  have m: "map (\<lambda>t. sint (the (pending s t))) evs = map (sim_key s) evs"
    using w by (auto simp: pending_def sim_key_def)
  show "sorted (map (\<lambda>t. sint (the (pending s t))) evs)" unfolding m using w by simp
qed

section \<open>Reachable clocks\<close>

text \<open>
  The calls on a clock in any order, on timers it has handed out. \<open>Run\<close> is its locked part and the
  sends on the channels of timers; a user's callback is itself a sequence of such calls.
\<close>

inductive sim_step :: "'f simulated \<Rightarrow> 'f simulated \<Rightarrow> bool" where
  step_NewTimer: "sim_step s (fst (NewTimer s d))"
| step_AfterFunc: "sim_step s (fst (AfterFunc s d fn))"
| step_Stop: "t < allocated s \<Longrightarrow> sim_step s (fst (timer_Stop s t))"
| step_Reset: "t < allocated s \<Longrightarrow> timer_Reset s t d = Some s' \<Longrightarrow> sim_step s s'"
| step_Run: "sim_step s (fst (run_locked s d))"
| step_send: "run_callback call (SendOn t) s = Some s' \<Longrightarrow> sim_step s s'"
| step_recv: "timer_recv s t = Some (s', v) \<Longrightarrow> sim_step s s'"

inductive sim_reachable :: "'f simulated \<Rightarrow> bool" where
  reach_init: "sim_reachable sim_init"
| reach_step: "sim_reachable s \<Longrightarrow> sim_step s s' \<Longrightarrow> sim_reachable s'"

lemma sim_wf_channel: "sim_wf s \<Longrightarrow> sim_wf (s\<lparr>channel := c\<rparr>)"
  by (rule sim_wf_cong) simp_all

lemma AfterFunc_spec:
  assumes "sim_wf s" "AfterFunc s d fn = (s', t)"
  shows "sim_wf s'" "t = allocated s" "allocated s' = Suc t" "sim_now s' = sim_now s" "channel s' = channel s"
    "pending s' = (pending s)(t \<mapsto> sim_now s + d)" "tm_do (timers s' t) = Call fn"
    "\<And>u. u \<noteq> t \<Longrightarrow> tm_do (timers s' u) = tm_do (timers s u)"
proof -
  have "sim_schedule s d (\<lambda>_. Call fn) = (s', t)" using assms(2) by (simp add: AfterFunc_def)
  note r = sim_schedule_spec [OF assms(1) this]
  show "sim_wf s'" "t = allocated s" "allocated s' = Suc t" "sim_now s' = sim_now s" "channel s' = channel s"
    "pending s' = (pending s)(t \<mapsto> sim_now s + d)" "\<And>u. u \<noteq> t \<Longrightarrow> tm_do (timers s' u) = tm_do (timers s u)"
    using r by auto
  show "tm_do (timers s' t) = Call fn" by (subst r(7)) simp
qed

lemma sim_step_wf: "sim_step s s' \<Longrightarrow> sim_wf s \<Longrightarrow> sim_wf s'"
proof (induction rule: sim_step.induct)
  case (step_NewTimer s d)
  then show ?case using NewTimer_spec(1) [of s d] by (metis prod.collapse)
next
  case (step_AfterFunc s d fn)
  then show ?case using AfterFunc_spec(1) [of s d fn] by (metis prod.collapse)
next
  case (step_Stop t s)
  then show ?case using timer_Stop_spec(1) [of s t] by (metis prod.collapse)
next
  case (step_Reset t s d s')
  then show ?case using timer_Reset_spec(1) by blast
next
  case (step_Run s d)
  then show ?case using run_locked_spec(1) [of s d] by (metis prod.collapse)
next
  case (step_send call t s s')
  then show ?case by (auto simp: run_callback_def sim_wf_channel split: option.splits)
next
  case (step_recv s t s' v)
  then show ?case by (auto simp: timer_recv_def sim_wf_channel split: option.splits)
qed

lemma sim_reachable_wf: "sim_reachable s \<Longrightarrow> sim_wf s"
  by (induction rule: sim_reachable.induct) (simp_all add: sim_wf_init sim_step_wf)

text \<open>
  C17. In every state that calls on the clock can reach, the schedule is a binary heap by the times of
  the timers, a scheduled timer stores its own position in it, and every other timer the clock has
  handed out stores a negative index; so no timer is scheduled twice.
\<close>
theorem sim_reachable_invariant:
  assumes "sim_reachable s"
  shows "(\<forall>k. 0 < k \<and> k < length (scheduled s) \<longrightarrow>
       time_le (tm_at (timers s (scheduled s ! ((k - 1) div 2)))) (tm_at (timers s (scheduled s ! k)))) \<and>
     (\<forall>k<length (scheduled s). tm_index (timers s (scheduled s ! k)) = int k) \<and>
     (\<forall>t<allocated s. tm_index (timers s t) < 0 \<longleftrightarrow> t \<notin> set (scheduled s)) \<and> distinct (scheduled s)"
  using sim_reachable_wf [OF assms] sim_wf_simps(2) [OF sim_reachable_wf [OF assms]]
  by (simp add: sim_wf_def is_heap_def heap_upto_def keys_of_def sim_key_def time_le_def heap_parent_def
      positions_def positions_except_def)

lemma sim_refines_pending_parts:
  assumes "sim_reachable s" "t < allocated s"
  shows "pending (fst (AfterFunc s d fn)) = (pending s)(snd (AfterFunc s d fn) \<mapsto> sim_now s + d)"
    and "pending (fst (NewTimer s d)) = (pending s)(snd (NewTimer s d) \<mapsto> sim_now s + d)"
    and "snd (timer_Stop s t) \<longleftrightarrow> pending s t \<noteq> None"
    and "pending (fst (timer_Stop s t)) = (pending s)(t := None)"
    and "tm_ch (timers s t) \<Longrightarrow> \<exists>s'. timer_Reset s t d = Some s' \<and> pending s' = (pending s)(t \<mapsto> sim_now s + d)"
    and "sim_now (fst (run_locked s d)) = sim_now s + d"
    and "pending (fst (run_locked s d)) =
      (\<lambda>u. case pending s u of None \<Rightarrow> None | Some a \<Rightarrow> if time_le a (sim_now s + d) then None else Some a)"
    and "set (snd (run_locked s d)) = {u. \<exists>a. pending s u = Some a \<and> time_le a (sim_now s + d)}"
    and "distinct (snd (run_locked s d)) \<and> sorted (map (\<lambda>u. sint (the (pending s u))) (snd (run_locked s d)))"
proof -
  note w = sim_reachable_wf [OF assms(1)]
  show "pending (fst (AfterFunc s d fn)) = (pending s)(snd (AfterFunc s d fn) \<mapsto> sim_now s + d)"
    using AfterFunc_spec(6) [OF w, of d fn] by (metis prod.collapse)
  show "pending (fst (NewTimer s d)) = (pending s)(snd (NewTimer s d) \<mapsto> sim_now s + d)"
    using NewTimer_spec(5) [OF w, of d] by (metis prod.collapse)
  show "snd (timer_Stop s t) \<longleftrightarrow> pending s t \<noteq> None" "pending (fst (timer_Stop s t)) = (pending s)(t := None)"
    using timer_Stop_spec(3,4) [OF w assms(2)] by (metis prod.collapse)+
  show "\<exists>s'. timer_Reset s t d = Some s' \<and> pending s' = (pending s)(t \<mapsto> sim_now s + d)" if "tm_ch (timers s t)"
  proof -
    have "timer_Reset s t d \<noteq> None" using that by (simp add: timer_Reset_def Let_def)
    then obtain s' where "timer_Reset s t d = Some s'" by blast
    with timer_Reset_spec(2) [OF w assms(2)] show ?thesis by blast
  qed
  note r = run_locked_spec [OF w, of d "fst (run_locked s d)" "snd (run_locked s d)", OF prod.collapse [symmetric]]
  show "sim_now (fst (run_locked s d)) = sim_now s + d" by (rule r(2))
  show "pending (fst (run_locked s d)) =
      (\<lambda>u. case pending s u of None \<Rightarrow> None | Some a \<Rightarrow> if time_le a (sim_now s + d) then None else Some a)"
    by (rule r(5))
  show "set (snd (run_locked s d)) = {u. \<exists>a. pending s u = Some a \<and> time_le a (sim_now s + d)}" by (rule r(6))
  show "distinct (snd (run_locked s d)) \<and> sorted (map (\<lambda>u. sint (the (pending s u))) (snd (run_locked s d)))"
    using r(7,8) by simp
qed

text \<open>
  C4. The methods of the clock implement a map from the pending timers to their times. A new timer is
  pending at the current time plus its duration, also when the sum wraps around; \<open>Stop\<close> reports
  whether the timer was pending and removes it and nothing else; \<open>Reset\<close> makes it pending at the new
  time; \<open>Run\<close> advances the clock, removes exactly the timers that are due and returns their callbacks
  in the order of their times, each once.
\<close>
theorem sim_refines_pending:
  assumes "sim_reachable s" "t < allocated s"
  shows "(pending (fst (AfterFunc s d fn)) = (pending s)(snd (AfterFunc s d fn) \<mapsto> sim_now s + d)) \<and>
    (pending (fst (NewTimer s d)) = (pending s)(snd (NewTimer s d) \<mapsto> sim_now s + d)) \<and>
    (snd (timer_Stop s t) \<longleftrightarrow> pending s t \<noteq> None) \<and>
    (pending (fst (timer_Stop s t)) = (pending s)(t := None)) \<and>
    (tm_ch (timers s t) \<longrightarrow> (\<exists>s'. timer_Reset s t d = Some s' \<and> pending s' = (pending s)(t \<mapsto> sim_now s + d))) \<and>
    (sim_now (fst (run_locked s d)) = sim_now s + d) \<and>
    (pending (fst (run_locked s d)) =
      (\<lambda>u. case pending s u of None \<Rightarrow> None | Some a \<Rightarrow> if time_le a (sim_now s + d) then None else Some a)) \<and>
    (set (snd (run_locked s d)) = {u. \<exists>a. pending s u = Some a \<and> time_le a (sim_now s + d)}) \<and>
    (distinct (snd (run_locked s d)) \<and> sorted (map (\<lambda>u. sint (the (pending s u))) (snd (run_locked s d))))"
  by (rule conjI, rule sim_refines_pending_parts(1) [OF assms],
      rule conjI, rule sim_refines_pending_parts(2) [OF assms],
      rule conjI, rule sim_refines_pending_parts(3) [OF assms],
      rule conjI, rule sim_refines_pending_parts(4) [OF assms],
      rule conjI, rule impI, rule sim_refines_pending_parts(5) [OF assms], assumption,
      rule conjI, rule sim_refines_pending_parts(6) [OF assms],
      rule conjI, rule sim_refines_pending_parts(7) [OF assms],
      rule conjI, rule sim_refines_pending_parts(8) [OF assms],
      rule sim_refines_pending_parts(9) [OF assms])

text \<open>A clock with one timer, for the witnesses.\<close>

definition sim_example :: "unit simulated" where
  "sim_example = fst (NewTimer sim_init 3)"

lemma sim_example: "sim_reachable sim_example" "allocated sim_example = 1" "pending sim_example = [0 \<mapsto> 3]"
proof -
  show "sim_reachable sim_example"
    unfolding sim_example_def by (rule reach_step [OF reach_init step_NewTimer])
  note r = NewTimer_spec [OF sim_wf_init, of 3 sim_example "snd (NewTimer (sim_init :: unit simulated) 3)"]
  have p: "NewTimer sim_init 3 = (sim_example, snd (NewTimer (sim_init :: unit simulated) 3))" by (simp add: sim_example_def)
  show "allocated sim_example = 1" using r(2,3) [OF p] by (simp add: sim_init_def)
  have "pending (sim_init :: unit simulated) = Map.empty" by (rule ext) (simp add: pending_def sim_init_def)
  then show "pending sim_example = [0 \<mapsto> 3]" using r(2,5) [OF p] by (simp add: sim_init_def)
qed

lemma sim_now_example: "sim_now sim_example = 0"
  using NewTimer_spec(4) [OF sim_wf_init, of 3 sim_example] by (metis prod.collapse sim_example_def sim_init_def simulated.select_convs(1))

theorem sim_reachable_invariant_witness: "scheduled sim_example = [0] \<and> tm_index (timers sim_example 0) = 0"
proof -
  have "set (scheduled sim_example) = {0}"
    using sim_example(3) unfolding pending_def fun_eq_iff by (auto split: if_splits)
  moreover have "distinct (scheduled sim_example)"
    and *: "\<forall>k<length (scheduled sim_example). tm_index (timers sim_example (scheduled sim_example ! k)) = int k"
    using sim_reachable_invariant [OF sim_example(1)] by simp_all
  ultimately have "scheduled sim_example = [0]"
    by (metis distinct.simps(2) empty_iff insert_iff list.exhaust_sel list.set_sel(1) list.set_sel(2) set_empty2 list.set(1) insert_not_empty)
  then show ?thesis using * by simp
qed

theorem sim_refines_pending_witness:
  "pending (fst (timer_Stop sim_example 0)) = Map.empty \<and> set (snd (run_locked sim_example 5)) = {0} \<and>
   set (snd (run_locked sim_example 2)) = {}"
  using sim_refines_pending [THEN conjunct2, THEN conjunct2, THEN conjunct2, THEN conjunct1, rule_format, OF sim_example(1), of 0]
    sim_refines_pending [THEN conjunct2, THEN conjunct2, THEN conjunct2, THEN conjunct2, THEN conjunct2, THEN conjunct2, THEN conjunct2, THEN conjunct1, rule_format, OF sim_example(1), of 0 5] sim_refines_pending [THEN conjunct2, THEN conjunct2, THEN conjunct2, THEN conjunct2, THEN conjunct2, THEN conjunct2, THEN conjunct2, THEN conjunct1, rule_format, OF sim_example(1), of 0 2]
  by (auto simp: sim_example time_le_def sim_now_example)

end
