(* ===== verification/Alarm.thy ===== *)
theory Alarm
  imports Sim_Clock
begin

text \<open>
  \<open>src/common/mclock/alarm.go\<close>: alarms over the interface \<open>Clock\<close>. The code of an alarm takes the
  methods of the clock it calls as arguments; the locale \<open>alarm_clock\<close> states what it relies on, and
  is interpreted on the simulated clock. The channel of an alarm is whether its one-element buffer
  holds a value.
\<close>

section \<open>The alarm\<close>

record 't alarm =
  al_ch :: bool
  al_timer :: "'t option"
  al_deadline :: abstime

definition NewAlarm :: "'t alarm" where
  "NewAlarm = \<lparr>al_ch = False, al_timer = None, al_deadline = 0\<rparr>"

definition alarm_send :: "'t alarm \<Rightarrow> 't alarm" where
  "alarm_send e = e\<lparr>al_ch := True\<rparr>"

text \<open>\<open>Stop\<close>, with the receive that drains the channel.\<close>

definition alarm_Stop :: "('c \<Rightarrow> 't \<Rightarrow> 'c \<times> bool) \<Rightarrow> 'c \<Rightarrow> 't alarm \<Rightarrow> 'c \<times> 't alarm" where
  "alarm_Stop stop c e =
     (let c = (case al_timer e of None \<Rightarrow> c | Some t \<Rightarrow> fst (stop c t))
      in (c, e\<lparr>al_deadline := 0, al_ch := False\<rparr>))"

definition alarm_set ::
  "('c \<Rightarrow> duration \<Rightarrow> 'f \<Rightarrow> 'c \<times> 't) \<Rightarrow> 'f \<Rightarrow> 'c \<Rightarrow> 't alarm \<Rightarrow> abstime \<Rightarrow> abstime \<Rightarrow> 'c \<times> 't alarm" where
  "alarm_set after send c e now newDeadline =
     (let d = 0;
          (newDeadline, d) = (if time_less newDeadline now then (now, d)
                              else (newDeadline, AbsTime_Sub newDeadline now));
          (c, t) = after c d send
      in (c, e\<lparr>al_timer := Some t, al_deadline := newDeadline\<rparr>))"

definition alarm_schedule ::
  "('c \<Rightarrow> duration \<Rightarrow> 'f \<Rightarrow> 'c \<times> 't) \<Rightarrow> ('c \<Rightarrow> 't \<Rightarrow> 'c \<times> bool) \<Rightarrow> 'f \<Rightarrow>
   'c \<Rightarrow> 't alarm \<Rightarrow> abstime \<Rightarrow> abstime \<Rightarrow> 'c \<times> 't alarm" where
  "alarm_schedule after stop send c e now newDeadline =
     (case al_timer e of
        None \<Rightarrow> alarm_set after send c e now newDeadline
      | Some t \<Rightarrow>
          if time_less now (al_deadline e) \<and> time_le (al_deadline e) newDeadline then (c, e)
          else alarm_set after send (fst (stop c t)) e now newDeadline)"

definition alarm_Schedule where
  "alarm_Schedule cnow after stop send c e time = alarm_schedule after stop send c e (cnow c) time"

section \<open>What an alarm relies on\<close>

text \<open>The difference of two times that are not negative does not overflow.\<close>

lemma sint_minus_nonneg: "0 \<le> sint (a :: abstime) \<Longrightarrow> sint a \<le> sint b \<Longrightarrow> 0 \<le> sint (b - a)"
  using sint_lt [of b] by (simp add: sint_word_ariths signed_take_bit_int_eq_self)

text \<open>
  A clock shows, for each timer that is pending, its time and its callback. \<open>known\<close> are the timers
  the clock has handed out.
\<close>

definition alarm_inv ::
  "('c \<Rightarrow> abstime) \<Rightarrow> ('c \<Rightarrow> 't \<Rightarrow> (abstime \<times> 'f) option) \<Rightarrow> ('c \<Rightarrow> 't \<Rightarrow> bool) \<Rightarrow> 'f \<Rightarrow> 'c \<Rightarrow> 't alarm \<Rightarrow> bool" where
  "alarm_inv cnow armed known send c e \<longleftrightarrow>
     0 \<le> sint (cnow c) \<and>
     (\<forall>u a. armed c u = Some (a, send) \<longrightarrow> al_timer e = Some u) \<and>
     (case al_timer e of
        None \<Rightarrow> True
      | Some t \<Rightarrow> known c t \<and>
          (case armed c t of
             None \<Rightarrow> sint (al_deadline e) \<le> sint (cnow c)
           | Some (a, fn) \<Rightarrow> a = al_deadline e \<and> fn = send))"

locale alarm_clock =
  fixes cnow :: "'c \<Rightarrow> abstime"
    and after :: "'c \<Rightarrow> duration \<Rightarrow> 'f \<Rightarrow> 'c \<times> 't"
    and stop :: "'c \<Rightarrow> 't \<Rightarrow> 'c \<times> bool"
    and armed :: "'c \<Rightarrow> 't \<Rightarrow> (abstime \<times> 'f) option"
    and known :: "'c \<Rightarrow> 't \<Rightarrow> bool"
    and ok :: "'c \<Rightarrow> bool"
  assumes after_ok: "ok c \<Longrightarrow> 0 \<le> sint d \<Longrightarrow> sint (cnow c) \<le> sint (cnow c + d) \<Longrightarrow> after c d fn = (c', t) \<Longrightarrow>
      ok c' \<and> cnow c' = cnow c \<and> \<not> known c t \<and> known c' t \<and> armed c' = (armed c)(t \<mapsto> (cnow c + d, fn))"
    and stop_ok: "ok c \<Longrightarrow> known c t \<Longrightarrow> stop c t = (c', b) \<Longrightarrow>
      ok c' \<and> cnow c' = cnow c \<and> (\<forall>u. known c u \<longrightarrow> known c' u) \<and> armed c' = (armed c)(t := None)"
begin

lemma alarm_set_spec:
  assumes "ok c" "0 \<le> sint (cnow c)" "alarm_set after send c e (cnow c) time = (c', e')"
  shows "\<exists>t. ok c' \<and> cnow c' = cnow c \<and> known c' t \<and> al_timer e' = Some t \<and> al_ch e' = al_ch e \<and>
    al_deadline e' = (if time_less time (cnow c) then cnow c else time) \<and>
    armed c' = (armed c)(t \<mapsto> (al_deadline e', send))"
proof -
  obtain t d where t: "after c d send = (c', t)"
    and e': "e' = e\<lparr>al_timer := Some t, al_deadline := cnow c + d\<rparr>"
    and d: "cnow c + d = (if time_less time (cnow c) then cnow c else time)"
      "d = (if time_less time (cnow c) then 0 else time - cnow c)"
    using assms(3)
    by (auto simp: alarm_set_def Let_def AbsTime_Sub_def split: prod.splits if_splits)
  have "0 \<le> sint d" "sint (cnow c) \<le> sint (cnow c + d)"
    using d sint_minus_nonneg [OF assms(2), of time] by (auto simp: time_less_def)
  then show ?thesis using after_ok [OF assms(1) _ _ t] e' d(1) by auto
qed

text \<open>
  \<open>Schedule\<close> leaves the alarm with one pending timer, no later than the time asked for or now; an
  earlier timer of the alarm is cancelled or is that timer, and no other timer changes.
\<close>

lemma Schedule_spec:
  assumes ok: "ok c" and inv: "alarm_inv cnow armed known send c e"
    and res: "alarm_Schedule cnow after stop send c e time = (c', e')"
  shows "ok c' \<and> cnow c' = cnow c \<and> alarm_inv cnow armed known send c' e' \<and> al_ch e' = al_ch e \<and>
    (\<exists>t a. al_timer e' = Some t \<and> armed c' t = Some (a, send) \<and> (time_le a time \<or> a = cnow c) \<and>
       (\<forall>u. u \<noteq> t \<longrightarrow> al_timer e \<noteq> Some u \<longrightarrow> armed c' u = armed c u))"
proof -
  have new: ?thesis
    if c1: "ok c1" "cnow c1 = cnow c" and set: "alarm_set after send c1 e (cnow c1) time = (c', e')"
      and armed1: "\<And>u a. armed c1 u \<noteq> Some (a, send)"
      and other: "\<And>u. al_timer e \<noteq> Some u \<Longrightarrow> armed c1 u = armed c u" for c1
  proof -
    obtain t where t: "ok c'" "cnow c' = cnow c1" "known c' t" "al_timer e' = Some t" "al_ch e' = al_ch e"
      "al_deadline e' = (if time_less time (cnow c1) then cnow c1 else time)"
      "armed c' = (armed c1)(t \<mapsto> (al_deadline e', send))"
      using alarm_set_spec [OF c1(1) _ set] inv c1(2) by (auto simp: alarm_inv_def)
    have "alarm_inv cnow armed known send c' e'"
      using t inv c1(2) armed1 by (auto simp: alarm_inv_def)
    moreover have "time_le (al_deadline e') time \<or> al_deadline e' = cnow c"
      using t(6) c1(2) by (simp add: time_le_def)
    ultimately show ?thesis using t c1(2) other by auto
  qed
  show ?thesis
  proof (cases "al_timer e")
    case None
    then show ?thesis
      using new [of c] ok res inv by (auto simp: alarm_Schedule_def alarm_schedule_def alarm_inv_def)
  next
    case (Some t)
    then have known: "known c t" using inv by (simp add: alarm_inv_def)
    show ?thesis
    proof (cases "time_less (cnow c) (al_deadline e) \<and> time_le (al_deadline e) time")
      case True
      then have "c' = c" "e' = e" using res Some by (simp_all add: alarm_Schedule_def alarm_schedule_def)
      moreover have "armed c t = Some (al_deadline e, send)"
        using inv Some True by (auto simp: alarm_inv_def time_less_def split: option.splits)
      ultimately show ?thesis using ok inv Some True by auto
    next
      case False
      obtain c1 b where s: "stop c t = (c1, b)" by fastforce
      note st = stop_ok [OF ok known s]
      have "armed c1 u \<noteq> Some (a, send)" for u a
        using st inv Some by (auto simp: alarm_inv_def)
      then show ?thesis
        using new [of c1] st s res Some False by (auto simp: alarm_Schedule_def alarm_schedule_def)
    qed
  qed
qed

lemma Stop_spec:
  assumes "ok c" "alarm_inv cnow armed known send c e" "alarm_Stop stop c e = (c', e')"
  shows "ok c' \<and> cnow c' = cnow c \<and> alarm_inv cnow armed known send c' e' \<and> \<not> al_ch e' \<and>
    (\<forall>u a. armed c' u \<noteq> Some (a, send))"
proof (cases "al_timer e")
  case None
  then have "c' = c" "e' = e\<lparr>al_deadline := 0, al_ch := False\<rparr>" using assms(3) by (simp_all add: alarm_Stop_def)
  then show ?thesis using assms(1,2) None by (auto simp: alarm_inv_def)
next
  case (Some t)
  obtain c1 b where s: "stop c t = (c1, b)" by fastforce
  have known: "known c t" using assms(2) Some by (simp add: alarm_inv_def)
  note st = stop_ok [OF assms(1) known s]
  have "c' = c1" "e' = e\<lparr>al_deadline := 0, al_ch := False\<rparr>"
    using assms(3) Some s by (simp_all add: alarm_Stop_def)
  then show ?thesis using assms(2) Some st known by (auto simp: alarm_inv_def)
qed

end

section \<open>Alarms on the simulated clock\<close>

text \<open>The pending timers of the simulated clock whose callback is a function.\<close>

definition sim_armed :: "'f simulated \<Rightarrow> nat \<Rightarrow> (abstime \<times> 'f) option" where
  "sim_armed s t =
     (case pending s t of
        None \<Rightarrow> None
      | Some a \<Rightarrow> (case tm_do (timers s t) of Call fn \<Rightarrow> Some (a, fn) | SendOn _ \<Rightarrow> None))"

definition sim_known :: "'f simulated \<Rightarrow> nat \<Rightarrow> bool" where
  "sim_known s t \<longleftrightarrow> t < allocated s"

lemma sim_armed_iff: "sim_armed s t = Some (a, fn) \<longleftrightarrow> pending s t = Some a \<and> tm_do (timers s t) = Call fn"
  by (auto simp: sim_armed_def split: option.splits action.splits)

interpretation sim_alarm: alarm_clock sim_now AfterFunc timer_Stop sim_armed sim_known sim_reachable
proof
  fix c c' :: "'f simulated" and d :: duration and fn :: 'f and t
  assume r: "sim_reachable c" and "0 \<le> sint d" "sint (sim_now c) \<le> sint (sim_now c + d)" and a: "AfterFunc c d fn = (c', t)"
  note spec = AfterFunc_spec [OF sim_reachable_wf [OF r] a]
  have "sim_reachable c'" using reach_step [OF r step_AfterFunc, of d fn] a by simp
  moreover have "sim_armed c' = (sim_armed c)(t \<mapsto> (sim_now c + d, fn))"
    using spec by (auto simp: sim_armed_def fun_eq_iff split: option.splits)
  ultimately show "sim_reachable c' \<and> sim_now c' = sim_now c \<and> \<not> sim_known c t \<and> sim_known c' t \<and>
      sim_armed c' = (sim_armed c)(t \<mapsto> (sim_now c + d, fn))"
    using spec by (simp add: sim_known_def)
next
  fix c c' :: "'f simulated" and t b
  assume r: "sim_reachable c" and k: "sim_known c t" and a: "timer_Stop c t = (c', b)"
  note spec = timer_Stop_spec [OF sim_reachable_wf [OF r] k [unfolded sim_known_def] a]
  have "sim_reachable c'" using reach_step [OF r step_Stop, of t] k a by (simp add: sim_known_def)
  moreover have "sim_armed c' = (sim_armed c)(t := None)"
    using spec by (auto simp: sim_armed_def fun_eq_iff sim_frame_def split: option.splits)
  ultimately show "sim_reachable c' \<and> sim_now c' = sim_now c \<and> (\<forall>u. sim_known c u \<longrightarrow> sim_known c' u) \<and>
      sim_armed c' = (sim_armed c)(t := None)"
    using spec by (simp add: sim_known_def sim_frame_def)
qed

text \<open>\<open>Run\<close> on a clock and an alarm, whose callback \<open>send\<close> is the alarm's \<open>send\<close>.\<close>

definition alarm_Run :: "'f \<Rightarrow> 'f simulated \<Rightarrow> nat alarm \<Rightarrow> duration \<Rightarrow> 'f simulated \<times> nat alarm" where
  "alarm_Run send s e d =
     (let (s', evs) = run_locked s d
      in (s', fold (\<lambda>t e. if tm_do (timers s t) = Call send then alarm_send e else e) evs e))"

abbreviation sim_alarm_inv :: "'f \<Rightarrow> 'f simulated \<Rightarrow> nat alarm \<Rightarrow> bool" where
  "sim_alarm_inv \<equiv> alarm_inv sim_now sim_armed sim_known"

lemma fold_alarm_send:
  "fold (\<lambda>t e. if Q t then alarm_send e else e) ts e = (if \<exists>t\<in>set ts. Q t then alarm_send e else e)"
  by (induction ts arbitrary: e) (auto simp: alarm_send_def)

lemma alarm_Run_spec:
  assumes "sim_reachable s" "sim_alarm_inv send s e" "sint (sim_now s) \<le> sint (sim_now s + d)"
    "alarm_Run send s e d = (s', e')"
  shows "sim_reachable s'" "sim_alarm_inv send s' e'" "sim_now s' = sim_now s + d"
    "al_ch e' \<longleftrightarrow> al_ch e \<or> (\<exists>t a. sim_armed s t = Some (a, send) \<and> time_le a (sim_now s + d))"
proof -
  obtain evs where r: "run_locked s d = (s', evs)"
    and e': "e' = (if \<exists>t\<in>set evs. tm_do (timers s t) = Call send then alarm_send e else e)"
    using assms(4) by (auto simp: alarm_Run_def fold_alarm_send split: prod.splits)
  note w = run_locked_spec [OF sim_reachable_wf [OF assms(1)] r]
  show "sim_reachable s'" using reach_step [OF assms(1) step_Run, of d] r by simp
  show "sim_now s' = sim_now s + d" by (rule w(2))
  have due: "(\<exists>t\<in>set evs. tm_do (timers s t) = Call send) \<longleftrightarrow>
      (\<exists>t a. sim_armed s t = Some (a, send) \<and> time_le a (sim_now s + d))"
    unfolding w(6) by (auto simp: sim_armed_iff)
  show "al_ch e' \<longleftrightarrow> al_ch e \<or> (\<exists>t a. sim_armed s t = Some (a, send) \<and> time_le a (sim_now s + d))"
    unfolding due [symmetric] by (simp add: e' alarm_send_def)
  obtain evs' where "run_due s (AbsTime_Add (sim_now s) d) = (evs', evs)" "s' = evs'\<lparr>sim_now := AbsTime_Add (sim_now s) d\<rparr>"
    using r by (auto simp: run_locked_def Let_def split: prod.splits)
  then have do: "tm_do (timers s' t) = tm_do (timers s t)" for t
    using run_due_spec [OF sim_reachable_wf [OF assms(1)]] by (auto simp: sim_frame_def)
  have armed: "sim_armed s' t = (case sim_armed s t of None \<Rightarrow> None
      | Some (a, fn) \<Rightarrow> if time_le a (sim_now s + d) then None else Some (a, fn))" for t
    using w(5) do by (auto simp: sim_armed_def split: option.splits action.splits)
  have "al_timer e' = al_timer e" "al_deadline e' = al_deadline e" by (simp_all add: e' alarm_send_def)
  then show "sim_alarm_inv send s' e'"
    using assms(2,3) w(2,3) unfolding alarm_inv_def armed
    by (auto simp: sim_known_def time_le_def split: option.splits if_splits)
qed

lemma alarm_fires_parts:
  assumes "sim_reachable s" "sim_alarm_inv send s e" "sint (sim_now s) \<le> sint (sim_now s + d)"
    "alarm_Schedule sim_now AfterFunc timer_Stop send s e time = (s1, e1)"
  shows "time_le time (sim_now s + d) \<Longrightarrow> al_ch (snd (alarm_Run send s1 e1 d))"
    and "\<exists>t. \<forall>u. (\<exists>a. sim_armed s1 u = Some (a, send)) \<longleftrightarrow> u = t"
    and "\<not> al_ch (snd (alarm_Run send (fst (alarm_Stop timer_Stop s1 e1)) (snd (alarm_Stop timer_Stop s1 e1)) d))"
    and "sim_alarm_inv send (fst (alarm_Run send s1 e1 d)) (snd (alarm_Run send s1 e1 d))"
proof -
  obtain t a where 1: "sim_reachable s1" "sim_now s1 = sim_now s" "sim_alarm_inv send s1 e1"
    "al_timer e1 = Some t" "sim_armed s1 t = Some (a, send)" "time_le a time \<or> a = sim_now s"
    using sim_alarm.Schedule_spec [OF assms(1,2,4)] by blast
  have d: "sint (sim_now s1) \<le> sint (sim_now s1 + d)" using 1(2) assms(3) by simp
  note run = alarm_Run_spec [OF 1(1,3) d prod.collapse [symmetric]]
  show "al_ch (snd (alarm_Run send s1 e1 d))" if "time_le time (sim_now s + d)"
  proof -
    have "time_le a (sim_now s1 + d)" using 1(2,6) that assms(3) by (auto simp: time_le_def)
    then show ?thesis using run(4) 1(5) by blast
  qed
  show "\<exists>t. \<forall>u. (\<exists>a. sim_armed s1 u = Some (a, send)) \<longleftrightarrow> u = t"
    using 1(3,4,5) unfolding alarm_inv_def by (intro exI [of _ t]) auto
  show "sim_alarm_inv send (fst (alarm_Run send s1 e1 d)) (snd (alarm_Run send s1 e1 d))" by (rule run(2))
  obtain s2 e2 where st: "alarm_Stop timer_Stop s1 e1 = (s2, e2)" by fastforce
  then have 2: "sim_reachable s2" "sim_now s2 = sim_now s1" "sim_alarm_inv send s2 e2" "\<not> al_ch e2"
    "\<And>u a. sim_armed s2 u \<noteq> Some (a, send)"
    using sim_alarm.Stop_spec [OF 1(1,3) st] by blast+
  have "sint (sim_now s2) \<le> sint (sim_now s2 + d)" using d 2(2) by simp
  from alarm_Run_spec(4) [OF 2(1,3) this prod.collapse [symmetric]] 2(4,5)
  show "\<not> al_ch (snd (alarm_Run send (fst (alarm_Stop timer_Stop s1 e1)) (snd (alarm_Stop timer_Stop s1 e1)) d))"
    by (simp add: st)
qed

text \<open>
  C7. An alarm scheduled on the simulated clock fires: when the clock is then run to or past the time
  asked for, the alarm's channel has a value. Before that, at most one timer of the alarm is pending,
  and a stopped alarm does not fire, however long the clock is run.
\<close>
theorem alarm_fires:
  assumes "sim_reachable s" "sim_alarm_inv send s e" "sint (sim_now s) \<le> sint (sim_now s + d)"
    "alarm_Schedule sim_now AfterFunc timer_Stop send s e time = (s1, e1)"
  shows "(time_le time (sim_now s + d) \<longrightarrow> al_ch (snd (alarm_Run send s1 e1 d))) \<and>
    (\<exists>t. \<forall>u. (\<exists>a. sim_armed s1 u = Some (a, send)) \<longleftrightarrow> u = t) \<and>
    (\<not> al_ch (snd (alarm_Run send (fst (alarm_Stop timer_Stop s1 e1)) (snd (alarm_Stop timer_Stop s1 e1)) d))) \<and>
    (sim_alarm_inv send (fst (alarm_Run send s1 e1 d)) (snd (alarm_Run send s1 e1 d)))"
  by (rule conjI, rule impI, rule alarm_fires_parts(1) [OF assms], assumption,
      rule conjI, rule alarm_fires_parts(2) [OF assms],
      rule conjI, rule alarm_fires_parts(3) [OF assms],
      rule alarm_fires_parts(4) [OF assms])

lemma NewAlarm_inv: "sim_alarm_inv send sim_init NewAlarm"
  by (simp add: alarm_inv_def NewAlarm_def sim_armed_def pending_def sim_init_def)

theorem alarm_fires_witness:
  "al_ch (snd (alarm_Run () (fst (alarm_Schedule sim_now AfterFunc timer_Stop () sim_init NewAlarm 5))
      (snd (alarm_Schedule sim_now AfterFunc timer_Stop () sim_init NewAlarm 5)) 7))"
  by (rule alarm_fires [THEN conjunct1, rule_format, OF reach_init NewAlarm_inv _ prod.collapse [symmetric]])
     (simp_all add: sim_init_def time_le_def)

end
