(* ===== verification/System_Clock.thy ===== *)
theory System_Clock
  imports Alarm
begin

text \<open>
  \<open>src/common/mclock/mclock.go\<close>: the clock \<open>System\<close>, and what it uses of Go's package \<open>time\<close> and of
  \<open>runtime.nanotime\<close>. The runtime holds the timers that are armed; when one is due, the runtime may
  start its function in a goroutine of its own, which runs at some later moment. Goroutines, and the
  passing of time, are steps that interleave with the calls of the program. A channel with a buffer
  of one element is the value in its buffer.
\<close>

section \<open>The timers of the runtime\<close>

text \<open>
  The functions given to \<open>time.AfterFunc\<close>: the closure of \<open>NewTimer\<close>, a send of the current time
  that is dropped when the channel is full; the closure of \<open>After\<close>, a send that waits; and the
  function of the caller of \<open>AfterFunc\<close>.
\<close>

datatype 'f sys_func = TrySendNow nat | SendNow nat | UserFunc 'f

record 'f goTimer =
  gt_when :: abstime
  gt_func :: "'f sys_func"

record 'f system =
  sys_now :: abstime
  sys_timers :: "nat \<Rightarrow> 'f goTimer"
  sys_next :: nat
  sys_active :: "nat list"
  sys_spawned :: "nat list"
  sys_chans :: "nat \<Rightarrow> abstime option"
  sys_made :: nat
  sys_called :: "'f list"

text \<open>\<open>when\<close> of package \<open>time\<close>: the moment a duration from now, at most the largest one.\<close>

definition time_when :: "'f system \<Rightarrow> duration \<Rightarrow> abstime" where
  "time_when s d =
     (if sint d \<le> 0 then sys_now s
      else (let t = sys_now s + d in if sint t < 0 then 0x7FFFFFFFFFFFFFFF else t))"

definition time_AfterFunc :: "'f system \<Rightarrow> duration \<Rightarrow> 'f sys_func \<Rightarrow> 'f system \<times> nat" where
  "time_AfterFunc s d f =
     (let t = sys_next s
      in (s\<lparr>sys_next := Suc t, sys_timers := (sys_timers s)(t := \<lparr>gt_when = time_when s d, gt_func = f\<rparr>),
            sys_active := sys_active s @ [t]\<rparr>, t))"

text \<open>\<open>Stop\<close> and \<open>Reset\<close> of a \<open>*time.Timer\<close>; both return whether the timer was armed.\<close>

definition time_Stop :: "'f system \<Rightarrow> nat \<Rightarrow> 'f system \<times> bool" where
  "time_Stop s t = (s\<lparr>sys_active := remove1 t (sys_active s)\<rparr>, t \<in> set (sys_active s))"

definition time_Reset :: "'f system \<Rightarrow> nat \<Rightarrow> duration \<Rightarrow> 'f system \<times> bool" where
  "time_Reset s t d =
     (s\<lparr>sys_timers := (sys_timers s)(t := (sys_timers s t)\<lparr>gt_when := time_when s d\<rparr>),
        sys_active := remove1 t (sys_active s) @ [t]\<rparr>, t \<in> set (sys_active s))"

definition make_chan :: "'f system \<Rightarrow> 'f system \<times> nat" where
  "make_chan s =
     (s\<lparr>sys_made := Suc (sys_made s), sys_chans := (sys_chans s)(sys_made s := None)\<rparr>, sys_made s)"

section \<open>The methods of System\<close>

definition nanotime :: "'f system \<Rightarrow> 64 word" where
  "nanotime s = sys_now s"

definition mclock_Now :: "'f system \<Rightarrow> abstime" where
  "mclock_Now s = nanotime s"

definition System_Now :: "'f system \<Rightarrow> abstime" where
  "System_Now s = mclock_Now s"

text \<open>\<open>Sleep\<close> called in the state \<open>s0\<close> may return in the state \<open>s\<close>.\<close>

definition System_Sleep_returns :: "'f system \<Rightarrow> duration \<Rightarrow> 'f system \<Rightarrow> bool" where
  "System_Sleep_returns s0 d s \<longleftrightarrow> sint d \<le> 0 \<or> time_le (time_when s0 d) (sys_now s)"

record systemTimer =
  st_Timer :: nat
  st_ch :: nat

definition System_NewTimer :: "'f system \<Rightarrow> duration \<Rightarrow> 'f system \<times> systemTimer" where
  "System_NewTimer s d =
     (let (s, ch) = make_chan s;
          (s, t) = time_AfterFunc s d (TrySendNow ch)
      in (s, \<lparr>st_Timer = t, st_ch = ch\<rparr>))"

definition System_After :: "'f system \<Rightarrow> duration \<Rightarrow> 'f system \<times> nat" where
  "System_After s d =
     (let (s, ch) = make_chan s;
          (s, _) = time_AfterFunc s d (SendNow ch)
      in (s, ch))"

definition System_AfterFunc :: "'f system \<Rightarrow> duration \<Rightarrow> 'f \<Rightarrow> 'f system \<times> nat" where
  "System_AfterFunc s d f = time_AfterFunc s d (UserFunc f)"

definition systemTimer_Reset :: "'f system \<Rightarrow> systemTimer \<Rightarrow> duration \<Rightarrow> 'f system" where
  "systemTimer_Reset s st d = fst (time_Reset s (st_Timer st) d)"

definition systemTimer_C :: "systemTimer \<Rightarrow> nat" where
  "systemTimer_C st = st_ch st"

text \<open>
  The body of a timer's function. A send on a full channel waits: \<open>None\<close>. That the user's function
  was called is recorded; what it does is further calls.
\<close>

definition sys_body :: "'f system \<Rightarrow> 'f sys_func \<Rightarrow> 'f system option" where
  "sys_body s f =
     (case f of
        TrySendNow ch \<Rightarrow>
          (case sys_chans s ch of
             None \<Rightarrow> Some (s\<lparr>sys_chans := (sys_chans s)(ch \<mapsto> System_Now s)\<rparr>)
           | Some _ \<Rightarrow> Some s)
      | SendNow ch \<Rightarrow>
          (case sys_chans s ch of
             None \<Rightarrow> Some (s\<lparr>sys_chans := (sys_chans s)(ch \<mapsto> System_Now s)\<rparr>)
           | Some _ \<Rightarrow> None)
      | UserFunc g \<Rightarrow> Some (s\<lparr>sys_called := sys_called s @ [g]\<rparr>))"

section \<open>Time, the runtime and the goroutines\<close>

definition sys_tick :: "'f system \<Rightarrow> abstime \<Rightarrow> 'f system" where
  "sys_tick s now = s\<lparr>sys_now := now\<rparr>"

definition sys_due :: "'f system \<Rightarrow> nat \<Rightarrow> bool" where
  "sys_due s t \<longleftrightarrow> time_le (gt_when (sys_timers s t)) (sys_now s)"

definition sys_fire :: "'f system \<Rightarrow> nat \<Rightarrow> 'f system" where
  "sys_fire s t = s\<lparr>sys_active := remove1 t (sys_active s), sys_spawned := sys_spawned s @ [t]\<rparr>"

definition sys_goroutine :: "'f system \<Rightarrow> nat \<Rightarrow> 'f system option" where
  "sys_goroutine s t =
     sys_body (s\<lparr>sys_spawned := remove1 t (sys_spawned s)\<rparr>) (gt_func (sys_timers s t))"

definition sys_recv :: "'f system \<Rightarrow> nat \<Rightarrow> ('f system \<times> abstime) option" where
  "sys_recv s ch =
     (case sys_chans s ch of None \<Rightarrow> None | Some v \<Rightarrow> Some (s\<lparr>sys_chans := (sys_chans s)(ch := None)\<rparr>, v))"

text \<open>
  What the comment of \<open>Reset\<close> asks of its caller: the timer is stopped or has expired and its function
  is done, and its channel is drained.
\<close>

definition Reset_allowed :: "'f system \<Rightarrow> systemTimer \<Rightarrow> bool" where
  "Reset_allowed s st \<longleftrightarrow>
     st_Timer st < sys_next s \<and> gt_func (sys_timers s (st_Timer st)) = TrySendNow (st_ch st) \<and>
     st_Timer st \<notin> set (sys_active s) \<and> st_Timer st \<notin> set (sys_spawned s) \<and> sys_chans s (st_ch st) = None"

inductive sys_step :: "'f system \<Rightarrow> 'f system \<Rightarrow> bool" where
  sys_tick: "time_le (sys_now s) now \<Longrightarrow> sys_step s (sys_tick s now)"
| sys_fire: "t \<in> set (sys_active s) \<Longrightarrow> sys_due s t \<Longrightarrow> sys_step s (sys_fire s t)"
| sys_goroutine: "t \<in> set (sys_spawned s) \<Longrightarrow> sys_goroutine s t = Some s' \<Longrightarrow> sys_step s s'"
| sys_NewTimer: "sys_step s (fst (System_NewTimer s d))"
| sys_After: "sys_step s (fst (System_After s d))"
| sys_AfterFunc: "sys_step s (fst (System_AfterFunc s d f))"
| sys_Stop: "t < sys_next s \<Longrightarrow> sys_step s (fst (time_Stop s t))"
| sys_Reset: "Reset_allowed s st \<Longrightarrow> sys_step s (systemTimer_Reset s st d)"
| sys_recv: "sys_recv s ch = Some (s', v) \<Longrightarrow> sys_step s s'"

definition sys_init :: "'f system" where
  "sys_init = \<lparr>sys_now = 0, sys_timers = (\<lambda>_. \<lparr>gt_when = 0, gt_func = SendNow 0\<rparr>), sys_next = 0, sys_active = [],
     sys_spawned = [], sys_chans = (\<lambda>_. None), sys_made = 0, sys_called = []\<rparr>"

inductive sys_reachable :: "'f system \<Rightarrow> bool" where
  sys_reach_init: "sys_reachable sys_init"
| sys_reach_step: "sys_reachable s \<Longrightarrow> sys_step s s' \<Longrightarrow> sys_reachable s'"

section \<open>The invariant\<close>

fun chan_of :: "'f sys_func \<Rightarrow> nat option" where
  "chan_of (TrySendNow c) = Some c"
| "chan_of (SendNow c) = Some c"
| "chan_of (UserFunc _) = None"

abbreviation sys_chan_of :: "'f system \<Rightarrow> nat \<Rightarrow> nat option" where
  "sys_chan_of s t \<equiv> chan_of (gt_func (sys_timers s t))"

text \<open>
  The timers that exist; each has a channel of its own, if it has one. A started function was due. A
  value in a channel is a time between the moment the timer was set to and now. The timer of \<open>After\<close>
  is armed, or started, or has sent, and only one of these, so that its send never waits.
\<close>

definition sys_timers_ok :: "'f system \<Rightarrow> bool" where
  "sys_timers_ok s \<longleftrightarrow>
     0 \<le> sint (sys_now s) \<and> distinct (sys_active s) \<and>
     (\<forall>t\<in>set (sys_active s) \<union> set (sys_spawned s). t < sys_next s) \<and>
     (\<forall>t < sys_next s. \<forall>c. sys_chan_of s t = Some c \<longrightarrow> c < sys_made s) \<and>
     (\<forall>t < sys_next s. \<forall>u < sys_next s. \<forall>c. sys_chan_of s t = Some c \<longrightarrow> sys_chan_of s u = Some c \<longrightarrow> t = u)"

definition sys_times_ok :: "'f system \<Rightarrow> bool" where
  "sys_times_ok s \<longleftrightarrow>
     (\<forall>t\<in>set (sys_spawned s). sys_due s t) \<and>
     (\<forall>t < sys_next s. \<forall>c v. sys_chan_of s t = Some c \<longrightarrow> sys_chans s c = Some v \<longrightarrow>
        time_le (gt_when (sys_timers s t)) v \<and> time_le v (sys_now s))"

definition sys_sends :: "'f system \<Rightarrow> nat \<Rightarrow> nat \<Rightarrow> nat" where
  "sys_sends s t c =
     of_bool (t \<in> set (sys_active s)) + count_list (sys_spawned s) t + of_bool (sys_chans s c \<noteq> None)"

definition sys_once_ok :: "'f system \<Rightarrow> bool" where
  "sys_once_ok s \<longleftrightarrow> (\<forall>t < sys_next s. \<forall>c. gt_func (sys_timers s t) = SendNow c \<longrightarrow> sys_sends s t c \<le> 1)"

definition sys_inv :: "'f system \<Rightarrow> bool" where
  "sys_inv s \<longleftrightarrow> sys_timers_ok s \<and> sys_times_ok s \<and> sys_once_ok s"

lemmas sys_inv_defs = sys_inv_def sys_timers_ok_def sys_times_ok_def sys_once_ok_def sys_sends_def

lemma sys_inv_init: "sys_inv sys_init"
  by (simp add: sys_inv_defs sys_init_def)

text \<open>A timer is never set to the past.\<close>

lemma sint_plus_cases:
  assumes "0 \<le> sint (a :: abstime)" "0 \<le> sint d"
  shows "if sint a + sint d < 2 ^ 63 then sint (a + d) = sint a + sint d else sint (a + d) < 0"
proof (cases "sint a + sint d < 2 ^ 63")
  case True
  then show ?thesis using assms by (simp add: sint_word_ariths signed_take_bit_int_eq_self)
next
  case False
  have "sint a < 2 ^ 63" "sint d < 2 ^ 63" using sint_lt [of a] sint_lt [of d] by simp_all
  then have "(sint a + sint d + 2 ^ 63) mod 2 ^ 64 = sint a + sint d - 2 ^ 63"
    using False mod_add_self2 [of "sint a + sint d - 2 ^ 63" "2 ^ 64 :: int"]
    by (simp add: algebra_simps)
  then show ?thesis
    using False \<open>sint a < 2 ^ 63\<close> \<open>sint d < 2 ^ 63\<close>
    by (simp add: sint_word_ariths signed_take_bit_eq_take_bit_shift take_bit_eq_mod)
qed

lemma time_when_ge:
  assumes "0 \<le> sint (sys_now s)"
  shows "time_le (sys_now s) (time_when s d)"
proof (cases "sint d \<le> 0 \<or> sint (sys_now s + d) < 0")
  case True
  then show ?thesis using sint_lt [of "sys_now s"] by (auto simp: time_when_def time_le_def Let_def)
next
  case False
  then have "sint (sys_now s + d) = sint (sys_now s) + sint d"
    using sint_plus_cases [OF assms, of d] by (auto split: if_splits)
  then show ?thesis using False by (simp add: time_when_def time_le_def)
qed

lemma time_when_exact:
  assumes "0 \<le> sint d" "sint (sys_now s) \<le> sint (sys_now s + d)" "0 \<le> sint (sys_now s)"
  shows "time_when s d = sys_now s + d"
proof (cases "d = 0")
  case False
  then have "0 < sint d" using assms(1) by (metis order_le_less signed_eq_0_iff)
  then show ?thesis using assms by (simp add: time_when_def Let_def)
qed (simp add: time_when_def)

lemma time_when_cong: "sys_now s' = sys_now s \<Longrightarrow> time_when s' d = time_when s d"
  by (simp add: time_when_def)

text \<open>The invariant, in the form in which the proofs use it.\<close>

lemma sys_invD:
  assumes "sys_inv s"
  shows "0 \<le> sint (sys_now s)" "distinct (sys_active s)"
    "t \<in> set (sys_active s) \<Longrightarrow> t < sys_next s" "t \<in> set (sys_spawned s) \<Longrightarrow> t < sys_next s"
    "t < sys_next s \<Longrightarrow> sys_chan_of s t = Some c \<Longrightarrow> c < sys_made s"
    "t < sys_next s \<Longrightarrow> u < sys_next s \<Longrightarrow> sys_chan_of s t = Some c \<Longrightarrow> sys_chan_of s u = Some c \<Longrightarrow> t = u"
    "t \<in> set (sys_spawned s) \<Longrightarrow> sys_due s t"
    "t < sys_next s \<Longrightarrow> sys_chan_of s t = Some c \<Longrightarrow> sys_chans s c = Some v \<Longrightarrow>
       time_le (gt_when (sys_timers s t)) v \<and> time_le v (sys_now s)"
    "t < sys_next s \<Longrightarrow> gt_func (sys_timers s t) = SendNow c \<Longrightarrow> sys_sends s t c \<le> 1"
  using assms unfolding sys_inv_def sys_timers_ok_def sys_times_ok_def sys_once_ok_def by blast+

lemma sys_invI:
  assumes "0 \<le> sint (sys_now s)" "distinct (sys_active s)"
    "\<And>t. t \<in> set (sys_active s) \<or> t \<in> set (sys_spawned s) \<Longrightarrow> t < sys_next s"
    "\<And>t c. t < sys_next s \<Longrightarrow> sys_chan_of s t = Some c \<Longrightarrow> c < sys_made s"
    "\<And>t u c. t < sys_next s \<Longrightarrow> u < sys_next s \<Longrightarrow> sys_chan_of s t = Some c \<Longrightarrow> sys_chan_of s u = Some c \<Longrightarrow> t = u"
    "\<And>t. t \<in> set (sys_spawned s) \<Longrightarrow> sys_due s t"
    "\<And>t c v. t < sys_next s \<Longrightarrow> sys_chan_of s t = Some c \<Longrightarrow> sys_chans s c = Some v \<Longrightarrow>
       time_le (gt_when (sys_timers s t)) v \<and> time_le v (sys_now s)"
    "\<And>t c. t < sys_next s \<Longrightarrow> gt_func (sys_timers s t) = SendNow c \<Longrightarrow> sys_sends s t c \<le> 1"
  shows "sys_inv s"
  using assms unfolding sys_inv_def sys_timers_ok_def sys_times_ok_def sys_once_ok_def by blast

text \<open>The operations preserve the invariant.\<close>

lemma sys_inv_tick:
  assumes "sys_inv s" "time_le (sys_now s) now"
  shows "sys_inv (sys_tick s now)"
proof (rule sys_invI)
  show "time_le (gt_when (sys_timers (sys_tick s now) t)) v \<and> time_le v (sys_now (sys_tick s now))"
    if "t < sys_next (sys_tick s now)" "sys_chan_of (sys_tick s now) t = Some c" "sys_chans (sys_tick s now) c = Some v" for t c v
    using sys_invD(8) [OF assms(1), of t c v] that assms(2) by (auto simp: sys_tick_def time_le_def)
  show "sys_due (sys_tick s now) t" if "t \<in> set (sys_spawned (sys_tick s now))" for t
    using sys_invD(7) [OF assms(1), of t] that assms(2) by (simp add: sys_tick_def sys_due_def time_le_def)
  show "sys_sends (sys_tick s now) t c \<le> 1"
    if "t < sys_next (sys_tick s now)" "gt_func (sys_timers (sys_tick s now) t) = SendNow c" for t c
    using sys_invD(9) [OF assms(1), of t c] that by (simp add: sys_tick_def sys_sends_def)
qed (use sys_invD [OF assms(1)] assms(2) in \<open>auto simp: sys_tick_def time_le_def\<close>)

lemma sys_inv_fire:
  assumes "sys_inv s" "t \<in> set (sys_active s)" "sys_due s t"
  shows "sys_inv (sys_fire s t)"
proof (rule sys_invI)
  show "sys_sends (sys_fire s t) u c \<le> 1"
    if "u < sys_next (sys_fire s t)" "gt_func (sys_timers (sys_fire s t) u) = SendNow c" for u c
    using sys_invD(9) [OF assms(1), of u c] that sys_invD(2) [OF assms(1)] assms(2)
    by (auto simp: sys_fire_def sys_sends_def split: if_splits)
  show "sys_due (sys_fire s t) u" if "u \<in> set (sys_spawned (sys_fire s t))" for u
    using sys_invD(7) [OF assms(1), of u] that assms(3) by (auto simp: sys_fire_def sys_due_def)
  show "u < sys_next (sys_fire s t)" if "u \<in> set (sys_active (sys_fire s t)) \<or> u \<in> set (sys_spawned (sys_fire s t))" for u
    using sys_invD(3,4) [OF assms(1)] that assms(2) by (auto simp: sys_fire_def dest: notin_set_remove1)
qed (use sys_invD(1,2,5,6,8) [OF assms(1)] in \<open>auto simp: sys_fire_def\<close>)

lemma sys_inv_make_chan:
  assumes "sys_inv s"
  shows "sys_inv (fst (make_chan s))"
proof (rule sys_invI)
  show "sys_sends (fst (make_chan s)) t c \<le> 1"
    if "t < sys_next (fst (make_chan s))" "gt_func (sys_timers (fst (make_chan s)) t) = SendNow c" for t c
    using sys_invD(9) [OF assms(1), of t c] that by (simp add: make_chan_def sys_sends_def)
  show "sys_due (fst (make_chan s)) t" if "t \<in> set (sys_spawned (fst (make_chan s)))" for t
    using sys_invD(7) [OF assms(1), of t] that by (simp add: make_chan_def sys_due_def)
  show "c < sys_made (fst (make_chan s))"
    if "t < sys_next (fst (make_chan s))" "sys_chan_of (fst (make_chan s)) t = Some c" for t c
    using sys_invD(5) [OF assms(1), of t c] that by (simp add: make_chan_def)
qed (use sys_invD(1,2,3,4,6,8) [OF assms(1)] in \<open>auto simp: make_chan_def split: if_splits\<close>)

lemma sys_inv_AfterFunc:
  assumes "sys_inv s"
    "\<And>c. chan_of f = Some c \<Longrightarrow> c < sys_made s \<and> sys_chans s c = None \<and> (\<forall>t < sys_next s. sys_chan_of s t \<noteq> Some c)"
  shows "sys_inv (fst (time_AfterFunc s d f))" (is "sys_inv ?s")
proof (rule sys_invI)
  have new: "sys_next s \<notin> set (sys_active s)" "sys_next s \<notin> set (sys_spawned s)"
    using sys_invD(3,4) [OF assms(1)] by blast+
  show "distinct (sys_active ?s)" using sys_invD(2) [OF assms(1)] new by (simp add: time_AfterFunc_def Let_def)
  show "sys_sends ?s t c \<le> 1" if "t < sys_next ?s" "gt_func (sys_timers ?s t) = SendNow c" for t c
    using sys_invD(9) [OF assms(1), of t c] that new assms(2) [of c]
    by (cases "t = sys_next s") (simp_all add: time_AfterFunc_def Let_def sys_sends_def)
  show "sys_due ?s t" if "t \<in> set (sys_spawned ?s)" for t
    using sys_invD(7) [OF assms(1), of t] that new by (auto simp: time_AfterFunc_def Let_def sys_due_def)
  show "t < sys_next ?s" if "t \<in> set (sys_active ?s) \<or> t \<in> set (sys_spawned ?s)" for t
    using sys_invD(3,4) [OF assms(1), of t] that by (auto simp: time_AfterFunc_def Let_def)
  show "c < sys_made ?s" if "t < sys_next ?s" "sys_chan_of ?s t = Some c" for t c
    using sys_invD(5) [OF assms(1), of t c] that assms(2) [of c]
    by (cases "t = sys_next s") (simp_all add: time_AfterFunc_def Let_def)
  show "t = u"
    if "t < sys_next ?s" "u < sys_next ?s" "sys_chan_of ?s t = Some c" "sys_chan_of ?s u = Some c" for t u c
    using sys_invD(6) [OF assms(1), of t u c] that assms(2) [of c]
    by (cases "t = sys_next s"; cases "u = sys_next s") (simp_all add: time_AfterFunc_def Let_def)
  show "time_le (gt_when (sys_timers ?s t)) v \<and> time_le v (sys_now ?s)"
    if "t < sys_next ?s" "sys_chan_of ?s t = Some c" "sys_chans ?s c = Some v" for t c v
    using sys_invD(8) [OF assms(1), of t c v] that assms(2) [of c]
    by (cases "t = sys_next s") (simp_all add: time_AfterFunc_def Let_def)
qed (use sys_invD(1) [OF assms(1)] in \<open>simp add: time_AfterFunc_def Let_def\<close>)

lemma sys_inv_Stop:
  assumes "sys_inv s"
  shows "sys_inv (fst (time_Stop s t))" (is "sys_inv ?s")
proof (rule sys_invI)
  show "sys_sends ?s u c \<le> 1" if "u < sys_next ?s" "gt_func (sys_timers ?s u) = SendNow c" for u c
    using sys_invD(9) [OF assms(1), of u c] that sys_invD(2) [OF assms(1)]
    by (auto simp: time_Stop_def sys_sends_def split: if_splits)
  show "sys_due ?s u" if "u \<in> set (sys_spawned ?s)" for u
    using sys_invD(7) [OF assms(1), of u] that by (simp add: time_Stop_def sys_due_def)
  show "u < sys_next ?s" if "u \<in> set (sys_active ?s) \<or> u \<in> set (sys_spawned ?s)" for u
    using sys_invD(3,4) [OF assms(1), of u] that by (auto simp: time_Stop_def dest: notin_set_remove1)
qed (use sys_invD(1,2,5,6,8) [OF assms(1)] in \<open>auto simp: time_Stop_def\<close>)

lemma sys_inv_fresh:
  assumes "sys_inv s" "\<And>c. chan_of f = Some c \<Longrightarrow> c = sys_made s"
  shows "sys_inv (fst (time_AfterFunc (fst (make_chan s)) d f))"
proof (rule sys_inv_AfterFunc [OF sys_inv_make_chan [OF assms(1)]])
  fix c
  assume "chan_of f = Some c"
  then have "c = sys_made s" by (rule assms(2))
  then show "c < sys_made (fst (make_chan s)) \<and> sys_chans (fst (make_chan s)) c = None \<and>
      (\<forall>t < sys_next (fst (make_chan s)). sys_chan_of (fst (make_chan s)) t \<noteq> Some c)"
    using sys_invD(5) [OF assms(1)] by (fastforce simp: make_chan_def)
qed

lemma sys_methods_simps:
  "fst (System_NewTimer s d) = fst (time_AfterFunc (fst (make_chan s)) d (TrySendNow (sys_made s)))"
  "snd (System_NewTimer s d) = \<lparr>st_Timer = sys_next s, st_ch = sys_made s\<rparr>"
  "fst (System_After s d) = fst (time_AfterFunc (fst (make_chan s)) d (SendNow (sys_made s)))"
  "snd (System_After s d) = sys_made s"
  by (simp_all add: System_NewTimer_def System_After_def make_chan_def time_AfterFunc_def Let_def)

lemma sys_inv_Reset:
  assumes "sys_inv s" "Reset_allowed s st"
  shows "sys_inv (systemTimer_Reset s st d)" (is "sys_inv ?s")
proof (rule sys_invI)
  note r = assms(2) [unfolded Reset_allowed_def]
  note def = systemTimer_Reset_def time_Reset_def
  show "sys_sends ?s u c \<le> 1" if "u < sys_next ?s" "gt_func (sys_timers ?s u) = SendNow c" for u c
    using sys_invD(9) [OF assms(1), of u c] that r by (auto simp: def sys_sends_def remove1_idem split: if_splits)
  show "sys_due ?s u" if "u \<in> set (sys_spawned ?s)" for u
    using sys_invD(7) [OF assms(1), of u] that r by (auto simp: def sys_due_def)
  show "u < sys_next ?s" if "u \<in> set (sys_active ?s) \<or> u \<in> set (sys_spawned ?s)" for u
    using sys_invD(3,4) [OF assms(1), of u] that r by (auto simp: def dest: notin_set_remove1)
  show "time_le (gt_when (sys_timers ?s t)) v \<and> time_le v (sys_now ?s)"
    if "t < sys_next ?s" "sys_chan_of ?s t = Some c" "sys_chans ?s c = Some v" for t c v
    using sys_invD(8) [OF assms(1), of t c v] that r by (auto simp: def split: if_splits)
  show "c < sys_made ?s" if "t < sys_next ?s" "sys_chan_of ?s t = Some c" for t c
    using sys_invD(5) [OF assms(1), of t c] that by (auto simp: def split: if_splits)
  show "t = u"
    if "t < sys_next ?s" "u < sys_next ?s" "sys_chan_of ?s t = Some c" "sys_chan_of ?s u = Some c" for t u c
    using sys_invD(6) [OF assms(1), of t u c] that by (auto simp: def split: if_splits)
  show "distinct (sys_active ?s)" using sys_invD(2) [OF assms(1)] r by (simp add: def remove1_idem)
qed (use sys_invD(1) [OF assms(1)] in \<open>simp add: systemTimer_Reset_def time_Reset_def\<close>)

text \<open>A change of one channel, when what it now holds was due and no more sends of it are to come.\<close>

lemma sys_inv_chan:
  assumes "sys_inv s"
    "\<And>t v. x = Some v \<Longrightarrow> t < sys_next s \<Longrightarrow> sys_chan_of s t = Some c \<Longrightarrow>
       time_le (gt_when (sys_timers s t)) v \<and> time_le v (sys_now s)"
    "\<And>t. x \<noteq> None \<Longrightarrow> t < sys_next s \<Longrightarrow> gt_func (sys_timers s t) = SendNow c \<Longrightarrow>
       t \<notin> set (sys_active s) \<and> t \<notin> set (sys_spawned s)"
  shows "sys_inv (s\<lparr>sys_chans := (sys_chans s)(c := x)\<rparr>)" (is "sys_inv ?s")
proof (rule sys_invI)
  show "sys_sends ?s t c' \<le> 1" if "t < sys_next ?s" "gt_func (sys_timers ?s t) = SendNow c'" for t c'
    using sys_invD(9) [OF assms(1), of t c'] that assms(3) [of t] by (auto simp: sys_sends_def)
  show "sys_due ?s t" if "t \<in> set (sys_spawned ?s)" for t
    using sys_invD(7) [OF assms(1), of t] that by (simp add: sys_due_def)
  show "time_le (gt_when (sys_timers ?s t)) v \<and> time_le v (sys_now ?s)"
    if "t < sys_next ?s" "sys_chan_of ?s t = Some c'" "sys_chans ?s c' = Some v" for t c' v
    using sys_invD(8) [OF assms(1), of t c' v] that assms(2) [of v t] by (auto split: if_splits)
qed (use sys_invD(1-6) [OF assms(1)] in auto)

lemma sys_inv_recv:
  assumes "sys_inv s" "sys_recv s ch = Some (s', v)"
  shows "sys_inv s'"
proof -
  have "s' = s\<lparr>sys_chans := (sys_chans s)(ch := None)\<rparr>"
    using assms(2) by (simp add: sys_recv_def split: option.splits)
  then show ?thesis using sys_inv_chan [OF assms(1), of None ch] by simp
qed

text \<open>A goroutine that leaves the list of those started.\<close>

lemma sys_inv_unspawn:
  assumes "sys_inv s"
  shows "sys_inv (s\<lparr>sys_spawned := remove1 t (sys_spawned s)\<rparr>)" (is "sys_inv ?s")
proof (rule sys_invI)
  show "sys_sends ?s u c \<le> 1" if "u < sys_next ?s" "gt_func (sys_timers ?s u) = SendNow c" for u c
    using sys_invD(9) [OF assms(1), of u c] that
    by (auto simp: sys_sends_def count_list_remove1)
  show "sys_due ?s u" if "u \<in> set (sys_spawned ?s)" for u
    using sys_invD(7) [OF assms(1), of u] that by (auto simp: sys_due_def dest: notin_set_remove1)
  show "u < sys_next ?s" if "u \<in> set (sys_active ?s) \<or> u \<in> set (sys_spawned ?s)" for u
    using sys_invD(3,4) [OF assms(1), of u] that by (auto dest: notin_set_remove1)
qed (use sys_invD(1,2,5,6,8) [OF assms(1)] in auto)

lemma sys_goroutine_SendNow:
  assumes "sys_inv s" "t \<in> set (sys_spawned s)" "gt_func (sys_timers s t) = SendNow c"
  shows "sys_chans s c = None" "t \<notin> set (sys_active s)" "t \<notin> set (remove1 t (sys_spawned s))"
proof -
  have "sys_sends s t c \<le> 1" using sys_invD(9) [OF assms(1) sys_invD(4) [OF assms(1,2)] assms(3)] .
  moreover have "0 < count_list (sys_spawned s) t" using assms(2) by (metis count_list_0_iff gr0I)
  ultimately have "sys_chans s c = None \<and> t \<notin> set (sys_active s) \<and> count_list (sys_spawned s) t = 1"
    by (auto simp: sys_sends_def of_bool_def split: if_splits)
  then show "sys_chans s c = None" "t \<notin> set (sys_active s)" "t \<notin> set (remove1 t (sys_spawned s))"
    by (simp_all flip: count_list_0_iff)
qed

lemma sys_inv_goroutine:
  assumes "sys_inv s" "t \<in> set (sys_spawned s)" "sys_goroutine s t = Some s'"
  shows "sys_inv s'"
proof -
  let ?s = "s\<lparr>sys_spawned := remove1 t (sys_spawned s)\<rparr>"
  have inv: "sys_inv ?s" by (rule sys_inv_unspawn [OF assms(1)])
  have t: "t < sys_next s" "sys_due s t" using sys_invD(4,7) [OF assms(1)] assms(2) by blast+
  have owner: "u = t" if "u < sys_next s" "sys_chan_of s t = Some c" "sys_chan_of s u = Some c" for u c
    using sys_invD(6) [OF assms(1) that(1) t(1) that(3,2)] .
  have now: "System_Now x = sys_now x" for x :: "'a system"
    by (simp add: System_Now_def mclock_Now_def nanotime_def)
  have sent: "sys_inv (?s\<lparr>sys_chans := (sys_chans ?s)(c := Some (sys_now s))\<rparr>)"
    if "sys_chan_of s t = Some c"
      and "gt_func (sys_timers s t) = SendNow c \<Longrightarrow> t \<notin> set (sys_active s) \<and> t \<notin> set (remove1 t (sys_spawned s))" for c
  proof (rule sys_inv_chan [OF inv])
    show "time_le (gt_when (sys_timers ?s u)) v \<and> time_le v (sys_now ?s)"
      if "Some (sys_now s) = Some v" "u < sys_next ?s" "sys_chan_of ?s u = Some c" for u v
      using that owner [of u c] \<open>sys_chan_of s t = Some c\<close> t(2) by (simp add: sys_due_def) (simp add: time_le_def)
    show "u \<notin> set (sys_active ?s) \<and> u \<notin> set (sys_spawned ?s)"
      if "u < sys_next ?s" "gt_func (sys_timers ?s u) = SendNow c" for u
    proof -
      have "u = t" using that owner [of u c] \<open>sys_chan_of s t = Some c\<close> by simp
      then show ?thesis using that \<open>gt_func (sys_timers s t) = SendNow c \<Longrightarrow> _\<close> by simp
    qed
  qed
  show ?thesis
  proof (cases "gt_func (sys_timers s t)")
    case (TrySendNow c)
    have "s' = ?s \<or> s' = ?s\<lparr>sys_chans := (sys_chans ?s)(c := Some (sys_now s))\<rparr>"
      using assms(3) TrySendNow by (auto simp: sys_goroutine_def sys_body_def now split: option.splits)
    then show ?thesis using inv sent [of c] TrySendNow by auto
  next
    case (SendNow c)
    have "s' = ?s\<lparr>sys_chans := (sys_chans ?s)(c := Some (sys_now s))\<rparr>"
      using assms(3) SendNow by (auto simp: sys_goroutine_def sys_body_def now split: option.splits)
    then show ?thesis using sent [of c] SendNow sys_goroutine_SendNow [OF assms(1,2) SendNow] by auto
  next
    case (UserFunc g)
    have "sys_inv (?s\<lparr>sys_called := x\<rparr>)" for x
      using inv by (auto simp: sys_inv_def sys_timers_ok_def sys_times_ok_def sys_once_ok_def sys_sends_def sys_due_def)
    then show ?thesis using assms(3) UserFunc by (auto simp: sys_goroutine_def sys_body_def)
  qed
qed

lemma sys_step_inv: "sys_step s s' \<Longrightarrow> sys_inv s \<Longrightarrow> sys_inv s'"
proof (induction rule: sys_step.induct)
  case (sys_AfterFunc s d f)
  then show ?case unfolding System_AfterFunc_def by (intro sys_inv_AfterFunc) simp_all
qed (auto simp: sys_methods_simps sys_inv_tick sys_inv_fire sys_inv_Stop sys_inv_Reset
    intro: sys_inv_goroutine sys_inv_recv sys_inv_fresh)

lemma sys_reachable_inv: "sys_reachable s \<Longrightarrow> sys_inv s"
  by (induction rule: sys_reachable.induct) (auto simp: sys_inv_init intro: sys_step_inv)

lemma system_goroutine_returns:
  assumes "sys_reachable s" "t \<in> set (sys_spawned s)"
  shows "\<exists>s'. sys_goroutine s t = Some s'"
  using sys_goroutine_SendNow(1) [OF sys_reachable_inv [OF assms(1)] assms(2)]
  by (auto simp: sys_goroutine_def sys_body_def split: sys_func.splits option.splits)

text \<open>
  C24. In every interleaving of calls, time, the runtime and the goroutines, a value in the channel of
  a timer of the system clock, from \<open>NewTimer\<close>, from \<open>Reset\<close> used as its comment asks, or from
  \<open>After\<close>, is a time at or after the one the timer was set to, and not after now; and no goroutine of
  a timer ever waits, so that none is leaked: the send of \<open>After\<close> always finds its channel empty.
\<close>
theorem system_timers_never_early:
  assumes "sys_reachable s"
  shows "(\<forall>t c v. t < sys_next s \<and> chan_of (gt_func (sys_timers s t)) = Some c \<and> sys_chans s c = Some v \<longrightarrow>
       time_le (gt_when (sys_timers s t)) v \<and> time_le v (System_Now s)) \<and>
     (\<forall>t\<in>set (sys_spawned s). \<exists>s'. sys_goroutine s t = Some s')"
  using sys_invD(8) [OF sys_reachable_inv [OF assms]] system_goroutine_returns [OF assms]
  unfolding System_Now_def mclock_Now_def nanotime_def by blast

text \<open>A timer of \<open>After\<close> that was set to 5 and fires at 7, before its goroutine runs.\<close>

definition after_fired :: "unit system" where
  "after_fired = sys_fire (sys_tick (fst (System_After sys_init 5)) 7) 0"

lemma after_fired_reachable: "sys_reachable after_fired"
proof -
  have 1: "sys_reachable (fst (System_After sys_init 5))" by (rule sys_reach_step [OF sys_reach_init sys_step.sys_After])
  have "sys_reachable (sys_tick (fst (System_After sys_init 5)) 7)"
    by (rule sys_reach_step [OF 1 sys_step.sys_tick])
       (simp add: sys_methods_simps time_AfterFunc_def make_chan_def Let_def sys_init_def time_le_def)
  then show ?thesis
    unfolding after_fired_def
    by (rule sys_reach_step [OF _ sys_step.sys_fire])
       (simp_all add: sys_methods_simps time_AfterFunc_def make_chan_def Let_def sys_init_def time_le_def sys_tick_def
         sys_due_def time_when_def)
qed

theorem system_timers_never_early_witness: "\<exists>s'. sys_goroutine after_fired 0 = Some s'"
  using system_timers_never_early [OF after_fired_reachable, THEN conjunct2]
  by (simp add: after_fired_def sys_fire_def sys_methods_simps)

text \<open>
  Where \<open>Reset\<close> is called on a timer whose value has not been received, that value is early: the timer
  is set to 5, expires, is reset to 15, and its channel already holds 5.
\<close>

definition early_reset :: "unit system" where
  "early_reset =
     (let (s, st) = System_NewTimer sys_init 5;
          s = sys_fire (sys_tick s 5) (st_Timer st)
      in systemTimer_Reset (the (sys_goroutine s (st_Timer st))) st 10)"

lemma Reset_without_drain_is_early:
  "sys_chans early_reset 0 = Some 5 \<and> gt_when (sys_timers early_reset 0) = 15"
  by (simp add: early_reset_def System_NewTimer_def make_chan_def time_AfterFunc_def Let_def sys_init_def sys_fire_def
      sys_tick_def sys_goroutine_def sys_body_def systemTimer_Reset_def time_Reset_def time_when_def System_Now_def
      mclock_Now_def nanotime_def)

section \<open>A clock that is left to itself\<close>

text \<open>
  Time passes, then every due timer fires, then every goroutine runs; \<open>None\<close> would be a goroutine that
  waits.
\<close>

fun fire_all :: "'f system \<Rightarrow> nat list \<Rightarrow> 'f system" where
  "fire_all s [] = s"
| "fire_all s (t # ts) = fire_all (sys_fire s t) ts"

fun run_all :: "'f system \<Rightarrow> nat list \<Rightarrow> 'f system option" where
  "run_all s [] = Some s"
| "run_all s (t # ts) = (case sys_goroutine s t of None \<Rightarrow> None | Some s \<Rightarrow> run_all s ts)"

definition sys_elapse :: "'f system \<Rightarrow> duration \<Rightarrow> 'f system option" where
  "sys_elapse s d =
     (let s = sys_tick s (sys_now s + d);
          s = fire_all s (filter (sys_due s) (sys_active s))
      in run_all s (sys_spawned s))"

lemma fire_all_spec:
  "sys_reachable s \<Longrightarrow> distinct ts \<Longrightarrow> set ts \<subseteq> set (sys_active s) \<Longrightarrow> \<forall>t\<in>set ts. sys_due s t \<Longrightarrow>
   sys_reachable (fire_all s ts) \<and> set (sys_active (fire_all s ts)) = set (sys_active s) - set ts \<and>
   sys_spawned (fire_all s ts) = sys_spawned s @ ts \<and> sys_now (fire_all s ts) = sys_now s \<and>
   sys_timers (fire_all s ts) = sys_timers s \<and> sys_next (fire_all s ts) = sys_next s \<and>
   sys_called (fire_all s ts) = sys_called s"
proof (induction ts arbitrary: s)
  case (Cons t ts)
  let ?s = "sys_fire s t"
  have "distinct (sys_active s)" using sys_invD(2) [OF sys_reachable_inv [OF Cons.prems(1)]] .
  then have act: "set (sys_active ?s) = set (sys_active s) - {t}" by (simp add: sys_fire_def)
  have "sys_reachable ?s"
    by (rule sys_reach_step [OF Cons.prems(1)], rule sys_step.sys_fire) (use Cons.prems in auto)
  moreover have "\<forall>u\<in>set ts. sys_due ?s u" using Cons.prems(4) by (simp add: sys_fire_def sys_due_def)
  ultimately show ?case
    using Cons.IH [of ?s] Cons.prems act by (auto simp: sys_fire_def)
qed simp

definition user_funcs :: "'f system \<Rightarrow> nat list \<Rightarrow> 'f list" where
  "user_funcs s ts = List.map_filter (\<lambda>t. case gt_func (sys_timers s t) of UserFunc f \<Rightarrow> Some f | _ \<Rightarrow> None) ts"

lemma sys_goroutine_frame:
  assumes "sys_goroutine s t = Some s'"
  shows "sys_active s' = sys_active s" "sys_spawned s' = remove1 t (sys_spawned s)" "sys_now s' = sys_now s"
    "sys_timers s' = sys_timers s" "sys_next s' = sys_next s" "sys_called s' = sys_called s @ user_funcs s [t]"
  using assms
  by (auto simp: sys_goroutine_def sys_body_def user_funcs_def List.map_filter_def split: sys_func.splits option.splits)

lemma run_all_spec:
  "sys_reachable s \<Longrightarrow> sys_spawned s = ts \<Longrightarrow>
   \<exists>s'. run_all s ts = Some s' \<and> sys_reachable s' \<and> sys_active s' = sys_active s \<and> sys_spawned s' = [] \<and>
     sys_now s' = sys_now s \<and> sys_timers s' = sys_timers s \<and> sys_next s' = sys_next s \<and>
     sys_called s' = sys_called s @ user_funcs s ts"
proof (induction ts arbitrary: s)
  case Nil
  then show ?case by (simp add: user_funcs_def List.map_filter_def)
next
  case (Cons t ts)
  then have t: "t \<in> set (sys_spawned s)" by simp
  obtain s1 where s1: "sys_goroutine s t = Some s1"
    using system_goroutine_returns [OF Cons.prems(1) t] by blast
  note f = sys_goroutine_frame [OF s1]
  have r: "sys_reachable s1" by (rule sys_reach_step [OF Cons.prems(1) sys_step.sys_goroutine [OF t s1]])
  have "user_funcs s1 = user_funcs s" by (rule ext) (simp add: user_funcs_def f)
  moreover have "user_funcs s [t] @ user_funcs s ts = user_funcs s (t # ts)"
    by (simp add: user_funcs_def List.map_filter_def)
  ultimately show ?case using Cons.IH [OF r] f Cons.prems(2) s1 by auto
qed

lemma sys_elapse_spec:
  assumes "sys_reachable s" "sint (sys_now s) \<le> sint (sys_now s + d)"
  obtains s' where "sys_elapse s d = Some s'" "sys_reachable s'" "sys_spawned s' = []" "sys_now s' = sys_now s + d"
    "sys_timers s' = sys_timers s" "sys_next s' = sys_next s"
    "set (sys_active s') = {t \<in> set (sys_active s). \<not> time_le (gt_when (sys_timers s t)) (sys_now s + d)}"
    "sys_called s' = sys_called s @ user_funcs s
       (sys_spawned s @ filter (\<lambda>t. time_le (gt_when (sys_timers s t)) (sys_now s + d)) (sys_active s))"
proof -
  let ?now = "sys_now s + d"
  let ?s = "sys_tick s ?now" and ?ts = "filter (\<lambda>t. time_le (gt_when (sys_timers s t)) ?now) (sys_active s)"
  have "sys_due ?s = (\<lambda>t. time_le (gt_when (sys_timers s t)) ?now)"
    by (rule ext) (simp add: sys_tick_def sys_due_def)
  then have due: "filter (sys_due ?s) (sys_active ?s) = ?ts" by (simp add: sys_tick_def)
  have r: "sys_reachable ?s"
    by (rule sys_reach_step [OF assms(1)], rule sys_step.sys_tick) (simp add: time_le_def assms(2))
  have "distinct ?ts" using sys_invD(2) [OF sys_reachable_inv [OF assms(1)]] by simp
  then have f: "sys_reachable (fire_all ?s ?ts) \<and> set (sys_active (fire_all ?s ?ts)) = set (sys_active ?s) - set ?ts \<and>
      sys_spawned (fire_all ?s ?ts) = sys_spawned ?s @ ?ts \<and> sys_now (fire_all ?s ?ts) = sys_now ?s \<and>
      sys_timers (fire_all ?s ?ts) = sys_timers ?s \<and> sys_next (fire_all ?s ?ts) = sys_next ?s \<and>
      sys_called (fire_all ?s ?ts) = sys_called ?s"
    by (intro fire_all_spec [OF r]) (auto simp: sys_tick_def sys_due_def)
  then obtain s' where s': "run_all (fire_all ?s ?ts) (sys_spawned (fire_all ?s ?ts)) = Some s'" "sys_reachable s'"
      "sys_active s' = sys_active (fire_all ?s ?ts)" "sys_spawned s' = []"
      "sys_now s' = sys_now (fire_all ?s ?ts)" "sys_timers s' = sys_timers (fire_all ?s ?ts)"
      "sys_next s' = sys_next (fire_all ?s ?ts)"
      "sys_called s' = sys_called (fire_all ?s ?ts) @ user_funcs (fire_all ?s ?ts) (sys_spawned (fire_all ?s ?ts))"
    using run_all_spec [of "fire_all ?s ?ts"] by blast
  have u: "user_funcs (fire_all ?s ?ts) = user_funcs s"
    using f by (intro ext) (simp add: user_funcs_def sys_tick_def)
  show thesis
  proof (rule that)
    show "sys_elapse s d = Some s'" using s'(1) by (simp add: sys_elapse_def Let_def due)
    show "sys_called s' = sys_called s @ user_funcs s (sys_spawned s @ ?ts)"
      using s'(8) f u by (simp add: sys_tick_def)
  qed (use s' f in \<open>auto simp: sys_tick_def\<close>)
qed

lemma in_user_funcs: "f \<in> set (user_funcs s ts) \<longleftrightarrow> (\<exists>t\<in>set ts. gt_func (sys_timers s t) = UserFunc f)"
  by (induction ts) (auto simp: user_funcs_def List.map_filter_def split: sys_func.splits)

section \<open>Alarms on the system clock\<close>

definition sys_armed :: "'f system \<Rightarrow> nat \<Rightarrow> (abstime \<times> 'f) option" where
  "sys_armed s t =
     (if t \<in> set (sys_active s)
      then (case gt_func (sys_timers s t) of UserFunc f \<Rightarrow> Some (gt_when (sys_timers s t), f) | _ \<Rightarrow> None)
      else None)"

definition sys_known :: "'f system \<Rightarrow> nat \<Rightarrow> bool" where
  "sys_known s t \<longleftrightarrow> t < sys_next s"

lemma sys_armed_iff:
  "sys_armed s t = Some (a, f) \<longleftrightarrow>
     t \<in> set (sys_active s) \<and> gt_when (sys_timers s t) = a \<and> gt_func (sys_timers s t) = UserFunc f"
  by (auto simp: sys_armed_def split: sys_func.splits)

interpretation sys_alarm: alarm_clock System_Now System_AfterFunc time_Stop sys_armed sys_known sys_reachable
proof
  fix c c' :: "'f system" and d :: duration and fn :: 'f and t
  assume r: "sys_reachable c" and d: "0 \<le> sint d" "sint (System_Now c) \<le> sint (System_Now c + d)"
    and a: "System_AfterFunc c d fn = (c', t)"
  note inv = sys_reachable_inv [OF r]
  have "sys_reachable c'" using sys_reach_step [OF r sys_step.sys_AfterFunc, of d fn] a by simp
  moreover have "time_when c d = System_Now c + d"
    using time_when_exact [of d c] d sys_invD(1) [OF inv] by (simp add: System_Now_def mclock_Now_def nanotime_def)
  moreover have "sys_next c \<notin> set (sys_active c)" using sys_invD(3) [OF inv] by blast
  ultimately have "sys_armed c' u = ((sys_armed c)(t \<mapsto> (System_Now c + d, fn))) u" for u
    using a by (cases "u = t") (auto simp: System_AfterFunc_def time_AfterFunc_def Let_def sys_armed_def split: sys_func.splits)
  with \<open>sys_reachable c'\<close> show "sys_reachable c' \<and> System_Now c' = System_Now c \<and> \<not> sys_known c t \<and> sys_known c' t \<and>
      sys_armed c' = (sys_armed c)(t \<mapsto> (System_Now c + d, fn))"
    using a by (auto simp: System_AfterFunc_def time_AfterFunc_def Let_def sys_known_def System_Now_def mclock_Now_def nanotime_def)
next
  fix c c' :: "'f system" and t b
  assume r: "sys_reachable c" and k: "sys_known c t" and a: "time_Stop c t = (c', b)"
  have "sys_reachable c'" using sys_reach_step [OF r sys_step.sys_Stop, of t] k a by (simp add: sys_known_def)
  moreover have "distinct (sys_active c)" by (rule sys_invD(2) [OF sys_reachable_inv [OF r]])
  ultimately show "sys_reachable c' \<and> System_Now c' = System_Now c \<and> (\<forall>u. sys_known c u \<longrightarrow> sys_known c' u) \<and>
      sys_armed c' = (sys_armed c)(t := None)"
    using a by (auto simp: time_Stop_def sys_known_def sys_armed_def fun_eq_iff System_Now_def mclock_Now_def nanotime_def
        split: sys_func.splits)
qed

abbreviation sys_alarm_inv :: "'f \<Rightarrow> 'f system \<Rightarrow> nat alarm \<Rightarrow> bool" where
  "sys_alarm_inv \<equiv> alarm_inv System_Now sys_armed sys_known"

text \<open>An alarm, whose callback is \<open>send\<close>, while time passes on the system clock.\<close>

definition alarm_elapse :: "'f \<Rightarrow> 'f system \<Rightarrow> nat alarm \<Rightarrow> duration \<Rightarrow> ('f system \<times> nat alarm) option" where
  "alarm_elapse send s e d =
     (case sys_elapse s d of
        None \<Rightarrow> None
      | Some s' \<Rightarrow>
          Some (s', fold (\<lambda>f e. if f = send then alarm_send e else e) (drop (length (sys_called s)) (sys_called s')) e))"

definition in_flight :: "'f \<Rightarrow> 'f system \<Rightarrow> bool" where
  "in_flight f s \<longleftrightarrow> list_ex (\<lambda>t. case gt_func (sys_timers s t) of UserFunc g \<Rightarrow> g = f | _ \<Rightarrow> False) (sys_spawned s)"

lemma fold_alarm_send_funcs:
  "fold (\<lambda>f e. if f = send then alarm_send e else e) fs e = (if send \<in> set fs then alarm_send e else e)"
  by (induction fs arbitrary: e) (auto simp: alarm_send_def)

lemma in_flight_iff: "in_flight f s \<longleftrightarrow> (\<exists>t\<in>set (sys_spawned s). gt_func (sys_timers s t) = UserFunc f)"
proof -
  have "(case x of UserFunc g \<Rightarrow> g = f | _ \<Rightarrow> False) \<longleftrightarrow> x = UserFunc f" for x :: "'a sys_func"
    by (cases x) auto
  then show ?thesis by (simp add: in_flight_def list_ex_iff)
qed

lemma alarm_elapse_spec:
  assumes "sys_reachable s" "sys_alarm_inv send s e" "sint (System_Now s) \<le> sint (System_Now s + d)"
  obtains s' e' where "alarm_elapse send s e d = Some (s', e')" "sys_reachable s'" "sys_alarm_inv send s' e'"
    "al_ch e' \<longleftrightarrow> al_ch e \<or> in_flight send s \<or> (\<exists>t a. sys_armed s t = Some (a, send) \<and> time_le a (System_Now s + d))"
proof -
  have now: "System_Now x = sys_now x" for x :: "'a system"
    by (simp add: System_Now_def mclock_Now_def nanotime_def)
  note inv = sys_reachable_inv [OF assms(1)]
  obtain s' where s': "sys_elapse s d = Some s'" "sys_reachable s'" "sys_now s' = sys_now s + d"
    "sys_timers s' = sys_timers s" "sys_next s' = sys_next s"
    "set (sys_active s') = {t \<in> set (sys_active s). \<not> time_le (gt_when (sys_timers s t)) (sys_now s + d)}"
    "sys_called s' = sys_called s @ user_funcs s
       (sys_spawned s @ filter (\<lambda>t. time_le (gt_when (sys_timers s t)) (sys_now s + d)) (sys_active s))"
    using sys_elapse_spec [OF assms(1) assms(3) [unfolded now]] .
  define called where "called \<longleftrightarrow> in_flight send s \<or> (\<exists>t a. sys_armed s t = Some (a, send) \<and> time_le a (sys_now s + d))"
  have c: "send \<in> set (drop (length (sys_called s)) (sys_called s')) \<longleftrightarrow> called"
    by (auto simp: s'(7) in_user_funcs called_def in_flight_iff sys_armed_iff)
  let ?e = "if called then alarm_send e else e"
  show thesis
  proof (rule that)
    show "alarm_elapse send s e d = Some (s', ?e)"
      by (simp add: alarm_elapse_def s'(1) fold_alarm_send_funcs c)
    show "sys_reachable s'" by (rule s'(2))
    show "al_ch ?e \<longleftrightarrow> al_ch e \<or> in_flight send s \<or>
        (\<exists>t a. sys_armed s t = Some (a, send) \<and> time_le a (System_Now s + d))"
      by (auto simp: called_def now alarm_send_def)
    have armed: "sys_armed s' t = (case sys_armed s t of None \<Rightarrow> None
        | Some (a, fn) \<Rightarrow> if time_le a (sys_now s + d) then None else Some (a, fn))" for t
      by (auto simp: sys_armed_def s' split: sys_func.splits)
    have "al_timer ?e = al_timer e" "al_deadline ?e = al_deadline e" by (simp_all add: alarm_send_def)
    then show "sys_alarm_inv send s' ?e"
      using assms(2,3) s'(3,5) unfolding alarm_inv_def armed
      by (auto simp: now sys_known_def time_le_def split: option.splits if_splits)
  qed
qed

text \<open>
  C25. An alarm scheduled on the system clock fires, whatever the other timers do: when time passes to
  or past the time asked for and the goroutines have run, its channel has a value. An alarm that is
  stopped while none of its callbacks has been started does not fire, however much time passes.
\<close>
theorem alarm_fires_system:
  assumes "sys_reachable s" "sys_alarm_inv send s e" "sint (System_Now s) \<le> sint (System_Now s + d)"
    "alarm_Schedule System_Now System_AfterFunc time_Stop send s e time = (s1, e1)"
  shows "(time_le time (System_Now s + d) \<longrightarrow> (\<exists>s2 e2. alarm_elapse send s1 e1 d = Some (s2, e2) \<and> al_ch e2)) \<and>
    (\<not> in_flight send s1 \<longrightarrow>
       (\<exists>s2 e2. alarm_elapse send (fst (alarm_Stop time_Stop s1 e1)) (snd (alarm_Stop time_Stop s1 e1)) d = Some (s2, e2) \<and>
          \<not> al_ch e2))"
proof (intro conjI impI)
  obtain t a where 1: "sys_reachable s1" "System_Now s1 = System_Now s" "sys_alarm_inv send s1 e1"
    "al_timer e1 = Some t" "sys_armed s1 t = Some (a, send)" "time_le a time \<or> a = System_Now s"
    using sys_alarm.Schedule_spec [OF assms(1,2,4)] by blast
  have d: "sint (System_Now s1) \<le> sint (System_Now s1 + d)" using 1(2) assms(3) by simp
  show "\<exists>s2 e2. alarm_elapse send s1 e1 d = Some (s2, e2) \<and> al_ch e2" if "time_le time (System_Now s + d)"
  proof -
    have "time_le a (System_Now s1 + d)" using 1(2,6) that assms(3) by (auto simp: time_le_def)
    then show ?thesis using alarm_elapse_spec [OF 1(1,3) d] 1(5) by metis
  qed
  assume flight: "\<not> in_flight send s1"
  obtain s2 e2 where st: "alarm_Stop time_Stop s1 e1 = (s2, e2)" by fastforce
  have 2: "sys_reachable s2" "System_Now s2 = System_Now s1" "sys_alarm_inv send s2 e2" "\<not> al_ch e2"
    "\<And>u a. sys_armed s2 u \<noteq> Some (a, send)"
    using sys_alarm.Stop_spec [OF 1(1,3) st] by blast+
  have "\<not> in_flight send s2"
    using st flight by (auto simp: alarm_Stop_def time_Stop_def in_flight_def split: option.splits)
  moreover have "sint (System_Now s2) \<le> sint (System_Now s2 + d)" using d 2(2) by simp
  ultimately show "\<exists>s2 e2. alarm_elapse send (fst (alarm_Stop time_Stop s1 e1)) (snd (alarm_Stop time_Stop s1 e1)) d = Some (s2, e2) \<and>
          \<not> al_ch e2"
    using alarm_elapse_spec [OF 2(1,3), of d] 2(4,5) st by (metis fst_conv snd_conv)
qed

lemma NewAlarm_sys_inv: "sys_alarm_inv send sys_init NewAlarm"
  by (simp add: alarm_inv_def NewAlarm_def sys_armed_def sys_init_def System_Now_def mclock_Now_def nanotime_def)

theorem alarm_fires_system_witness:
  "\<exists>s2 e2. alarm_elapse () (fst (alarm_Schedule System_Now System_AfterFunc time_Stop () sys_init NewAlarm 5))
     (snd (alarm_Schedule System_Now System_AfterFunc time_Stop () sys_init NewAlarm 5)) 7 = Some (s2, e2) \<and> al_ch e2"
  by (rule alarm_fires_system [THEN conjunct1, rule_format, OF sys_reach_init NewAlarm_sys_inv _ prod.collapse [symmetric]])
     (simp_all add: sys_init_def System_Now_def mclock_Now_def nanotime_def time_le_def)

text \<open>
  That no callback has been started is needed. An alarm set to 5 is stopped at 5, after the runtime
  has started its \<open>send\<close> and before that goroutine runs: the alarm is stopped and drained, and then
  its channel has a value.
\<close>

definition late_send :: "nat alarm option" where
  "late_send =
     (let (s, e) = alarm_Schedule System_Now System_AfterFunc time_Stop () sys_init NewAlarm 5;
          s = sys_fire (sys_tick s 5) 0;
          (s, e) = alarm_Stop time_Stop s e
      in map_option snd (alarm_elapse () s e 0))"

lemma Stop_does_not_cancel_started_send: "map_option al_ch late_send = Some True"
  by (simp add: late_send_def alarm_Schedule_def alarm_schedule_def alarm_set_def NewAlarm_def time_less_def AbsTime_Sub_def
      System_AfterFunc_def time_AfterFunc_def Let_def sys_init_def sys_fire_def sys_tick_def alarm_Stop_def time_Stop_def
      alarm_elapse_def sys_elapse_def sys_goroutine_def sys_body_def alarm_send_def time_when_def System_Now_def
      mclock_Now_def nanotime_def)

section \<open>The simulated clock stands for the system clock\<close>

text \<open>
  The two clocks show the same time, have handed out as many timers, with the same functions of their
  users, and the same timers are pending, for the same times; no goroutine is left to run.
\<close>

definition sys_pending :: "'f system \<Rightarrow> nat \<Rightarrow> abstime option" where
  "sys_pending r t = (if t \<in> set (sys_active r) then Some (gt_when (sys_timers r t)) else None)"

definition clocks_agree :: "'f simulated \<Rightarrow> 'f system \<Rightarrow> bool" where
  "clocks_agree s r \<longleftrightarrow>
     sim_reachable s \<and> sys_reachable r \<and> sim_now s = System_Now r \<and> allocated s = sys_next r \<and>
     sys_spawned r = [] \<and> pending s = sys_pending r \<and>
     (\<forall>t < sys_next r. \<forall>f. tm_do (timers s t) = Call f \<longleftrightarrow> gt_func (sys_timers r t) = UserFunc f)"

text \<open>The functions that \<open>Run\<close> calls.\<close>

definition sim_funcs :: "'f simulated \<Rightarrow> nat list \<Rightarrow> 'f list" where
  "sim_funcs s evs = List.map_filter (\<lambda>t. case tm_do (timers s t) of Call f \<Rightarrow> Some f | _ \<Rightarrow> None) evs"

lemma mset_map_filter_eq:
  assumes "distinct xs" "distinct ys" "set xs = set ys" "\<And>x. x \<in> set xs \<Longrightarrow> f x = g x"
  shows "mset (List.map_filter f xs) = mset (List.map_filter g ys)"
proof -
  have "mset xs = mset ys" using assms(1-3) by (simp add: set_eq_iff_mset_eq_distinct)
  have "List.map_filter f xs = List.map_filter g xs"
    using assms(4) by (induction xs) (auto simp: List.map_filter_def)
  moreover have "mset (List.map_filter g zs) = image_mset (the \<circ> g) (filter_mset (\<lambda>x. g x \<noteq> None) (mset zs))" for zs
    by (simp add: List.map_filter_def mset_filter)
  ultimately show ?thesis using \<open>mset xs = mset ys\<close> by simp
qed

lemma now_defs: "System_Now r = sys_now r"
  by (simp add: System_Now_def mclock_Now_def nanotime_def)

lemma clocks_agree_init: "clocks_agree sim_init sys_init"
proof -
  have "pending sim_init = sys_pending sys_init"
    by (rule ext) (simp add: pending_def sys_pending_def sim_init_def sys_init_def)
  then show ?thesis
    using reach_init sys_reach_init by (simp add: clocks_agree_def now_defs) (simp add: sim_init_def sys_init_def)
qed

lemma time_AfterFunc_agree:
  assumes "sys_reachable r" "0 \<le> sint d" "sint (sys_now r) \<le> sint (sys_now r + d)"
    "time_AfterFunc r d f = (r', u)"
  shows "u = sys_next r" "sys_next r' = Suc u" "sys_spawned r' = sys_spawned r" "sys_now r' = sys_now r"
    "sys_pending r' = (sys_pending r)(u \<mapsto> sys_now r + d)" "gt_func (sys_timers r' u) = f"
    "v < u \<Longrightarrow> gt_func (sys_timers r' v) = gt_func (sys_timers r v)"
proof -
  have w: "time_when r d = sys_now r + d"
    by (rule time_when_exact [OF assms(2,3) sys_invD(1) [OF sys_reachable_inv [OF assms(1)]]])
  show "sys_pending r' = (sys_pending r)(u \<mapsto> sys_now r + d)"
    using assms(4) w by (auto simp: time_AfterFunc_def Let_def sys_pending_def fun_eq_iff)
qed (use assms(4) in \<open>auto simp: time_AfterFunc_def Let_def\<close>)

lemma clocks_agree_AfterFunc:
  assumes "clocks_agree s r" "0 \<le> sint d" "sint (sim_now s) \<le> sint (sim_now s + d)"
    "AfterFunc s d f = (s', t)" "System_AfterFunc r d f = (r', u)"
  shows "clocks_agree s' r' \<and> t = u"
proof -
  note a = assms(1) [unfolded clocks_agree_def now_defs]
  have r': "sys_reachable r'" using sys_reach_step [OF _ sys_step.sys_AfterFunc, of r d f] a assms(5) by simp
  have s': "sim_reachable s'" using reach_step [OF _ step_AfterFunc, of s d f] a assms(4) by simp
  have d: "sint (sys_now r) \<le> sint (sys_now r + d)" using a assms(3) by simp
  note sim = AfterFunc_spec [OF sim_reachable_wf assms(4)]
  note sys = time_AfterFunc_agree [OF _ assms(2) d assms(5) [unfolded System_AfterFunc_def]]
  show ?thesis
    using r' s' a sim sys by (auto simp: clocks_agree_def now_defs less_Suc_eq)
qed

lemma clocks_agree_Stop:
  assumes "clocks_agree s r" "t < allocated s" "timer_Stop s t = (s', b)" "time_Stop r t = (r', b')"
  shows "clocks_agree s' r' \<and> b = b'"
proof -
  note a = assms(1) [unfolded clocks_agree_def now_defs]
  have r': "sys_reachable r'" using sys_reach_step [OF _ sys_step.sys_Stop, of r t] a assms(2,4) by simp
  have s': "sim_reachable s'" using reach_step [OF _ step_Stop, of s t] a assms(2,3) by simp
  have dist: "distinct (sys_active r)" using sys_invD(2) [OF sys_reachable_inv] a by blast
  have p: "sys_pending r' = (sys_pending r)(t := None)"
    using assms(4) dist by (auto simp: time_Stop_def sys_pending_def fun_eq_iff)
  note sim = timer_Stop_spec [OF sim_reachable_wf assms(2,3)]
  have "b \<longleftrightarrow> b'" using sim(3) a assms(4) by (auto simp: time_Stop_def sys_pending_def)
  then show ?thesis
    using r' s' a sim(2,4) p assms(4) by (auto simp: clocks_agree_def now_defs sim_frame_def time_Stop_def)
qed

lemma NewTimer_do:
  assumes "sim_wf s" "NewTimer s d = (s', t)"
  shows "tm_do (timers s' t) = SendOn t" "u \<noteq> t \<Longrightarrow> tm_do (timers s' u) = tm_do (timers s u)"
proof -
  obtain s1 where s1: "sim_schedule s d SendOn = (s1, t)"
    and s': "s' = s1\<lparr>timers := (timers s1)(t := (timers s1 t)\<lparr>tm_ch := True\<rparr>), channel := (channel s1)(t := None)\<rparr>"
    using assms(2) by (auto simp: NewTimer_def split: prod.splits)
  note r = sim_schedule_spec(7,8) [OF assms(1) s1]
  show "tm_do (timers s' t) = SendOn t" using arg_cong [OF r(1), of tm_do] by (simp add: s')
  show "u \<noteq> t \<Longrightarrow> tm_do (timers s' u) = tm_do (timers s u)" using r(2) by (simp add: s')
qed

lemma clocks_agree_NewTimer:
  assumes "clocks_agree s r" "0 \<le> sint d" "sint (sim_now s) \<le> sint (sim_now s + d)"
    "NewTimer s d = (s', t)" "System_NewTimer r d = (r', st)"
  shows "clocks_agree s' r' \<and> t = st_Timer st"
proof -
  note a = assms(1) [unfolded clocks_agree_def now_defs]
  let ?m = "fst (make_chan r)"
  have m: "sys_next ?m = sys_next r" "sys_spawned ?m = sys_spawned r" "sys_now ?m = sys_now r"
    "sys_pending ?m = sys_pending r" "sys_timers ?m = sys_timers r"
    by (auto simp: make_chan_def sys_pending_def fun_eq_iff)
  have r': "sys_reachable r'" using sys_reach_step [OF _ sys_step.sys_NewTimer, of r d] a assms(5) by simp
  have s': "sim_reachable s'" using reach_step [OF _ step_NewTimer, of s d] a assms(4) by simp
  note w = sim_reachable_wf [OF a [THEN conjunct1]]
  note sim = NewTimer_spec(2-5) [OF w assms(4)] NewTimer_do [OF w assms(4)]
  have st: "st_Timer st = sys_next r" "r' = fst (time_AfterFunc ?m d (TrySendNow (sys_made r)))"
    using assms(5) sys_methods_simps(1,2) [of r d] by simp_all
  have "time_when ?m d = sys_now r + d"
    using time_when_exact [of d ?m] assms(2,3) a m sys_invD(1) [OF sys_reachable_inv, of r] by simp
  then have sys: "sys_pending r' = (sys_pending r)(sys_next r \<mapsto> sys_now r + d)" "sys_next r' = Suc (sys_next r)"
    "sys_spawned r' = sys_spawned r" "sys_now r' = sys_now r"
    "gt_func (sys_timers r' (sys_next r)) = TrySendNow (sys_made r)"
    "\<And>v. v \<noteq> sys_next r \<Longrightarrow> sys_timers r' v = sys_timers r v"
    unfolding st(2) by (auto simp: time_AfterFunc_def Let_def sys_pending_def fun_eq_iff m make_chan_def)
  show ?thesis
    using r' s' a sim sys st(1) by (auto simp: clocks_agree_def now_defs less_Suc_eq)
qed

lemma run_locked_do:
  assumes "sim_wf s" "run_locked s d = (s', evs)"
  shows "tm_do (timers s' t) = tm_do (timers s t)"
proof -
  obtain s1 where "run_due s (AbsTime_Add (sim_now s) d) = (s1, evs)" "s' = s1\<lparr>sim_now := AbsTime_Add (sim_now s) d\<rparr>"
    using assms(2) by (auto simp: run_locked_def Let_def split: prod.splits)
  then show ?thesis using run_due_spec [OF assms(1)] by (auto simp: sim_frame_def)
qed

lemma clocks_agree_elapse:
  assumes "clocks_agree s r" "sint (sim_now s) \<le> sint (sim_now s + d)" "run_locked s d = (s', evs)"
  shows "\<exists>r' fs. sys_elapse r d = Some r' \<and> clocks_agree s' r' \<and> sys_called r' = sys_called r @ fs \<and>
    mset fs = mset (sim_funcs s evs)"
proof -
  note a = assms(1) [unfolded clocks_agree_def now_defs]
  have "sys_reachable r" "sint (sys_now r) \<le> sint (sys_now r + d)" using a assms(2) by simp_all
  note inv = sys_reachable_inv [OF this(1)]
  let ?due = "filter (\<lambda>t. time_le (gt_when (sys_timers r t)) (sys_now r + d)) (sys_active r)"
  obtain r' where r': "sys_elapse r d = Some r'" "sys_reachable r'" "sys_spawned r' = []" "sys_now r' = sys_now r + d"
    "sys_timers r' = sys_timers r" "sys_next r' = sys_next r"
    "set (sys_active r') = {t \<in> set (sys_active r). \<not> time_le (gt_when (sys_timers r t)) (sys_now r + d)}"
    "sys_called r' = sys_called r @ user_funcs r (sys_spawned r @ ?due)"
    using sys_elapse_spec [OF \<open>sys_reachable r\<close> \<open>sint (sys_now r) \<le> _\<close>] .
  note w = sim_reachable_wf [OF a [THEN conjunct1]]
  note sim = run_locked_spec [OF w assms(3)] and do = run_locked_do [OF w assms(3)]
  have s': "sim_reachable s'" using reach_step [OF a [THEN conjunct1] step_Run, of d] assms(3) by simp
  have "pending s' = sys_pending r'"
    using a r'(5,7) unfolding sim(5) by (auto simp: sys_pending_def fun_eq_iff)
  then have agree: "clocks_agree s' r'"
    using a r' s' sim(2,3) do by (simp add: clocks_agree_def now_defs)
  have "set evs = set ?due"
    using sim(6) a by (auto simp: sys_pending_def split: if_splits)
  moreover have "(case tm_do (timers s t) of Call f \<Rightarrow> Some f | _ \<Rightarrow> None) =
      (case gt_func (sys_timers r t) of UserFunc f \<Rightarrow> Some f | _ \<Rightarrow> None)" if "t \<in> set evs" for t
  proof -
    have "t < sys_next r" using that \<open>set evs = set ?due\<close> sys_invD(3) [OF inv] by auto
    then have do: "tm_do (timers s t) = Call f \<longleftrightarrow> gt_func (sys_timers r t) = UserFunc f" for f using a by blast
    show ?thesis
    proof (cases "tm_do (timers s t)")
      case (SendOn c)
      then have "gt_func (sys_timers r t) \<noteq> UserFunc f" for f using do [of f] by simp
      then show ?thesis using SendOn by (simp split: sys_func.splits)
    next
      case (Call f)
      then have "gt_func (sys_timers r t) = UserFunc f" using do [of f] by simp
      then show ?thesis using Call by simp
    qed
  qed
  ultimately have "mset (sim_funcs s evs) = mset (user_funcs r ?due)"
    unfolding sim_funcs_def user_funcs_def
    using sim(7) sys_invD(2) [OF inv] by (intro mset_map_filter_eq) simp_all
  moreover have "sys_called r' = sys_called r @ user_funcs r ?due"
    using r'(8) a by (simp only: append_Nil)
  ultimately show ?thesis using r'(1) agree by (metis (lifting))
qed

text \<open>
  C8. The simulated clock stands for the system clock: from agreeing states, with durations that are
  not negative and do not reach past the largest time, \<open>NewTimer\<close>, \<open>AfterFunc\<close> and \<open>Stop\<close> give agreeing
  states and the same results, and when the same time passes on both and the goroutines of the system
  clock have run, the same functions have been called, each as often, and the clocks agree again.
\<close>
theorem simulated_stands_for_system:
  assumes "clocks_agree s r" "0 \<le> sint d" "sint (sim_now s) \<le> sint (sim_now s + d)" "t < allocated s"
  shows "(clocks_agree (fst (AfterFunc s d f)) (fst (System_AfterFunc r d f)) \<and>
       snd (AfterFunc s d f) = snd (System_AfterFunc r d f)) \<and>
    (clocks_agree (fst (NewTimer s d)) (fst (System_NewTimer r d)) \<and>
       snd (NewTimer s d) = st_Timer (snd (System_NewTimer r d))) \<and>
    (clocks_agree (fst (timer_Stop s t)) (fst (time_Stop r t)) \<and> snd (timer_Stop s t) = snd (time_Stop r t)) \<and>
    (\<exists>r' fs. sys_elapse r d = Some r' \<and> clocks_agree (fst (run_locked s d)) r' \<and>
       sys_called r' = sys_called r @ fs \<and> mset fs = mset (sim_funcs s (snd (run_locked s d))))"
  by (intro conjI
      clocks_agree_AfterFunc [OF assms(1-3) prod.collapse [symmetric] prod.collapse [symmetric], THEN conjunct1]
      clocks_agree_AfterFunc [OF assms(1-3) prod.collapse [symmetric] prod.collapse [symmetric], THEN conjunct2]
      clocks_agree_NewTimer [OF assms(1-3) prod.collapse [symmetric] prod.collapse [symmetric], THEN conjunct1]
      clocks_agree_NewTimer [OF assms(1-3) prod.collapse [symmetric] prod.collapse [symmetric], THEN conjunct2]
      clocks_agree_Stop [OF assms(1,4) prod.collapse [symmetric] prod.collapse [symmetric], THEN conjunct1]
      clocks_agree_Stop [OF assms(1,4) prod.collapse [symmetric] prod.collapse [symmetric], THEN conjunct2]
      clocks_agree_elapse [OF assms(1,3) prod.collapse [symmetric]])

theorem simulated_stands_for_system_witness:
  "clocks_agree (fst (timer_Stop (fst (AfterFunc sim_init 3 ())) 0)) (fst (time_Stop (fst (System_AfterFunc sys_init 3 ())) 0))"
proof -
  let ?s = "fst (AfterFunc sim_init 3 ())" and ?r = "fst (System_AfterFunc sys_init 3 ())"
  have 3: "0 \<le> sint (3 :: 64 word)" "sint (sim_now (sim_init :: unit simulated)) \<le> sint (sim_now (sim_init :: unit simulated) + 3)"
    by (simp_all add: sim_init_def)
  have s: "clocks_agree ?s ?r"
    using clocks_agree_AfterFunc [OF clocks_agree_init 3 prod.collapse [symmetric] prod.collapse [symmetric]] by blast
  have "sim_now ?s = 0" "allocated ?s = 1"
    using AfterFunc_spec(2-4) [OF sim_wf_init, of 3 "()" ?s "snd (AfterFunc sim_init 3 ())", OF prod.collapse [symmetric]]
    by (simp_all add: sim_init_def)
  then show ?thesis
    using simulated_stands_for_system [OF s, of 3 0] by simp
qed

end
