(* ===== verification/Event_Feed.thy ===== *)
theory Event_Feed
  imports Go_Prelude "HOL-Library.Multiset"
begin

text \<open>
  \<open>src/event/feed.go\<close> and \<open>src/event/feedof.go\<close>: feeds. The two files differ in the type check and
  in the type of \<open>removeSub\<close>; a flag \<open>typed\<close> stands for \<open>FeedOf\<close>. A select case is a record. The
  slice \<open>f.sendCases\<close> is its elements and the spare elements of its array, because \<open>Send\<close> holds a
  second slice, \<open>cases\<close>, of the same array; \<open>extra n\<close> is the spare capacity the runtime gives a
  slice that grows to \<open>n\<close> elements.

  \<open>Send\<close> is a step relation: what \<open>TrySend\<close> answers and which case \<open>Select\<close> takes depends on the
  receivers, and a removal may arrive while it selects.
\<close>

section \<open>Lists of cases\<close>

datatype sel_dir = DirZero | SelectSend | SelectRecv

text \<open>The channel of a case; \<open>None\<close> is \<open>f.removeSub\<close>. \<open>sc_send\<close> is whether \<open>Send\<close> is a valid value.\<close>

record 'c selectCase =
  sc_dir :: sel_dir
  sc_chan :: "'c option"
  sc_send :: bool

definition zero_case :: "'c selectCase" where
  "zero_case = \<lparr>sc_dir = DirZero, sc_chan = None, sc_send = False\<rparr>"

definition remove_case :: "'c selectCase" where
  "remove_case = \<lparr>sc_dir = SelectRecv, sc_chan = None, sc_send = False\<rparr>"

definition sub_case :: "'c \<Rightarrow> 'c selectCase" where
  "sub_case c = \<lparr>sc_dir = SelectSend, sc_chan = Some c, sc_send = False\<rparr>"

fun find_from :: "nat \<Rightarrow> 'c selectCase list \<Rightarrow> 'c \<Rightarrow> int" where
  "find_from i [] c = - 1"
| "find_from i (cas # cs) c = (if sc_chan cas = Some c then int i else find_from (Suc i) cs c)"

definition caseList_find :: "'c selectCase list \<Rightarrow> 'c \<Rightarrow> int" where
  "caseList_find cs c = find_from 0 cs c"

text \<open>\<open>delete\<close>, as values: \<open>append(cs[:index], cs[:index+1]...)\<close>. \<open>None\<close> is the panic.\<close>

definition caseList_delete :: "'c selectCase list \<Rightarrow> int \<Rightarrow> 'c selectCase list option" where
  "caseList_delete cs index =
     (if index < 0 \<or> int (length cs) \<le> index then None
      else Some (take (nat index) cs @ take (nat index + 1) cs))"

text \<open>The swap in \<open>deactivate\<close>.\<close>

definition swap_last :: "'c selectCase list \<Rightarrow> nat \<Rightarrow> nat \<Rightarrow> 'c selectCase list" where
  "swap_last a i k = a[i := a ! k, k := a ! i]"

section \<open>The feed\<close>

definition firstSubSendCase :: nat where
  "firstSubSendCase = 1"

record ('c, 't) feed =
  fd_once :: bool
  fd_lock :: bool
  fd_cases :: "'c selectCase list"
  fd_spare :: "'c selectCase list"
  fd_inbox :: "'c selectCase list"
  fd_etype :: "'t option"

definition feed_zero :: "('c, 't) feed" where
  "feed_zero = \<lparr>fd_once = False, fd_lock = False, fd_cases = [], fd_spare = [], fd_inbox = [], fd_etype = None\<rparr>"

definition feed_init :: "('c, 't) feed \<Rightarrow> ('c, 't) feed" where
  "feed_init f =
     (if fd_once f then f
      else f\<lparr>fd_once := True, fd_lock := True, fd_cases := [remove_case], fd_spare := []\<rparr>)"

definition feed_typecheck :: "('c, 't) feed \<Rightarrow> 't \<Rightarrow> ('c, 't) feed \<times> bool" where
  "feed_typecheck f typ =
     (case fd_etype f of
        None \<Rightarrow> (f\<lparr>fd_etype := Some typ\<rparr>, True)
      | Some t \<Rightarrow> (f, t = typ))"

datatype feed_panic = errBadChannel | feedTypeError string | sliceBounds

text \<open>\<open>Feed.Subscribe\<close>; \<open>kind\<close> is the element type of a channel that can be sent to.\<close>

definition feed_Subscribe ::
  "('c, 't) feed \<Rightarrow> 'c \<Rightarrow> 't option \<Rightarrow> ('c, 't) feed \<times> feed_panic option" where
  "feed_Subscribe f c kind =
     (let f = feed_init f
      in case kind of
           None \<Rightarrow> (f, Some errBadChannel)
         | Some typ \<Rightarrow>
             (let (f, ok) = feed_typecheck f typ
              in if \<not> ok then (f, Some (feedTypeError ''Subscribe''))
                 else (f\<lparr>fd_inbox := fd_inbox f @ [sub_case c]\<rparr>, None)))"

definition feedOf_init :: "('c, 't) feed \<Rightarrow> ('c, 't) feed" where
  [simp]: "feedOf_init f = feed_init f"

definition feedOf_Subscribe :: "('c, 't) feed \<Rightarrow> 'c \<Rightarrow> ('c, 't) feed" where
  "feedOf_Subscribe f c = (let f = feedOf_init f in f\<lparr>fd_inbox := fd_inbox f @ [sub_case c]\<rparr>)"

text \<open>\<open>remove\<close> up to the select: the inbox. The flag says whether the channel was found there.\<close>

definition remove_inbox :: "('c, 't) feed \<Rightarrow> 'c \<Rightarrow> (('c, 't) feed \<times> bool) option" where
  "remove_inbox f c =
     (let index = caseList_find (fd_inbox f) c
      in if index \<noteq> - 1
         then (case caseList_delete (fd_inbox f) index of
                 None \<Rightarrow> None
               | Some cs \<Rightarrow> Some (f\<lparr>fd_inbox := cs\<rparr>, True))
         else Some (f, False))"

text \<open>
  \<open>f.sendCases = f.sendCases.delete(index)\<close> on the array. In place, the elements behind the new
  length are those of the old array; the flag says whether the array was replaced.
\<close>

definition delete_case :: "(nat \<Rightarrow> nat) \<Rightarrow> ('c, 't) feed \<Rightarrow> int \<Rightarrow> (('c, 't) feed \<times> bool) option" where
  "delete_case extra f index =
     (case caseList_delete (fd_cases f) index of
        None \<Rightarrow> None
      | Some cs \<Rightarrow>
          (let a = fd_cases f @ fd_spare f
           in if length cs \<le> length a
              then Some (f\<lparr>fd_cases := cs, fd_spare := drop (length cs) a\<rparr>, False)
              else Some (f\<lparr>fd_cases := cs, fd_spare := replicate (extra (length cs)) zero_case\<rparr>, True)))"

text \<open>The other branch of \<open>remove\<close>, when no \<open>Send\<close> is in progress.\<close>

definition remove_idle :: "(nat \<Rightarrow> nat) \<Rightarrow> ('c, 't) feed \<Rightarrow> 'c \<Rightarrow> ('c, 't) feed option" where
  "remove_idle extra f c = map_option fst (delete_case extra f (caseList_find (fd_cases f) c))"

definition feed_remove :: "(nat \<Rightarrow> nat) \<Rightarrow> ('c, 't) feed \<Rightarrow> 'c \<Rightarrow> ('c, 't) feed option" where
  "feed_remove extra f c =
     (case remove_inbox f c of
        None \<Rightarrow> None
      | Some (f, True) \<Rightarrow> Some f
      | Some (f, False) \<Rightarrow> remove_idle extra f c)"

section \<open>Subscriptions\<close>

record 'c feedSub =
  fs_channel :: 'c
  fs_once :: bool
  fs_errClosed :: bool

definition new_feedSub :: "'c \<Rightarrow> 'c feedSub" where
  "new_feedSub c = \<lparr>fs_channel = c, fs_once = False, fs_errClosed = False\<rparr>"

definition feedSub_Unsubscribe ::
  "(nat \<Rightarrow> nat) \<Rightarrow> ('c, 't) feed \<Rightarrow> 'c feedSub \<Rightarrow> (('c, 't) feed \<times> 'c feedSub) option" where
  "feedSub_Unsubscribe extra f sub =
     (if fs_once sub then Some (f, sub)
      else (case feed_remove extra f (fs_channel sub) of
              None \<Rightarrow> None
            | Some f \<Rightarrow> Some (f, sub\<lparr>fs_once := True, fs_errClosed := True\<rparr>)))"

section \<open>Send\<close>

datatype send_pc = Trying nat | Selecting | Finished | Panicked

text \<open>
  A \<open>Send\<close> in progress: the length of \<open>cases\<close>, its array when that is no longer the array of
  \<open>f.sendCases\<close>, the count, and the channels sent to, in order.
\<close>

record 'c sending =
  sd_len :: nat
  sd_detached :: "'c selectCase list option"
  sd_nsent :: nat
  sd_log :: "'c list"
  sd_pc :: send_pc

definition set_sends :: "bool \<Rightarrow> 'c selectCase list \<Rightarrow> 'c selectCase list" where
  "set_sends b cs = take firstSubSendCase cs @ map (\<lambda>c. c\<lparr>sc_send := b\<rparr>) (drop firstSubSendCase cs)"

text \<open>The part of \<open>Send\<close> before its loop; \<open>Inr\<close> is the type panic, which releases the lock.\<close>

definition send_begin :: "(nat \<Rightarrow> nat) \<Rightarrow> ('c, 't) feed \<Rightarrow> ('c, 't) feed" where
  "send_begin extra f =
     (let n = length (fd_inbox f)
      in if n \<le> length (fd_spare f)
         then f\<lparr>fd_lock := False, fd_cases := fd_cases f @ fd_inbox f, fd_spare := drop n (fd_spare f), fd_inbox := []\<rparr>
         else f\<lparr>fd_lock := False, fd_cases := fd_cases f @ fd_inbox f,
                fd_spare := replicate (extra (length (fd_cases f) + n)) zero_case, fd_inbox := []\<rparr>)"

definition start_loop :: "('c, 't) feed \<Rightarrow> ('c, 't) feed \<times> 'c sending" where
  "start_loop f =
     (f\<lparr>fd_cases := set_sends True (fd_cases f)\<rparr>,
      \<lparr>sd_len = length (fd_cases f), sd_detached = None, sd_nsent = 0, sd_log = [], sd_pc = Trying firstSubSendCase\<rparr>)"

definition feed_Send ::
  "(nat \<Rightarrow> nat) \<Rightarrow> ('c, 't) feed \<Rightarrow> 't \<Rightarrow> (('c, 't) feed \<times> 'c sending) + (('c, 't) feed \<times> feed_panic)" where
  "feed_Send extra f typ =
     (let (f, ok) = feed_typecheck (send_begin extra (feed_init f)) typ
      in if \<not> ok then Inr (f\<lparr>fd_lock := True\<rparr>, feedTypeError ''Send'') else Inl (start_loop f))"

definition feedOf_Send :: "(nat \<Rightarrow> nat) \<Rightarrow> ('c, 't) feed \<Rightarrow> ('c, 't) feed \<times> 'c sending" where
  "feedOf_Send extra f = start_loop (send_begin extra (feedOf_init f))"

text \<open>The slice \<open>cases\<close>, and \<open>cases = cases.deactivate(i)\<close>.\<close>

definition sd_array :: "('c, 't) feed \<Rightarrow> 'c sending \<Rightarrow> 'c selectCase list" where
  "sd_array f s = (case sd_detached s of None \<Rightarrow> fd_cases f @ fd_spare f | Some a \<Rightarrow> a)"

definition sd_cases :: "('c, 't) feed \<Rightarrow> 'c sending \<Rightarrow> 'c selectCase list" where
  "sd_cases f s = take (sd_len s) (sd_array f s)"

definition deactivate :: "nat \<Rightarrow> ('c, 't) feed \<times> 'c sending \<Rightarrow> ('c, 't) feed \<times> 'c sending" where
  "deactivate i fs =
     (let (f, s) = fs;
          k = sd_len s - 1;
          a = swap_last (sd_array f s) i k
      in case sd_detached s of
           None \<Rightarrow> (f\<lparr>fd_cases := take (length (fd_cases f)) a, fd_spare := drop (length (fd_cases f)) a\<rparr>,
                    s\<lparr>sd_len := k\<rparr>)
         | Some _ \<Rightarrow> (f, s\<lparr>sd_len := k, sd_detached := Some a\<rparr>))"

text \<open>\<open>nsent++\<close>, with the channel the value went to.\<close>

definition count_send :: "'c option \<Rightarrow> ('c, 't) feed \<times> 'c sending \<Rightarrow> ('c, 't) feed \<times> 'c sending" where
  "count_send c fs =
     (let (f, s) = fs in (f, s\<lparr>sd_nsent := sd_nsent s + 1, sd_log := sd_log s @ (case c of None \<Rightarrow> [] | Some c \<Rightarrow> [c])\<rparr>))"

definition goto :: "send_pc \<Rightarrow> ('c, 't) feed \<times> 'c sending \<Rightarrow> ('c, 't) feed \<times> 'c sending" where
  "goto pc fs = (let (f, s) = fs in (f, s\<lparr>sd_pc := pc\<rparr>))"

text \<open>What \<open>reflect.Select\<close> refuses with a panic.\<close>

definition bad_case :: "'c selectCase \<Rightarrow> bool" where
  "bad_case c \<longleftrightarrow>
     (case sc_dir c of DirZero \<Rightarrow> True | SelectSend \<Rightarrow> \<not> sc_send c | SelectRecv \<Rightarrow> sc_send c)"

text \<open>The removal of a channel that \<open>Select\<close> has received.\<close>

definition remove_selected ::
  "(nat \<Rightarrow> nat) \<Rightarrow> 'c \<Rightarrow> ('c, 't) feed \<times> 'c sending \<Rightarrow> ('c, 't) feed \<times> 'c sending" where
  "remove_selected extra c fs =
     (let (f, s) = fs;
          index = caseList_find (fd_cases f) c
      in case delete_case extra f index of
           None \<Rightarrow> goto Panicked (f, s)
         | Some (f', moved) \<Rightarrow>
             (let s = (if moved \<and> sd_detached s = None then s\<lparr>sd_detached := Some (fd_cases f @ fd_spare f)\<rparr> else s)
              in if 0 \<le> index \<and> index < int (sd_len s)
                 then goto (Trying firstSubSendCase) (f', s\<lparr>sd_detached := None, sd_len := sd_len s - 1\<rparr>)
                 else goto (Trying firstSubSendCase) (f', s)))"

text \<open>
  The loop. \<open>removals\<close> are the channels whose \<open>remove\<close> may arrive meanwhile, \<open>closes\<close> those that their
  receivers close, before or meanwhile: to send on one of them panics, by \<open>TrySend\<close> as by \<open>Select\<close>. \<open>TrySend\<close> on
  \<open>removeSub\<close> finds no receiver, and for \<open>FeedOf\<close> it panics because of the type.
\<close>

inductive send_step ::
  "bool \<Rightarrow> (nat \<Rightarrow> nat) \<Rightarrow> 'c set \<Rightarrow> 'c set \<Rightarrow> ('c, 't) feed \<times> 'c sending \<Rightarrow> ('c, 't) feed \<times> 'c sending \<Rightarrow> bool"
  for typed extra removals closes where
  try_sent: "sd_pc s = Trying i \<Longrightarrow> i < sd_len s \<Longrightarrow> sc_chan (sd_cases f s ! i) = Some c \<Longrightarrow>
     send_step typed extra removals closes (f, s) (count_send (Some c) (deactivate i (f, s)))"
| try_full: "sd_pc s = Trying i \<Longrightarrow> i < sd_len s \<Longrightarrow> typed \<longrightarrow> sc_chan (sd_cases f s ! i) \<noteq> None \<Longrightarrow>
     send_step typed extra removals closes (f, s) (goto (Trying (i + 1)) (f, s))"
| try_type: "sd_pc s = Trying i \<Longrightarrow> i < sd_len s \<Longrightarrow> typed \<Longrightarrow> sc_chan (sd_cases f s ! i) = None \<Longrightarrow>
     send_step typed extra removals closes (f, s) (goto Panicked (f, s))"
| try_closed: "sd_pc s = Trying i \<Longrightarrow> i < sd_len s \<Longrightarrow> sc_chan (sd_cases f s ! i) = Some c \<Longrightarrow> c \<in> closes \<Longrightarrow>
     send_step typed extra removals closes (f, s) (goto Panicked (f, s))"
| try_end: "sd_pc s = Trying i \<Longrightarrow> \<not> i < sd_len s \<Longrightarrow>
     send_step typed extra removals closes (f, s)
       (goto (if sd_len s = firstSubSendCase then Finished else Selecting) (f, s))"
| sel_panic: "sd_pc s = Selecting \<Longrightarrow> list_ex bad_case (sd_cases f s) \<Longrightarrow>
     send_step typed extra removals closes (f, s) (goto Panicked (f, s))"
| sel_sent: "sd_pc s = Selecting \<Longrightarrow> \<not> list_ex bad_case (sd_cases f s) \<Longrightarrow> 0 < j \<Longrightarrow> j < sd_len s \<Longrightarrow>
     sc_chan (sd_cases f s ! j) = Some c \<Longrightarrow>
     send_step typed extra removals closes (f, s)
       (goto (Trying firstSubSendCase) (count_send (Some c) (deactivate j (f, s))))"
| sel_closed: "sd_pc s = Selecting \<Longrightarrow> \<not> list_ex bad_case (sd_cases f s) \<Longrightarrow> 0 < j \<Longrightarrow> j < sd_len s \<Longrightarrow>
     sc_chan (sd_cases f s ! j) = Some c \<Longrightarrow> c \<in> closes \<Longrightarrow>
     send_step typed extra removals closes (f, s) (goto Panicked (f, s))"
| sel_removed: "sd_pc s = Selecting \<Longrightarrow> \<not> list_ex bad_case (sd_cases f s) \<Longrightarrow> c \<in> removals \<Longrightarrow>
     sc_chan (sd_cases f s ! 0) = None \<Longrightarrow>
     send_step typed extra removals closes (f, s) (remove_selected extra c (f, s))"
| sel_swallowed: "sd_pc s = Selecting \<Longrightarrow> \<not> list_ex bad_case (sd_cases f s) \<Longrightarrow> c \<in> removals \<Longrightarrow>
     0 < j \<Longrightarrow> j < sd_len s \<Longrightarrow> sc_chan (sd_cases f s ! j) = None \<Longrightarrow>
     send_step typed extra removals closes (f, s)
       (goto (Trying firstSubSendCase) (count_send None (deactivate j (f, s))))"

text \<open>After the loop: the values are forgotten, the lock is handed back and the count returned.\<close>

definition send_end :: "('c, 't) feed \<times> 'c sending \<Rightarrow> ('c, 't) feed \<times> nat" where
  "send_end fs = (let (f, s) = fs in (f\<lparr>fd_cases := set_sends False (fd_cases f), fd_lock := True\<rparr>, sd_nsent s))"

text \<open>\<open>feedof.go\<close> repeats the code of \<open>remove\<close>, of the loop, of its end and of \<open>Unsubscribe\<close>.\<close>

definition feedOf_remove :: "(nat \<Rightarrow> nat) \<Rightarrow> ('c, 't) feed \<Rightarrow> 'c \<Rightarrow> ('c, 't) feed option" where
  "feedOf_remove = feed_remove"

definition feedOf_end :: "('c, 't) feed \<times> 'c sending \<Rightarrow> ('c, 't) feed \<times> nat" where
  "feedOf_end = send_end"

definition feedOf_step ::
  "(nat \<Rightarrow> nat) \<Rightarrow> 'c set \<Rightarrow> 'c set \<Rightarrow> ('c, 't) feed \<times> 'c sending \<Rightarrow> ('c, 't) feed \<times> 'c sending \<Rightarrow> bool" where
  "feedOf_step = send_step True"

definition feedOfSub_Unsubscribe ::
  "(nat \<Rightarrow> nat) \<Rightarrow> ('c, 't) feed \<Rightarrow> 'c feedSub \<Rightarrow> (('c, 't) feed \<times> 'c feedSub) option" where
  "feedOfSub_Unsubscribe = feedSub_Unsubscribe"

section \<open>Every subscriber gets the value once\<close>

definition live_case :: "'c \<Rightarrow> 'c selectCase" where
  "live_case c = (sub_case c)\<lparr>sc_send := True\<rparr>"

text \<open>
  The invariant of the loop when no removal arrives: \<open>ds\<close> are the subscribed channels in the order
  of \<open>f.sendCases\<close>; those behind \<open>cases\<close> are the ones sent to.
\<close>

definition send_inv :: "'c list \<Rightarrow> ('c, 't) feed \<times> 'c sending \<Rightarrow> bool" where
  "send_inv cs fs \<longleftrightarrow>
     (let (f, s) = fs
      in sd_detached s = None \<and>
         (\<exists>ds. fd_cases f = remove_case # map live_case ds \<and> mset ds = mset cs \<and>
               mset (sd_log s) = mset (drop (sd_len s - 1) ds)) \<and>
         0 < sd_len s \<and> sd_len s + sd_nsent s = Suc (length cs) \<and> sd_nsent s = length (sd_log s) \<and>
         sd_pc s \<noteq> Panicked \<and> (sd_pc s = Finished \<longrightarrow> sd_len s = 1) \<and>
         (sd_pc s = Selecting \<longrightarrow> 1 < sd_len s) \<and>
         (\<forall>i. sd_pc s = Trying i \<longrightarrow> 0 < i))"

lemma live_case_simps [simp]:
  "sc_chan (live_case c) = Some c" "sc_send (live_case c)" "sc_dir (live_case c) = SelectSend"
  by (simp_all add: live_case_def sub_case_def)

lemma sd_cases_shared:
  "sd_detached s = None \<Longrightarrow> sd_len s \<le> length (fd_cases f) \<Longrightarrow> sd_cases f s = take (sd_len s) (fd_cases f)"
  by (simp add: sd_cases_def sd_array_def)

lemma deactivate_shared:
  assumes "sd_detached s = None" "i < sd_len s" "sd_len s \<le> length (fd_cases f)"
  shows "deactivate i (f, s) =
    (f\<lparr>fd_cases := swap_last (fd_cases f) i (sd_len s - 1)\<rparr>, s\<lparr>sd_len := sd_len s - 1\<rparr>)"
  using assms
  by (simp add: deactivate_def sd_array_def swap_last_def Let_def nth_append list_update_append)

lemma drop_swap:
  assumes "i < n" "n \<le> length ds"
  shows "drop (n - 1) (ds[i := ds ! (n - 1), n - 1 := ds ! i]) = ds ! i # drop n ds"
proof -
  obtain k where k: "n = Suc k" using assms(1) by (cases n) auto
  let ?e = "ds[i := ds ! k, k := ds ! i]"
  have "k < length ?e" using k assms by simp
  then have "drop k ?e = ?e ! k # drop (Suc k) ?e" by (simp only: Cons_nth_drop_Suc)
  moreover have "drop (Suc k) ?e = drop (Suc k) ds"
    using assms(1) k drop_update_cancel [of i "Suc k"] drop_update_cancel [of k "Suc k"] by simp
  moreover have "?e ! k = ds ! i" using k assms by simp
  ultimately show ?thesis using k by simp
qed

text \<open>One successful send.\<close>

lemma sent_inv:
  assumes inv: "send_inv cs (f, s)" and i: "0 < i" "i < sd_len s"
    and c: "sc_chan (sd_cases f s ! i) = Some c"
    and pc: "pc = Trying j" "0 < j"
  shows "send_inv cs (goto pc (count_send (Some c) (deactivate i (f, s))))"
proof -
  obtain ds where sh: "sd_detached s = None" and ds: "fd_cases f = remove_case # map live_case ds"
    "mset ds = mset cs" "mset (sd_log s) = mset (drop (sd_len s - 1) ds)"
    and n: "sd_len s + sd_nsent s = Suc (length cs)" "sd_nsent s = length (sd_log s)"
    using inv by (auto simp: send_inv_def)
  have lds: "length ds = length cs" using ds(2) by (metis size_mset)
  then have le: "sd_len s \<le> length (fd_cases f)" using n(1) ds(1) by simp
  obtain i' where i': "i = Suc i'" using i(1) by (cases i) auto
  obtain n' where n': "sd_len s = Suc n'" using i(2) by (cases "sd_len s") auto
  have r: "i' < n'" "n' \<le> length ds" using i i' n' n(1) lds by simp_all
  have "c = ds ! i'"
    using c i(2) r unfolding sd_cases_shared [OF sh le] by (simp add: ds(1) i')
  moreover obtain k where k: "n' = Suc k" using r(1) by (cases n') auto
  let ?ds = "ds[i' := ds ! k, k := ds ! i']"
  have "swap_last (fd_cases f) i (sd_len s - 1) = remove_case # map live_case ?ds"
    using r k by (simp add: swap_last_def ds(1) i' n' map_update)
  moreover have "mset ?ds = mset cs" using r k ds(2) by (simp add: mset_swap)
  moreover have "drop k ?ds = ds ! i' # drop n' ds" using drop_swap [OF r] k by simp
  ultimately show ?thesis
    using sh n r pc ds(3) lds
    by (auto simp: send_inv_def deactivate_shared [OF sh i(2) le] count_send_def goto_def n' k
        intro!: exI [of _ ?ds])
qed

lemma send_cases_ok:
  assumes "send_inv cs (f, s)"
  shows "\<not> list_ex bad_case (sd_cases f s)" "sc_chan (sd_cases f s ! 0) = None"
    "0 < i \<Longrightarrow> i < sd_len s \<Longrightarrow> sc_chan (sd_cases f s ! i) \<noteq> None"
proof -
  obtain ds where sh: "sd_detached s = None" and ds: "fd_cases f = remove_case # map live_case ds"
    "mset ds = mset cs" and n: "0 < sd_len s" "sd_len s + sd_nsent s = Suc (length cs)"
    using assms by (auto simp: send_inv_def)
  have lds: "length ds = length cs" using ds(2) by (metis size_mset)
  then have le: "sd_len s \<le> length (fd_cases f)" using n(2) ds(1) by simp
  have bad: "\<not> bad_case (live_case c)" "\<not> bad_case remove_case" for c :: 'a
    by (simp_all add: bad_case_def remove_case_def)
  obtain n' where n': "sd_len s = Suc n'" using n(1) by (cases "sd_len s") auto
  show "\<not> list_ex bad_case (sd_cases f s)"
    using bad unfolding sd_cases_shared [OF sh le]
    by (auto simp: ds(1) n' take_map list_ex_iff)
  show "sc_chan (sd_cases f s ! 0) = None"
    unfolding sd_cases_shared [OF sh le] by (simp add: ds(1) n' remove_case_def)
  show "sc_chan (sd_cases f s ! i) \<noteq> None" if "0 < i" "i < sd_len s"
    using that le unfolding sd_cases_shared [OF sh le] by (cases i) (simp_all add: ds(1) n')
qed

lemma goto_pc [simp]: "goto pc (f, s\<lparr>sd_pc := pc'\<rparr>) = goto pc (f, s)"
  by (simp add: goto_def)

lemma send_step_inv: "send_step typed extra {} {} fs fs' \<Longrightarrow> send_inv cs fs \<Longrightarrow> send_inv cs fs'"
proof (induction rule: send_step.induct)
  case (try_sent s i f c)
  then have i: "0 < i" by (auto simp: send_inv_def)
  have "send_inv cs (goto (Trying i) (count_send (Some c) (deactivate i (f, s))))"
    by (rule sent_inv [OF try_sent.prems i try_sent.hyps(2,3) refl i])
  moreover have "goto (Trying i) (count_send (Some c) (deactivate i (f, s))) = count_send (Some c) (deactivate i (f, s))"
    using try_sent.hyps(1) by (cases "sd_detached s") (simp_all add: goto_def count_send_def deactivate_def Let_def)
  ultimately show ?case by simp
next
  case (try_full s i f)
  then show ?case by (auto simp: send_inv_def goto_def)
next
  case (try_type s i f)
  then have "0 < i" by (auto simp: send_inv_def)
  then show ?case using send_cases_ok(3) [OF try_type.prems] try_type.hyps by blast
next
  case (try_end s i f)
  then show ?case by (auto simp: send_inv_def goto_def firstSubSendCase_def)
next
  case (sel_panic s f)
  then show ?case using send_cases_ok(1) by blast
next
  case (sel_sent s f j c)
  show ?case
    by (rule sent_inv [OF sel_sent.prems sel_sent.hyps(3,4,5) refl]) (simp add: firstSubSendCase_def)
qed simp_all

lemma send_steps_inv: "(send_step typed extra {} {})\<^sup>*\<^sup>* fs fs' \<Longrightarrow> send_inv cs fs \<Longrightarrow> send_inv cs fs'"
  by (induction rule: rtranclp_induct) (auto intro: send_step_inv)

lemma start_inv:
  assumes "fd_cases f = remove_case # map sub_case cs"
  shows "send_inv cs (start_loop f)"
  using assms
  by (auto simp: send_inv_def start_loop_def set_sends_def firstSubSendCase_def live_case_def comp_def
      intro!: exI [of _ cs])

text \<open>A feed that no \<open>Send\<close> is using, with the channels in \<open>sendCases\<close> and in the inbox.\<close>

definition feed_idle :: "('c, 't) feed \<Rightarrow> 'c list \<Rightarrow> 'c list \<Rightarrow> bool" where
  "feed_idle f old new \<longleftrightarrow>
     fd_once f \<and> fd_lock f \<and> fd_cases f = remove_case # map sub_case old \<and> fd_inbox f = map sub_case new"

text \<open>The start of a \<open>Send\<close>, of either kind.\<close>

definition send_starts :: "(nat \<Rightarrow> nat) \<Rightarrow> ('c, 't) feed \<Rightarrow> ('c, 't) feed \<times> 'c sending \<Rightarrow> bool" where
  "send_starts extra f fs \<longleftrightarrow> fs = feedOf_Send extra f \<or> (\<exists>typ. feed_Send extra f typ = Inl fs)"

lemma send_begin_cases:
  "fd_once f \<Longrightarrow> fd_cases (send_begin extra (feed_init f)) = fd_cases f @ fd_inbox f"
  "fd_once f \<Longrightarrow> fd_inbox (send_begin extra (feed_init f)) = []"
  "fd_once f \<Longrightarrow> fd_once (send_begin extra (feed_init f))"
  by (simp_all add: send_begin_def feed_init_def Let_def)

lemma typecheck_frame:
  "feed_typecheck f typ = (f', ok) \<Longrightarrow> fd_cases f' = fd_cases f \<and> fd_inbox f' = fd_inbox f \<and> fd_once f' = fd_once f"
  by (auto simp: feed_typecheck_def split: option.splits)

lemma send_starts_loop:
  assumes "send_starts extra f fs" "fd_once f"
  obtains f0 where "fs = start_loop f0" "fd_cases f0 = fd_cases f @ fd_inbox f" "fd_inbox f0 = []" "fd_once f0"
proof (cases "fs = feedOf_Send extra f")
  case True
  then show ?thesis
    using that [of "send_begin extra (feed_init f)"] assms(2) by (simp add: feedOf_Send_def send_begin_cases)
next
  case False
  then obtain ty where ty: "feed_Send extra f ty = Inl fs"
    using assms(1) by (auto simp: send_starts_def)
  obtain f1 ok where t: "feed_typecheck (send_begin extra (feed_init f)) ty = (f1, ok)" by fastforce
  with ty have "fs = start_loop f1" by (simp add: feed_Send_def split: if_splits)
  then show ?thesis
    using that [of f1] typecheck_frame [OF t] assms(2) by (simp add: send_begin_cases)
qed

lemma send_starts_inv:
  "send_starts extra f fs \<Longrightarrow> feed_idle f old new \<Longrightarrow> send_inv (old @ new) fs \<and> fd_inbox (fst fs) = [] \<and> fd_once (fst fs)"
proof -
  assume s: "send_starts extra f fs" and i: "feed_idle f old new"
  then obtain f0 where f0: "fs = start_loop f0" "fd_cases f0 = remove_case # map sub_case (old @ new)"
      "fd_inbox f0 = []" "fd_once f0"
    by (elim send_starts_loop) (auto simp: feed_idle_def)
  then show ?thesis using start_inv [OF f0(2)] by (simp add: start_loop_def)
qed

lemma Subscribe_idle:
  assumes "feed_idle f old new"
  shows "feed_idle (feedOf_Subscribe f c) old (new @ [c])"
    and "feed_Subscribe f c kind = (f', None) \<Longrightarrow> feed_idle f' old (new @ [c])"
    and "feed_idle (feedOf_Subscribe feed_zero c) [] [c]"
  using assms
  by (auto simp: feed_idle_def feedOf_Subscribe_def feed_Subscribe_def feed_init_def feed_zero_def
      feed_typecheck_def Let_def split: option.splits if_splits)

lemma deactivate_frame:
  "fd_inbox (fst (deactivate i fs)) = fd_inbox (fst fs)" "fd_once (fst (deactivate i fs)) = fd_once (fst fs)"
  by (simp_all add: deactivate_def Let_def split: prod.split option.split)

lemma count_goto_fst [simp]: "fst (count_send c fs) = fst fs" "fst (goto pc fs) = fst fs"
  by (simp_all add: count_send_def goto_def split: prod.split)

lemma send_step_frame:
  "send_step typed extra {} {} fs fs' \<Longrightarrow>
   fd_inbox (fst fs') = fd_inbox (fst fs) \<and> fd_once (fst fs') = fd_once (fst fs)"
  by (induction rule: send_step.induct) (simp_all add: deactivate_frame)

lemma send_steps_frame:
  "(send_step typed extra {} {})\<^sup>*\<^sup>* fs fs' \<Longrightarrow>
   fd_inbox (fst fs') = fd_inbox (fst fs) \<and> fd_once (fst fs') = fd_once (fst fs)"
  by (induction rule: rtranclp_induct) (auto dest: send_step_frame)

text \<open>Each step brings the loop closer to its end.\<close>

definition send_rank :: "('c, 't) feed \<times> 'c sending \<Rightarrow> nat \<times> nat" where
  "send_rank fs =
     (sd_len (snd fs),
      case sd_pc (snd fs) of Trying i \<Rightarrow> 2 + (sd_len (snd fs) - i) | Selecting \<Rightarrow> 1 | _ \<Rightarrow> 0)"

lemma len_deactivate [simp]: "sd_len (snd (deactivate i (f, s))) = sd_len s - 1"
  by (simp add: deactivate_def Let_def split: option.split)

lemma len_count_goto [simp]:
  "sd_len (snd (count_send c fs)) = sd_len (snd fs)" "sd_len (snd (goto pc fs)) = sd_len (snd fs)"
  "sd_pc (snd (goto pc fs)) = pc"
  by (simp_all add: count_send_def goto_def split: prod.split)

lemma send_step_rank:
  "send_step typed extra {} closes fs fs' \<Longrightarrow> (send_rank fs', send_rank fs) \<in> less_than <*lex*> less_than"
  by (induction rule: send_step.induct) (auto simp: send_rank_def)

text \<open>Some step is possible until the loop is finished: a receiver may accept.\<close>

lemma send_step_possible:
  assumes "send_inv cs (f, s)" "sd_pc s \<noteq> Finished"
  shows "\<exists>fs'. send_step typed extra {} {} (f, s) fs'"
proof (cases "sd_pc s")
  case (Trying i)
  then have "0 < i" using assms(1) by (auto simp: send_inv_def)
  show ?thesis
  proof (cases "i < sd_len s")
    case True
    then have "sc_chan (sd_cases f s ! i) \<noteq> None"
      using send_cases_ok(3) [OF assms(1)] \<open>0 < i\<close> by blast
    then show ?thesis using try_full [of s i typed f] Trying True by blast
  next
    case False
    then show ?thesis using try_end [of s i typed extra "{}" "{}" f] Trying by blast
  qed
next
  case Selecting
  then have "1 < sd_len s" using assms(1) by (simp add: send_inv_def)
  moreover from this obtain c where "sc_chan (sd_cases f s ! 1) = Some c"
    using send_cases_ok(3) [OF assms(1), of 1] by auto
  ultimately have "send_step typed extra {} {} (f, s)
      (goto (Trying firstSubSendCase) (count_send (Some c) (deactivate 1 (f, s))))"
    using Selecting send_cases_ok(1) [OF assms(1)] by (intro sel_sent) simp_all
  then show ?thesis by blast
next
  case Panicked
  then show ?thesis using assms(1) by (simp add: send_inv_def)
qed (use assms in simp)

section \<open>Removing a subscription\<close>

text \<open>
  \<open>delete\<close> copies the front of the list instead of the back. In \<open>sendCases\<close> this puts a second
  case for \<open>removeSub\<close> behind the first; once \<open>Send\<close> has set its value, \<open>Select\<close> refuses the list.
\<close>

definition poison_inv :: "('c, 't) feed \<times> 'c sending \<Rightarrow> bool" where
  "poison_inv fs \<longleftrightarrow>
     (let (f, s) = fs
      in sd_detached s = None \<and> sd_len s \<le> length (fd_cases f) \<and> sd_pc s \<noteq> Finished \<and>
         (\<forall>i. sd_pc s = Trying i \<longrightarrow> 0 < i) \<and>
         (\<exists>k. 0 < k \<and> k < sd_len s \<and> sc_chan (fd_cases f ! k) = None \<and> bad_case (fd_cases f ! k)))"

lemma poison_bad: "poison_inv (f, s) \<Longrightarrow> list_ex bad_case (sd_cases f s)"
proof -
  assume "poison_inv (f, s)"
  then obtain k where sh: "sd_detached s = None" "sd_len s \<le> length (fd_cases f)"
    and k: "k < sd_len s" "bad_case (fd_cases f ! k)"
    by (auto simp: poison_inv_def)
  have "fd_cases f ! k = sd_cases f s ! k" "k < length (sd_cases f s)"
    using k sh by (simp_all add: sd_cases_shared)
  then show ?thesis using k(2) by (metis list_ex_iff nth_mem)
qed

lemma poison_step: "send_step typed extra removals closes fs fs' \<Longrightarrow> poison_inv fs \<Longrightarrow> poison_inv fs'"
proof (induction rule: send_step.induct)
  case (try_sent s i f c)
  then obtain k where sh: "sd_detached s = None" "sd_len s \<le> length (fd_cases f)" "sd_pc s \<noteq> Finished"
    and k: "0 < k" "k < sd_len s" "sc_chan (fd_cases f ! k) = None" "bad_case (fd_cases f ! k)" and i: "0 < i"
    by (auto simp: poison_inv_def)
  have ki: "k \<noteq> i" using try_sent.hyps(2,3) k(3) sd_cases_shared [OF sh(1,2)] by auto
  define l where "l = sd_len s - 1"
  define k' where "k' = (if k = l then i else k)"
  have "0 < k'" "k' < l" "swap_last (fd_cases f) i l ! k' = fd_cases f ! k"
    using k ki i try_sent.hyps(2) sh(2) by (auto simp: k'_def l_def swap_last_def nth_list_update)
  then show ?case
    using try_sent.hyps(1) k(3,4) sh
    by (auto simp: poison_inv_def deactivate_shared [OF sh(1) try_sent.hyps(2) sh(2)] count_send_def l_def swap_last_def i
        intro!: exI [of _ k'])
next
  case (sel_panic s f)
  then show ?case by (auto simp: poison_inv_def goto_def)
next
  case (sel_sent s f j c)
  then show ?case using poison_bad by blast
next
  case (sel_removed s f c)
  then show ?case using poison_bad by blast
next
  case (sel_swallowed s f c j)
  then show ?case using poison_bad by blast
qed (auto simp: poison_inv_def goto_def firstSubSendCase_def)

lemma poison_steps: "(send_step typed extra removals closes)\<^sup>*\<^sup>* fs fs' \<Longrightarrow> poison_inv fs \<Longrightarrow> poison_inv fs'"
  by (induction rule: rtranclp_induct) (auto intro: poison_step)


lemma find_from_range: "find_from m cs c = - 1 \<or> (\<exists>k. find_from m cs c = int k \<and> k < m + length cs \<and> m \<le> k \<and> sc_chan (cs ! (k - m)) = Some c)"
proof (induction cs arbitrary: m)
  case (Cons a cs)
  then show ?case using Cons.IH [of "Suc m"] by (auto simp: Suc_diff_le)
qed simp

lemma find_from_None: "find_from m cs c = - 1 \<longleftrightarrow> (\<forall>x\<in>set cs. sc_chan x \<noteq> Some c)"
  by (induction cs arbitrary: m) auto

lemma find_idle:
  assumes "c \<in> set cs"
  shows "\<exists>k<length cs. caseList_find (map sub_case cs) c = int k \<and> cs ! k = c"
    and "\<exists>k<length cs. caseList_find (remove_case # map sub_case cs) c = int (Suc k) \<and> cs ! k = c"
proof -
  have "find_from m (map sub_case cs) c \<noteq> - 1" for m
    using assms find_from_None [of m "map sub_case cs" c] by (auto simp: sub_case_def)
  then have r: "\<exists>k. find_from m (map sub_case cs) c = int k \<and> k < m + length cs \<and> m \<le> k \<and> cs ! (k - m) = c" for m
    using find_from_range [of m "map sub_case cs" c] by (auto simp: sub_case_def)
  show "\<exists>k<length cs. caseList_find (map sub_case cs) c = int k \<and> cs ! k = c"
    using r [of 0] by (auto simp: caseList_find_def)
  show "\<exists>k<length cs. caseList_find (remove_case # map sub_case cs) c = int (Suc k) \<and> cs ! k = c"
    using r [of 1] by (force simp: caseList_find_def remove_case_def intro: exI [of _ "k - 1" for k])
qed

lemma delete_case_Some:
  "caseList_delete (fd_cases f) i = Some cs \<Longrightarrow>
   \<exists>f' moved. delete_case extra f i = Some (f', moved) \<and> fd_cases f' = cs \<and> fd_once f' = fd_once f"
  by (auto simp: delete_case_def Let_def)

section \<open>Properties\<close>

lemma Send_exactly_once_parts:
  assumes "feed_idle f old new" "send_starts extra f fs" "(send_step typed extra {} {})\<^sup>*\<^sup>* fs (f', s)"
  shows "sd_pc s \<noteq> Panicked"
    and "sd_pc s \<noteq> Finished \<Longrightarrow> \<exists>fs'. send_step typed extra {} {} (f', s) fs'"
    and "sd_pc s = Finished \<Longrightarrow> mset (sd_log s) = mset (old @ new) \<and> snd (send_end (f', s)) = length (old @ new) \<and>
       (\<exists>ds. mset ds = mset (old @ new) \<and> feed_idle (fst (send_end (f', s))) ds [])"
proof -
  note i = send_starts_inv [OF assms(2,1)]
  have inv: "send_inv (old @ new) (f', s)" using send_steps_inv [OF assms(3)] i by blast
  have fr: "fd_inbox f' = []" "fd_once f'" using send_steps_frame [OF assms(3)] i by simp_all
  show "sd_pc s \<noteq> Panicked" using inv by (simp add: send_inv_def)
  show "\<exists>fs'. send_step typed extra {} {} (f', s) fs'" if "sd_pc s \<noteq> Finished"
    using send_step_possible [OF inv that] .
  assume fin: "sd_pc s = Finished"
  obtain ds where ds: "fd_cases f' = remove_case # map live_case ds" "mset ds = mset (old @ new)"
    "mset (sd_log s) = mset (drop (sd_len s - 1) ds)" and n: "sd_len s = 1" "sd_len s + sd_nsent s = Suc (length (old @ new))"
    using inv fin unfolding send_inv_def prod.case Let_def by metis
  have "feed_idle (fst (send_end (f', s))) ds []"
    using fr by (simp add: feed_idle_def send_end_def ds(1) set_sends_def firstSubSendCase_def live_case_def
        remove_case_def sub_case_def comp_def)
  then show "mset (sd_log s) = mset (old @ new) \<and> snd (send_end (f', s)) = length (old @ new) \<and>
       (\<exists>ds. mset ds = mset (old @ new) \<and> feed_idle (fst (send_end (f', s))) ds [])"
    using ds n by (auto simp: send_end_def)
qed

text \<open>
  C6. A \<open>Send\<close> on a feed with subscribed channels, while none is being removed and no receiver
  closes its channel: whatever else the receivers do, the loop does not panic, it can always go on when some receiver accepts, and when it is
  finished every channel has got the value exactly once, the count is their number, and the feed is
  ready for the next \<open>Send\<close> with the same channels.
\<close>
theorem Send_exactly_once:
  assumes "feed_idle f old new" "send_starts extra f fs" "(send_step typed extra {} {})\<^sup>*\<^sup>* fs (f', s)"
  shows "(sd_pc s \<noteq> Panicked) \<and>
    (sd_pc s \<noteq> Finished \<longrightarrow> (\<exists>fs'. send_step typed extra {} {} (f', s) fs')) \<and>
    (sd_pc s = Finished \<longrightarrow> (mset (sd_log s) = mset (old @ new) \<and> snd (send_end (f', s)) = length (old @ new) \<and>
       (\<exists>ds. mset ds = mset (old @ new) \<and> feed_idle (fst (send_end (f', s))) ds [])))"
  by (rule conjI, rule Send_exactly_once_parts(1) [OF assms],
      rule conjI, rule impI, rule Send_exactly_once_parts(2) [OF assms], assumption,
      rule impI, rule Send_exactly_once_parts(3) [OF assms], assumption)

text \<open>
  The loop of \<open>Send\<close> ends: there is no infinite sequence of its steps, whether or not the
  receivers accept or close their channels, so that \<open>Send\<close> is done or panics or waits in \<open>Select\<close> for a receiver.
\<close>
theorem Send_terminates:
  "\<not> (\<exists>run. send_starts extra f (run 0) \<and> (\<forall>n. send_step typed extra {} closes (run n) (run (Suc n))))"
proof
  assume "\<exists>run. send_starts extra f (run 0) \<and> (\<forall>n. send_step typed extra {} closes (run n) (run (Suc n)))"
  then obtain run where "send_starts extra f (run 0)" "\<forall>n. send_step typed extra {} closes (run n) (run (Suc n))" by blast
  then have down: "(send_rank (run (Suc n)), send_rank (run n)) \<in> less_than <*lex*> less_than" for n
    using send_step_rank by blast
  have "wf (less_than <*lex*> less_than)" by (simp add: wf_lex_prod)
  then obtain n where "(send_rank (run (Suc n)), send_rank (run n)) \<notin> less_than <*lex*> less_than"
    by (rule wf_no_infinite_down_chainE [where f = "\<lambda>n. send_rank (run n)"])
  then show False using down by blast
qed

lemma Unsubscribe_breaks_feed_parts:
  assumes "feed_idle f old new"
  shows "c \<in> set new \<Longrightarrow> \<exists>f' k. feed_remove extra f c = Some f' \<and> k < length new \<and> new ! k = c \<and>
      feed_idle f' old (take k new @ take (k + 1) new) \<and> c \<in> set (take k new @ take (k + 1) new)"
    and "c \<notin> set new \<Longrightarrow> c \<in> set old \<Longrightarrow>
      \<exists>f'. feed_remove extra f c = Some f' \<and> (\<exists>x\<in>set (fd_cases f'). sc_chan x = Some c) \<and>
        (\<forall>typed removals closes fs fs'. send_starts extra f' fs \<longrightarrow> (send_step typed extra removals closes)\<^sup>*\<^sup>* fs fs' \<longrightarrow>
           sd_pc (snd fs') \<noteq> Finished)"
    and "c \<notin> set new \<Longrightarrow> c \<notin> set old \<Longrightarrow> feed_remove extra f c = None"
proof -
  have once: "fd_once f" and cases: "fd_cases f = remove_case # map sub_case old" and inbox: "fd_inbox f = map sub_case new"
    using assms by (simp_all add: feed_idle_def)
  show "\<exists>f' k. feed_remove extra f c = Some f' \<and> k < length new \<and> new ! k = c \<and>
      feed_idle f' old (take k new @ take (k + 1) new) \<and> c \<in> set (take k new @ take (k + 1) new)" if c: "c \<in> set new"
  proof -
    obtain k where k: "k < length new" "caseList_find (map sub_case new) c = int k" "new ! k = c"
      using find_idle(1) [OF c] by blast
    then have "feed_remove extra f c = Some (f\<lparr>fd_inbox := map sub_case (take k new @ take (k + 1) new)\<rparr>)"
      by (simp add: feed_remove_def remove_inbox_def inbox caseList_delete_def take_map)
    moreover have "c \<in> set (take (k + 1) new)" using k by (simp add: take_Suc_conv_app_nth)
    ultimately show ?thesis using k assms by (auto simp: feed_idle_def)
  qed
  have out: "c \<notin> set new \<Longrightarrow> feed_remove extra f c = remove_idle extra f c"
    using find_from_None [of 0 "map sub_case new" c]
    by (simp add: feed_remove_def remove_inbox_def inbox caseList_find_def sub_case_def)
  show "feed_remove extra f c = None" if "c \<notin> set new" "c \<notin> set old"
  proof -
    have "caseList_find (fd_cases f) c = - 1"
      using that(2) find_from_None [of 0 "fd_cases f" c]
      by (auto simp: caseList_find_def cases sub_case_def remove_case_def)
    then show ?thesis
      using out [OF that(1)] by (simp add: remove_idle_def delete_case_def caseList_delete_def)
  qed
  assume c: "c \<notin> set new" "c \<in> set old"
  obtain k where k: "k < length old" "caseList_find (fd_cases f) c = int (Suc k)" "old ! k = c"
    using find_idle(2) [OF c(2)] cases by auto
  let ?cs = "take (Suc k) (fd_cases f) @ take (Suc k + 1) (fd_cases f)"
  have del: "caseList_delete (fd_cases f) (int (Suc k)) = Some ?cs"
    using k(1) by (simp add: caseList_delete_def cases nat_add_distrib)
  obtain f' where f': "feed_remove extra f c = Some f'" "fd_cases f' = ?cs" "fd_once f'"
    using delete_case_Some [OF del, of extra] out [OF c(1)] once by (auto simp: remove_idle_def k(2))
  have "fd_cases f ! Suc k = sub_case c" using k by (simp add: cases)
  then have "sub_case c \<in> set ?cs" using k(1) by (auto simp: cases take_Suc_conv_app_nth)
  then have "\<exists>x\<in>set (fd_cases f'). sc_chan x = Some c" unfolding f'(2) by (force simp: sub_case_def)
  moreover have "sd_pc (snd fs') \<noteq> Finished"
    if st: "send_starts extra f' fs" "(send_step typed extra removals closes)\<^sup>*\<^sup>* fs fs'" for typed removals closes fs fs'
  proof -
    obtain f0 where f0: "fs = start_loop f0" "fd_cases f0 = ?cs @ fd_inbox f'"
      using send_starts_loop [OF st(1) f'(3)] f'(2) by metis
    have nth: "fd_cases f0 ! Suc k = remove_case" "length (fd_cases f0) > Suc k"
      using k(1) by (simp_all add: f0(2) cases nth_append)
    have "poison_inv fs"
      unfolding f0(1) poison_inv_def start_loop_def
      using nth by (auto simp: set_sends_def firstSubSendCase_def nth_append bad_case_def remove_case_def
          intro!: exI [of _ "Suc k"])
    then have "poison_inv fs'" using poison_steps st(2) by blast
    then show ?thesis by (auto simp: poison_inv_def)
  qed
  ultimately show "\<exists>f'. feed_remove extra f c = Some f' \<and> (\<exists>x\<in>set (fd_cases f'). sc_chan x = Some c) \<and>
        (\<forall>typed removals closes fs fs'. send_starts extra f' fs \<longrightarrow> (send_step typed extra removals closes)\<^sup>*\<^sup>* fs fs' \<longrightarrow>
           sd_pc (snd fs') \<noteq> Finished)"
    using f'(1) by blast
qed

text \<open>
  C22. Unsubscribing does not unsubscribe. \<open>delete\<close> keeps the channel where it is found: one that is
  still in the inbox stays there. One that an earlier \<open>Send\<close> has moved to \<open>sendCases\<close> stays there
  too, and from then on no \<open>Send\<close> on the feed, of either kind and with any removals, ever finishes. A
  channel in neither list makes \<open>Unsubscribe\<close> panic.
\<close>
theorem Unsubscribe_breaks_feed:
  assumes "feed_idle f old new"
  shows "(c \<in> set new \<longrightarrow> (\<exists>f' k. feed_remove extra f c = Some f' \<and> k < length new \<and> new ! k = c \<and>
      feed_idle f' old (take k new @ take (k + 1) new) \<and> c \<in> set (take k new @ take (k + 1) new))) \<and>
    (c \<notin> set new \<longrightarrow> c \<in> set old \<longrightarrow> (\<exists>f'. feed_remove extra f c = Some f' \<and> (\<exists>x\<in>set (fd_cases f'). sc_chan x = Some c) \<and>
        (\<forall>typed removals closes fs fs'. send_starts extra f' fs \<longrightarrow> (send_step typed extra removals closes)\<^sup>*\<^sup>* fs fs' \<longrightarrow>
           sd_pc (snd fs') \<noteq> Finished))) \<and>
    (c \<notin> set new \<longrightarrow> c \<notin> set old \<longrightarrow> feed_remove extra f c = None)"
  by (rule conjI, rule impI, rule Unsubscribe_breaks_feed_parts(1) [OF assms], assumption,
      rule conjI, rule impI, rule impI, rule Unsubscribe_breaks_feed_parts(2) [OF assms], assumption, assumption,
      rule impI, rule impI, rule Unsubscribe_breaks_feed_parts(3) [OF assms], assumption, assumption)

text \<open>A feed with two channels that a \<open>Send\<close> has seen and one in the inbox, for the witnesses.\<close>

definition feed_example :: "(nat, unit) feed" where
  "feed_example = \<lparr>fd_once = True, fd_lock = True, fd_cases = remove_case # map sub_case [7, 8], fd_spare = [],
     fd_inbox = map sub_case [9], fd_etype = Some ()\<rparr>"

lemma feed_example_idle: "feed_idle feed_example [7, 8] [9]"
  by (simp add: feed_idle_def feed_example_def)

theorem Send_exactly_once_witness:
  "\<exists>f' s. (send_step False (\<lambda>_. 0) {} {})\<^sup>*\<^sup>* (feedOf_Send (\<lambda>_. 0) (feedOf_Subscribe (feed_zero :: (nat, unit) feed) 7)) (f', s) \<and>
     sd_pc s = Finished \<and> mset (sd_log s) = {#7#} \<and> snd (send_end (f', s)) = 1"
proof -
  let ?f = "feedOf_Subscribe feed_zero (7 :: nat) :: (nat, unit) feed" and ?step = "send_step False (\<lambda>_. 0) {} {}"
  have idle: "feed_idle ?f [] [7]" by (rule Subscribe_idle(3) [OF feed_example_idle])
  obtain f s where s0: "feedOf_Send (\<lambda>_. 0) ?f = (f, s)" by fastforce
  then have f: "fd_cases f = [remove_case, live_case 7]" "sd_len s = 2" "sd_detached s = None" "sd_pc s = Trying 1"
    by (auto simp: feedOf_Send_def feedOf_Subscribe_def feed_init_def feed_zero_def send_begin_def start_loop_def
        set_sends_def firstSubSendCase_def live_case_def Let_def)
  let ?s1 = "count_send (Some 7) (deactivate 1 (f, s))"
  have c: "sc_chan (sd_cases f s ! 1) = Some 7" by (simp add: sd_cases_def sd_array_def f)
  have "?step (f, s) ?s1" by (rule try_sent [OF f(4) _ c]) (simp add: f)
  moreover obtain f1 s1 where s1: "?s1 = (f1, s1)" by fastforce
  then have "sd_len s1 = 1" "sd_pc s1 = Trying 1"
    by (auto simp: deactivate_shared f count_send_def)
  then have "?step (f1, s1) (goto Finished (f1, s1))"
    using try_end [of s1 1 False "\<lambda>_. 0" "{}" "{}" f1] by (simp add: firstSubSendCase_def)
  ultimately have run: "?step\<^sup>*\<^sup>* (feedOf_Send (\<lambda>_. 0) ?f) (f1, s1\<lparr>sd_pc := Finished\<rparr>)"
    unfolding s0 s1 by (simp add: goto_def)
  have "send_starts (\<lambda>_. 0) ?f (feedOf_Send (\<lambda>_. 0) ?f)" by (simp add: send_starts_def)
  from Send_exactly_once [THEN conjunct2, THEN conjunct2, rule_format, OF idle this run] run show ?thesis
    by (intro exI [of _ f1] exI [of _ "s1\<lparr>sd_pc := Finished\<rparr>"]) simp
qed

theorem Unsubscribe_breaks_feed_witness:
  "(\<exists>f'. feed_remove (\<lambda>_. 0) feed_example 9 = Some f' \<and> feed_idle f' [7, 8] [9]) \<and>
   (\<exists>f'. feed_remove (\<lambda>_. 0) feed_example 7 = Some f' \<and> (\<exists>x\<in>set (fd_cases f'). sc_chan x = Some 7)) \<and>
   feed_remove (\<lambda>_. 0) feed_example 5 = None"
  using Unsubscribe_breaks_feed [THEN conjunct1, rule_format, OF feed_example_idle, of 9 "\<lambda>_. 0"]
    Unsubscribe_breaks_feed [THEN conjunct2, THEN conjunct1, rule_format, OF feed_example_idle, of 7 "\<lambda>_. 0"]
    Unsubscribe_breaks_feed [THEN conjunct2, THEN conjunct2, rule_format, OF feed_example_idle, of 5 "\<lambda>_. 0"]
  by auto

end
