(* ===== verification/Type_Mux.thy ===== *)
theory Type_Mux
  imports Go_Prelude
begin

text \<open>
  \<open>src/event/event.go\<close>: the multiplexer \<open>TypeMux\<close>. Types are values of an arbitrary type, a
  subscription is a number, and its state is kept in a store; times are natural numbers. The methods
  run under the mutex. What \<open>Post\<close> does after it has taken the list of subscribers is the sequence
  of deliveries it starts, each of which waits for the receiver or for the subscription to close.
\<close>

section \<open>The multiplexer\<close>

record muxSub =
  ms_created :: nat
  ms_closed :: bool
  ms_closing :: bool
  ms_posting :: bool

text \<open>\<open>ms_closing\<close>: the channel \<open>closing\<close> is closed; \<open>ms_posting\<close>: \<open>postC\<close> is open.\<close>

record 't mux =
  subm :: "'t \<Rightarrow> nat list option"
  mux_stopped :: bool
  mux_subs :: "nat \<Rightarrow> muxSub"
  mux_next :: nat

definition mux_zero :: "'t mux" where
  "mux_zero = \<lparr>subm = Map.empty, mux_stopped = False,
     mux_subs = (\<lambda>_. \<lparr>ms_created = 0, ms_closed = False, ms_closing = False, ms_posting = False\<rparr>), mux_next = 0\<rparr>"

text \<open>A missing key of a Go map reads as the zero value.\<close>

definition subs_of :: "'t mux \<Rightarrow> 't \<Rightarrow> nat list" where
  "subs_of m t = (case subm m t of None \<Rightarrow> [] | Some xs \<Rightarrow> xs)"

fun mux_find_from :: "nat \<Rightarrow> nat list \<Rightarrow> nat \<Rightarrow> int" where
  "mux_find_from i [] item = - 1"
| "mux_find_from i (v # vs) item = (if v = item then int i else mux_find_from (Suc i) vs item)"

definition mux_find :: "nat list \<Rightarrow> nat \<Rightarrow> int" where
  "mux_find xs item = mux_find_from 0 xs item"

definition posdelete :: "nat list \<Rightarrow> nat \<Rightarrow> nat list" where
  "posdelete xs pos =
     (let news = replicate (length xs - 1) 0;
          news = go_copy (take pos news) (take pos xs) @ drop pos news
      in take pos news @ go_copy (drop pos news) (drop (pos + 1) xs))"

definition newsub :: "nat \<Rightarrow> muxSub" where
  "newsub time = \<lparr>ms_created = time, ms_closed = False, ms_closing = False, ms_posting = True\<rparr>"

text \<open>The loop of \<open>Subscribe\<close>; the flag is the panic on a duplicate type.\<close>

fun subscribe_types :: "nat \<Rightarrow> 't list \<Rightarrow> 't mux \<Rightarrow> 't mux \<times> bool" where
  "subscribe_types sub [] m = (m, False)"
| "subscribe_types sub (rtyp # ts) m =
     (let oldsubs = subs_of m rtyp
      in if mux_find oldsubs sub \<noteq> - 1 then (m, True)
         else (let subs = go_copy (replicate (length oldsubs + 1) 0) oldsubs;
                   subs = subs[length oldsubs := sub]
               in subscribe_types sub ts (m\<lparr>subm := (subm m)(rtyp \<mapsto> subs)\<rparr>)))"

definition mux_Subscribe :: "nat \<Rightarrow> 't list \<Rightarrow> 't mux \<Rightarrow> 't mux \<times> nat option" where
  "mux_Subscribe time types m =
     (let sub = mux_next m;
          m = m\<lparr>mux_next := Suc sub, mux_subs := (mux_subs m)(sub := newsub time)\<rparr>
      in if mux_stopped m
         then (m\<lparr>mux_subs := (mux_subs m)(sub := (newsub time)\<lparr>ms_closed := True, ms_posting := False\<rparr>)\<rparr>, Some sub)
         else (case subscribe_types sub types m of
                 (m, True) \<Rightarrow> (m, None)
               | (m, False) \<Rightarrow> (m, Some sub)))"

text \<open>\<open>deliver\<close> up to its select: whether the event is offered to the subscription.\<close>

definition deliver_offers :: "'t mux \<Rightarrow> nat \<Rightarrow> nat \<Rightarrow> bool" where
  "deliver_offers m time sub \<longleftrightarrow> \<not> time < ms_created (mux_subs m sub)"

datatype mux_error = ErrMuxClosed

definition mux_Post :: "nat \<Rightarrow> 't \<Rightarrow> 't mux \<Rightarrow> mux_error + nat list" where
  "mux_Post time rtyp m =
     (if mux_stopped m then Inl ErrMuxClosed else Inr (filter (deliver_offers m time) (subs_of m rtyp)))"

definition closewait :: "nat \<Rightarrow> 't mux \<Rightarrow> 't mux" where
  "closewait s m =
     (if ms_closed (mux_subs m s) then m
      else m\<lparr>mux_subs := (mux_subs m)(s := (mux_subs m s)\<lparr>ms_closing := True, ms_closed := True, ms_posting := False\<rparr>)\<rparr>)"

text \<open>\<open>Stop\<close>; \<open>keys\<close> is the order in which the map is traversed.\<close>

definition mux_Stop :: "'t list \<Rightarrow> 't mux \<Rightarrow> 't mux" where
  "mux_Stop keys m =
     (let m = fold (\<lambda>t. fold closewait (subs_of m t)) keys m
      in m\<lparr>subm := Map.empty, mux_stopped := True\<rparr>)"

text \<open>The body of the loop of \<open>del\<close>.\<close>

definition del_at :: "nat \<Rightarrow> nat list option \<Rightarrow> nat list option" where
  "del_at s entry =
     (case entry of
        None \<Rightarrow> None
      | Some subs \<Rightarrow>
          (let pos = mux_find subs s
           in if 0 \<le> pos then (if length subs = 1 then None else Some (posdelete subs (nat pos))) else Some subs))"

definition mux_del :: "nat \<Rightarrow> 't mux \<Rightarrow> 't mux" where
  "mux_del s m = m\<lparr>subm := (\<lambda>t. del_at s (subm m t))\<rparr>"

definition mux_Unsubscribe :: "nat \<Rightarrow> 't mux \<Rightarrow> 't mux" where
  "mux_Unsubscribe s m = closewait s (mux_del s m)"

definition mux_Closed :: "nat \<Rightarrow> 't mux \<Rightarrow> bool" where
  "mux_Closed s m = ms_closed (mux_subs m s)"

section \<open>The registry\<close>

lemma mux_find_from_None: "mux_find_from i xs s = - 1 \<longleftrightarrow> s \<notin> set xs"
  by (induction xs arbitrary: i) auto

lemma mux_find_from_nonneg: "0 \<le> mux_find_from i xs s \<longleftrightarrow> s \<in> set xs"
  by (induction xs arbitrary: i) auto

lemma mux_find_iff [simp]: "mux_find xs s = - 1 \<longleftrightarrow> s \<notin> set xs" "0 \<le> mux_find xs s \<longleftrightarrow> s \<in> set xs"
  by (simp_all add: mux_find_def mux_find_from_None mux_find_from_nonneg)

lemma mux_find_from_split:
  "s \<notin> set ys \<Longrightarrow> mux_find_from i (ys @ s # zs) s = int (i + length ys)"
  by (induction ys arbitrary: i) auto

lemma posdelete_split: "posdelete (ys @ s # zs) (length ys) = ys @ zs"
  by (simp add: posdelete_def Let_def go_copy_def)

lemma posdelete_find: "s \<in> set xs \<Longrightarrow> posdelete xs (nat (mux_find xs s)) = remove1 s xs"
proof -
  assume "s \<in> set xs"
  then obtain ys zs where xs: "xs = ys @ s # zs" "s \<notin> set ys" by (meson split_list_first)
  then have "nat (mux_find xs s) = length ys" by (simp add: mux_find_def mux_find_from_split)
  then show ?thesis using xs by (simp add: posdelete_split remove1_append)
qed

lemma subscribe_append: "(go_copy (replicate (length xs + 1) 0) xs)[length xs := s] = xs @ [s]"
  by (simp add: go_copy_def flip: replicate_append_same)

text \<open>
  The invariant: no empty or repeated entries, no closed subscription is registered, closing and
  closing of \<open>postC\<close> go together, and a stopped multiplexer has no entries.
\<close>

definition mux_wf :: "'t mux \<Rightarrow> bool" where
  "mux_wf m \<longleftrightarrow>
     (\<forall>t. subm m t \<noteq> Some []) \<and>
     (\<forall>t. distinct (subs_of m t)) \<and>
     (\<forall>t. \<forall>s\<in>set (subs_of m t). s < mux_next m \<and> \<not> ms_closed (mux_subs m s)) \<and>
     (\<forall>s<mux_next m. ms_posting (mux_subs m s) \<longleftrightarrow> \<not> ms_closed (mux_subs m s)) \<and>
     (mux_stopped m \<longrightarrow> subm m = Map.empty)"

lemma subscribe_types_frame:
  "subscribe_types sub ts m = (m', p) \<Longrightarrow>
   mux_subs m' = mux_subs m \<and> mux_next m' = mux_next m \<and> mux_stopped m' = mux_stopped m"
  by (induction ts arbitrary: m) (fastforce simp: Let_def split: if_splits)+

lemma subs_of_upd: "subs_of (m\<lparr>subm := (subm m)(r \<mapsto> xs)\<rparr>) t = (if t = r then xs else subs_of m t)"
  by (simp add: subs_of_def)

lemma subscribe_types_entry:
  "subscribe_types sub ts m = (m', p) \<Longrightarrow>
   subm m' t = subm m t \<or> subm m' t = Some (subs_of m t @ [sub]) \<and> sub \<notin> set (subs_of m t)"
proof (induction ts arbitrary: m)
  case (Cons r ts)
  show ?case
  proof (cases "sub \<in> set (subs_of m r)")
    case True
    then show ?thesis using Cons.prems by (simp add: Let_def)
  next
    case False
    let ?m = "m\<lparr>subm := (subm m)(r \<mapsto> subs_of m r @ [sub])\<rparr>"
    have "subscribe_types sub ts ?m = (m', p)"
      using Cons.prems False subscribe_append [of "subs_of m r" sub] by (simp add: Let_def)
    from Cons.IH [OF this] show ?thesis
      using False by (cases "t = r") (auto simp: subs_of_upd)
  qed
qed simp

lemma subscribe_types_ok:
  "subscribe_types sub ts m = (m', p) \<Longrightarrow>
   (p \<longleftrightarrow> \<not> (distinct ts \<and> (\<forall>t\<in>set ts. sub \<notin> set (subs_of m t)))) \<and>
   (\<not> p \<longrightarrow> subm m' = (\<lambda>t. if t \<in> set ts then Some (subs_of m t @ [sub]) else subm m t))"
proof (induction ts arbitrary: m)
  case (Cons r ts)
  show ?case
  proof (cases "sub \<in> set (subs_of m r)")
    case True
    then show ?thesis using Cons.prems by (auto simp: Let_def)
  next
    case False
    let ?m = "m\<lparr>subm := (subm m)(r \<mapsto> subs_of m r @ [sub])\<rparr>"
    have "subscribe_types sub ts ?m = (m', p)"
      using Cons.prems False subscribe_append [of "subs_of m r" sub] by (simp add: Let_def)
    from Cons.IH [OF this] show ?thesis
      using False by (auto simp: subs_of_upd fun_eq_iff)
  qed
qed simp

lemma del_at_spec:
  "del_at s (Some xs) = (if s \<in> set xs \<and> length xs = 1 then None else Some (remove1 s xs))"
  by (auto simp: del_at_def Let_def posdelete_find remove1_idem)

lemma subs_of_del: "subs_of (mux_del s m) t = remove1 s (subs_of m t)"
proof (cases "subm m t")
  case (Some xs)
  show ?thesis
  proof (cases "s \<in> set xs \<and> length xs = 1")
    case True
    then have "xs = [s]" by (cases xs) auto
    then show ?thesis using Some True by (simp add: subs_of_def mux_del_def del_at_spec)
  next
    case False
    then show ?thesis using Some by (auto simp: subs_of_def mux_del_def del_at_spec)
  qed
qed (simp add: subs_of_def mux_del_def del_at_def)

lemma closewait_frame:
  "subm (closewait s m) = subm m" "mux_next (closewait s m) = mux_next m" "mux_stopped (closewait s m) = mux_stopped m"
  by (simp_all add: closewait_def)

lemma closewait_closed: "ms_closed (mux_subs (closewait s m) u) \<longleftrightarrow> ms_closed (mux_subs m u) \<or> u = s"
  by (simp add: closewait_def)

lemma closewait_posting:
  "(ms_posting (mux_subs m u) \<longleftrightarrow> \<not> ms_closed (mux_subs m u)) \<Longrightarrow>
   ms_posting (mux_subs (closewait s m) u) \<longleftrightarrow> \<not> ms_closed (mux_subs (closewait s m) u)"
  by (simp add: closewait_def)

lemma fold_closewait:
  "subm (fold closewait xs m) = subm m \<and> mux_next (fold closewait xs m) = mux_next m \<and>
   (\<forall>u. ms_closed (mux_subs (fold closewait xs m) u) \<longleftrightarrow> ms_closed (mux_subs m u) \<or> u \<in> set xs) \<and>
   (\<forall>u. (ms_posting (mux_subs m u) \<longleftrightarrow> \<not> ms_closed (mux_subs m u)) \<longrightarrow>
      (ms_posting (mux_subs (fold closewait xs m) u) \<longleftrightarrow> \<not> ms_closed (mux_subs (fold closewait xs m) u)))"
proof (induction xs arbitrary: m)
  case (Cons x xs)
  show ?case using Cons.IH [of "closewait x m"] closewait_posting [of m _ x]
    by (simp add: closewait_frame closewait_closed)
qed simp

lemma fold_fold: "fold (\<lambda>t. fold f (g t)) ts m = fold f (concat (map g ts)) m"
  by (induction ts arbitrary: m) simp_all

lemma mux_Stop_fold: "mux_Stop keys m = (fold closewait (concat (map (subs_of m) keys)) m)\<lparr>subm := Map.empty, mux_stopped := True\<rparr>"
  by (simp add: mux_Stop_def fold_fold Let_def)

section \<open>Reachable multiplexers\<close>

text \<open>Calls in any order; \<open>Stop\<close> traverses all keys, and only subscriptions handed out are unsubscribed.\<close>

inductive mux_reachable :: "'t mux \<Rightarrow> bool" where
  mux_zero: "mux_reachable mux_zero"
| mux_sub: "mux_reachable m \<Longrightarrow> mux_reachable (fst (mux_Subscribe time types m))"
| mux_unsub: "mux_reachable m \<Longrightarrow> s < mux_next m \<Longrightarrow> mux_reachable (mux_Unsubscribe s m)"
| mux_stop: "mux_reachable m \<Longrightarrow> set keys = dom (subm m) \<Longrightarrow> mux_reachable (mux_Stop keys m)"

lemma mux_wf_Subscribe:
  assumes "mux_wf m"
  shows "mux_wf (fst (mux_Subscribe time types m))"
proof -
  let ?s = "mux_next m"
  define m1 where "m1 = m\<lparr>mux_next := Suc ?s, mux_subs := (mux_subs m)(?s := newsub time)\<rparr>"
  have fresh: "?s \<notin> set (subs_of m t)" for t using assms by (auto simp: mux_wf_def)
  show ?thesis
  proof (cases "mux_stopped m")
    case True
    then show ?thesis
      using assms by (auto simp: mux_Subscribe_def Let_def mux_wf_def subs_of_def newsub_def less_Suc_eq)
  next
    case False
    obtain m' p where sub: "subscribe_types ?s types m1 = (m', p)" by fastforce
    have e: "subm m' t = subm m t \<or> subm m' t = Some (subs_of m t @ [?s])" for t
      using subscribe_types_entry [OF sub, of t] unfolding m1_def subs_of_def by auto
    then have subs: "subs_of m' t = subs_of m t \<or> subs_of m' t = subs_of m t @ [?s]" for t
      by (metis subs_of_def option.case(2))
    have "mux_wf m'"
      unfolding mux_wf_def
    proof (intro conjI allI ballI impI)
      fix t show "subm m' t \<noteq> Some []" using e [of t] assms by (auto simp: mux_wf_def)
    next
      fix t show "distinct (subs_of m' t)" using subs [of t] fresh assms by (auto simp: mux_wf_def)
    next
      fix t s assume "s \<in> set (subs_of m' t)"
      then have "s \<in> set (subs_of m t) \<or> s = ?s" using subs [of t] by auto
      then show "s < mux_next m'" "\<not> ms_closed (mux_subs m' s)"
        using assms fresh subscribe_types_frame [OF sub]
        by (auto simp: mux_wf_def m1_def newsub_def intro: less_SucI)
    next
      fix s assume "s < mux_next m'"
      then show "ms_posting (mux_subs m' s) \<longleftrightarrow> \<not> ms_closed (mux_subs m' s)"
        using assms subscribe_types_frame [OF sub] by (auto simp: mux_wf_def m1_def newsub_def less_Suc_eq)
    next
      assume "mux_stopped m'"
      then show "subm m' = Map.empty" using False subscribe_types_frame [OF sub] by (simp add: m1_def)
    qed
    then show ?thesis using False sub by (simp add: mux_Subscribe_def Let_def m1_def split: bool.split)
  qed
qed

lemma mux_wf_Unsubscribe:
  assumes "mux_wf m"
  shows "mux_wf (mux_Unsubscribe s m)"
proof -
  have del: "subs_of (closewait s (mux_del s m)) t = remove1 s (subs_of m t)" for t
    using subs_of_del [of s m t] by (simp add: subs_of_def closewait_frame)
  have ne: "remove1 s a \<noteq> []" if "a \<noteq> []" "\<not> (s \<in> set a \<and> length a = 1)" for a
    using that by (cases a) auto
  have "subm (mux_del s m) t \<noteq> Some []" for t
  proof (cases "subm m t")
    case (Some a)
    then have "a \<noteq> []" using assms by (auto simp: mux_wf_def)
    then show ?thesis using Some ne [of a] by (simp add: mux_del_def del_at_spec)
  qed (simp add: mux_del_def del_at_def)
  then show ?thesis
    using assms unfolding mux_Unsubscribe_def mux_wf_def del
    by (auto simp: closewait_frame closewait_closed closewait_def mux_del_def del_at_def dest: in_set_remove1 set_remove1_subset [THEN subsetD])
qed

lemma mux_wf_Stop: "mux_wf m \<Longrightarrow> mux_wf (mux_Stop keys m)"
  unfolding mux_Stop_fold using fold_closewait [of "concat (map (subs_of m) keys)" m]
  by (auto simp: mux_wf_def subs_of_def)

lemma mux_reachable_wf: "mux_reachable m \<Longrightarrow> mux_wf m"
  by (induction rule: mux_reachable.induct)
    (auto simp: mux_wf_Subscribe mux_wf_Unsubscribe mux_wf_Stop, simp add: mux_wf_def mux_zero_def subs_of_def)

lemma mux_refines_registry_parts:
  assumes "mux_reachable m"
  shows "\<not> mux_stopped m \<Longrightarrow> distinct types \<Longrightarrow>
      snd (mux_Subscribe time types m) = Some (mux_next m) \<and>
      \<not> mux_Closed (mux_next m) (fst (mux_Subscribe time types m)) \<and>
      (\<forall>t. subs_of (fst (mux_Subscribe time types m)) t = subs_of m t @ (if t \<in> set types then [mux_next m] else []))"
    and "\<not> mux_stopped m \<Longrightarrow> \<not> distinct types \<Longrightarrow>
      snd (mux_Subscribe time types m) = None \<and>
      mux_next m \<in> set (subs_of (fst (mux_Subscribe time types m)) (hd types))"
    and "mux_stopped m \<Longrightarrow> mux_Post time t m = Inl ErrMuxClosed"
    and "\<not> mux_stopped m \<Longrightarrow>
      mux_Post time t m = Inr (filter (\<lambda>s. ms_created (mux_subs m s) \<le> time) (subs_of m t)) \<and>
      distinct (subs_of m t) \<and> (\<forall>s\<in>set (subs_of m t). \<not> mux_Closed s m)"
    and "(\<forall>t. subs_of (mux_Unsubscribe s m) t = filter (\<lambda>u. u \<noteq> s) (subs_of m t)) \<and> mux_Closed s (mux_Unsubscribe s m)"
    and "set keys = dom (subm m) \<Longrightarrow>
      mux_Post time t (mux_Stop keys m) = Inl ErrMuxClosed \<and> subs_of (mux_Stop keys m) t = [] \<and>
      (\<forall>u\<in>set (subs_of m t). mux_Closed u (mux_Stop keys m))"
proof -
  note wf = mux_reachable_wf [OF assms]
  then have fresh: "mux_next m \<notin> set (subs_of m t)" for t by (auto simp: mux_wf_def)
  let ?m1 = "m\<lparr>mux_next := Suc (mux_next m), mux_subs := (mux_subs m)(mux_next m := newsub time)\<rparr>"
  have subs1: "subs_of ?m1 t = subs_of m t" for t by (simp add: subs_of_def)
  obtain m' p where sub: "subscribe_types (mux_next m) types ?m1 = (m', p)" by fastforce
  have S: "mux_Subscribe time types m = (m', if p then None else Some (mux_next m))" if "\<not> mux_stopped m"
    using sub that by (simp add: mux_Subscribe_def Let_def split: bool.split)
  note ok = subscribe_types_ok [OF sub] and fr = subscribe_types_frame [OF sub]
  show "snd (mux_Subscribe time types m) = Some (mux_next m) \<and>
      \<not> mux_Closed (mux_next m) (fst (mux_Subscribe time types m)) \<and>
      (\<forall>t. subs_of (fst (mux_Subscribe time types m)) t = subs_of m t @ (if t \<in> set types then [mux_next m] else []))"
    if "\<not> mux_stopped m" "distinct types"
  proof -
    have "\<not> p" using ok fresh subs1 that(2) by simp
    then have "subs_of m' t = subs_of m t @ (if t \<in> set types then [mux_next m] else [])" for t
      using ok by (simp add: subs_of_def)
    then show ?thesis using S that(1) \<open>\<not> p\<close> fr by (simp add: mux_Closed_def newsub_def)
  qed
  show "snd (mux_Subscribe time types m) = None \<and>
      mux_next m \<in> set (subs_of (fst (mux_Subscribe time types m)) (hd types))"
    if running: "\<not> mux_stopped m" and dup: "\<not> distinct types"
  proof -
    have p: "p" using ok dup by simp
    obtain r ts where types: "types = r # ts" using dup by (cases types) auto
    let ?m2 = "?m1\<lparr>subm := (subm ?m1)(r \<mapsto> subs_of ?m1 r @ [mux_next m])\<rparr>"
    have "subscribe_types (mux_next m) ts ?m2 = (m', p)"
      using sub fresh [of r] subs1 [of r] subscribe_append [of "subs_of m r" "mux_next m"]
      by (simp add: types Let_def)
    from subscribe_types_entry [OF this, of r] have "mux_next m \<in> set (subs_of m' r)"
      by (auto simp: subs_of_def)
    then show ?thesis using S running p by (simp add: types)
  qed
  show "mux_Post time t m = Inl ErrMuxClosed" if "mux_stopped m"
    using that by (simp add: mux_Post_def)
  show "mux_Post time t m = Inr (filter (\<lambda>s. ms_created (mux_subs m s) \<le> time) (subs_of m t)) \<and>
      distinct (subs_of m t) \<and> (\<forall>s\<in>set (subs_of m t). \<not> mux_Closed s m)" if "\<not> mux_stopped m"
    using that wf by (simp add: mux_Post_def deliver_offers_def [abs_def] not_less mux_wf_def mux_Closed_def)
  have "subs_of (mux_Unsubscribe s m) t = remove1 s (subs_of m t)" for t
    using subs_of_del [of s m t] by (simp add: mux_Unsubscribe_def subs_of_def closewait_frame)
  moreover have "remove1 s (subs_of m t) = filter (\<lambda>u. u \<noteq> s) (subs_of m t)" for t
    using wf by (simp add: distinct_remove1_removeAll mux_wf_def removeAll_filter_not_eq neq_commute)
  ultimately show "(\<forall>t. subs_of (mux_Unsubscribe s m) t = filter (\<lambda>u. u \<noteq> s) (subs_of m t)) \<and>
      mux_Closed s (mux_Unsubscribe s m)"
    by (simp add: mux_Unsubscribe_def mux_Closed_def closewait_closed)
  show "mux_Post time t (mux_Stop keys m) = Inl ErrMuxClosed \<and> subs_of (mux_Stop keys m) t = [] \<and>
      (\<forall>u\<in>set (subs_of m t). mux_Closed u (mux_Stop keys m))" if "set keys = dom (subm m)"
  proof -
    have "t \<in> set keys" if "u \<in> set (subs_of m t)" for u
      using that \<open>set keys = dom (subm m)\<close> by (auto simp: subs_of_def split: option.splits)
    then have "\<forall>u\<in>set (subs_of m t). u \<in> set (concat (map (subs_of m) keys))" by auto
    then show ?thesis
      using fold_closewait [of "concat (map (subs_of m) keys)" m]
      by (simp add: mux_Stop_fold mux_Post_def subs_of_def mux_Closed_def)
  qed
qed

text \<open>
  C11. In every reachable state the multiplexer implements a registry of subscriptions by type.
  Subscribing appends a new, open subscription to each of the types; it panics exactly when a type is
  repeated, and then the subscription stays registered. \<open>Post\<close> offers an event to the registered
  subscriptions of its type that are not newer than the event, in order and each once.
  Unsubscribing removes a subscription from all types, keeps the order of the others, and closes it.
  \<open>Stop\<close> closes all registered subscriptions, and from then on every \<open>Post\<close> is refused.
\<close>
theorem mux_refines_registry:
  assumes "mux_reachable m"
  shows "(\<not> mux_stopped m \<longrightarrow> distinct types \<longrightarrow> (snd (mux_Subscribe time types m) = Some (mux_next m) \<and>
      \<not> mux_Closed (mux_next m) (fst (mux_Subscribe time types m)) \<and>
      (\<forall>t. subs_of (fst (mux_Subscribe time types m)) t = subs_of m t @ (if t \<in> set types then [mux_next m] else [])))) \<and>
    (\<not> mux_stopped m \<longrightarrow> \<not> distinct types \<longrightarrow> (snd (mux_Subscribe time types m) = None \<and>
      mux_next m \<in> set (subs_of (fst (mux_Subscribe time types m)) (hd types)))) \<and>
    (mux_stopped m \<longrightarrow> mux_Post time t m = Inl ErrMuxClosed) \<and>
    (\<not> mux_stopped m \<longrightarrow> (mux_Post time t m = Inr (filter (\<lambda>s. ms_created (mux_subs m s) \<le> time) (subs_of m t)) \<and>
      distinct (subs_of m t) \<and> (\<forall>s\<in>set (subs_of m t). \<not> mux_Closed s m))) \<and>
    ((\<forall>t. subs_of (mux_Unsubscribe s m) t = filter (\<lambda>u. u \<noteq> s) (subs_of m t)) \<and> mux_Closed s (mux_Unsubscribe s m)) \<and>
    (set keys = dom (subm m) \<longrightarrow> (mux_Post time t (mux_Stop keys m) = Inl ErrMuxClosed \<and> subs_of (mux_Stop keys m) t = [] \<and>
      (\<forall>u\<in>set (subs_of m t). mux_Closed u (mux_Stop keys m))))"
  by (rule conjI, rule impI, rule impI, rule mux_refines_registry_parts(1) [OF assms], assumption, assumption,
      rule conjI, rule impI, rule impI, rule mux_refines_registry_parts(2) [OF assms], assumption, assumption,
      rule conjI, rule impI, rule mux_refines_registry_parts(3) [OF assms], assumption,
      rule conjI, rule impI, rule mux_refines_registry_parts(4) [OF assms], assumption,
      rule conjI, rule mux_refines_registry_parts(5) [OF assms],
      rule impI, rule mux_refines_registry_parts(6) [OF assms], assumption)

theorem mux_refines_registry_witness:
  "subs_of (fst (mux_Subscribe 3 [True, False] mux_zero)) True = [0] \<and>
   snd (mux_Subscribe 3 [True, True] (mux_zero :: bool mux)) = None \<and>
   mux_Post 5 True (mux_Stop [] (mux_zero :: bool mux)) = Inl ErrMuxClosed"
  using mux_refines_registry [THEN conjunct1, rule_format, OF mux_zero, of "[True, False]" 3]
    mux_refines_registry [THEN conjunct2, THEN conjunct1, rule_format, OF mux_zero, of "[True, True]" 3]
    mux_refines_registry [THEN conjunct2, THEN conjunct2, THEN conjunct2, THEN conjunct2, THEN conjunct2, rule_format, OF mux_zero, of "[]" 5 True]
  by (simp add: mux_zero_def subs_of_def)

end
