(* ===== verification/Mux_Deliver.thy ===== *)
theory Mux_Deliver
  imports Type_Mux
begin

text \<open>
  Deliveries to one subscription of \<open>src/event/event.go\<close> while it is closed: \<open>deliver\<close> holds the read
  lock of \<open>postMu\<close> during its select, and \<open>closewait\<close> closes \<open>postC\<close> under the write lock. The steps
  refine the single step \<open>closewait\<close> of \<open>Type_Mux\<close>.
\<close>

section \<open>Steps\<close>

text \<open>
  \<open>dl_waiting\<close> are the deliveries inside their select, each with the value of \<open>postC\<close> that it has read
  (whether it is nil) and its event; \<open>dl_locking\<close> says that \<open>closewait\<close> waits for the write lock,
  \<open>dl_got\<close> are the events received through \<open>readC\<close>.
\<close>

record 'ev delivery =
  dl_created :: nat
  dl_closing :: bool
  dl_closed :: bool
  dl_locking :: bool
  dl_chanClosed :: bool
  dl_postNil :: bool
  dl_waiting :: "(bool \<times> 'ev) list"
  dl_got :: "'ev list"
  dl_panicked :: bool

definition delivery_new :: "nat \<Rightarrow> 'ev delivery" where
  "delivery_new time = \<lparr>dl_created = time, dl_closing = False, dl_closed = False, dl_locking = False,
     dl_chanClosed = False, dl_postNil = False, dl_waiting = [], dl_got = [], dl_panicked = False\<rparr>"

text \<open>\<open>deliver\<close> up to its select.\<close>

definition deliver_enter :: "nat \<Rightarrow> 'ev \<Rightarrow> 'ev delivery \<Rightarrow> 'ev delivery" where
  "deliver_enter time event d =
     (if time < dl_created d then d else d\<lparr>dl_waiting := dl_waiting d @ [(dl_postNil d, event)]\<rparr>)"

text \<open>The two parts of \<open>closewait\<close>, before and after the write lock is taken; \<open>close\<close> of a closed channel panics.\<close>

definition closewait_begin :: "'ev delivery \<Rightarrow> 'ev delivery" where
  "closewait_begin d =
     (if dl_closed d then d
      else if dl_closing d then d\<lparr>dl_panicked := True\<rparr>
      else d\<lparr>dl_closing := True, dl_closed := True, dl_locking := True\<rparr>)"

definition closewait_end :: "'ev delivery \<Rightarrow> 'ev delivery" where
  "closewait_end d =
     (if dl_chanClosed d then d\<lparr>dl_panicked := True\<rparr>
      else d\<lparr>dl_chanClosed := True, dl_postNil := True, dl_locking := False\<rparr>)"

text \<open>
  A waiting writer keeps new readers from the lock, as \<open>sync.RWMutex\<close> says. A nil channel is never
  ready, and a send on a closed one panics.
\<close>

inductive delivery_step :: "'ev delivery \<Rightarrow> 'ev delivery \<Rightarrow> bool" where
  enters: "\<not> dl_locking d \<Longrightarrow> delivery_step d (deliver_enter time event d)"
| sends: "dl_waiting d = xs @ (False, event) # ys \<Longrightarrow>
     delivery_step d (if dl_chanClosed d then d\<lparr>dl_panicked := True\<rparr>
                      else d\<lparr>dl_waiting := xs @ ys, dl_got := dl_got d @ [event]\<rparr>)"
| gives_up: "dl_waiting d = xs @ w # ys \<Longrightarrow> dl_closing d \<Longrightarrow> delivery_step d (d\<lparr>dl_waiting := xs @ ys\<rparr>)"
| closes: "\<not> dl_locking d \<Longrightarrow> delivery_step d (closewait_begin d)"
| locks: "dl_locking d \<Longrightarrow> dl_waiting d = [] \<Longrightarrow> delivery_step d (closewait_end d)"

inductive_cases delivery_stepE: "delivery_step d d'"

definition delivery_inv :: "'ev delivery \<Rightarrow> bool" where
  "delivery_inv d \<longleftrightarrow>
     \<not> dl_panicked d \<and> dl_closing d = dl_closed d \<and> dl_postNil d = dl_chanClosed d \<and>
     (dl_locking d \<longleftrightarrow> dl_closed d \<and> \<not> dl_chanClosed d) \<and> (dl_chanClosed d \<longrightarrow> dl_closed d) \<and>
     (\<forall>w\<in>set (dl_waiting d). fst w = dl_chanClosed d)"

lemma delivery_step_inv: "delivery_step d d' \<Longrightarrow> delivery_inv d \<Longrightarrow> delivery_inv d'"
  by (elim delivery_stepE)
    (auto simp: delivery_inv_def deliver_enter_def closewait_begin_def closewait_end_def)

lemma delivery_steps_inv: "delivery_step\<^sup>*\<^sup>* (delivery_new time) d \<Longrightarrow> delivery_inv d"
  by (erule steps_invariant) (simp_all add: delivery_step_inv, simp add: delivery_inv_def delivery_new_def)

section \<open>Closing\<close>

text \<open>While \<open>closewait\<close> waits, every step ends a delivery or the wait.\<close>

lemma delivery_locking_decreases:
  assumes "delivery_inv d" "dl_locking d" "delivery_step d d'"
  shows "\<not> dl_locking d' \<and> dl_chanClosed d' \<or> length (dl_waiting d') < length (dl_waiting d) \<and> dl_locking d'"
  using assms(3,1,2) by (elim delivery_stepE) (auto simp: delivery_inv_def closewait_end_def)

lemma delivery_locking_ends:
  assumes "delivery_inv d" "dl_locking d"
  shows "delivery_step\<^sup>*\<^sup>* d (closewait_end (d\<lparr>dl_waiting := []\<rparr>))"
  using assms
proof (induction "dl_waiting d" arbitrary: d)
  case Nil
  then have "delivery_step d (closewait_end d)" by (intro locks) simp_all
  moreover have "d\<lparr>dl_waiting := []\<rparr> = d" using Nil.hyps by simp
  ultimately show ?case by (simp only: r_into_rtranclp)
next
  case (Cons w ws)
  let ?d = "d\<lparr>dl_waiting := ws\<rparr>"
  have "delivery_step d ?d" using gives_up [of d "[]" w ws] Cons.hyps(2) Cons.prems by (simp add: delivery_inv_def)
  moreover have "delivery_step\<^sup>*\<^sup>* ?d (closewait_end (?d\<lparr>dl_waiting := []\<rparr>))"
    using delivery_step_inv [OF calculation Cons.prems(1)] Cons.prems(2) by (intro Cons.hyps(1)) simp_all
  ultimately show ?case by (simp add: converse_rtranclp_into_rtranclp)
qed

lemma delivery_locking_moves:
  assumes "delivery_inv d" "dl_locking d"
  shows "\<exists>d'. delivery_step d d'"
proof (cases "dl_waiting d")
  case Nil
  then show ?thesis using locks [OF assms(2)] by blast
next
  case (Cons w ws)
  then show ?thesis using gives_up [of d "[]" w ws] assms by (auto simp: delivery_inv_def)
qed

lemma delivery_closed_frame:
  assumes "delivery_step\<^sup>*\<^sup>* d d'" "delivery_inv d" "dl_chanClosed d"
  shows "dl_chanClosed d' \<and> dl_got d' = dl_got d"
proof -
  let ?I = "\<lambda>s. delivery_inv s \<and> dl_chanClosed s \<and> dl_got s = dl_got d"
  have "?I s'" if "delivery_step s s'" "?I s" for s s'
  proof -
    have "dl_chanClosed s' \<and> dl_got s' = dl_got s"
      using that by (auto simp: delivery_inv_def deliver_enter_def closewait_begin_def elim!: delivery_stepE)
    then show ?thesis using that delivery_step_inv [OF that(1)] by simp
  qed
  then have "?I d'" using assms by (elim steps_invariant) auto
  then show ?thesis by simp
qed

text \<open>What the registry sees of a subscription, and that the two parts of \<open>closewait\<close> make its single step.\<close>

definition delivery_muxSub :: "'ev delivery \<Rightarrow> muxSub" where
  "delivery_muxSub d = \<lparr>ms_created = dl_created d, ms_closed = dl_closed d, ms_closing = dl_closing d,
     ms_posting = (\<not> dl_chanClosed d)\<rparr>"

lemma delivery_closewait:
  assumes "delivery_inv d" "\<not> dl_locking d" "mux_subs m s = delivery_muxSub d"
  shows "\<exists>d'. delivery_step\<^sup>*\<^sup>* d d' \<and> \<not> dl_locking d' \<and> dl_chanClosed d' \<and> dl_got d' = dl_got d \<and>
    mux_subs (closewait s m) s = delivery_muxSub d'"
proof (cases "dl_closed d")
  case True
  then show ?thesis using assms by (intro exI [of _ d]) (auto simp: closewait_def delivery_muxSub_def delivery_inv_def)
next
  case False
  let ?b = "closewait_begin d"
  have b: "dl_locking ?b" using assms(1) False by (simp add: closewait_begin_def delivery_inv_def)
  have step: "delivery_step d ?b" using assms(2) by (rule closes)
  note inv = delivery_step_inv [OF step assms(1)]
  have "delivery_step\<^sup>*\<^sup>* d (closewait_end (?b\<lparr>dl_waiting := []\<rparr>))"
    using step delivery_locking_ends [OF inv b] by (rule converse_rtranclp_into_rtranclp)
  then show ?thesis
    using assms False
    by (intro exI [of _ "closewait_end (?b\<lparr>dl_waiting := []\<rparr>)"])
      (auto simp: closewait_def delivery_muxSub_def delivery_inv_def closewait_begin_def closewait_end_def)
qed

text \<open>
  C12. In every interleaving of deliveries and \<open>closewait\<close> on a subscription nothing panics; while
  \<open>closewait\<close> waits for the lock some step is possible and every step ends a delivery or the wait, so
  that it returns after at most one step more than there are deliveries; after that no event is
  received any more; and a run of both parts leaves what the single step \<open>closewait\<close> of the registry leaves.
\<close>
theorem closewait_delivers:
  assumes "delivery_step\<^sup>*\<^sup>* (delivery_new time) d"
  shows "\<not> dl_panicked d \<and>
    (dl_locking d \<longrightarrow> ((\<exists>d'. delivery_step d d') \<and>
      (\<forall>d'. delivery_step d d' \<longrightarrow>
        (\<not> dl_locking d' \<and> dl_chanClosed d' \<or> length (dl_waiting d') < length (dl_waiting d) \<and> dl_locking d')))) \<and>
    (dl_chanClosed d \<longrightarrow> (\<forall>d'. delivery_step\<^sup>*\<^sup>* d d' \<longrightarrow> dl_got d' = dl_got d)) \<and>
    (\<not> dl_locking d \<and> mux_subs m s = delivery_muxSub d \<longrightarrow>
      (\<exists>d'. delivery_step\<^sup>*\<^sup>* d d' \<and> \<not> dl_locking d' \<and> dl_chanClosed d' \<and> mux_subs (closewait s m) s = delivery_muxSub d'))"
proof -
  note inv = delivery_steps_inv [OF assms]
  show ?thesis
  proof (intro conjI impI allI)
    show "\<not> dl_panicked d" using inv by (simp add: delivery_inv_def)
    show "\<exists>d'. delivery_step d d'" if "dl_locking d" using inv that by (rule delivery_locking_moves)
    show "\<not> dl_locking d' \<and> dl_chanClosed d' \<or> length (dl_waiting d') < length (dl_waiting d) \<and> dl_locking d'"
      if "dl_locking d" "delivery_step d d'" for d'
      using inv that by (rule delivery_locking_decreases)
    show "dl_got d' = dl_got d" if "dl_chanClosed d" "delivery_step\<^sup>*\<^sup>* d d'" for d'
      using delivery_closed_frame [OF that(2) inv that(1)] by simp
    show "\<exists>d'. delivery_step\<^sup>*\<^sup>* d d' \<and> \<not> dl_locking d' \<and> dl_chanClosed d' \<and> mux_subs (closewait s m) s = delivery_muxSub d'"
      if "\<not> dl_locking d \<and> mux_subs m s = delivery_muxSub d"
      using delivery_closewait [OF inv conjunct1 [OF that] conjunct2 [OF that]] by blast
  qed
qed

theorem closewait_delivers_witness:
  "\<exists>d. delivery_step\<^sup>*\<^sup>* (delivery_new 3) d \<and> dl_locking d \<and> dl_waiting d = [(False, 8 :: nat)] \<and> (\<exists>d'. delivery_step d d')"
proof -
  let ?d0 = "delivery_new 3 :: nat delivery"
  let ?d1 = "deliver_enter 5 8 ?d0"
  have "delivery_step ?d0 ?d1" by (rule enters) (simp add: delivery_new_def)
  moreover have "delivery_step ?d1 (closewait_begin ?d1)"
    by (rule closes) (simp add: delivery_new_def deliver_enter_def)
  ultimately have run: "delivery_step\<^sup>*\<^sup>* ?d0 (closewait_begin ?d1)" by simp
  have "dl_locking (closewait_begin ?d1)" "dl_waiting (closewait_begin ?d1) = [(False, 8)]"
    by (simp_all add: delivery_new_def deliver_enter_def closewait_begin_def)
  then show ?thesis
    using run closewait_delivers [OF run, THEN conjunct2, THEN conjunct1] by blast
qed

end
