(* ===== verification/Event_Sub.thy ===== *)
theory Event_Sub
  imports Sim_Clock "HOL-Library.Signed_Division"
begin

text \<open>
  \<open>src/event/subscription.go\<close>: subscriptions that run a producer, subscriptions that are established
  again after an error, and scopes. Each is a state with a step relation, or operations under its
  mutex; errors are values of an arbitrary type, and \<open>None\<close> is the nil error.
\<close>

section \<open>NewSubscription\<close>

datatype 'e producer = Running | Returned "'e option" | Ended

record 'e funSub =
  fn_unsubClosed :: bool
  fn_buffer :: "'e option"
  fn_errClosed :: bool
  fn_unsubscribed :: bool
  fn_producer :: "'e producer"
  fn_sent :: nat

definition NewSubscription :: "'e funSub" where
  "NewSubscription = \<lparr>fn_unsubClosed = False, fn_buffer = None, fn_errClosed = False, fn_unsubscribed = False,
     fn_producer = Running, fn_sent = 0\<rparr>"

text \<open>The goroutine after the producer has returned \<open>err\<close>.\<close>

definition producer_end :: "'e option \<Rightarrow> 'e funSub \<Rightarrow> 'e funSub" where
  "producer_end err s =
     (let s = (if \<not> fn_unsubscribed s
               then (let s = (if err \<noteq> None then s\<lparr>fn_buffer := err, fn_sent := fn_sent s + 1\<rparr> else s)
                     in s\<lparr>fn_unsubscribed := True\<rparr>)
               else s)
      in s\<lparr>fn_errClosed := True, fn_producer := Ended\<rparr>)"

text \<open>\<open>Unsubscribe\<close> up to its wait for the producer.\<close>

definition funSub_Unsubscribe :: "'e funSub \<Rightarrow> 'e funSub" where
  "funSub_Unsubscribe s =
     (if fn_unsubscribed s then s else s\<lparr>fn_unsubscribed := True, fn_unsubClosed := True\<rparr>)"

inductive funSub_step :: "'e funSub \<Rightarrow> 'e funSub \<Rightarrow> bool" where
  producer_returns: "fn_producer s = Running \<Longrightarrow> funSub_step s (s\<lparr>fn_producer := Returned err\<rparr>)"
| goroutine_ends: "fn_producer s = Returned err \<Longrightarrow> funSub_step s (producer_end err s)"
| unsubscribes: "funSub_step s (funSub_Unsubscribe s)"
| reads: "fn_buffer s = Some e \<Longrightarrow> funSub_step s (s\<lparr>fn_buffer := None\<rparr>)"

text \<open>
  \<open>fn_sent\<close> counts the sends on the error channel. A send happens at most once, only while nobody has
  unsubscribed, and the channel is closed exactly when the goroutine has ended.
\<close>

definition funSub_inv :: "'e funSub \<Rightarrow> bool" where
  "funSub_inv s \<longleftrightarrow>
     (fn_errClosed s \<longleftrightarrow> fn_producer s = Ended) \<and>
     (fn_unsubClosed s \<longrightarrow> fn_unsubscribed s \<and> fn_sent s = 0 \<and> fn_buffer s = None) \<and>
     fn_sent s \<le> 1 \<and> (fn_buffer s \<noteq> None \<longrightarrow> fn_sent s = 1) \<and>
     (fn_sent s = 1 \<longrightarrow> fn_producer s = Ended) \<and>
     (fn_producer s = Ended \<longrightarrow> fn_unsubscribed s)"

inductive_cases funSub_stepE: "funSub_step s s'"

lemma funSub_step_inv: "funSub_step s s' \<Longrightarrow> funSub_inv s \<Longrightarrow> funSub_inv s'"
  by (elim funSub_stepE) (auto simp: funSub_inv_def producer_end_def funSub_Unsubscribe_def Let_def)

lemma funSub_steps_inv: "funSub_step\<^sup>*\<^sup>* NewSubscription s \<Longrightarrow> funSub_inv s"
  by (erule steps_invariant) (simp_all add: funSub_step_inv, simp add: funSub_inv_def NewSubscription_def)

lemma unsubClosed_stays: "funSub_step\<^sup>*\<^sup>* s s' \<Longrightarrow> fn_unsubClosed s \<Longrightarrow> fn_unsubClosed s'"
  by (erule steps_invariant) (auto simp: producer_end_def funSub_Unsubscribe_def Let_def elim!: funSub_stepE)

section \<open>Resubscribe\<close>

text \<open>The waiting time that \<open>backoffWait\<close> sets.\<close>

definition div10 :: "duration \<Rightarrow> duration" where
  "div10 d = word_of_int (sint d sdiv 10)"

definition backoffWait_time :: "abstime \<Rightarrow> abstime \<Rightarrow> duration \<Rightarrow> duration \<Rightarrow> duration" where
  "backoffWait_time now lastTry waitTime backoffMax =
     (if time_less backoffMax (now - lastTry) then div10 backoffMax
      else (let waitTime = waitTime * 2
            in if time_less backoffMax waitTime then backoffMax else waitTime))"

text \<open>\<open>Cancelling\<close>: the loop has received from \<open>unsub\<close> during a call of \<open>fn\<close>, and waits for its end.\<close>

datatype 's resub_pc = Loop | Subscribing | Cancelling | Backoff | Waiting 's | Stopped | NilPanic

text \<open>
  \<open>rs_calls\<close> are the error arguments of the calls of \<open>fn\<close>, \<open>rs_got\<close> the subscriptions that it returned,
  \<open>rs_unsubs\<close> the calls of \<open>Unsubscribe\<close> on them, and \<open>rs_dropped\<close> those of \<open>rs_got\<close> that came when the
  loop did not look at them any more.
\<close>

record ('s, 'e) resub =
  rs_max :: duration
  rs_wait :: duration
  rs_lastTry :: abstime
  rs_lastErr :: "'e option"
  rs_pc :: "'s resub_pc"
  rs_errClosed :: bool
  rs_calls :: "'e option list"
  rs_got :: "'s list"
  rs_unsubs :: "'s list"
  rs_dropped :: "'s list"

definition ResubscribeErr :: "duration \<Rightarrow> ('s, 'e) resub" where
  "ResubscribeErr backoffMax = \<lparr>rs_max = backoffMax, rs_wait = div10 backoffMax, rs_lastTry = 0, rs_lastErr = None,
     rs_pc = Loop, rs_errClosed = False, rs_calls = [], rs_got = [], rs_unsubs = [], rs_dropped = []\<rparr>"

text \<open>\<open>Resubscribe\<close> wraps a function that does not look at the error; what \<open>fn\<close> returns is a step below.\<close>

definition Resubscribe :: "duration \<Rightarrow> ('s, 'e) resub" where
  "Resubscribe backoffMax = ResubscribeErr backoffMax"

definition rs_return :: "('s, 'e) resub \<Rightarrow> ('s, 'e) resub" where
  "rs_return r = r\<lparr>rs_pc := Stopped, rs_errClosed := True\<rparr>"

text \<open>The end of \<open>waitForError\<close> and the rest of the loop; both unsubscribe the subscription.\<close>

definition rs_waited :: "'s \<Rightarrow> bool \<Rightarrow> ('s, 'e) resub \<Rightarrow> ('s, 'e) resub" where
  "rs_waited sub finished r =
     (let r = r\<lparr>rs_unsubs := rs_unsubs r @ [sub]\<rparr>;
          r = r\<lparr>rs_unsubs := rs_unsubs r @ [sub]\<rparr>
      in if finished then rs_return r else r\<lparr>rs_pc := Loop\<rparr>)"

text \<open>
  The end of a call of \<open>fn\<close> that the loop waits for only to end it: a subscription that it returns is not
  unsubscribed.
\<close>

definition resub_late :: "'s option \<Rightarrow> ('s, 'e) resub \<Rightarrow> ('s, 'e) resub" where
  "resub_late res r =
     rs_return (case res of
       None \<Rightarrow> r
     | Some sub \<Rightarrow> r\<lparr>rs_got := rs_got r @ [sub], rs_dropped := rs_dropped r @ [sub]\<rparr>)"

text \<open>The steps of the loop by itself.\<close>

inductive resub_own :: "('s, 'e) resub \<Rightarrow> ('s, 'e) resub \<Rightarrow> bool" where
  call_fn: "rs_pc r = Loop \<Longrightarrow>
     resub_own r (r\<lparr>rs_lastTry := now, rs_pc := Subscribing, rs_calls := rs_calls r @ [rs_lastErr r]\<rparr>)"
| fn_ok: "rs_pc r = Subscribing \<Longrightarrow> resub_own r (r\<lparr>rs_pc := Waiting sub, rs_got := rs_got r @ [sub]\<rparr>)"
| fn_nil: "rs_pc r = Subscribing \<Longrightarrow> resub_own r (r\<lparr>rs_pc := NilPanic\<rparr>)"
| fn_err: "rs_pc r = Subscribing \<Longrightarrow>
     resub_own r (r\<lparr>rs_pc := Backoff, rs_wait := backoffWait_time now (rs_lastTry r) (rs_wait r) (rs_max r)\<rparr>)"
| fn_late: "rs_pc r = Cancelling \<Longrightarrow> resub_own r (resub_late res r)"
| timer: "rs_pc r = Backoff \<Longrightarrow> resub_own r (r\<lparr>rs_pc := Loop\<rparr>)"
| sub_error: "rs_pc r = Waiting sub \<Longrightarrow> resub_own r (rs_waited sub (err = None) (r\<lparr>rs_lastErr := err\<rparr>))"

text \<open>Where the loop receives from \<open>unsub\<close>, and what it does then.\<close>

definition resub_receives :: "('s, 'e) resub \<Rightarrow> ('s, 'e) resub option" where
  "resub_receives r =
     (case rs_pc r of
        Subscribing \<Rightarrow> Some (r\<lparr>rs_pc := Cancelling\<rparr>)
      | Backoff \<Rightarrow> Some (rs_return r)
      | Waiting sub \<Rightarrow> Some (rs_waited sub True r)
      | _ \<Rightarrow> None)"

inductive resub_step :: "('s, 'e) resub \<Rightarrow> ('s, 'e) resub \<Rightarrow> bool" where
  own_step: "resub_own r r' \<Longrightarrow> resub_step r r'"
| unsub_received: "resub_receives r = Some r' \<Longrightarrow> resub_step r r'"

definition resub_inv :: "duration \<Rightarrow> ('s, 'e) resub \<Rightarrow> bool" where
  "resub_inv backoffMax r \<longleftrightarrow>
     rs_max r = backoffMax \<and> 0 \<le> sint (rs_wait r) \<and> sint (rs_wait r) \<le> sint backoffMax \<and>
     (\<exists>old. rs_got r = old @ (case rs_pc r of Waiting sub \<Rightarrow> [sub] | _ \<Rightarrow> []) @ rs_dropped r \<and>
        rs_unsubs r = concat (map (\<lambda>sub. [sub, sub]) old)) \<and>
     length (rs_dropped r) \<le> 1 \<and> (rs_dropped r \<noteq> [] \<longrightarrow> rs_pc r = Stopped) \<and>
     (rs_errClosed r \<longleftrightarrow> rs_pc r = Stopped)"

inductive_cases resub_ownE: "resub_own r r'"

inductive_cases resub_stepE: "resub_step r r'"

lemma sint_double:
  fixes w :: "64 word"
  assumes "0 \<le> sint w" "sint w < 2 ^ 62"
  shows "sint (w * 2) = sint w * 2"
proof -
  have "w * 2 = word_of_int (sint w * 2)" by simp
  then show ?thesis using assms sint_word_of_int [of "sint w * 2"] by simp
qed

lemma div10_bounds:
  fixes d :: duration
  assumes "0 \<le> sint d"
  shows "0 \<le> sint (div10 d) \<and> sint (div10 d) \<le> sint d"
proof -
  have r: "sint d sdiv 10 = sint d div 10"
    using assms by (auto simp: signed_divide_int_def sgn_if)
  have "sint d < 2 ^ 63" using sint_lt [of d] by simp
  then have "sint (div10 d) = sint d div 10"
    unfolding div10_def r using assms by (intro sint_word_of_int) linarith+
  moreover have "0 \<le> sint d div 10" "sint d div 10 \<le> sint d" using assms by linarith+
  ultimately show ?thesis by simp
qed

lemma backoff_bounds:
  assumes "0 \<le> sint wt" "sint wt \<le> sint backoffMax" "sint backoffMax < 2 ^ 62"
  shows "0 \<le> sint (backoffWait_time now lastTry wt backoffMax) \<and>
    sint (backoffWait_time now lastTry wt backoffMax) \<le> sint backoffMax"
proof -
  have "sint (wt * 2) = sint wt * 2" using assms by (intro sint_double) simp_all
  then show ?thesis
    using assms div10_bounds [of backoffMax] by (simp add: backoffWait_time_def time_less_def Let_def)
qed

lemma unsubs_twice: "us @ [sub, sub] = concat (map (\<lambda>sub. [sub, sub]) (old @ [sub]))"
  if "us = concat (map (\<lambda>sub. [sub, sub]) old)"
  using that by simp

lemma rs_waited_inv:
  assumes "resub_inv backoffMax r" "rs_pc r = Waiting sub"
  shows "resub_inv backoffMax (rs_waited sub finished (r\<lparr>rs_lastErr := err\<rparr>))"
proof -
  obtain old where "rs_got r = old @ [sub]" "rs_unsubs r = concat (map (\<lambda>sub. [sub, sub]) old)" "rs_dropped r = []"
    using assms by (auto simp: resub_inv_def)
  then show ?thesis
    using assms unsubs_twice [of "rs_unsubs r" old sub]
    by (auto simp: resub_inv_def rs_waited_def rs_return_def Let_def intro!: exI [of _ "old @ [sub]"])
qed

lemma resub_own_inv:
  assumes "sint backoffMax < 2 ^ 62" "resub_own r r'" "resub_inv backoffMax r"
  shows "resub_inv backoffMax r'"
  using assms(2)
proof (cases rule: resub_own.cases)
  case (sub_error sub err)
  then show ?thesis using rs_waited_inv [OF assms(3)] by simp
next
  case (fn_ok sub)
  then show ?thesis using assms(3) by (auto simp: resub_inv_def)
next
  case (fn_late res)
  then show ?thesis using assms(3) by (cases res) (auto simp: resub_inv_def resub_late_def rs_return_def)
qed (use assms in \<open>auto simp: resub_inv_def backoff_bounds [OF _ _ assms(1)]\<close>)

lemma resub_receives_inv:
  assumes "resub_receives r = Some r'" "resub_inv backoffMax r"
  shows "resub_inv backoffMax r'"
proof (cases "rs_pc r")
  case (Waiting sub)
  have "r\<lparr>rs_lastErr := rs_lastErr r\<rparr> = r" by simp
  then show ?thesis
    using assms(1) Waiting rs_waited_inv [OF assms(2) Waiting, of True "rs_lastErr r"] by (simp add: resub_receives_def)
qed (use assms in \<open>auto simp: resub_receives_def resub_inv_def rs_return_def\<close>)

lemma resub_step_inv:
  assumes "sint backoffMax < 2 ^ 62"
  shows "resub_step r r' \<Longrightarrow> resub_inv backoffMax r \<Longrightarrow> resub_inv backoffMax r'"
  by (elim resub_stepE) (auto intro: resub_own_inv [OF assms] resub_receives_inv)

lemma resub_steps_inv:
  "0 \<le> sint backoffMax \<Longrightarrow> sint backoffMax < 2 ^ 62 \<Longrightarrow> resub_step\<^sup>*\<^sup>* (ResubscribeErr backoffMax) r \<Longrightarrow>
   resub_inv backoffMax r"
  by (erule steps_invariant) (simp_all add: resub_step_inv, simp add: resub_inv_def ResubscribeErr_def div10_bounds)

text \<open>
  \<open>Unsubscribe\<close> of a resubscription beside its loop: it sends on \<open>unsub\<close>, which has no buffer, and then
  waits for the error channel, on which nothing is ever sent. \<open>NotYet\<close> and \<open>Finished\<close> also stand for the
  \<open>Once\<close> around the two.
\<close>

datatype resub_caller = NotYet | SendsUnsub | AwaitsErr | Finished

inductive resub_Unsubscribe :: "resub_caller \<times> ('s, 'e) resub \<Rightarrow> resub_caller \<times> ('s, 'e) resub \<Rightarrow> bool" where
  calls: "resub_Unsubscribe (NotYet, r) (SendsUnsub, r)"
| loop_runs: "resub_own r r' \<Longrightarrow> resub_Unsubscribe (c, r) (c, r')"
| handed_over: "resub_receives r = Some r' \<Longrightarrow> resub_Unsubscribe (SendsUnsub, r) (AwaitsErr, r')"
| err_closed: "rs_errClosed r \<Longrightarrow> resub_Unsubscribe (AwaitsErr, r) (Finished, r)"

inductive_cases resub_UnsubscribeE: "resub_Unsubscribe (c, r) (c', r')"

lemma resub_receives_stops:
  "resub_receives r = Some r' \<Longrightarrow> rs_pc r' = Cancelling \<or> rs_pc r' = Stopped \<and> rs_errClosed r'"
  by (auto simp: resub_receives_def rs_return_def rs_waited_def Let_def split: resub_pc.splits)

lemma resub_stopped_stays: "rs_pc r = Stopped \<Longrightarrow> \<not> resub_own r r'"
  by (auto elim: resub_ownE)

lemma resub_cancelling: "rs_pc r = Cancelling \<Longrightarrow> resub_own r r' \<Longrightarrow> rs_pc r' = Stopped \<and> rs_errClosed r'"
  by (auto simp: resub_late_def rs_return_def elim: resub_ownE)

lemma resub_receives_None: "resub_receives r = None \<longleftrightarrow> rs_pc r \<in> {Loop, Cancelling, Stopped, NilPanic}"
  by (auto simp: resub_receives_def split: resub_pc.splits)

text \<open>
  Once the loop has taken the message the call returns, after the end of a call of \<open>fn\<close> if one is running;
  until then the loop takes it, at once or after its next call of \<open>fn\<close> has begun. A loop that has ended by
  itself never takes it: then the call blocks for ever, and such a state is reached when a subscription
  ends with the nil error.
\<close>

lemma resub_awaits_returns:
  assumes "resub_Unsubscribe\<^sup>*\<^sup>* (NotYet, ResubscribeErr backoffMax) (AwaitsErr, r)"
  shows "resub_Unsubscribe (AwaitsErr, r) (Finished, r) \<or>
    rs_pc r = Cancelling \<and> (\<forall>res. resub_Unsubscribe (AwaitsErr, r) (AwaitsErr, resub_late res r)) \<and>
    (\<forall>res. resub_Unsubscribe (AwaitsErr, resub_late res r) (Finished, resub_late res r))"
proof -
  let ?I = "\<lambda>(c, r). c = AwaitsErr \<longrightarrow> rs_pc r = Cancelling \<or> rs_pc r = Stopped \<and> rs_errClosed r"
  have "?I t \<Longrightarrow> resub_Unsubscribe t t' \<Longrightarrow> ?I t'" for t t' :: "resub_caller \<times> ('a, 'b) resub"
    by (cases t; cases t')
      (auto elim!: resub_UnsubscribeE dest: resub_receives_stops resub_stopped_stays resub_cancelling)
  then have "?I (AwaitsErr, r)" using assms by (elim steps_invariant) auto
  then consider "rs_errClosed r" | "rs_pc r = Cancelling" by auto
  then show ?thesis
  proof cases
    case 2
    have "rs_errClosed (resub_late res r)" for res by (simp add: resub_late_def rs_return_def)
    then show ?thesis using 2 by (blast intro: loop_runs fn_late err_closed)
  qed (simp add: err_closed)
qed

lemma resub_Unsubscribe_taken:
  assumes "rs_pc r \<notin> {Cancelling, Stopped, NilPanic}"
  shows "\<exists>r'. resub_Unsubscribe\<^sup>*\<^sup>* (SendsUnsub, r) (AwaitsErr, r')"
proof (cases "rs_pc r = Loop")
  case True
  let ?s = "r\<lparr>rs_lastTry := 0, rs_pc := Subscribing, rs_calls := rs_calls r @ [rs_lastErr r]\<rparr>"
  have "resub_Unsubscribe (SendsUnsub, r) (SendsUnsub, ?s)" by (intro loop_runs call_fn True)
  moreover have "resub_Unsubscribe (SendsUnsub, ?s) (AwaitsErr, ?s\<lparr>rs_pc := Cancelling\<rparr>)" by (rule handed_over) (simp add: resub_receives_def)
  ultimately show ?thesis by (meson converse_rtranclp_into_rtranclp rtranclp.rtrancl_refl)
next
  case False
  then obtain r' where "resub_receives r = Some r'" using assms resub_receives_None [of r] by fastforce
  then show ?thesis by (blast intro: handed_over)
qed

lemma resub_Unsubscribe_blocks:
  assumes "rs_pc r = Stopped"
  shows "\<not> resub_Unsubscribe (SendsUnsub, r) t"
  using assms resub_stopped_stays [OF assms] by (cases t) (auto simp: resub_receives_def elim!: resub_UnsubscribeE)

lemma resub_Unsubscribe_stuck_reachable:
  "\<exists>r :: ('s, 'e) resub. resub_Unsubscribe\<^sup>*\<^sup>* (NotYet, ResubscribeErr backoffMax) (SendsUnsub, r) \<and> rs_pc r = Stopped"
proof -
  let ?r0 = "ResubscribeErr backoffMax :: ('s, 'e) resub"
  let ?r1 = "?r0\<lparr>rs_lastTry := 0, rs_pc := Subscribing, rs_calls := rs_calls ?r0 @ [rs_lastErr ?r0]\<rparr>"
  let ?r2 = "?r1\<lparr>rs_pc := Waiting undefined, rs_got := rs_got ?r1 @ [undefined]\<rparr>"
  let ?r3 = "rs_waited undefined ((None :: 'e option) = None) (?r2\<lparr>rs_lastErr := None\<rparr>)"
  have "resub_own ?r0 ?r1" by (rule call_fn) (simp add: ResubscribeErr_def)
  moreover have "resub_own ?r1 ?r2" by (rule fn_ok) simp
  moreover have "resub_own ?r2 ?r3" by (rule sub_error) simp
  moreover have "rs_pc ?r3 = Stopped" by (simp add: rs_waited_def rs_return_def)
  ultimately show ?thesis by (meson calls loop_runs converse_rtranclp_into_rtranclp rtranclp.rtrancl_refl)
qed

section \<open>SubscriptionScope\<close>

text \<open>
  A tracked subscription is a number. The calls of \<open>Unsubscribe\<close> on the wrapped subscriptions are
  \<open>sc_calls\<close>, made through the wrappers, and \<open>sc_byClose\<close>, made by \<open>Close\<close>. \<open>sc_pending\<close> are the calls
  through wrappers that have not yet taken the lock, and \<open>sc_closing\<close> what the loop of \<open>Close\<close>, which holds the
  lock, has left to do.
\<close>

record scope =
  sc_subs :: "nat list"
  sc_closed :: bool
  sc_next :: nat
  sc_calls :: "nat list"
  sc_pending :: "nat list"
  sc_byClose :: "nat list"
  sc_closing :: "nat list option"

definition scope_zero :: scope where
  "scope_zero = \<lparr>sc_subs = [], sc_closed = False, sc_next = 0, sc_calls = [], sc_pending = [], sc_byClose = [],
     sc_closing = None\<rparr>"

definition scope_Track :: "scope \<Rightarrow> scope \<times> nat option" where
  "scope_Track sc =
     (if sc_closed sc then (sc, None)
      else (sc\<lparr>sc_subs := sc_subs sc @ [sc_next sc], sc_next := Suc (sc_next sc)\<rparr>, Some (sc_next sc)))"

text \<open>\<open>Close\<close>: its beginning, one turn of its loop, and its end; \<open>keys\<close> is the order in which the map is traversed.\<close>

definition scope_Close_begin :: "nat list \<Rightarrow> scope \<Rightarrow> scope" where
  "scope_Close_begin keys sc = (if sc_closed sc then sc else sc\<lparr>sc_closed := True, sc_closing := Some keys\<rparr>)"

definition scope_Close_next :: "nat \<Rightarrow> nat list \<Rightarrow> scope \<Rightarrow> scope" where
  "scope_Close_next s keys sc = sc\<lparr>sc_byClose := sc_byClose sc @ [s], sc_closing := Some keys\<rparr>"

definition scope_Close_end :: "scope \<Rightarrow> scope" where
  "scope_Close_end sc = sc\<lparr>sc_subs := [], sc_closing := None\<rparr>"

definition scope_Count :: "scope \<Rightarrow> nat" where
  "scope_Count sc = length (sc_subs sc)"

text \<open>\<open>Unsubscribe\<close> of a wrapper, before and under the lock.\<close>

definition scopeSub_Unsubscribe_begin :: "scope \<Rightarrow> nat \<Rightarrow> scope" where
  "scopeSub_Unsubscribe_begin sc s = sc\<lparr>sc_calls := sc_calls sc @ [s], sc_pending := sc_pending sc @ [s]\<rparr>"

definition scopeSub_Unsubscribe_end :: "scope \<Rightarrow> nat \<Rightarrow> scope" where
  "scopeSub_Unsubscribe_end sc s = sc\<lparr>sc_pending := remove1 s (sc_pending sc), sc_subs := removeAll s (sc_subs sc)\<rparr>"

inductive scope_step :: "scope \<Rightarrow> scope \<Rightarrow> bool" where
  tracks: "sc_closing sc = None \<Longrightarrow> scope_step sc (fst (scope_Track sc))"
| close_begins: "sc_closing sc = None \<Longrightarrow> mset keys = mset (sc_subs sc) \<Longrightarrow> scope_step sc (scope_Close_begin keys sc)"
| close_goes_on: "sc_closing sc = Some (s # keys) \<Longrightarrow> scope_step sc (scope_Close_next s keys sc)"
| close_ends: "sc_closing sc = Some [] \<Longrightarrow> scope_step sc (scope_Close_end sc)"
| wrapper_begins: "s < sc_next sc \<Longrightarrow> scope_step sc (scopeSub_Unsubscribe_begin sc s)"
| wrapper_ends: "sc_closing sc = None \<Longrightarrow> s \<in> set (sc_pending sc) \<Longrightarrow> scope_step sc (scopeSub_Unsubscribe_end sc s)"

inductive_cases scope_stepE: "scope_step sc sc'"

lemmas scope_op_defs = scope_Track_def scope_Close_begin_def scope_Close_next_def scope_Close_end_def
  scopeSub_Unsubscribe_begin_def scopeSub_Unsubscribe_end_def

definition scope_inv :: "scope \<Rightarrow> bool" where
  "scope_inv sc \<longleftrightarrow>
     distinct (sc_subs sc) \<and> distinct (sc_byClose sc) \<and> set (sc_pending sc) \<subseteq> set (sc_calls sc) \<and>
     set (sc_subs sc) \<union> set (sc_calls sc) \<union> set (sc_byClose sc) = {..<sc_next sc} \<and>
     (\<not> sc_closed sc \<longrightarrow> sc_byClose sc = [] \<and> sc_closing sc = None \<and> set (sc_subs sc) \<inter> set (sc_calls sc) \<subseteq> set (sc_pending sc)) \<and>
     (sc_closed sc \<longrightarrow> (case sc_closing sc of None \<Rightarrow> sc_subs sc = [] | Some keys \<Rightarrow> mset (sc_byClose sc @ keys) = mset (sc_subs sc)))"

lemma scope_step_inv: "scope_step sc sc' \<Longrightarrow> scope_inv sc \<Longrightarrow> scope_inv sc'"
proof (induction rule: scope_step.induct)
  case (tracks sc)
  then show ?case by (auto simp: scope_inv_def scope_Track_def lessThan_Suc split: option.splits)
next
  case (close_begins sc keys)
  then show ?case by (auto simp: scope_inv_def scope_Close_begin_def split: option.splits)
next
  case (close_goes_on sc s keys)
  then have m: "mset (sc_byClose sc @ s # keys) = mset (sc_subs sc)" and d: "distinct (sc_subs sc)" and c: "sc_closed sc"
    by (auto simp: scope_inv_def)
  have "distinct (sc_byClose sc @ s # keys)" "set (sc_byClose sc @ s # keys) = set (sc_subs sc)"
    using m d by (metis mset_eq_imp_distinct_iff) (rule mset_eq_setD [OF m])
  then show ?case using close_goes_on m c by (auto simp: scope_inv_def scope_Close_next_def)
next
  case (close_ends sc)
  then have "mset (sc_byClose sc) = mset (sc_subs sc)" by (auto simp: scope_inv_def)
  then have "set (sc_byClose sc) = set (sc_subs sc)" by (rule mset_eq_setD)
  then show ?case using close_ends by (auto simp: scope_inv_def scope_Close_end_def)
next
  case (wrapper_begins s sc)
  then show ?case by (auto simp: scope_inv_def scopeSub_Unsubscribe_begin_def split: option.splits)
next
  case (wrapper_ends sc s)
  then have "set (remove1 s (sc_pending sc)) \<subseteq> set (sc_calls sc)" "s \<in> set (sc_calls sc)"
    using set_remove1_subset [of s "sc_pending sc"] by (auto simp: scope_inv_def)
  moreover have "set (sc_pending sc) - {s} \<subseteq> set (remove1 s (sc_pending sc))"
    using in_set_remove1 [of _ s "sc_pending sc"] by blast
  ultimately show ?case
    using wrapper_ends by (auto simp: scope_inv_def scopeSub_Unsubscribe_end_def distinct_removeAll)
qed

lemma scope_steps_inv: "scope_step\<^sup>*\<^sup>* scope_zero sc \<Longrightarrow> scope_inv sc"
  by (erule steps_invariant) (simp_all add: scope_step_inv, simp add: scope_inv_def scope_zero_def)

section \<open>Properties\<close>

lemma funSub_at_most_one_error_parts:
  assumes "funSub_step\<^sup>*\<^sup>* NewSubscription s"
  shows "fn_sent s \<le> 1" and "fn_errClosed s \<longleftrightarrow> fn_producer s = Ended"
    and "fn_unsubClosed s \<Longrightarrow> funSub_step\<^sup>*\<^sup>* s s' \<Longrightarrow> fn_sent s' = 0 \<and> fn_buffer s' = None"
    and "fn_producer s \<noteq> Ended \<Longrightarrow> \<exists>s'. funSub_step\<^sup>*\<^sup>* s s' \<and> fn_errClosed s'"
proof -
  note inv = funSub_steps_inv [OF assms]
  show "fn_sent s \<le> 1" "fn_errClosed s \<longleftrightarrow> fn_producer s = Ended" using inv by (simp_all add: funSub_inv_def)
  show "fn_sent s' = 0 \<and> fn_buffer s' = None" if c: "fn_unsubClosed s" and r: "funSub_step\<^sup>*\<^sup>* s s'"
  proof -
    have "fn_unsubClosed s'" using r c by (rule unsubClosed_stays)
    then show ?thesis
      using funSub_steps_inv [OF rtranclp_trans [OF assms r]] by (simp add: funSub_inv_def)
  qed
  show "\<exists>s'. funSub_step\<^sup>*\<^sup>* s s' \<and> fn_errClosed s'" if "fn_producer s \<noteq> Ended"
  proof -
    obtain s1 err where s1: "funSub_step\<^sup>*\<^sup>* s s1" "fn_producer s1 = Returned err"
    proof (cases "fn_producer s")
      case Running
      from producer_returns [OF this, of None] show ?thesis
        using that [of "s\<lparr>fn_producer := Returned None\<rparr>" None] by auto
    qed (use that \<open>fn_producer s \<noteq> Ended\<close> in auto)
    have "funSub_step\<^sup>*\<^sup>* s (producer_end err s1)"
      using s1(1) goroutine_ends [OF s1(2)] by (rule rtranclp.rtrancl_into_rtrancl)
    moreover have "fn_errClosed (producer_end err s1)" by (simp add: producer_end_def Let_def)
    ultimately show ?thesis by blast
  qed
qed

text \<open>
  C18. Of a subscription made by \<open>NewSubscription\<close>, in every reachable state: at most one error is
  ever sent, the error channel is closed exactly when the goroutine has ended, so that a waiting
  \<open>Unsubscribe\<close> returns then, and after an \<open>Unsubscribe\<close> that came first no error is or will be sent.
\<close>
theorem funSub_at_most_one_error:
  assumes "funSub_step\<^sup>*\<^sup>* NewSubscription s"
  shows "(fn_sent s \<le> 1) \<and>
    (fn_errClosed s \<longleftrightarrow> fn_producer s = Ended) \<and>
    (fn_unsubClosed s \<longrightarrow> funSub_step\<^sup>*\<^sup>* s s' \<longrightarrow> (fn_sent s' = 0 \<and> fn_buffer s' = None)) \<and>
    (fn_producer s \<noteq> Ended \<longrightarrow> (\<exists>s'. funSub_step\<^sup>*\<^sup>* s s' \<and> fn_errClosed s'))"
  by (rule conjI, rule funSub_at_most_one_error_parts(1) [OF assms],
      rule conjI, rule funSub_at_most_one_error_parts(2) [OF assms],
      rule conjI, rule impI, rule impI, rule funSub_at_most_one_error_parts(3) [OF assms], assumption, assumption,
      rule impI, rule funSub_at_most_one_error_parts(4) [OF assms], assumption)

theorem funSub_at_most_one_error_witness:
  "\<exists>s'. funSub_step\<^sup>*\<^sup>* (NewSubscription :: nat funSub) s' \<and> fn_errClosed s'"
  by (rule funSub_at_most_one_error [THEN conjunct2, THEN conjunct2, THEN conjunct2, rule_format]) (simp_all add: NewSubscription_def)

lemma scope_facts:
  assumes "scope_step\<^sup>*\<^sup>* scope_zero sc"
  shows "distinct (sc_byClose sc)"
    and "\<not> sc_closed sc \<Longrightarrow> sc_byClose sc = [] \<and> {..<sc_next sc} - set (sc_calls sc) \<subseteq> set (sc_subs sc) \<and>
      set (sc_subs sc) \<subseteq> ({..<sc_next sc} - set (sc_calls sc)) \<union> set (sc_pending sc)"
    and "sc_closing sc = Some keys \<Longrightarrow> mset (sc_byClose sc) + mset keys = mset (sc_subs sc)"
    and "sc_closed sc \<Longrightarrow> sc_closing sc = None \<Longrightarrow> scope_Count sc = 0 \<and> set (sc_calls sc) \<union> set (sc_byClose sc) = {..<sc_next sc}"
    and "sc_closed sc \<Longrightarrow> snd (scope_Track sc) = None"
  using scope_steps_inv [OF assms] by (auto simp: scope_inv_def scope_Count_def scope_Track_def)

text \<open>
  C19. Of a subscription that is established again after errors, for a maximum wait from 0 to below
  \<open>2 ^ 62\<close>, in every reachable state: the wait is between 0 and the maximum; every subscription that
  \<open>fn\<close> returned has been unsubscribed (twice), but for the one waited on and at most one that \<open>fn\<close> returned
  after the loop had received the message of \<open>Unsubscribe\<close>, which is never unsubscribed; and the error
  channel is closed exactly when the loop has ended. Of a scope, in every interleaving of calls: \<open>Close\<close> unsubscribes no
  subscription twice; when it begins, those tracked are the ones on which \<open>Unsubscribe\<close> was not called, and some whose
  call has not yet taken the lock; its loop goes through all of them; and when it has returned nothing is
  tracked any more and every subscription that ever was has been unsubscribed.
\<close>
theorem resubscribe_and_scope:
  assumes "0 \<le> sint backoffMax" "sint backoffMax < 2 ^ 62" "resub_step\<^sup>*\<^sup>* (ResubscribeErr backoffMax) r"
    "scope_step\<^sup>*\<^sup>* scope_zero sc"
  shows "(0 \<le> sint (rs_wait r) \<and> sint (rs_wait r) \<le> sint backoffMax) \<and>
    (\<exists>old. rs_got r = old @ (case rs_pc r of Waiting sub \<Rightarrow> [sub] | _ \<Rightarrow> []) @ rs_dropped r \<and>
      rs_unsubs r = concat (map (\<lambda>sub. [sub, sub]) old)) \<and>
    (length (rs_dropped r) \<le> 1 \<and> (rs_dropped r \<noteq> [] \<longrightarrow> rs_pc r = Stopped)) \<and>
    (rs_errClosed r \<longleftrightarrow> rs_pc r = Stopped) \<and>
    distinct (sc_byClose sc) \<and>
    (\<not> sc_closed sc \<longrightarrow> (sc_byClose sc = [] \<and> {..<sc_next sc} - set (sc_calls sc) \<subseteq> set (sc_subs sc) \<and>
      set (sc_subs sc) \<subseteq> ({..<sc_next sc} - set (sc_calls sc)) \<union> set (sc_pending sc))) \<and>
    (sc_closing sc = Some keys \<longrightarrow> mset (sc_byClose sc) + mset keys = mset (sc_subs sc)) \<and>
    (sc_closed sc \<and> sc_closing sc = None \<longrightarrow>
      (scope_Count sc = 0 \<and> set (sc_calls sc) \<union> set (sc_byClose sc) = {..<sc_next sc})) \<and>
    (sc_closed sc \<longrightarrow> snd (scope_Track sc) = None)"
proof -
  have "resub_inv backoffMax r" by (rule resub_steps_inv [OF assms(1-3)])
  then show ?thesis
    unfolding resub_inv_def using scope_facts [OF assms(4)] by (intro conjI impI) simp_all
qed

theorem resubscribe_and_scope_witness:
  "\<exists>r. resub_step\<^sup>*\<^sup>* (ResubscribeErr 1000) r \<and> rs_got r = [7 :: nat] \<and> rs_dropped r = [7] \<and> rs_unsubs r = [] \<and>
     rs_calls r = [None :: nat option] \<and> rs_errClosed r"
proof -
  let ?r0 = "ResubscribeErr 1000 :: (nat, nat) resub"
  let ?r1 = "?r0\<lparr>rs_lastTry := 5, rs_pc := Subscribing, rs_calls := rs_calls ?r0 @ [rs_lastErr ?r0]\<rparr>"
  let ?r2 = "?r1\<lparr>rs_pc := Cancelling\<rparr>"
  let ?r3 = "resub_late (Some 7) ?r2"
  have "resub_step ?r0 ?r1" by (rule own_step, rule call_fn) (simp add: ResubscribeErr_def)
  moreover have "resub_step ?r1 ?r2" by (rule unsub_received) (simp add: resub_receives_def)
  moreover have "resub_step ?r2 ?r3" by (rule own_step, rule fn_late) simp
  ultimately have run: "resub_step\<^sup>*\<^sup>* ?r0 ?r3" by (meson converse_rtranclp_into_rtranclp rtranclp.rtrancl_refl)
  have r3: "rs_got ?r3 = [7]" "rs_dropped ?r3 = [7]" "rs_unsubs ?r3 = []" "rs_calls ?r3 = [None]" "rs_pc ?r3 = Stopped"
    by (simp_all add: ResubscribeErr_def resub_late_def rs_return_def)
  have "rs_errClosed ?r3"
    using resubscribe_and_scope [OF _ _ run rtranclp.rtrancl_refl] r3(5) by simp
  then show ?thesis using run r3 by blast
qed

end
