(* ===== verification/Rlp_Struct.thy ===== *)
theory Rlp_Struct
  imports Go_Std
begin

text \<open>
  \<open>src/rlp/internal/rlpstruct/rlpstruct.go\<close>: which fields of a struct take part in RLP, and their
  tags. \<open>reflect.Kind\<close> is a datatype with the order of Go's constants; the tag of a field is the
  text that \<open>reflect.StructTag.Get("rlp")\<close> returns for it. The case \<open>"tali"\<close> of \<open>parseTag\<close> and the
  condition on \<open>anyOptional\<close> in \<open>ProcessFields\<close> are those of the source.
\<close>

section \<open>Kinds\<close>

datatype kind = KInvalid | KBool | KInt | KInt8 | KInt16 | KInt32 | KInt64 | KUint | KUint8 | KUint16 | KUint32
  | KUint64 | KUintptr | KFloat32 | KFloat64 | KComplex64 | KComplex128 | KArray | KChan | KFunc | KInterface
  | KMap | KPtr | KSlice | KString | KStruct | KUnsafePointer

fun kind_num :: "kind \<Rightarrow> nat" where
  "kind_num KInvalid = 0" | "kind_num KBool = 1" | "kind_num KInt = 2" | "kind_num KInt8 = 3"
| "kind_num KInt16 = 4" | "kind_num KInt32 = 5" | "kind_num KInt64 = 6" | "kind_num KUint = 7"
| "kind_num KUint8 = 8" | "kind_num KUint16 = 9" | "kind_num KUint32 = 10" | "kind_num KUint64 = 11"
| "kind_num KUintptr = 12" | "kind_num KFloat32 = 13" | "kind_num KFloat64 = 14" | "kind_num KComplex64 = 15"
| "kind_num KComplex128 = 16" | "kind_num KArray = 17" | "kind_num KChan = 18" | "kind_num KFunc = 19"
| "kind_num KInterface = 20" | "kind_num KMap = 21" | "kind_num KPtr = 22" | "kind_num KSlice = 23"
| "kind_num KString = 24" | "kind_num KStruct = 25" | "kind_num KUnsafePointer = 26"

lemma kind_num_inject: "kind_num k = kind_num l \<longleftrightarrow> k = l"
  by (cases k; cases l) simp_all

instantiation kind :: linorder
begin

definition less_eq_kind :: "kind \<Rightarrow> kind \<Rightarrow> bool" where
  "less_eq_kind k l \<longleftrightarrow> kind_num k \<le> kind_num l"

definition less_kind :: "kind \<Rightarrow> kind \<Rightarrow> bool" where
  "less_kind k l \<longleftrightarrow> kind_num k < kind_num l"

instance
  by standard (auto simp: less_eq_kind_def less_kind_def kind_num_inject)

end

section \<open>Types and tags\<close>

datatype rtype = RType (rt_name: string) (rt_kind: kind) (rt_encoder: bool) (rt_decoder: bool) (rt_elem: "rtype option")

record sfield =
  sf_name :: string
  sf_index :: nat
  sf_exported :: bool
  sf_type :: rtype
  sf_tag :: string

type_synonym nil_kind = byte

definition NilKindString :: nil_kind where "NilKindString = 0x80"
definition NilKindList :: nil_kind where "NilKindList = 0xC0"

definition isUint :: "kind \<Rightarrow> bool" where
  "isUint k \<longleftrightarrow> KUint \<le> k \<and> k \<le> KUintptr"

definition rlp_isByte :: "rtype \<Rightarrow> bool" where
  "rlp_isByte t \<longleftrightarrow> rt_kind t = KUint8 \<and> \<not> rt_encoder t"

text \<open>\<open>None\<close> is the dereference of a nil element type, which array and slice types do not have.\<close>

definition isByteArray :: "rtype \<Rightarrow> bool option" where
  "isByteArray t =
     (if rt_kind t = KSlice \<or> rt_kind t = KArray then map_option rlp_isByte (rt_elem t) else Some False)"

definition DefaultNilValue :: "rtype \<Rightarrow> nil_kind option" where
  "DefaultNilValue t =
     (let k = rt_kind t
      in if isUint k \<or> k = KString \<or> k = KBool then Some NilKindString
         else map_option (\<lambda>b. if b then NilKindString else NilKindList) (isByteArray t))"

record rtags =
  tg_nilKind :: nil_kind
  tg_nilOK :: bool
  tg_optional :: bool
  tg_tail :: bool
  tg_ignored :: bool

definition no_tags :: rtags where
  "no_tags = \<lparr>tg_nilKind = 0, tg_nilOK = False, tg_optional = False, tg_tail = False, tg_ignored = False\<rparr>"

record tagError =
  te_structType :: string
  te_field :: string
  te_tag :: string
  te_err :: string

definition tag_error :: "string \<Rightarrow> string \<Rightarrow> string \<Rightarrow> tagError" where
  "tag_error fld t err = \<lparr>te_structType = [], te_field = fld, te_tag = t, te_err = err\<rparr>"

text \<open>\<open>TagError.Error\<close>; \<open>quote\<close> is the verb \<open>%q\<close>.\<close>

definition TagError_Error :: "(string \<Rightarrow> string) \<Rightarrow> tagError \<Rightarrow> string" where
  "TagError_Error quote e =
     (let fld = ''field'' @ te_field e;
          fld = (if te_structType e \<noteq> [] then te_structType e @ ''.'' @ te_field e else fld)
      in ''rlp: invalid struct tag '' @ quote (te_tag e) @ '' for '' @ fld @ '' ('' @ te_err e @ '')'')"

section \<open>parseTag\<close>

text \<open>One case of the switch, on the trimmed tag. The outer \<open>None\<close> is a nil dereference.\<close>

definition parse_one :: "sfield \<Rightarrow> nat \<Rightarrow> string \<Rightarrow> rtags \<Rightarrow> (rtags, tagError) ret option" where
  "parse_one fld lastPublic t ts =
     (let name = sf_name fld
      in if t = [] then Some (ts, None)
         else if t = ''-'' then Some (ts\<lparr>tg_ignored := True\<rparr>, None)
         else if t = ''nil'' \<or> t = ''nilString'' \<or> t = ''nilList'' then
           (let ts = ts\<lparr>tg_nilOK := True\<rparr>
            in if rt_kind (sf_type fld) \<noteq> KPtr then Some (ts, Some (tag_error name t ''field is not a pointer''))
               else if t = ''nil'' then map_option (\<lambda>k. (ts\<lparr>tg_nilKind := k\<rparr>, None)) (DefaultNilValue (sf_type fld))
               else if t = ''nilString'' then Some (ts\<lparr>tg_nilKind := NilKindString\<rparr>, None)
               else Some (ts\<lparr>tg_nilKind := NilKindList\<rparr>, None))
         else if t = ''optional'' then
           (let ts = ts\<lparr>tg_optional := True\<rparr>
            in if tg_tail ts then Some (ts, Some (tag_error name t ''also has \"tail\" tag'')) else Some (ts, None))
         else if t = ''tali'' then
           (let ts = ts\<lparr>tg_tail := True\<rparr>
            in if sf_index fld \<noteq> lastPublic then Some (ts, Some (tag_error name t ''must be on last field''))
               else if tg_optional ts then Some (ts, Some (tag_error name t ''also has \"optional\" tag''))
               else if rt_kind (sf_type fld) \<noteq> KSlice then Some (ts, Some (tag_error name t ''field type is not slice''))
               else Some (ts, None))
         else Some (ts, Some (tag_error name t ''unknown tag'')))"

fun parse_list :: "sfield \<Rightarrow> nat \<Rightarrow> string list \<Rightarrow> rtags \<Rightarrow> (rtags, tagError) ret option" where
  "parse_list fld lastPublic [] ts = Some (ts, None)"
| "parse_list fld lastPublic (t # rest) ts =
     (case parse_one fld lastPublic (trim_space t) ts of
        None \<Rightarrow> None
      | Some (ts, Some e) \<Rightarrow> Some (ts, Some e)
      | Some (ts, None) \<Rightarrow> parse_list fld lastPublic rest ts)"

definition parseTag :: "sfield \<Rightarrow> nat \<Rightarrow> (rtags, tagError) ret option" where
  "parseTag fld lastPublic = parse_list fld lastPublic (split_on CHR '','' (sf_tag fld)) no_tags"

section \<open>ProcessFields\<close>

definition lastPublicField :: "sfield list \<Rightarrow> nat" where
  "lastPublicField fs = fold (\<lambda>f last. if sf_exported f then sf_index f else last) fs 0"

text \<open>The first loop.\<close>

fun collect_fields ::
  "nat \<Rightarrow> sfield list \<Rightarrow> sfield list \<Rightarrow> rtags list \<Rightarrow> (tagError + sfield list \<times> rtags list) option" where
  "collect_fields lastPublic [] flds tags = Some (Inr (flds, tags))"
| "collect_fields lastPublic (f # fs) flds tags =
     (if \<not> sf_exported f then collect_fields lastPublic fs flds tags
      else (case parseTag f lastPublic of
              None \<Rightarrow> None
            | Some (ts, Some err) \<Rightarrow> Some (Inl err)
            | Some (ts, None) \<Rightarrow>
                if tg_ignored ts then collect_fields lastPublic fs flds tags
                else collect_fields lastPublic fs (flds @ [f]) (tags @ [ts])))"

text \<open>The second loop: the error, if any.\<close>

definition must_be_optional :: "(string \<Rightarrow> string) \<Rightarrow> string \<Rightarrow> string \<Rightarrow> tagError" where
  "must_be_optional quote name first =
     tag_error name [] (''must be optional because preceding field '' @ quote first @ '' is optional'')"

fun check_optional :: "(string \<Rightarrow> string) \<Rightarrow> (sfield \<times> rtags) list \<Rightarrow> bool \<Rightarrow> string \<Rightarrow> tagError option" where
  "check_optional quote [] anyOptional first = None"
| "check_optional quote ((f, ts) # l) anyOptional first =
     (if tg_optional ts \<or> tg_tail ts
      then (let first = (if \<not> anyOptional then sf_name f else first) in check_optional quote l True first)
      else if \<not> anyOptional then Some (must_be_optional quote (sf_name f) first)
      else check_optional quote l anyOptional first)"

definition ProcessFields :: "(string \<Rightarrow> string) \<Rightarrow> sfield list \<Rightarrow> (tagError + sfield list \<times> rtags list) option" where
  "ProcessFields quote allFields =
     (case collect_fields (lastPublicField allFields) allFields [] [] of
        None \<Rightarrow> None
      | Some (Inl err) \<Rightarrow> Some (Inl err)
      | Some (Inr (flds, tags)) \<Rightarrow>
          (case check_optional quote (zip flds tags) False [] of
             Some err \<Rightarrow> Some (Inl err)
           | None \<Rightarrow> Some (Inr (flds, tags))))"

section \<open>Which structs are accepted\<close>

text \<open>The tags of the fields that take part, when all tags are well-formed.\<close>

definition public_tags :: "sfield list \<Rightarrow> rtags list option" where
  "public_tags fs =
     (let ps = map (\<lambda>f. parseTag f (lastPublicField fs)) (filter sf_exported fs)
      in if list_all (\<lambda>p. \<exists>ts. p = Some (ts, None)) ps
         then Some (filter (\<lambda>ts. \<not> tg_ignored ts) (map (\<lambda>p. fst (the p)) ps)) else None)"

lemma check_optional_True: "check_optional quote l True first = None"
  by (induction l arbitrary: first) (auto simp: Let_def)

lemma check_optional_False:
  "check_optional quote l False first = None \<longleftrightarrow>
   (case l of [] \<Rightarrow> True | (f, ts) # _ \<Rightarrow> tg_optional ts \<or> tg_tail ts)"
  by (cases l) (auto simp: Let_def check_optional_True split: if_splits)

lemma collect_fields_spec:
  "collect_fields n fs flds tags = Some (Inr (flds', tags')) \<longleftrightarrow>
   (\<forall>f\<in>set fs. sf_exported f \<longrightarrow> (\<exists>ts. parseTag f n = Some (ts, None))) \<and>
   (let ps = filter (\<lambda>(f, ts). \<not> tg_ignored ts) (map (\<lambda>f. (f, fst (the (parseTag f n)))) (filter sf_exported fs))
    in flds' = flds @ map fst ps \<and> tags' = tags @ map snd ps)"
proof (induction fs arbitrary: flds tags)
  case (Cons f fs)
  show ?case
  proof (cases "sf_exported f")
    case True
    show ?thesis
    proof (cases "parseTag f n")
      case (Some r)
      obtain ts e where r: "r = (ts, e)" by fastforce
      show ?thesis using True Some r Cons.IH by (cases e) (auto simp: Let_def)
    qed (use True in auto)
  qed (use Cons.IH in \<open>simp add: Let_def\<close>)
qed (auto simp: Let_def)

lemma collect_fields_public:
  "(\<exists>flds tags. collect_fields (lastPublicField fs) fs [] [] = Some (Inr (flds, tags)) \<and> tags = ts \<and> length flds = length tags)
   \<longleftrightarrow> public_tags fs = Some ts"
proof -
  let ?n = "lastPublicField fs"
  have m: "map snd (filter (\<lambda>(f, ts). \<not> tg_ignored ts) (map (\<lambda>f. (f, fst (the (parseTag f ?n)))) xs)) =
      filter (\<lambda>ts. \<not> tg_ignored ts) (map (\<lambda>f. fst (the (parseTag f ?n))) xs)" for xs
    by (induction xs) simp_all
  show ?thesis
    unfolding collect_fields_spec public_tags_def Let_def append_Nil
    using m [of "filter sf_exported fs"] by (auto simp: list_all_iff comp_def)
qed

text \<open>
  C20. \<open>ProcessFields\<close> accepts a struct exactly when the tags of its exported fields are well-formed and
  the first field that takes part is tagged optional or as the tail (with the text \<open>C20. tali\<close>, which only the last
  field, a slice, can be), or there is none; the fields after it need not be optional. In particular it refuses every struct whose first field has no tag.
\<close>
theorem ProcessFields_accepts_iff:
  "(\<exists>flds tags. ProcessFields quote fs = Some (Inr (flds, tags))) \<longleftrightarrow>
   (\<exists>ts. public_tags fs = Some ts \<and> (ts = [] \<or> tg_optional (hd ts) \<or> tg_tail (hd ts)))"
proof -
  have "(\<exists>flds tags. ProcessFields quote fs = Some (Inr (flds, tags))) \<longleftrightarrow>
    (\<exists>flds tags. collect_fields (lastPublicField fs) fs [] [] = Some (Inr (flds, tags)) \<and>
       check_optional quote (zip flds tags) False [] = None)"
    by (auto simp: ProcessFields_def split: option.splits sum.splits)
  also have "\<dots> \<longleftrightarrow> (\<exists>flds tags. collect_fields (lastPublicField fs) fs [] [] = Some (Inr (flds, tags)) \<and>
       length flds = length tags \<and> (tags = [] \<or> tg_optional (hd tags) \<or> tg_tail (hd tags)))"
  proof -
    have "length flds = length tags" if "collect_fields (lastPublicField fs) fs [] [] = Some (Inr (flds, tags))" for flds tags
      using that unfolding collect_fields_spec by (simp add: Let_def)
    moreover have "check_optional quote (zip flds tags) False [] = None \<longleftrightarrow>
        (tags = [] \<or> tg_optional (hd tags) \<or> tg_tail (hd tags))" if "length flds = length tags" for flds tags
      using that by (cases flds; cases tags) (simp_all add: check_optional_False check_optional_True Let_def)
    ultimately show ?thesis by blast
  qed
  also have "\<dots> \<longleftrightarrow> (\<exists>ts. public_tags fs = Some ts \<and> (ts = [] \<or> tg_optional (hd ts) \<or> tg_tail (hd ts)))"
    using collect_fields_public [of fs] by blast
  finally show ?thesis .
qed

end
