(* ===== verification/Rlp_Types.thy ===== *)
theory Rlp_Types
  imports Rlp_Struct
begin

text \<open>
  \<open>src/rlp/rlpgen/types.go\<close>, and the part of \<open>go/types\<close> that the generator reads: types as trees, in which a
  named type carries its underlying type (a type that contains itself is not such a tree; the code does not
  return on it). \<open>Implements\<close>, the look-up in struct tags and \<open>%q\<close> are in the record \<open>gen_env\<close>. The context of
  the generator is here too, because printing a type adds imports to it. A panic is \<open>None\<close>.
\<close>

section \<open>go/types\<close>

text \<open>
  \<open>GBasic\<close> has its kind and its name; \<open>GNamed\<close> its package (path and name, \<open>None\<close> in the universe), its name and its
  underlying type; \<open>GOther\<close> is a channel, function, interface or map type, with its text. A field has its name, whether it is
  exported, whether it is embedded, its tag and its type.
\<close>

datatype gotype =
  GBasic kind string
| GNamed "(string \<times> string) option" string gotype
| GPtr gotype
| GSlice gotype
| GArray nat gotype
| GStruct "gofield list"
| GOther kind string
and gofield = GField string bool bool string gotype

record gen_env =
  ge_encoder :: "gotype \<Rightarrow> bool"
  ge_decoder :: "gotype \<Rightarrow> bool"
  ge_rawValue :: gotype
  ge_tag :: "string \<Rightarrow> string"
  ge_quote :: "string \<Rightarrow> string"

definition Uint8T :: gotype where "Uint8T = GBasic KUint8 ''uint8''"
definition Uint64T :: gotype where "Uint64T = GBasic KUint64 ''uint64''"
definition BoolT :: gotype where "BoolT = GBasic KBool ''bool''"
definition StringT :: gotype where "StringT = GBasic KString ''string''"

text \<open>\<open>TypeString(typ, nil)\<close>, with the full paths of packages.\<close>

fun type_full :: "gen_env \<Rightarrow> gotype \<Rightarrow> string" and
  field_full :: "gen_env \<Rightarrow> gofield \<Rightarrow> string" and
  fields_full :: "gen_env \<Rightarrow> gofield list \<Rightarrow> string" where
  "type_full env (GBasic k s) = s"
| "type_full env (GNamed None s u) = s"
| "type_full env (GNamed (Some (path, pkg)) s u) = path @ ''.'' @ s"
| "type_full env (GPtr t) = ''*'' @ type_full env t"
| "type_full env (GSlice t) = ''[]'' @ type_full env t"
| "type_full env (GArray n t) = ''['' @ dec_digits n @ '']'' @ type_full env t"
| "type_full env (GStruct fs) = ''struct{'' @ fields_full env fs @ ''}''"
| "type_full env (GOther k s) = s"
| "field_full env (GField s exported embedded tag t) =
     (if embedded then [] else s @ '' '') @ type_full env t @ (if tag = [] then [] else '' '' @ ge_quote env tag)"
| "fields_full env [] = []"
| "fields_full env [f] = field_full env f"
| "fields_full env (f # g # fs) = field_full env f @ ''; '' @ fields_full env (g # fs)"

fun resolveUnderlying :: "gotype \<Rightarrow> gotype" where
  "resolveUnderlying (GNamed p s u) = resolveUnderlying u"
| "resolveUnderlying t = t"

text \<open>\<open>types.Identical\<close> on the types the generator compares: aliases of a basic type have the same kind.\<close>

fun identical :: "gotype \<Rightarrow> gotype \<Rightarrow> bool" where
  "identical (GBasic k s) (GBasic k' s') = (k = k')"
| "identical (GNamed p s u) (GNamed p' s' u') = (p = p' \<and> s = s')"
| "identical (GPtr t) (GPtr t') = identical t t'"
| "identical (GSlice t) (GSlice t') = identical t t'"
| "identical (GArray n t) (GArray n' t') = (n = n' \<and> identical t t')"
| "identical t t' = (t = t')"

definition has_name :: "gotype \<Rightarrow> bool" where
  "has_name t = (case t of GBasic _ _ \<Rightarrow> True | GNamed _ _ _ \<Rightarrow> True | _ \<Rightarrow> False)"

text \<open>\<open>types.AssignableTo(v, t)\<close> for types that are not interfaces or channels.\<close>

definition assignable :: "gotype \<Rightarrow> gotype \<Rightarrow> bool" where
  "assignable v t \<longleftrightarrow>
     identical v t \<or> identical (resolveUnderlying v) (resolveUnderlying t) \<and> \<not> (has_name v \<and> has_name t)"

section \<open>types.go\<close>

fun typeReflectKind :: "gotype \<Rightarrow> kind option" where
  "typeReflectKind (GBasic k s) = (if KBool \<le> k \<and> k \<le> KComplex128 \<or> k = KString \<or> k = KUnsafePointer then Some k else None)"
| "typeReflectKind (GArray n t) = Some KArray"
| "typeReflectKind (GPtr t) = Some KPtr"
| "typeReflectKind (GSlice t) = Some KSlice"
| "typeReflectKind (GStruct fs) = Some KStruct"
| "typeReflectKind (GOther k s) = Some k"
| "typeReflectKind (GNamed p s u) = None"

text \<open>A type of the universe has no package, whose path is asked for.\<close>

fun isBigInt :: "gotype \<Rightarrow> bool option" where
  "isBigInt (GNamed None s u) = None"
| "isBigInt (GNamed (Some (path, pkg)) s u) = Some (path = ''math/big'' \<and> s = ''Int'')"
| "isBigInt _ = Some False"

definition isByteT :: "gotype \<Rightarrow> bool" where
  "isByteT t = (case resolveUnderlying t of GBasic k s \<Rightarrow> k = KUint8 | _ \<Rightarrow> False)"

section \<open>The context of the generator\<close>

record gctx =
  gc_inPackage :: string
  gc_imports :: "string list"
  gc_temp :: nat

definition newGenContext :: "string \<Rightarrow> gctx" where
  "newGenContext inPackage = \<lparr>gc_inPackage = inPackage, gc_imports = [], gc_temp = 0\<rparr>"

definition gen_temp :: "gctx \<Rightarrow> string \<times> gctx" where
  "gen_temp ctx = (''_tmp'' @ dec_digits (gc_temp ctx), ctx\<lparr>gc_temp := gc_temp ctx + 1\<rparr>)"

definition resetTemp :: "gctx \<Rightarrow> gctx" where
  "resetTemp ctx = ctx\<lparr>gc_temp := 0\<rparr>"

definition addImport :: "string \<Rightarrow> gctx \<Rightarrow> gctx" where
  "addImport path ctx =
     (if path = gc_inPackage ctx then ctx else ctx\<lparr>gc_imports := List.insert path (gc_imports ctx)\<rparr>)"

definition qualify :: "string \<times> string \<Rightarrow> gctx \<Rightarrow> string \<times> gctx" where
  "qualify p ctx = (if fst p = gc_inPackage ctx then ([], ctx) else (snd p, addImport (fst p) ctx))"

text \<open>\<open>TypeString(typ, ctx.qualify)\<close>.\<close>

fun type_str :: "gen_env \<Rightarrow> gotype \<Rightarrow> gctx \<Rightarrow> string \<times> gctx" and
  field_str :: "gen_env \<Rightarrow> gofield \<Rightarrow> gctx \<Rightarrow> string \<times> gctx" and
  fields_str :: "gen_env \<Rightarrow> gofield list \<Rightarrow> gctx \<Rightarrow> string \<times> gctx" where
  "type_str env (GBasic k s) ctx = (s, ctx)"
| "type_str env (GNamed None s u) ctx = (s, ctx)"
| "type_str env (GNamed (Some p) s u) ctx =
     (let (q, ctx) = qualify p ctx in ((if q = [] then [] else q @ ''.'') @ s, ctx))"
| "type_str env (GPtr t) ctx = (let (s, ctx) = type_str env t ctx in (''*'' @ s, ctx))"
| "type_str env (GSlice t) ctx = (let (s, ctx) = type_str env t ctx in (''[]'' @ s, ctx))"
| "type_str env (GArray n t) ctx = (let (s, ctx) = type_str env t ctx in (''['' @ dec_digits n @ '']'' @ s, ctx))"
| "type_str env (GStruct fs) ctx = (let (s, ctx) = fields_str env fs ctx in (''struct{'' @ s @ ''}'', ctx))"
| "type_str env (GOther k s) ctx = (s, ctx)"
| "field_str env (GField s exported embedded tag t) ctx =
     (let (ts, ctx) = type_str env t ctx
      in ((if embedded then [] else s @ '' '') @ ts @ (if tag = [] then [] else '' '' @ ge_quote env tag), ctx))"
| "fields_str env [] ctx = ([], ctx)"
| "fields_str env [f] ctx = field_str env f ctx"
| "fields_str env (f # g # fs) ctx =
     (let (s, ctx) = field_str env f ctx; (r, ctx) = fields_str env (g # fs) ctx in (s @ ''; '' @ r, ctx))"

definition nonZeroCheck :: "gen_env \<Rightarrow> string \<Rightarrow> gotype \<Rightarrow> gctx \<Rightarrow> (string \<times> gctx) option" where
  "nonZeroCheck env v vtyp ctx =
     (case resolveUnderlying vtyp of
        GBasic k s \<Rightarrow>
          if k = KBool then Some (v, ctx)
          else if KUint \<le> k \<and> k \<le> KComplex128 then Some (v @ '' != 0'', ctx)
          else if k = KString then Some (v @ '' != '' @ [CHR 0x22, CHR 0x22], ctx)
          else None
      | GArray n t \<Rightarrow> (let (ts, ctx) = type_str env vtyp ctx in Some (v @ '' != ('' @ ts @ ''{})'', ctx))
      | GStruct fs \<Rightarrow> (let (ts, ctx) = type_str env vtyp ctx in Some (v @ '' != ('' @ ts @ ''{})'', ctx))
      | GPtr t \<Rightarrow> Some (v @ '' != nil'', ctx)
      | GSlice t \<Rightarrow> Some (''len('' @ v @ '') > 0'', ctx)
      | GOther k s \<Rightarrow>
          if k = KInterface \<or> k = KFunc then Some (v @ '' != nil'', ctx)
          else if k = KMap then Some (''len('' @ v @ '') > 0'', ctx)
          else None
      | GNamed p s u \<Rightarrow> None)"

end
