(* ===== verification/Rlp_Gen.thy ===== *)
theory Rlp_Gen
  imports Rlp_Types "HOL-Library.List_Lexorder"
begin

text \<open>
  \<open>src/rlp/rlpgen/gen.go\<close>: the generator of \<open>EncodeRLP\<close> and \<open>DecodeRLP\<close>. \<open>makeOp\<close> turns a type into a tree of operations, and
  \<open>genWrite\<close> and \<open>genDecode\<close> turn the tree into Go text, with the imports and the counter of temporary names as a
  state that is passed on. The cache of \<open>typeToStructType\<close> has no effect on the result and is left out. A panic is \<open>None\<close>.
\<close>

section \<open>Operations\<close>

text \<open>The implementations of the interface \<open>op\<close>; \<open>OField\<close> is a \<open>structField\<close>.\<close>

datatype op =
  OBasic gotype string gotype string gotype bool
| OByteArray gotype gotype
| OBigInt bool
| OEncDec gotype
| OPtr gotype op bool nil_kind
| OStruct "gotype option" gotype "opfield list" "opfield list"
| OSlice gotype op
and opfield = OField string gotype op

text \<open>Whether a type implements the interfaces of the package \<open>rlp\<close>.\<close>

definition isEncoder :: "gen_env \<Rightarrow> gotype \<Rightarrow> bool" where
  [simp]: "isEncoder env t = ge_encoder env t"

definition isDecoder :: "gen_env \<Rightarrow> gotype \<Rightarrow> bool" where
  [simp]: "isDecoder env t = ge_decoder env t"

text \<open>\<open>typeToStructType\<close>: the kind and the methods are those of the underlying type, the name that of the type.\<close>

fun struct_type_of :: "gen_env \<Rightarrow> string \<Rightarrow> gotype \<Rightarrow> rtype option" where
  "struct_type_of env name (GNamed p s u) = struct_type_of env name u"
| "struct_type_of env name (GArray n e) =
     map_option (\<lambda>t. RType name KArray (isEncoder env (GArray n e)) (isDecoder env (GArray n e)) (Some t))
       (struct_type_of env (type_full env e) e)"
| "struct_type_of env name (GSlice e) =
     map_option (\<lambda>t. RType name KSlice (isEncoder env (GSlice e)) (isDecoder env (GSlice e)) (Some t))
       (struct_type_of env (type_full env e) e)"
| "struct_type_of env name (GPtr e) =
     map_option (\<lambda>t. RType name KPtr (isEncoder env (GPtr e)) (isDecoder env (GPtr e)) (Some t))
       (struct_type_of env (type_full env e) e)"
| "struct_type_of env name t =
     map_option (\<lambda>k. RType name k (isEncoder env t) (isDecoder env t) None) (typeReflectKind t)"

definition typeToStructType :: "gen_env \<Rightarrow> gotype \<Rightarrow> rtype option" where
  "typeToStructType env t = struct_type_of env (type_full env t) t"

definition makeBasicOp :: "gen_env \<Rightarrow> gotype \<Rightarrow> kind \<Rightarrow> string + op" where
  "makeBasicOp env t k =
     (if k = KBool then Inr (OBasic t ''WriteBool'' BoolT ''Bool'' BoolT False)
      else if KUint8 \<le> k \<and> k \<le> KUint64 then Inr (OBasic t ''WriteUint64'' Uint64T ''Uint'' t True)
      else if k = KString then Inr (OBasic t ''WriteString'' StringT ''String'' StringT False)
      else Inl (''unhandled basic type: '' @ type_full env t))"

definition makeByteSliceOp :: "gotype \<Rightarrow> op option" where
  "makeByteSliceOp t =
     (case t of
        GSlice e \<Rightarrow>
          if \<not> isByteT e then None
          else Some (OBasic t ''WriteBytes'' (GSlice Uint8T) ''Bytes'' (GSlice Uint8T) False)
      | _ \<Rightarrow> None)"

definition makeRawValueOp :: "gen_env \<Rightarrow> op" where
  "makeRawValueOp env = OBasic (ge_rawValue env) ''Write'' (GSlice Uint8T) ''Raw'' (GSlice Uint8T) False"

definition makeByteArrayOp :: "gotype option \<Rightarrow> gotype \<Rightarrow> op" where
  "makeByteArrayOp name t = OByteArray t (case name of None \<Rightarrow> t | Some n \<Rightarrow> n)"

definition ptr_op :: "gen_env \<Rightarrow> gotype \<Rightarrow> op \<Rightarrow> rtags \<Rightarrow> op option" where
  "ptr_op env elemTyp elem tags =
     (if tg_nilOK tags then Some (OPtr elemTyp elem True (tg_nilKind tags))
      else (case typeToStructType env elemTyp of
              None \<Rightarrow> None
            | Some styp \<Rightarrow> map_option (\<lambda>k. OPtr elemTyp elem False k) (DefaultNilValue styp)))"

text \<open>The fields as \<open>rlpstruct.ProcessFields\<close> takes them.\<close>

fun struct_fields :: "gen_env \<Rightarrow> nat \<Rightarrow> gofield list \<Rightarrow> sfield list option" where
  "struct_fields env i [] = Some []"
| "struct_fields env i (GField s exported embedded tag t # fs) =
     (case typeToStructType env t of
        None \<Rightarrow> None
      | Some st \<Rightarrow>
          map_option (\<lambda>r. \<lparr>sf_name = s, sf_index = i, sf_exported = exported, sf_type = st, sf_tag = ge_tag env tag\<rparr> # r)
            (struct_fields env (Suc i) fs))"

definition checkUnsupportedTags :: "string \<Rightarrow> rtags \<Rightarrow> string option" where
  "checkUnsupportedTags fld tag =
     (if tg_tail tag then Some (''field '' @ fld @ '' has unsupported struct tag '' @ [CHR 0x22] @ ''tail'' @ [CHR 0x22]) else None)"

text \<open>The tags of the field at a position, when \<open>ProcessFields\<close> kept it.\<close>

definition kept_tags :: "sfield list \<Rightarrow> rtags list \<Rightarrow> nat \<Rightarrow> rtags option" where
  "kept_tags flds tags i = map_of (zip (map sf_index flds) tags) i"

text \<open>The ends of \<open>makeSliceOp\<close>, of the operation of a field, and of the loop of \<open>makeStructOp\<close>.\<close>

definition slice_op :: "gotype \<Rightarrow> string + op \<Rightarrow> string + op" where
  [simp]: "slice_op t r = (case r of Inl err \<Rightarrow> Inl err | Inr elemOp \<Rightarrow> Inr (OSlice t elemOp))"

definition field_op :: "string \<Rightarrow> gotype \<Rightarrow> string + op \<Rightarrow> string + opfield" where
  [simp]: "field_op s t r =
     (case r of Inl err \<Rightarrow> Inl (''field '' @ s @ '': '' @ err) | Inr elem \<Rightarrow> Inr (OField s t elem))"

definition add_field :: "rtags \<Rightarrow> opfield \<Rightarrow> opfield list \<times> opfield list \<Rightarrow> opfield list \<times> opfield list" where
  [simp]: "add_field tag x r = (case r of (req, opt) \<Rightarrow> if tg_optional tag then (req, x # opt) else (x # req, opt))"

text \<open>
  \<open>makeOp\<close> with \<open>makePtrOp\<close>, \<open>makeStructOp\<close> and \<open>makeSliceOp\<close>; \<open>make_fields\<close> is the loop over the fields that were kept,
  in their order, and gives the required and the optional ones.
\<close>

fun makeOp :: "gen_env \<Rightarrow> gotype option \<Rightarrow> gotype \<Rightarrow> rtags \<Rightarrow> (string + op) option" and
  make_fields :: "gen_env \<Rightarrow> (nat \<Rightarrow> rtags option) \<Rightarrow> nat \<Rightarrow> gofield list \<Rightarrow> (string + opfield list \<times> opfield list) option" and
  make_field :: "gen_env \<Rightarrow> rtags \<Rightarrow> gofield \<Rightarrow> (string + opfield) option" where
  "makeOp env name (GNamed p s u) tags =
     (case isBigInt (GNamed p s u) of
        None \<Rightarrow> None
      | Some True \<Rightarrow> Some (Inr (OBigInt False))
      | Some False \<Rightarrow>
          if GNamed p s u = ge_rawValue env then Some (Inr (makeRawValueOp env))
          else if isDecoder env (GNamed p s u)
            then Some (Inl (''type '' @ type_full env (GNamed p s u) @ '' implements rlp.Decoder with non-pointer receiver''))
          else makeOp env (Some (GNamed p s u)) u tags)"
| "makeOp env name (GPtr e) tags =
     (case isBigInt e of
        None \<Rightarrow> None
      | Some True \<Rightarrow> Some (Inr (OBigInt True))
      | Some False \<Rightarrow>
          if isEncoder env (GPtr e) then
            (if isDecoder env (GPtr e) then Some (Inr (OEncDec (GPtr e)))
             else Some (Inl (''type '' @ type_full env (GPtr e) @ '' implements rlp.Encoder but not rlp.Decoder'')))
          else if isDecoder env (GPtr e)
            then Some (Inl (''type '' @ type_full env (GPtr e) @ '' implements rlp.Decoder but not rlp.Encoder''))
          else (case makeOp env None e no_tags of
                  None \<Rightarrow> None
                | Some (Inl err) \<Rightarrow> Some (Inl err)
                | Some (Inr elem) \<Rightarrow> map_option Inr (ptr_op env e elem tags)))"
| "makeOp env name (GBasic k s) tags = Some (makeBasicOp env (GBasic k s) k)"
| "makeOp env name (GStruct fs) tags =
     (case struct_fields env 0 fs of
        None \<Rightarrow> None
      | Some all \<Rightarrow>
          (case ProcessFields (ge_quote env) all of
             None \<Rightarrow> None
           | Some (Inl err) \<Rightarrow> Some (Inl (TagError_Error (ge_quote env) err))
           | Some (Inr (flds, ts)) \<Rightarrow>
               (case make_fields env (kept_tags flds ts) 0 fs of
                  None \<Rightarrow> None
                | Some (Inl err) \<Rightarrow> Some (Inl err)
                | Some (Inr (req, opt)) \<Rightarrow> Some (Inr (OStruct name (GStruct fs) req opt)))))"
| "makeOp env name (GSlice e) tags =
     (if isByteT e \<and> \<not> isEncoder env e then map_option Inr (makeByteSliceOp (GSlice e))
      else (case makeOp env None e no_tags of
              None \<Rightarrow> None
            | Some r \<Rightarrow> Some (slice_op (GSlice e) r)))"
| "makeOp env name (GArray n e) tags =
     (if isByteT e \<and> \<not> isEncoder env e then Some (Inr (makeByteArrayOp name (GArray n e)))
      else Some (Inl (''unhandled array type: '' @ type_full env (GArray n e))))"
| "makeOp env name (GOther k s) tags = Some (Inl (''unhandled type: '' @ s))"
| "make_fields env kept i [] = Some (Inr ([], []))"
| "make_fields env kept i (f # fs) =
     (case kept i of
        None \<Rightarrow> make_fields env kept (Suc i) fs
      | Some tag \<Rightarrow>
          (case make_field env tag f of
             None \<Rightarrow> None
           | Some (Inl err) \<Rightarrow> Some (Inl err)
           | Some (Inr x) \<Rightarrow>
               (case make_fields env kept (Suc i) fs of
                  None \<Rightarrow> None
                | Some (Inl err) \<Rightarrow> Some (Inl err)
                | Some (Inr r) \<Rightarrow> Some (Inr (add_field tag x r)))))"
| "make_field env tag (GField s exported embedded raw t) =
     (case checkUnsupportedTags s tag of
        Some err \<Rightarrow> Some (Inl err)
      | None \<Rightarrow>
          (case makeOp env None t tag of
             None \<Rightarrow> None
           | Some r \<Rightarrow> Some (field_op s t r)))"

section \<open>Writing the encoder\<close>

definition ln :: "string \<Rightarrow> string" where
  "ln s = s @ [CHR 0x0A]"

definition writeNeedsConversion :: "gotype \<Rightarrow> gotype \<Rightarrow> bool" where
  [simp]: "writeNeedsConversion t writeArgType \<longleftrightarrow> \<not> assignable t writeArgType"

definition decodeNeedsConversion :: "gotype \<Rightarrow> gotype \<Rightarrow> bool" where
  [simp]: "decodeNeedsConversion decResultType t \<longleftrightarrow> \<not> assignable decResultType t"

definition genWrite_basic :: "gen_env \<Rightarrow> gotype \<Rightarrow> string \<Rightarrow> gotype \<Rightarrow> string \<Rightarrow> string" where
  "genWrite_basic env t writeMethod argT v =
     (let v = (if writeNeedsConversion t argT then type_full env argT @ ''('' @ v @ '')'' else v)
      in ln (''w.'' @ writeMethod @ ''('' @ v @ '')''))"

definition genWrite_bigInt :: "bool \<Rightarrow> string \<Rightarrow> string" where
  "genWrite_bigInt pointer v =
     (let dst = (if \<not> pointer then ''&'' @ v else v);
          code = ln (''if '' @ v @ ''.Sign() == -1 {'') @ ln ''  return rlp.ErrNegativeBigInt'' @ ln ''}'' @ ln (''w.WriteBigInt('' @ dst @ '')'')
      in if pointer then ln (''if '' @ v @ '' == nil {'') @ ''  w.Write(rlp.EmptyString)'' @ ln ''} else {'' @ code @ ln ''}'' else code)"

definition genWrite_byteArray :: "string \<Rightarrow> string" where
  [simp]: "genWrite_byteArray v = ln (''w.WriteBytes('' @ v @ ''[:])'')"

definition genWrite_encDec :: "string \<Rightarrow> string" where
  [simp]: "genWrite_encDec v = ln (''if err := '' @ v @ ''.EncodeRLP(w); err != nil { return err }'')"

definition is_deref_free :: "op \<Rightarrow> bool" where
  "is_deref_free e = (case e of OStruct _ _ _ _ \<Rightarrow> True | OByteArray _ _ \<Rightarrow> True | _ \<Rightarrow> False)"

text \<open>\<open>%X\<close> of the byte for a nil value.\<close>

definition hex2 :: "nil_kind \<Rightarrow> string" where
  "hex2 k = map to_upper (hex_digits (unat k))"

text \<open>The checks of the optional fields, and the names of the variables that hold them.\<close>

fun zero_checks :: "gen_env \<Rightarrow> opfield list \<Rightarrow> string \<Rightarrow> gctx \<Rightarrow> (string \<times> string list \<times> gctx) option" where
  "zero_checks env [] v ctx = Some ([], [], ctx)"
| "zero_checks env (OField s t e # fs) v ctx =
     (let (z, ctx) = gen_temp ctx
      in case nonZeroCheck env (v @ ''.'' @ s) t ctx of
           None \<Rightarrow> None
         | Some (c, ctx) \<Rightarrow>
             (case zero_checks env fs v ctx of
                None \<Rightarrow> None
              | Some (code, zs, ctx) \<Rightarrow> Some (ln (z @ '' := '' @ c) @ code, z # zs, ctx)))"

fun join_or :: "string list \<Rightarrow> string" where
  "join_or [] = []"
| "join_or [z] = z"
| "join_or (z # y # zs) = z @ '' || '' @ join_or (y # zs)"

text \<open>The optional fields under the conditions, each from its own check on.\<close>

fun guard_codes :: "string list \<Rightarrow> string list \<Rightarrow> string" where
  "guard_codes [] zs = []"
| "guard_codes (code # codes) zs = ln (''if '' @ join_or zs @ '' {'') @ code @ ln ''}'' @ guard_codes codes (drop 1 zs)"

text \<open>The texts of \<open>genWrite\<close> for pointers, structs and slices, around the texts of what they hold.\<close>

definition ptr_text :: "string \<Rightarrow> nil_kind \<Rightarrow> string \<Rightarrow> string" where
  "ptr_text v nilValue code =
     ln (''if '' @ v @ '' == nil {'') @ ln (''  w.Write([]byte{0x'' @ hex2 nilValue @ ''})'') @ ln ''} else {'' @
     ''  '' @ code @ ln ''}''"

definition struct_text :: "string \<Rightarrow> string list \<Rightarrow> string \<Rightarrow> string list \<Rightarrow> string list \<Rightarrow> string" where
  "struct_text m codes checks ocodes zs =
     ln (m @ '' := w.List()'') @ concat codes @ checks @ guard_codes ocodes zs @ ln (''w.ListEnd('' @ m @ '')'')"

definition slice_text :: "string \<Rightarrow> string \<Rightarrow> string \<Rightarrow> string \<Rightarrow> string" where
  "slice_text m x v code =
     ln (m @ '' := w.List()'') @ ln (''for _, '' @ x @ '' := range '' @ v @ '' {'') @ code @ ln ''}'' @ ln (''w.ListEnd('' @ m @ '')'')"

text \<open>\<open>write_codes\<close> gives the texts that write the fields of a list.\<close>

primrec genWrite :: "gen_env \<Rightarrow> op \<Rightarrow> string \<Rightarrow> gctx \<Rightarrow> (string \<times> gctx) option" and
  write_codes :: "gen_env \<Rightarrow> opfield list \<Rightarrow> string \<Rightarrow> gctx \<Rightarrow> (string list \<times> gctx) option" and
  write_field :: "gen_env \<Rightarrow> opfield \<Rightarrow> string \<Rightarrow> gctx \<Rightarrow> (string \<times> gctx) option" where
  "genWrite env (OBasic t wm wt dm dt bits) v ctx = Some (genWrite_basic env t wm wt v, ctx)"
| "genWrite env (OByteArray t name) v ctx = Some (genWrite_byteArray v, ctx)"
| "genWrite env (OBigInt pointer) v ctx = Some (genWrite_bigInt pointer v, ctx)"
| "genWrite env (OEncDec t) v ctx = Some (genWrite_encDec v, ctx)"
| "genWrite env (OPtr et e nilOK nilValue) v ctx =
     (let vv = (if is_deref_free e then v else ''(*'' @ v @ '')'')
      in case genWrite env e vv ctx of
           None \<Rightarrow> None
         | Some (code, ctx) \<Rightarrow>
             Some (ptr_text v nilValue code, ctx))"
| "genWrite env (OStruct named t req opt) v ctx =
     (let (m, ctx) = gen_temp ctx
      in case write_codes env req v ctx of
           None \<Rightarrow> None
         | Some (codes, ctx) \<Rightarrow>
             (case zero_checks env opt v ctx of
                None \<Rightarrow> None
              | Some (checks, zs, ctx) \<Rightarrow>
                  (case write_codes env opt v ctx of
                     None \<Rightarrow> None
                   | Some (ocodes, ctx) \<Rightarrow>
                       Some (struct_text m codes checks ocodes zs, ctx))))"
| "genWrite env (OSlice t e) v ctx =
     (let (m, ctx) = gen_temp ctx; (x, ctx) = gen_temp ctx
      in case genWrite env e x ctx of
           None \<Rightarrow> None
         | Some (code, ctx) \<Rightarrow>
             Some (slice_text m x v code, ctx))"
| "write_codes env [] v ctx = Some ([], ctx)"
| "write_codes env (f # fs) v ctx =
     (case write_field env f v ctx of
        None \<Rightarrow> None
      | Some (code, ctx) \<Rightarrow>
          (case write_codes env fs v ctx of None \<Rightarrow> None | Some (codes, ctx) \<Rightarrow> Some (code # codes, ctx)))"
| "write_field env (OField s t e) v ctx = genWrite env e (v @ ''.'' @ s) ctx"

section \<open>Writing the decoder\<close>

definition size_bits :: "gotype \<Rightarrow> nat" where
  "size_bits t = (case t of GBasic k s \<Rightarrow> (if k = KUint8 then 8 else if k = KUint16 then 16 else if k = KUint32 then 32 else 64) | _ \<Rightarrow> 64)"

definition genDecode_basic :: "gen_env \<Rightarrow> gotype \<Rightarrow> string \<Rightarrow> gotype \<Rightarrow> bool \<Rightarrow> gctx \<Rightarrow> string \<times> string \<times> gctx" where
  "genDecode_basic env t decMethod resT bits ctx =
     (let (r, ctx) = gen_temp ctx;
          m = (if bits then decMethod @ dec_digits (size_bits t) else decMethod);
          code = ln (r @ '', err := dec.'' @ m @ ''()'') @ ln ''if err != nil { return err }''
      in if decodeNeedsConversion resT t then
           (let (conv, ctx) = gen_temp ctx; (ts, ctx) = type_str env t ctx
            in (conv, code @ ln (conv @ '' := '' @ ts @ ''('' @ r @ '')''), ctx))
         else (r, code, ctx))"

definition genDecode_bigInt :: "bool \<Rightarrow> gctx \<Rightarrow> string \<times> string \<times> gctx" where
  "genDecode_bigInt pointer ctx =
     (let (r, ctx) = gen_temp ctx
      in (if \<not> pointer then ''(*'' @ r @ '')'' else r,
          ln (r @ '', err := dec.BigInt()'') @ ln ''if err != nil { return err }'', ctx))"

definition genDecode_byteArray :: "gen_env \<Rightarrow> gotype \<Rightarrow> gctx \<Rightarrow> string \<times> string \<times> gctx" where
  [simp]: "genDecode_byteArray env name ctx =
     (let (r, ctx) = gen_temp ctx; (ts, ctx) = type_str env name ctx
      in (r, ln (''var '' @ r @ '' '' @ ts) @ ln (''if err := dec.ReadBytes('' @ r @ ''[:]); err != nil { return err }''), ctx))"

text \<open>The type of the operation is asserted to be a pointer.\<close>

definition genDecode_encDec :: "gen_env \<Rightarrow> gotype \<Rightarrow> gctx \<Rightarrow> (string \<times> string \<times> gctx) option" where
  [simp]: "genDecode_encDec env t ctx =
     (case t of
        GPtr et \<Rightarrow>
          (let (r, ctx) = gen_temp ctx; (ts, ctx) = type_str env et ctx
           in Some (r, ln (r @ '' := new('' @ ts @ '')'') @ ln (''if err := '' @ r @ ''.DecodeRLP(dec); err != nil { return err }''), ctx))
      | _ \<Rightarrow> None)"

text \<open>The texts that decode the fields of a list: the comment with the name, and the statements.\<close>

definition decode_required :: "(string \<times> string) list \<Rightarrow> string" where
  "decode_required codes = concat (map (\<lambda>(c, code). c @ code) codes)"

definition decode_optional :: "(string \<times> string) list \<Rightarrow> string" where
  "decode_optional codes =
     concat (map (\<lambda>(c, code). c @ ln ''if dec.MoreDataInList() {'' @ code) codes) @ concat (map (\<lambda>_. ln ''}'') codes)"

text \<open>The texts of \<open>genDecode\<close> for pointers that may be nil, structs and slices.\<close>

definition ptr_decoder :: "string \<Rightarrow> string \<Rightarrow> string \<Rightarrow> string \<Rightarrow> nil_kind \<Rightarrow> string \<Rightarrow> string \<Rightarrow> string" where
  "ptr_decoder r ts k sz nilValue code res =
     (let want = (if nilValue = NilKindList then ''rlp.List'' else ''rlp.String'')
      in ln (''var '' @ r @ '' '' @ ts) @ ln (''if '' @ k @ '', '' @ sz @ '', err := dec.Kind(); err != nil {'') @
         ln ''  return err'' @ ln (''} else if '' @ sz @ '' != 0 || '' @ k @ '' != '' @ want @ '' {'') @ code @
         ln (''  '' @ r @ '' = &'' @ res) @ ln ''}'')"

definition struct_decoder :: "string \<Rightarrow> string \<Rightarrow> (string \<times> string) list \<Rightarrow> (string \<times> string) list \<Rightarrow> string" where
  "struct_decoder r tn codes ocodes =
     ln (''var '' @ r @ '' '' @ tn) @ ln ''{'' @ ln ''if _, err := dec.List(); err != nil { return err }'' @
     decode_required codes @ decode_optional ocodes @ ln ''if err := dec.ListEnd(); err != nil { return err }'' @ ln ''}''"

definition slice_decoder :: "string \<Rightarrow> string \<Rightarrow> string \<Rightarrow> string \<Rightarrow> string" where
  "slice_decoder r ts code res =
     ln (''var '' @ r @ '' '' @ ts) @ ln ''if _, err := dec.List(); err != nil { return err }'' @ ln ''for dec.MoreDataInList() {'' @
     ''  '' @ code @ ln (''  '' @ r @ '' = append('' @ r @ '', '' @ res @ '')'') @ ln ''}'' @
     ln ''if err := dec.ListEnd(); err != nil { return err }''"

primrec genDecode :: "gen_env \<Rightarrow> op \<Rightarrow> gctx \<Rightarrow> (string \<times> string \<times> gctx) option" and
  decode_codes :: "gen_env \<Rightarrow> opfield list \<Rightarrow> string \<Rightarrow> gctx \<Rightarrow> ((string \<times> string) list \<times> gctx) option" and
  decode_field :: "gen_env \<Rightarrow> opfield \<Rightarrow> string \<Rightarrow> gctx \<Rightarrow> ((string \<times> string) \<times> gctx) option" where
  "genDecode env (OBasic t wm wt dm dt bits) ctx = Some (genDecode_basic env t dm dt bits ctx)"
| "genDecode env (OByteArray t name) ctx = Some (genDecode_byteArray env name ctx)"
| "genDecode env (OBigInt pointer) ctx = Some (genDecode_bigInt pointer ctx)"
| "genDecode env (OEncDec t) ctx = genDecode_encDec env t ctx"
| "genDecode env (OPtr et e nilOK nilValue) ctx =
     (case genDecode env e ctx of
        None \<Rightarrow> None
      | Some (res, code, ctx) \<Rightarrow>
          if \<not> nilOK then Some (''&'' @ res, code, ctx)
          else (let (r, ctx) = gen_temp ctx; (k, ctx) = gen_temp ctx; (sz, ctx) = gen_temp ctx;
                    (ts, ctx) = type_str env (GPtr et) ctx
                in Some (r, ptr_decoder r ts k sz nilValue code res, ctx)))"
| "genDecode env (OStruct named t req opt) ctx =
     (let (tn, ctx) = type_str env (case named of None \<Rightarrow> t | Some n \<Rightarrow> n) ctx;
          (r, ctx) = gen_temp ctx
      in case decode_codes env req r ctx of
           None \<Rightarrow> None
         | Some (codes, ctx) \<Rightarrow>
             (case decode_codes env opt r ctx of
                None \<Rightarrow> None
              | Some (ocodes, ctx) \<Rightarrow> Some (r, struct_decoder r tn codes ocodes, ctx)))"
| "genDecode env (OSlice t e) ctx =
     (let (r, ctx) = gen_temp ctx
      in case genDecode env e ctx of
           None \<Rightarrow> None
         | Some (res, code, ctx) \<Rightarrow>
             (let (ts, ctx) = type_str env t ctx in Some (r, slice_decoder r ts code res, ctx)))"
| "decode_codes env [] r ctx = Some ([], ctx)"
| "decode_codes env (f # fs) r ctx =
     (case decode_field env f r ctx of
        None \<Rightarrow> None
      | Some (code, ctx) \<Rightarrow>
          (case decode_codes env fs r ctx of None \<Rightarrow> None | Some (codes, ctx) \<Rightarrow> Some (code # codes, ctx)))"
| "decode_field env (OField s t e) r ctx =
     (case genDecode env e ctx of
        None \<Rightarrow> None
      | Some (res, code, ctx) \<Rightarrow> Some ((ln (''// '' @ s @ '':''), code @ ln (r @ ''.'' @ s @ '' = '' @ res)), ctx))"

section \<open>The file\<close>

definition pathOfPackageRLP :: string where "pathOfPackageRLP = ''rlp''"

definition generateDecoder :: "gen_env \<Rightarrow> string \<Rightarrow> op \<Rightarrow> gctx \<Rightarrow> (string \<times> gctx) option" where
  "generateDecoder env typ op1 ctx =
     (let ctx = addImport pathOfPackageRLP (resetTemp ctx)
      in map_option (\<lambda>(res, code, ctx).
             (ln (''func (obj *'' @ typ @ '') DecodeRLP(dec *rlp.Stream) error {'') @ code @ ln (''  *obj = '' @ res) @
              ln ''  return nil'' @ ln ''}'', ctx))
           (genDecode env op1 ctx))"

definition generateEncoder :: "gen_env \<Rightarrow> string \<Rightarrow> op \<Rightarrow> gctx \<Rightarrow> (string \<times> gctx) option" where
  "generateEncoder env typ op1 ctx =
     (let ctx = addImport pathOfPackageRLP (addImport ''io'' (resetTemp ctx))
      in map_option (\<lambda>(code, ctx).
             (ln (''func (obj *'' @ typ @ '') EncodeRLP(_w io.Writer) error {'') @ ln ''  w := rlp.NewEncoderBuffer(_w)'' @ code @
              ln ''  return w.Flush()'' @ ln ''}'', ctx))
           (genWrite env op1 ''obj'' ctx))"

definition importsList :: "gctx \<Rightarrow> string list" where
  "importsList ctx = sort (gc_imports ctx)"

text \<open>The text before \<open>format.Source\<close>; the type is named, in the package with this path and name.\<close>

definition file_text :: "gen_env \<Rightarrow> string \<Rightarrow> gctx \<Rightarrow> string \<Rightarrow> string \<Rightarrow> bool \<Rightarrow> bool \<Rightarrow> string" where
  "file_text env pkgName ctx encSource decSource encoder decoder =
     ln (ln (''package '' @ pkgName)) @ concat (map (\<lambda>imp. ln (''import '' @ ge_quote env imp)) (importsList ctx)) @
     (if encoder then ln [] @ encSource else []) @ (if decoder then ln [] @ decSource else [])"

definition generate ::
  "gen_env \<Rightarrow> (string \<Rightarrow> string + string) \<Rightarrow> string \<Rightarrow> string \<Rightarrow> string \<Rightarrow> gotype \<Rightarrow> bool \<Rightarrow> bool \<Rightarrow> (string + string) option" where
  "generate env formatSource path pkgName name utype encoder decoder =
     (case makeOp env None (GNamed (Some (path, pkgName)) name utype) no_tags of
        None \<Rightarrow> None
      | Some (Inl err) \<Rightarrow> Some (Inl err)
      | Some (Inr op1) \<Rightarrow>
          (case (if encoder then generateEncoder env name op1 (newGenContext path) else Some ([], newGenContext path)) of
             None \<Rightarrow> None
           | Some (encSource, ctx) \<Rightarrow>
               (case (if decoder then generateDecoder env name op1 ctx else Some ([], ctx)) of
                  None \<Rightarrow> None
                | Some (decSource, ctx) \<Rightarrow> Some (formatSource (file_text env pkgName ctx encSource decSource encoder decoder)))))"

section \<open>Braces\<close>

text \<open>The depth of braces after a text, from a depth before it; \<open>None\<close> when a brace is closed that was not open.\<close>

fun scan :: "nat \<Rightarrow> string \<Rightarrow> nat option" where
  "scan n [] = Some n"
| "scan n (c # s) =
     (if c = CHR ''{'' then scan (Suc n) s
      else if c = CHR ''}'' then (case n of 0 \<Rightarrow> None | Suc m \<Rightarrow> scan m s) else scan n s)"

definition balanced :: "string \<Rightarrow> bool" where
  "balanced s \<longleftrightarrow> scan 0 s = Some 0"

definition no_braces :: "string \<Rightarrow> bool" where
  "no_braces s \<longleftrightarrow> CHR ''{'' \<notin> set s \<and> CHR ''}'' \<notin> set s"

lemma scan_append: "scan n (s @ t) = Option.bind (scan n s) (\<lambda>m. scan m t)"
  by (induction n s rule: scan.induct) (auto split: nat.split)

lemma scan_shift: "scan n s = Some m \<Longrightarrow> scan (n + k) s = Some (m + k)"
proof (induction n s rule: scan.induct)
  case (2 n c s)
  then show ?case by (cases n) (auto split: if_splits)
qed simp

lemma scan_balanced: "balanced s \<Longrightarrow> scan n s = Some n"
  using scan_shift [of 0 s 0 n] by (simp add: balanced_def)

lemma no_braces_balanced: "no_braces s \<Longrightarrow> balanced s"
proof -
  have "no_braces s \<Longrightarrow> scan n s = Some n" for n
    by (induction s) (auto simp: no_braces_def)
  then show "no_braces s \<Longrightarrow> balanced s" by (simp add: balanced_def)
qed

lemma balanced_append: "balanced s \<Longrightarrow> balanced t \<Longrightarrow> balanced (s @ t)"
  by (simp add: balanced_def scan_append scan_balanced)

lemma balanced_Nil: "balanced []"
  by (simp add: balanced_def)

lemma hexdigit_no_brace: "d < 16 \<Longrightarrow> hexdigit d \<noteq> CHR ''{'' \<and> hexdigit d \<noteq> CHR ''}''"
  by (drule less_16_cases) (elim insertE; simp add: hexdigit_def hextable_def)

lemma dec_digits_no_braces: "no_braces (dec_digits n)"
proof -
  have "d < 16" if "d \<in> set (be_digits 10 n)" for d
    using that be_digits_less [of d 10 n] by simp
  then have "CHR ''{'' \<notin> hexdigit ` set (be_digits 10 n)" "CHR ''}'' \<notin> hexdigit ` set (be_digits 10 n)"
    using hexdigit_no_brace by (metis imageE)+
  then show ?thesis by (simp add: no_braces_def dec_digits_def)
qed

lemma to_upper_le: "ord (to_upper c) \<le> ord c"
proof -
  have "ord (char_of (ord c - 32)) = ord c - 32" by (rule ord_char_of) (use ord_less [of c] in arith)
  then show ?thesis by (simp add: to_upper_def)
qed

lemma hex2_no_braces: "no_braces (hex2 k)"
proof -
  have u: "ord (to_upper (hexdigit d)) < 123" if "d < 16" for d
    using to_upper_le [of "hexdigit d"] ord_hexdigit [OF that] that by (auto split: if_splits)
  have "ord c < 123" if "c \<in> set (hex2 k)" for c
  proof (cases "unat k = 0")
    case True
    then show ?thesis using that by (simp add: hex2_def hex_digits_def to_upper_def)
  next
    case False
    then have "c \<in> (\<lambda>d. to_upper (hexdigit d)) ` set (be_digits 16 (unat k))"
      using that unfolding hex2_def hex_digits_def by (simp add: image_image)
    then obtain d where "d \<in> set (be_digits 16 (unat k))" "c = to_upper (hexdigit d)" by blast
    then show ?thesis using u be_digits_less by metis
  qed
  then have "CHR ''{'' \<notin> set (hex2 k)" "CHR ''}'' \<notin> set (hex2 k)" by fastforce+
  then show ?thesis by (simp add: no_braces_def)
qed

named_theorems brace_simps "texts without unbalanced braces"

lemmas [brace_simps] = balanced_append balanced_Nil dec_digits_no_braces [THEN no_braces_balanced]
  hex2_no_braces [THEN no_braces_balanced]

text \<open>Types whose names, tags and texts have no unbalanced braces.\<close>

definition clean_package :: "(string \<times> string) option \<Rightarrow> bool" where
  "clean_package p = (case p of None \<Rightarrow> True | Some (path, pkg) \<Rightarrow> no_braces path \<and> no_braces pkg)"

primrec clean_type :: "gen_env \<Rightarrow> gotype \<Rightarrow> bool" and
  clean_fields :: "gen_env \<Rightarrow> gofield list \<Rightarrow> bool" and
  clean_field :: "gen_env \<Rightarrow> gofield \<Rightarrow> bool" where
  "clean_type env (GBasic k s) \<longleftrightarrow> no_braces s"
| "clean_type env (GNamed p s u) \<longleftrightarrow>
     clean_package p \<and> no_braces s \<and> clean_type env u \<and>
     (isBigInt (GNamed p s u) = Some True \<longrightarrow> (\<exists>fs. resolveUnderlying u = GStruct fs))"
| "clean_type env (GPtr t) \<longleftrightarrow> clean_type env t"
| "clean_type env (GSlice t) \<longleftrightarrow> clean_type env t"
| "clean_type env (GArray n t) \<longleftrightarrow> clean_type env t"
| "clean_type env (GStruct fs) \<longleftrightarrow> clean_fields env fs"
| "clean_type env (GOther k s) \<longleftrightarrow> balanced s"
| "clean_fields env [] \<longleftrightarrow> True"
| "clean_fields env (f # fs) \<longleftrightarrow> clean_field env f \<and> clean_fields env fs"
| "clean_field env (GField s exported embedded tag t) \<longleftrightarrow> no_braces s \<and> balanced (ge_quote env tag) \<and> clean_type env t"

lemma balanced_struct: "balanced s \<Longrightarrow> balanced (''struct{'' @ s @ ''}'')"
  by (simp add: balanced_def scan_append scan_balanced)

lemma type_full_balanced:
  "clean_type env t \<Longrightarrow> balanced (type_full env t)"
  "clean_field env f \<Longrightarrow> balanced (field_full env f)"
  "clean_fields env fs \<Longrightarrow> balanced (fields_full env fs)"
proof (induction t and f and fs rule: type_full_field_full_fields_full.induct)
  case (3 env path pkg s u)
  then have "balanced path" "balanced s" by (auto simp: clean_package_def no_braces_balanced)
  then show ?case by (simp add: balanced_def scan_append scan_balanced)
next
  case (7 env fs)
  then show ?case using balanced_struct [of "fields_full env fs"] by simp
next
  case (9 env s exported embedded tag t)
  then have "balanced s" by (simp add: no_braces_balanced)
  then show ?case using 9 by (simp add: balanced_def scan_append scan_balanced)
qed (auto simp: balanced_def scan_append scan_balanced no_braces_balanced [unfolded balanced_def]
    dec_digits_no_braces [THEN no_braces_balanced, unfolded balanced_def])

lemma balancedI: "(\<And>n. scan n s = Some n) \<Longrightarrow> balanced s"
  by (simp add: balanced_def)

lemma scan_balanced_append: "balanced s \<Longrightarrow> scan n (s @ t) = scan n t"
  by (simp add: scan_append scan_balanced)

lemmas brace_rules = scan_balanced_append scan_balanced ln_def ptr_text_def struct_text_def slice_text_def
  ptr_decoder_def struct_decoder_def slice_decoder_def

lemma no_braces_simp: "no_braces s \<Longrightarrow> no_braces t \<Longrightarrow> no_braces (s @ t)"
  by (auto simp: no_braces_def)

lemma qualify_balanced: "clean_package (Some p) \<Longrightarrow> qualify p ctx = (q, ctx') \<Longrightarrow> balanced q"
  by (auto simp: clean_package_def qualify_def no_braces_balanced balanced_Nil split: if_splits prod.splits)

lemma type_str_balanced:
  "clean_type env t \<Longrightarrow> balanced (fst (type_str env t ctx))"
  "clean_field env f \<Longrightarrow> balanced (fst (field_str env f ctx))"
  "clean_fields env fs \<Longrightarrow> balanced (fst (fields_str env fs ctx))"
proof (induction t ctx and f ctx and fs ctx rule: type_str_field_str_fields_str.induct)
  case (1 env k s ctx)
  then show ?case by (simp add: no_braces_balanced)
next
  case (2 env s u ctx)
  then show ?case by (simp add: no_braces_balanced)
next
  case (3 env p s u ctx)
  obtain q ctx' where q: "qualify p ctx = (q, ctx')" by fastforce
  have "balanced q" "balanced s" using qualify_balanced [OF _ q] 3 by (simp_all add: no_braces_balanced)
  then show ?case by (auto intro!: balancedI simp: q brace_rules)
next
  case (4 env t ctx)
  then show ?case by (auto intro!: balancedI simp: brace_rules split: prod.split)
next
  case (5 env t ctx)
  then show ?case by (auto intro!: balancedI simp: brace_rules split: prod.split)
next
  case (6 env n t ctx)
  then show ?case by (auto intro!: balancedI simp: brace_rules brace_simps split: prod.split)
next
  case (7 env fs ctx)
  then show ?case by (auto intro!: balancedI simp: brace_rules split: prod.split)
next
  case (8 env k s ctx)
  then show ?case by simp
next
  case (9 env s exported embedded tag t ctx)
  obtain ts ctx' where ts: "type_str env t ctx = (ts, ctx')" by fastforce
  have "balanced ts" "balanced s" "balanced (ge_quote env tag)" using 9 ts by (simp_all add: no_braces_balanced)
  then show ?case by (auto intro!: balancedI simp: ts brace_rules)
next
  case (10 env ctx)
  then show ?case by (simp add: balanced_Nil)
next
  case (11 env f ctx)
  then show ?case by simp
next
  case (12 env f g fs ctx)
  obtain s c1 where s: "field_str env f ctx = (s, c1)" by fastforce
  obtain r c2 where r: "fields_str env (g # fs) c1 = (r, c2)" by fastforce
  have "balanced s" "balanced r" using 12(1) 12(2) [OF s [symmetric] refl] 12(3) s r by simp_all
  then show ?case by (auto intro!: balancedI simp: s r brace_rules)
qed

text \<open>What the texts of the operations need to have balanced braces, and the checks of fields to exist.\<close>

definition checkable :: "gotype \<Rightarrow> bool" where
  "checkable t =
     (case resolveUnderlying t of
        GBasic k s \<Rightarrow> k = KBool \<or> KUint \<le> k \<and> k \<le> KComplex128 \<or> k = KString
      | GNamed p s u \<Rightarrow> False | GOther k s \<Rightarrow> False | _ \<Rightarrow> True)"

primrec op_ok :: "gen_env \<Rightarrow> op \<Rightarrow> bool" and
  fields_ok :: "gen_env \<Rightarrow> opfield list \<Rightarrow> bool" and
  field_ok :: "gen_env \<Rightarrow> opfield \<Rightarrow> bool" where
  "op_ok env (OBasic t wm wt dm dt bits) \<longleftrightarrow> clean_type env t \<and> no_braces wm \<and> clean_type env wt \<and> no_braces dm"
| "op_ok env (OByteArray t name) \<longleftrightarrow> clean_type env name"
| "op_ok env (OBigInt pointer) \<longleftrightarrow> True"
| "op_ok env (OEncDec t) \<longleftrightarrow> (\<exists>e. t = GPtr e \<and> clean_type env e)"
| "op_ok env (OPtr et e nilOK nilValue) \<longleftrightarrow> clean_type env et \<and> op_ok env e"
| "op_ok env (OStruct named t req opt) \<longleftrightarrow>
     (case named of None \<Rightarrow> True | Some n \<Rightarrow> clean_type env n) \<and> clean_type env t \<and> fields_ok env req \<and> fields_ok env opt"
| "op_ok env (OSlice t e) \<longleftrightarrow> clean_type env t \<and> op_ok env e"
| "fields_ok env [] \<longleftrightarrow> True"
| "fields_ok env (f # fs) \<longleftrightarrow> field_ok env f \<and> fields_ok env fs"
| "field_ok env (OField s t e) \<longleftrightarrow> no_braces s \<and> clean_type env t \<and> checkable t \<and> op_ok env e"

lemma gen_temp_balanced: "gen_temp ctx = (z, ctx') \<Longrightarrow> balanced z"
  by (auto simp: gen_temp_def intro!: balancedI simp: brace_rules brace_simps)

lemma nonZeroCheck_ex:
  assumes "checkable t" "clean_type env t" "balanced v"
  shows "\<exists>c ctx'. nonZeroCheck env v t ctx = Some (c, ctx') \<and> balanced c"
proof -
  obtain ts ctx' where ts: "type_str env t ctx = (ts, ctx')" by fastforce
  have b: "balanced ts" using type_str_balanced(1) [OF assms(2), of ctx] ts by simp
  show ?thesis using assms(1,3) b
    by (auto simp: checkable_def nonZeroCheck_def ts split: gotype.splits intro!: balancedI simp: brace_rules)
qed

lemma genWrite_basic_balanced:
  "clean_type env t \<Longrightarrow> no_braces wm \<Longrightarrow> clean_type env wt \<Longrightarrow> balanced v \<Longrightarrow> balanced (genWrite_basic env t wm wt v)"
  using type_full_balanced(1) [of env wt] no_braces_balanced [of wm]
  by (auto simp: genWrite_basic_def Let_def intro!: balancedI simp: brace_rules)

lemma genWrite_bigInt_balanced: "balanced v \<Longrightarrow> balanced (genWrite_bigInt pointer v)"
  by (auto simp: genWrite_bigInt_def Let_def intro!: balancedI simp: brace_rules)

lemma join_or_balanced: "list_all balanced zs \<Longrightarrow> balanced (join_or zs)"
  by (induction zs rule: join_or.induct) (auto intro!: balancedI simp: brace_rules)

lemma guard_codes_balanced: "list_all balanced codes \<Longrightarrow> list_all balanced zs \<Longrightarrow> balanced (guard_codes codes zs)"
proof (induction codes arbitrary: zs)
  case (Cons code codes)
  have "list_all balanced (drop 1 zs)" using Cons.prems(2) by (cases zs) simp_all
  then have "balanced (guard_codes codes (drop 1 zs))" using Cons by simp
  then show ?case using join_or_balanced [OF Cons.prems(2)] Cons.prems(1) by (auto intro!: balancedI simp: brace_rules)
qed (simp add: balanced_Nil)

lemma concat_balanced: "list_all balanced codes \<Longrightarrow> balanced (concat codes)"
  by (induction codes) (simp_all add: balanced_Nil balanced_append)

lemma field_expr_balanced: "balanced v \<Longrightarrow> no_braces s \<Longrightarrow> balanced (v @ ''.'' @ s)"
  using no_braces_balanced [of s] by (auto intro!: balancedI simp: brace_rules)

lemma zero_checks_ex:
  "fields_ok env fs \<Longrightarrow> balanced v \<Longrightarrow>
   \<exists>code zs ctx'. zero_checks env fs v ctx = Some (code, zs, ctx') \<and> balanced code \<and> list_all balanced zs"
proof (induction fs arbitrary: ctx)
  case (Cons f fs)
  obtain s t e where f: "f = OField s t e" by (cases f)
  obtain z c1 where z: "gen_temp ctx = (z, c1)" by fastforce
  have "balanced (v @ ''.'' @ s)" "checkable t" "clean_type env t" using field_expr_balanced Cons.prems f by simp_all
  then obtain c c2 where c: "nonZeroCheck env (v @ ''.'' @ s) t c1 = Some (c, c2)" "balanced c"
    using nonZeroCheck_ex by blast
  obtain code zs c3 where r: "zero_checks env fs v c2 = Some (code, zs, c3)" "balanced code" "list_all balanced zs"
    using Cons by fastforce
  have "balanced (ln (z @ '' := '' @ c) @ code)"
    using gen_temp_balanced [OF z] c(2) r(2) by (auto intro!: balancedI simp: brace_rules)
  then show ?case using f z c r gen_temp_balanced [OF z] by simp
qed (simp add: balanced_Nil)

definition writes_balanced :: "gen_env \<Rightarrow> opfield \<Rightarrow> bool" where
  "writes_balanced env f \<longleftrightarrow>
     (\<forall>v ctx. balanced v \<longrightarrow> (\<exists>code ctx'. write_field env f v ctx = Some (code, ctx') \<and> balanced code))"

lemma write_codes_ex:
  "\<forall>f\<in>set fs. writes_balanced env f \<Longrightarrow> balanced v \<Longrightarrow>
   \<exists>codes ctx'. write_codes env fs v ctx = Some (codes, ctx') \<and> list_all balanced codes"
proof (induction fs arbitrary: ctx)
  case (Cons f fs)
  obtain code c1 where c: "write_field env f v ctx = Some (code, c1)" "balanced code"
    using Cons.prems unfolding writes_balanced_def by (metis list.set_intros(1))
  obtain codes c2 where "write_codes env fs v c1 = Some (codes, c2)" "list_all balanced codes" using Cons by fastforce
  then show ?case using c by simp
qed simp

lemma fields_ok_iff: "fields_ok env fs \<longleftrightarrow> (\<forall>f\<in>set fs. field_ok env f)"
  by (induction fs) simp_all

lemma genWrite_struct_balanced:
  assumes "\<forall>f\<in>set req. writes_balanced env f" "\<forall>f\<in>set opt. writes_balanced env f" "fields_ok env opt" "balanced v"
  shows "\<exists>code ctx'. genWrite env (OStruct named t req opt) v ctx = Some (code, ctx') \<and> balanced code"
proof -
  obtain m c1 where m: "gen_temp ctx = (m, c1)" by fastforce
  obtain codes c2 where r: "write_codes env req v c1 = Some (codes, c2)" "list_all balanced codes"
    using write_codes_ex [OF assms(1,4)] by blast
  obtain checks zs c3 where z: "zero_checks env opt v c2 = Some (checks, zs, c3)" "balanced checks" "list_all balanced zs"
    using zero_checks_ex [OF assms(3,4)] by blast
  obtain ocodes c4 where o: "write_codes env opt v c3 = Some (ocodes, c4)" "list_all balanced ocodes"
    using write_codes_ex [OF assms(2,4)] by blast
  show ?thesis
    using m r(1) z(1) o(1) gen_temp_balanced [OF m] concat_balanced [OF r(2)] z(2) guard_codes_balanced [OF o(2) z(3)]
    by (auto intro!: balancedI simp: brace_rules)
qed

lemma genWrite_balanced:
  "op_ok env e \<longrightarrow> (\<forall>v ctx. balanced v \<longrightarrow> (\<exists>code ctx'. genWrite env e v ctx = Some (code, ctx') \<and> balanced code))"
  "field_ok env f \<longrightarrow> writes_balanced env f"
proof (induction e and f)
  case (OBasic t wm wt dm dt bits)
  then show ?case using genWrite_basic_balanced by simp
next
  case (OByteArray t name)
  then show ?case by (auto intro!: balancedI simp: brace_rules)
next
  case (OBigInt pointer)
  then show ?case using genWrite_bigInt_balanced by simp
next
  case (OEncDec t)
  then show ?case by (auto intro!: balancedI simp: brace_rules)
next
  case (OPtr et e nilOK nilValue)
  have "\<exists>code ctx'. genWrite env (OPtr et e nilOK nilValue) v ctx = Some (code, ctx') \<and> balanced code"
    if ok: "op_ok env (OPtr et e nilOK nilValue)" and v: "balanced v" for v ctx
  proof -
    let ?vv = "if is_deref_free e then v else ''(*'' @ v @ '')''"
    have "balanced ?vv" using v by (auto intro!: balancedI simp: brace_rules)
    then obtain code c where c: "genWrite env e ?vv ctx = Some (code, c)" "balanced code" using OPtr ok by fastforce
    have "balanced (hex2 nilValue)" by (rule no_braces_balanced) (rule hex2_no_braces)
    then show ?thesis using c v by (auto intro!: balancedI simp: brace_rules simp del: if_split)
  qed
  then show ?case by blast
next
  case (OStruct named t req opt)
  have "\<exists>code ctx'. genWrite env (OStruct named t req opt) v ctx = Some (code, ctx') \<and> balanced code"
    if ok: "op_ok env (OStruct named t req opt)" and v: "balanced v" for v ctx
    by (rule genWrite_struct_balanced) (use OStruct ok v in \<open>auto simp: fields_ok_iff\<close>)
  then show ?case by blast
next
  case (OSlice t e)
  have "\<exists>code ctx'. genWrite env (OSlice t e) v ctx = Some (code, ctx') \<and> balanced code"
    if ok: "op_ok env (OSlice t e)" and v: "balanced v" for v ctx
  proof -
    obtain m c1 where m: "gen_temp ctx = (m, c1)" by fastforce
    obtain x c2 where x: "gen_temp c1 = (x, c2)" by fastforce
    obtain code c3 where c: "genWrite env e x c2 = Some (code, c3)" "balanced code"
      using OSlice ok gen_temp_balanced [OF x] by fastforce
    show ?thesis using m x c v gen_temp_balanced [OF m] gen_temp_balanced [OF x] by (auto intro!: balancedI simp: brace_rules)
  qed
  then show ?case by blast
next
  case (OField s t e)
  have "\<exists>code ctx'. write_field env (OField s t e) v ctx = Some (code, ctx') \<and> balanced code"
    if ok: "field_ok env (OField s t e)" and v: "balanced v" for v ctx
    using OField ok field_expr_balanced [OF v, of s] by simp
  then show ?case unfolding writes_balanced_def by blast
qed

lemma type_str_bal: "clean_type env t \<Longrightarrow> type_str env t ctx = (ts, ctx') \<Longrightarrow> balanced ts"
  using type_str_balanced(1) [of env t ctx] by simp

definition codes_balanced :: "(string \<times> string) list \<Rightarrow> bool" where
  "codes_balanced codes \<longleftrightarrow> (\<forall>(c, code)\<in>set codes. balanced c \<and> balanced code)"

lemma decode_required_balanced: "codes_balanced codes \<Longrightarrow> balanced (decode_required codes)"
  by (induction codes) (auto simp: decode_required_def codes_balanced_def balanced_Nil balanced_append)

lemma optional_open:
  "codes_balanced codes \<Longrightarrow>
   scan n (concat (map (\<lambda>(c, code). c @ ln ''if dec.MoreDataInList() {'' @ code) codes)) = Some (n + length codes)"
proof (induction codes arbitrary: n)
  case (Cons p codes)
  obtain c code where p: "p = (c, code)" by (cases p)
  have "balanced c" "balanced code" "codes_balanced codes" using Cons.prems p by (auto simp: codes_balanced_def)
  then show ?case using Cons.IH [of "Suc n"] p by (simp add: brace_rules)
qed simp

lemma optional_close: "scan (n + length codes) (concat (map (\<lambda>_. ln ''}'') codes)) = Some n"
  by (induction codes) (simp_all add: ln_def)

lemma decode_optional_balanced: "codes_balanced codes \<Longrightarrow> balanced (decode_optional codes)"
  unfolding decode_optional_def by (rule balancedI) (simp add: scan_append optional_open optional_close)

definition decodes_balanced :: "gen_env \<Rightarrow> opfield \<Rightarrow> bool" where
  "decodes_balanced env f \<longleftrightarrow>
     (\<forall>r ctx. balanced r \<longrightarrow> (\<exists>c code ctx'. decode_field env f r ctx = Some ((c, code), ctx') \<and> balanced c \<and> balanced code))"

lemma decode_codes_balanced:
  "\<forall>f\<in>set fs. decodes_balanced env f \<Longrightarrow> balanced r \<Longrightarrow>
   \<exists>codes ctx'. decode_codes env fs r ctx = Some (codes, ctx') \<and> codes_balanced codes"
proof (induction fs arbitrary: ctx)
  case (Cons f fs)
  obtain c code c1 where f: "decode_field env f r ctx = Some ((c, code), c1)" "balanced c" "balanced code"
    using Cons.prems unfolding decodes_balanced_def by (metis list.set_intros(1))
  obtain rest c2 where r: "decode_codes env fs r c1 = Some (rest, c2)" "codes_balanced rest"
    using Cons.IH [of c1] Cons.prems by auto
  show ?case using f r by (simp add: codes_balanced_def)
qed (simp add: codes_balanced_def)

lemma genDecode_basic_balanced:
  assumes "clean_type env t" "no_braces dm" "genDecode_basic env t dm dt bits ctx = (r, code, ctx')"
  shows "balanced r \<and> balanced code"
proof -
  obtain z c1 where z: "gen_temp ctx = (z, c1)" by fastforce
  obtain y c2 where y: "gen_temp c1 = (y, c2)" by fastforce
  obtain ts c3 where ts: "type_str env t c2 = (ts, c3)" by fastforce
  have "balanced z" "balanced y" "balanced ts" "balanced dm" "balanced (dec_digits (size_bits t))"
    using gen_temp_balanced [OF z] gen_temp_balanced [OF y] type_str_bal [OF assms(1) ts] no_braces_balanced [OF assms(2)]
    by (simp_all add: brace_simps)
  then show ?thesis using assms(3)
    by (auto simp: genDecode_basic_def z y ts Let_def split: if_splits intro!: balancedI simp: brace_rules)
qed

lemma genDecode_ptr_balanced:
  assumes "clean_type env et"
    and inner: "\<exists>res c c1. genDecode env e ctx = Some (res, c, c1) \<and> balanced res \<and> balanced c"
  shows "\<exists>r code ctx'. genDecode env (OPtr et e nilOK nilValue) ctx = Some (r, code, ctx') \<and> balanced r \<and> balanced code"
proof -
  obtain res c c1 where e: "genDecode env e ctx = Some (res, c, c1)" "balanced res" "balanced c" using inner by blast
  obtain x c2 where x: "gen_temp c1 = (x, c2)" by fastforce
  obtain k c3 where k: "gen_temp c2 = (k, c3)" by fastforce
  obtain z c4 where z: "gen_temp c3 = (z, c4)" by fastforce
  obtain ts c5 where ts: "type_str env (GPtr et) c4 = (ts, c5)" by fastforce
  have b: "balanced x" "balanced k" "balanced z" "balanced ts"
    using gen_temp_balanced [OF x] gen_temp_balanced [OF k] gen_temp_balanced [OF z] type_str_bal [OF _ ts] assms(1) by simp_all
  show ?thesis
  proof (cases nilOK)
    case True
    then have "genDecode env (OPtr et e nilOK nilValue) ctx = Some (x, ptr_decoder x ts k z nilValue c res, c5)"
      by (simp add: e x k z ts Let_def del: type_str.simps)
    moreover have "balanced (ptr_decoder x ts k z nilValue c res)" using b e by (auto intro!: balancedI simp: brace_rules)
    ultimately show ?thesis using b(1) by blast
  next
    case False
    then show ?thesis using e by (auto intro!: balancedI simp: brace_rules)
  qed
qed

lemma genDecode_struct_balanced:
  assumes "\<forall>f\<in>set req. decodes_balanced env f" "\<forall>f\<in>set opt. decodes_balanced env f"
    and "clean_type env t" "\<forall>n. named = Some n \<longrightarrow> clean_type env n"
  shows "\<exists>r code ctx'. genDecode env (OStruct named t req opt) ctx = Some (r, code, ctx') \<and> balanced r \<and> balanced code"
proof -
  obtain ts c1 where ts: "type_str env (case named of None \<Rightarrow> t | Some n \<Rightarrow> n) ctx = (ts, c1)" by fastforce
  obtain x c2 where x: "gen_temp c1 = (x, c2)" by fastforce
  note xb = gen_temp_balanced [OF x]
  obtain codes c3 where c: "decode_codes env req x c2 = Some (codes, c3)" "codes_balanced codes"
    using decode_codes_balanced [OF assms(1) xb] by blast
  obtain ocodes c4 where o: "decode_codes env opt x c3 = Some (ocodes, c4)" "codes_balanced ocodes"
    using decode_codes_balanced [OF assms(2) xb] by blast
  have "clean_type env (case named of None \<Rightarrow> t | Some n \<Rightarrow> n)" using assms(3,4) by (cases named) simp_all
  then have "balanced ts" using type_str_bal ts by blast
  then have "balanced (struct_decoder x ts codes ocodes)"
    using xb decode_required_balanced [OF c(2)] decode_optional_balanced [OF o(2)] by (auto intro!: balancedI simp: brace_rules)
  then show ?thesis using xb c o by (simp add: ts x Let_def)
qed

lemma genDecode_balanced:
  "op_ok env e \<longrightarrow> (\<forall>ctx. \<exists>r code ctx'. genDecode env e ctx = Some (r, code, ctx') \<and> balanced r \<and> balanced code)"
  "field_ok env f \<longrightarrow> decodes_balanced env f"
proof (induction e and f)
  case (OBasic t wm wt dm dt bits)
  have "\<exists>r code ctx'. genDecode env (OBasic t wm wt dm dt bits) ctx = Some (r, code, ctx') \<and> balanced r \<and> balanced code"
    if "clean_type env t" "no_braces dm" for ctx
    using genDecode_basic_balanced [OF that, of dt bits ctx] by (cases "genDecode_basic env t dm dt bits ctx") simp
  then show ?case by simp
next
  case (OByteArray t name)
  have "\<exists>r code ctx'. genDecode env (OByteArray t name) ctx = Some (r, code, ctx') \<and> balanced r \<and> balanced code"
    if "clean_type env name" for ctx
  proof -
    obtain x c1 where x: "gen_temp ctx = (x, c1)" by fastforce
    obtain ts c2 where ts: "type_str env name c1 = (ts, c2)" by fastforce
    show ?thesis using gen_temp_balanced [OF x] type_str_bal [OF that ts] by (auto simp: x ts Let_def intro!: balancedI simp: brace_rules)
  qed
  then show ?case by simp
next
  case (OBigInt pointer)
  show ?case using gen_temp_balanced
    by (auto simp: genDecode_bigInt_def Let_def intro!: balancedI simp: brace_rules split: prod.splits if_splits)
next
  case (OEncDec t)
  have "\<exists>r code ctx'. genDecode env (OEncDec (GPtr e)) ctx = Some (r, code, ctx') \<and> balanced r \<and> balanced code"
    if "clean_type env e" for e ctx
  proof -
    obtain x c1 where x: "gen_temp ctx = (x, c1)" by fastforce
    obtain ts c2 where ts: "type_str env e c1 = (ts, c2)" by fastforce
    show ?thesis using gen_temp_balanced [OF x] type_str_bal [OF that ts] by (auto simp: x ts Let_def intro!: balancedI simp: brace_rules)
  qed
  then show ?case by auto
next
  case (OPtr et e nilOK nilValue)
  then show ?case using genDecode_ptr_balanced by (metis op_ok.simps(5))
next
  case (OStruct named t req opt)
  have "\<exists>r code ctx'. genDecode env (OStruct named t req opt) ctx = Some (r, code, ctx') \<and> balanced r \<and> balanced code"
    if "op_ok env (OStruct named t req opt)" for ctx
    by (rule genDecode_struct_balanced) (use OStruct that in \<open>auto simp: fields_ok_iff\<close>)
  then show ?case by blast
next
  case (OSlice t e)
  have "\<exists>r code ctx'. genDecode env (OSlice t e) ctx = Some (r, code, ctx') \<and> balanced r \<and> balanced code"
    if ok: "op_ok env (OSlice t e)" for ctx
  proof -
    obtain x c1 where x: "gen_temp ctx = (x, c1)" by fastforce
    obtain res c c2 where e: "genDecode env e c1 = Some (res, c, c2)" "balanced res" "balanced c" using OSlice ok by fastforce
    obtain ts c3 where ts: "type_str env t c2 = (ts, c3)" by fastforce
    have "balanced ts" using ok type_str_bal [OF _ ts] by auto
    then show ?thesis using e gen_temp_balanced [OF x] by (auto simp: x ts Let_def intro!: balancedI simp: brace_rules)
  qed
  then show ?case by blast
next
  case (OField s t e)
  have "\<exists>c code ctx'. decode_field env (OField s t e) r ctx = Some ((c, code), ctx') \<and> balanced c \<and> balanced code"
    if ok: "field_ok env (OField s t e)" "balanced r" for r ctx
  proof -
    obtain res c0 c1 where e: "genDecode env e ctx = Some (res, c0, c1)" "balanced res" "balanced c0" using OField ok(1) by fastforce
    have "balanced s" using ok(1) by (simp add: no_braces_balanced)
    then show ?thesis using ok(2) e by (auto simp: Let_def intro!: balancedI simp: brace_rules)
  qed
  then show ?case unfolding decodes_balanced_def by blast
qed

section \<open>What makeOp accepts\<close>

definition gen_env_ok :: "gen_env \<Rightarrow> bool" where
  "gen_env_ok env \<longleftrightarrow> clean_type env (ge_rawValue env) \<and> (\<exists>e. resolveUnderlying (ge_rawValue env) = GSlice e)"

lemma Uint8T_clean: "clean_type env Uint8T" "clean_type env Uint64T" "clean_type env BoolT" "clean_type env StringT"
  by (simp_all add: Uint8T_def Uint64T_def BoolT_def StringT_def no_braces_def)

lemma makeBasicOp_ok:
  "clean_type env (GBasic k s) \<Longrightarrow> makeBasicOp env (GBasic k s) k = Inr e \<Longrightarrow> op_ok env e \<and> checkable (GBasic k s)"
  using Uint8T_clean [of env]
  by (auto simp: makeBasicOp_def checkable_def no_braces_def less_eq_kind_def split: if_splits)

lemma ptr_op_ok: "clean_type env t \<Longrightarrow> op_ok env e \<Longrightarrow> ptr_op env t e tags = Some x \<Longrightarrow> op_ok env x"
  by (auto simp: ptr_op_def split: if_splits option.splits)

lemma makeOp_ok:
  "gen_env_ok env \<and> clean_type env t \<and> (\<forall>n. name = Some n \<longrightarrow> clean_type env n) \<Longrightarrow>
     makeOp env name t tags = Some (Inr e) \<Longrightarrow> op_ok env e \<and> checkable t"
  "gen_env_ok env \<and> clean_fields env fs \<Longrightarrow>
     make_fields env kept i fs = Some (Inr (req, opt)) \<Longrightarrow> fields_ok env req \<and> fields_ok env opt"
  "gen_env_ok env \<and> clean_field env f \<Longrightarrow> make_field env tag f = Some (Inr x) \<Longrightarrow> field_ok env x"
proof (induction env name t tags and env kept i fs and env tag f arbitrary: e and req opt and x
    rule: makeOp_make_fields_make_field.induct)
  case (1 env name p s u tags)
  obtain b where b: "isBigInt (GNamed p s u) = Some b" using 1(3) by (auto split: option.splits)
  consider "b" | "\<not> b" "GNamed p s u = ge_rawValue env"
    | "\<not> b" "GNamed p s u \<noteq> ge_rawValue env" "\<not> ge_decoder env (GNamed p s u)"
    using 1(3) b by (cases b) (auto split: if_splits)
  then show ?case
  proof cases
    case 1
    then show ?thesis using "1.prems" b by (auto simp: checkable_def)
  next
    case 2
    then have r: "clean_type env (GNamed p s u)" "\<exists>e. resolveUnderlying (GNamed p s u) = GSlice e"
      using "1.prems"(1) by (auto simp: gen_env_ok_def)
    have "e = makeRawValueOp env" using "1.prems"(2) b 2(1) 2(2) [symmetric] by simp
    then show ?thesis using r 2(2) Uint8T_clean by (auto simp: makeRawValueOp_def checkable_def no_braces_def)
  next
    case 3
    then show ?thesis using "1.IH" [unfolded isDecoder_def, OF b _ 3(2,3)] "1.prems" b by (auto simp: checkable_def)
  qed
next
  case (2 env name t tags)
  obtain b where b: "isBigInt t = Some b" using 2(3) by (auto split: option.splits)
  show ?case
  proof (cases "b \<or> ge_encoder env (GPtr t) \<or> ge_decoder env (GPtr t)")
    case True
    then show ?thesis using 2(2,3) b by (auto simp: checkable_def split: if_splits bool.splits)
  next
    case False
    then obtain el where el: "makeOp env None t no_tags = Some (Inr el)" "ptr_op env t el tags = Some e"
      using 2(3) b by (auto split: option.splits sum.splits)
    have "op_ok env el" using 2(1) [OF b] False 2(2) el(1) by simp
    then show ?thesis using ptr_op_ok el(2) 2(2) by (auto simp: checkable_def)
  qed
next
  case (3 env name k s tags)
  then show ?case using makeBasicOp_ok [of env k s e] by simp
next
  case (4 env name fs tags)
  then show ?case by (auto simp: checkable_def split: option.splits sum.splits)
next
  case (5 env name t tags)
  show ?case
  proof (cases "isByteT t \<and> \<not> ge_encoder env t")
    case True
    then show ?thesis using 5(2,3) Uint8T_clean by (auto simp: makeByteSliceOp_def checkable_def no_braces_def)
  next
    case False
    then show ?thesis using 5 by (auto simp: checkable_def split: option.splits sum.splits)
  qed
next
  case (6 env name n t tags)
  then show ?case by (auto simp: makeByteArrayOp_def checkable_def split: if_splits option.splits)
next
  case (9 env kept i f fs)
  show ?case
  proof (cases "kept i")
    case None
    then show ?thesis using 9 by simp
  next
    case (Some tag)
    then obtain x r o1 where x: "make_field env tag f = Some (Inr x)" "make_fields env kept (Suc i) fs = Some (Inr (r, o1))"
      "(req, opt) = (if tg_optional tag then (r, x # o1) else (x # r, o1))"
      using 9(5) by (auto split: option.splits sum.splits)
    have "field_ok env x" using 9(2) [OF Some] 9(4) x(1) by simp
    moreover have "fields_ok env r \<and> fields_ok env o1" using 9(3) [OF Some x(1) refl] 9(4) x(2) by simp
    ultimately show ?thesis using x(3) by (auto split: if_splits)
  qed
next
  case (10 env tag s exported embedded raw t)
  then show ?case by (auto split: option.splits sum.splits)
qed simp_all

lemma generateDecoder_balanced:
  "op_ok env e \<Longrightarrow> no_braces typ \<Longrightarrow> \<exists>text ctx'. generateDecoder env typ e ctx = Some (text, ctx') \<and> balanced text"
proof -
  assume ok: "op_ok env e" "no_braces typ"
  obtain r code c where g: "genDecode env e (addImport pathOfPackageRLP (resetTemp ctx)) = Some (r, code, c)" "balanced r" "balanced code"
    using genDecode_balanced(1) ok(1) by blast
  have "balanced typ" using ok(2) by (rule no_braces_balanced)
  then show ?thesis using g by (auto simp: generateDecoder_def Let_def intro!: balancedI simp: brace_rules)
qed

lemma generateEncoder_balanced:
  "op_ok env e \<Longrightarrow> no_braces typ \<Longrightarrow> \<exists>text ctx'. generateEncoder env typ e ctx = Some (text, ctx') \<and> balanced text"
proof -
  assume ok: "op_ok env e" "no_braces typ"
  have "balanced ''obj''" by (simp add: balanced_def)
  then obtain code c where g: "genWrite env e ''obj'' (addImport pathOfPackageRLP (addImport ''io'' (resetTemp ctx))) = Some (code, c)"
    "balanced code"
    using genWrite_balanced(1) ok(1) by blast
  have "balanced typ" using ok(2) by (rule no_braces_balanced)
  then show ?thesis using g by (auto simp: generateEncoder_def Let_def intro!: balancedI simp: brace_rules)
qed

text \<open>
  C38. Whatever operation tree \<open>makeOp\<close> makes, the generator of the encoder and that of the decoder return (the
  type assertions of the operations hold), and in the encoder and the decoder they write every brace that is opened is closed, the nested ones of optional fields included.
\<close>

theorem generated_balanced:
  assumes "makeOp env None t tags = Some (Inr e)" "gen_env_ok env" "clean_type env t" "no_braces typ"
  shows "(\<exists>enc ctx'. generateEncoder env typ e ctx = Some (enc, ctx') \<and> balanced enc) \<and>
         (\<exists>dec ctx'. generateDecoder env typ e ctx = Some (dec, ctx') \<and> balanced dec)"
proof -
  have "op_ok env e" using makeOp_ok(1) [OF _ assms(1)] assms(2,3) by simp
  then show ?thesis using generateEncoder_balanced generateDecoder_balanced assms(4) by blast
qed

text \<open>A struct with two optional fields, the second a pointer that may be nil, in the package \<open>test\<close>.\<close>

definition example_env :: gen_env where
  "example_env = \<lparr>ge_encoder = (\<lambda>_. False), ge_decoder = (\<lambda>_. False),
     ge_rawValue = GNamed (Some (''rlp'', ''rlp'')) ''RawValue'' (GSlice (GBasic KUint8 ''byte'')),
     ge_tag = (\<lambda>s. s), ge_quote = (\<lambda>s. [CHR 0x22] @ s @ [CHR 0x22])\<rparr>"

definition example_type :: gotype where
  "example_type = GNamed (Some (''test'', ''test'')) ''Test''
     (GStruct [GField ''A'' True False ''optional'' (GBasic KUint64 ''uint64''),
               GField ''B'' True False ''optional,nil'' (GPtr (GBasic KUint8 ''byte''))])"

definition example_op :: op where
  "example_op = OStruct (Some example_type)
     (GStruct [GField ''A'' True False ''optional'' (GBasic KUint64 ''uint64''),
               GField ''B'' True False ''optional,nil'' (GPtr (GBasic KUint8 ''byte''))]) []
     [OField ''A'' (GBasic KUint64 ''uint64'') (OBasic (GBasic KUint64 ''uint64'') ''WriteUint64'' Uint64T ''Uint'' (GBasic KUint64 ''uint64'') True),
      OField ''B'' (GPtr (GBasic KUint8 ''byte'')) (OPtr (GBasic KUint8 ''byte'')
        (OBasic (GBasic KUint8 ''byte'') ''WriteUint64'' Uint64T ''Uint'' (GBasic KUint8 ''byte'') True) True NilKindList)]"

lemma example_makeOp: "makeOp example_env None example_type no_tags = Some (Inr example_op)"
  by code_simp

theorem generated_balanced_witness:
  "(\<exists>enc ctx'. generateEncoder example_env ''Test'' example_op (newGenContext ''test'') = Some (enc, ctx') \<and> balanced enc) \<and>
   (\<exists>dec ctx'. generateDecoder example_env ''Test'' example_op (newGenContext ''test'') = Some (dec, ctx') \<and> balanced dec)"
  by (rule generated_balanced [OF example_makeOp])
    (simp_all add: gen_env_ok_def example_env_def example_type_def clean_package_def no_braces_def balanced_def)

section \<open>Which structs the generator takes\<close>

lemma ProcessFields_first:
  assumes "ProcessFields quote fs = Some (Inr (flds, ts))"
  shows "(ts = [] \<or> tg_optional (hd ts) \<or> tg_tail (hd ts)) \<and> length flds = length ts \<and> set flds \<subseteq> set fs"
proof -
  have c: "collect_fields (lastPublicField fs) fs [] [] = Some (Inr (flds, ts))" "check_optional quote (zip flds ts) False [] = None"
    using assms by (auto simp: ProcessFields_def split: option.splits sum.splits)
  have len: "length flds = length ts" and sub: "set flds \<subseteq> set fs"
    using c(1) unfolding collect_fields_spec by (auto simp: Let_def)
  have "ts = [] \<or> tg_optional (hd ts) \<or> tg_tail (hd ts)"
    using c(2) len by (cases flds; cases ts) (simp_all add: check_optional_False del: check_optional.simps)
  then show ?thesis using len sub by blast
qed

lemma struct_fields_index:
  "struct_fields env i fs = Some flds \<Longrightarrow> f \<in> set flds \<Longrightarrow> i \<le> sf_index f \<and> sf_index f < i + length fs"
proof (induction env i fs arbitrary: flds rule: struct_fields.induct)
  case (2 env i s exported embedded tag t fs)
  then obtain st r where st: "typeToStructType env t = Some st" "struct_fields env (Suc i) fs = Some r"
    "flds = \<lparr>sf_name = s, sf_index = i, sf_exported = exported, sf_type = st, sf_tag = ge_tag env tag\<rparr> # r"
    by (auto split: option.splits)
  show ?case
  proof (cases "f \<in> set r")
    case True
    then show ?thesis using "2.IH" [OF st(1,2)] by simp
  next
    case False
    then show ?thesis using "2.prems"(2) st(3) by simp
  qed
qed simp

lemma make_fields_optional:
  "make_fields env kept i fs = Some (Inr (req, opt)) \<Longrightarrow> i \<le> k \<Longrightarrow> k < i + length fs \<Longrightarrow> kept k = Some tag \<Longrightarrow>
   tg_optional tag \<or> tg_tail tag \<Longrightarrow> opt \<noteq> []"
proof (induction fs arbitrary: i req opt)
  case (Cons f fs)
  obtain s exported embedded raw t where f: "f = GField s exported embedded raw t" by (cases f)
  show ?case
  proof (cases "kept i")
    case None
    then have "k \<noteq> i" using Cons.prems(4) by auto
    then show ?thesis using Cons None by simp
  next
    case (Some tg)
    then obtain x r o1 where x: "make_field env tg f = Some (Inr x)" "make_fields env kept (Suc i) fs = Some (Inr (r, o1))"
      "(req, opt) = (if tg_optional tg then (r, x # o1) else (x # r, o1))"
      using Cons.prems(1) by (auto split: option.splits sum.splits)
    have "\<not> tg_tail tg" using x(1) f by (auto simp: checkUnsupportedTags_def)
    show ?thesis
    proof (cases "k = i")
      case True
      then show ?thesis using x(3) Some Cons.prems(4,5) \<open>\<not> tg_tail tg\<close> by simp
    next
      case False
      then have "o1 \<noteq> []" using Cons.IH [OF x(2)] Cons.prems by simp
      then show ?thesis using x(3) by (auto split: if_splits)
    qed
  qed
qed simp

lemma make_fields_none: "make_fields env (\<lambda>_. None) i fs = Some (Inr ([], []))"
  by (induction fs arbitrary: i) simp_all

text \<open>
  C39. A struct for which code is generated has an optional field or no field that takes part: the generator refuses
  every struct with encoded fields none of which is optional, like those of its own tests.
\<close>

theorem struct_needs_optional:
  assumes "makeOp env name (GStruct fs) tags = Some (Inr e)"
  shows "\<exists>req opt. e = OStruct name (GStruct fs) req opt \<and> (req = [] \<or> opt \<noteq> [])"
proof -
  obtain flds kfs ts req opt where p: "struct_fields env 0 fs = Some flds" "ProcessFields (ge_quote env) flds = Some (Inr (kfs, ts))"
    "make_fields env (kept_tags kfs ts) 0 fs = Some (Inr (req, opt))" "e = OStruct name (GStruct fs) req opt"
    using assms by (auto split: option.splits sum.splits)
  note first = ProcessFields_first [OF p(2)]
  have "req = [] \<or> opt \<noteq> []"
  proof (cases ts)
    case Nil
    then have "kept_tags kfs ts = (\<lambda>_. None)" using first by (auto simp: kept_tags_def)
    then show ?thesis using p(3) make_fields_none [of env 0 fs] by simp
  next
    case (Cons tg ts')
    then obtain f kfs' where f: "kfs = f # kfs'" using first by (cases kfs) simp_all
    have k: "kept_tags kfs ts (sf_index f) = Some tg" using f Cons by (simp add: kept_tags_def)
    have "sf_index f < 0 + length fs" using struct_fields_index [OF p(1), of f] first f by auto
    then show ?thesis using make_fields_optional [OF p(3) _ _ k] first Cons by auto
  qed
  then show ?thesis using p(4) by blast
qed

theorem struct_needs_optional_witness:
  "\<exists>req opt. (case makeOp example_env None (GStruct [GField ''A'' True False ''optional'' (GBasic KUint64 ''uint64''),
        GField ''B'' True False [] (GBasic KBool ''bool'')]) no_tags of Some (Inr e) \<Rightarrow> e | _ \<Rightarrow> OBigInt False) =
      OStruct None (GStruct [GField ''A'' True False ''optional'' (GBasic KUint64 ''uint64''),
        GField ''B'' True False [] (GBasic KBool ''bool'')]) req opt \<and> (req = [] \<or> opt \<noteq> [])"
proof (rule struct_needs_optional [of example_env None _ no_tags])
  have "(case makeOp example_env None (GStruct [GField ''A'' True False ''optional'' (GBasic KUint64 ''uint64''),
        GField ''B'' True False [] (GBasic KBool ''bool'')]) no_tags of Some (Inr e) \<Rightarrow> True | _ \<Rightarrow> False)"
    by code_simp
  then show "makeOp example_env None (GStruct [GField ''A'' True False ''optional'' (GBasic KUint64 ''uint64''),
        GField ''B'' True False [] (GBasic KBool ''bool'')]) no_tags =
      Some (Inr (case makeOp example_env None (GStruct [GField ''A'' True False ''optional'' (GBasic KUint64 ''uint64''),
        GField ''B'' True False [] (GBasic KBool ''bool'')]) no_tags of Some (Inr e) \<Rightarrow> e | _ \<Rightarrow> OBigInt False))"
    by (auto split: option.splits sum.splits)
qed

text \<open>The struct of the test \<open>uints\<close> is refused, and so the test fails.\<close>

lemma uints_refused:
  "makeOp example_env None (GNamed (Some (''test'', ''test'')) ''Test''
     (GStruct [GField ''A'' True False [] (GBasic KUint8 ''uint8''), GField ''B'' True False [] (GBasic KUint16 ''uint16''),
               GField ''C'' True False [] (GBasic KUint32 ''uint32''), GField ''D'' True False [] (GBasic KUint64 ''uint64'')])) no_tags =
   Some (Inl (TagError_Error (ge_quote example_env) (must_be_optional (ge_quote example_env) ''A'' [])))"
  by code_simp

end
