(* ===== verification/Rlp_Main.thy ===== *)
theory Rlp_Main
  imports Rlp_Gen
begin

text \<open>
  \<open>src/rlp/rlpgen/main.go\<close>: how the type to generate for is found, the text put together and the command run.
  \<open>packages.Load\<close>, \<open>types.Implements\<close>, \<open>format.Source\<close> and the writing of files are arguments. A panic is \<open>None\<close>.
\<close>

datatype scope_obj = TypeObj gotype | OtherObj gotype

definition obj_type :: "scope_obj \<Rightarrow> gotype" where
  "obj_type obj = (case obj of TypeObj t \<Rightarrow> t | OtherObj t \<Rightarrow> t)"

record go_package =
  pk_path :: string
  pk_name :: string
  pk_errors :: nat
  pk_scope :: "string \<Rightarrow> scope_obj option"

record rlpgen_config =
  cf_Dir :: string
  cf_Type :: string
  cf_GenerateEncoder :: bool
  cf_GenerateDecoder :: bool

text \<open>An alias of an unnamed type fails the last type assertion.\<close>

definition lookupType :: "(string \<Rightarrow> scope_obj option) \<Rightarrow> string \<Rightarrow> (string + gotype) option" where
  "lookupType scope name =
     (case scope name of
        None \<Rightarrow> Some (Inl ''no such identifier'')
      | Some (OtherObj _) \<Rightarrow> Some (Inl ''not a type'')
      | Some (TypeObj t) \<Rightarrow> (case t of GNamed _ _ _ \<Rightarrow> Some (Inr t) | _ \<Rightarrow> None))"

definition lookupStructType :: "(string \<Rightarrow> scope_obj option) \<Rightarrow> string \<Rightarrow> (string + gotype) option" where
  "lookupStructType scope name =
     (case lookupType scope name of
        None \<Rightarrow> None
      | Some (Inl err) \<Rightarrow> Some (Inl err)
      | Some (Inr t) \<Rightarrow>
          (case resolveUnderlying t of GStruct _ \<Rightarrow> Some (Inr t) | _ \<Rightarrow> Some (Inl ''not a struct type'')))"

text \<open>The loop over the packages that were loaded: the package with the type, and the package \<open>rlp\<close>.\<close>

fun find_packages ::
  "go_package list \<Rightarrow> go_package option \<Rightarrow> go_package option \<Rightarrow> string + go_package option \<times> go_package option" where
  "find_packages [] pkg rlp = Inr (pkg, rlp)"
| "find_packages (p # ps) pkg rlp =
     (if 0 < pk_errors p then Inl (''package '' @ pk_path p @ '' has errors'')
      else if pk_path p = pathOfPackageRLP then find_packages ps pkg (Some p)
      else find_packages ps (Some p) rlp)"

definition build_header :: string where
  "build_header =
     ln (ln ''// Code generated by rlpgen. DO NOT EDIT.'') @ ln ''//go:build !norlpgen'' @ ln (ln ''// +build !norlpgen'')"

text \<open>
  \<open>newBuildContext\<close>: a name that is missing and a failed type assertion are panics. \<open>implements\<close> is
  \<open>types.Implements\<close>; the look-up in struct tags and \<open>%q\<close> are carried along.
\<close>

definition newBuildContext ::
  "(gotype \<Rightarrow> gotype \<Rightarrow> bool) \<Rightarrow> (string \<Rightarrow> string) \<Rightarrow> (string \<Rightarrow> string) \<Rightarrow> (string \<Rightarrow> scope_obj option) \<Rightarrow> gen_env option" where
  "newBuildContext implements tag quote scope =
     (case (scope ''Encoder'', scope ''Decoder'', scope ''RawValue'') of
        (Some e, Some d, Some r) \<Rightarrow>
          let enc = resolveUnderlying (obj_type e);
              dec = resolveUnderlying (obj_type d);
              rawv = obj_type r
          in (case (enc, dec, rawv) of
                (GOther KInterface _, GOther KInterface _, GNamed _ _ _) \<Rightarrow>
                  Some \<lparr>ge_encoder = (\<lambda>t. implements t enc), ge_decoder = (\<lambda>t. implements t dec), ge_rawValue = rawv,
                        ge_tag = tag, ge_quote = quote\<rparr>
              | _ \<Rightarrow> None)
      | _ \<Rightarrow> None)"

text \<open>
  Without the package \<open>rlp\<close>, \<open>process\<close> dereferences nil. The scope of a nil package is the universe.
\<close>

definition process ::
  "(rlpgen_config \<Rightarrow> string + go_package list) \<Rightarrow> (string \<Rightarrow> scope_obj option) \<Rightarrow> (gotype \<Rightarrow> gotype \<Rightarrow> bool) \<Rightarrow>
   (string \<Rightarrow> string) \<Rightarrow> (string \<Rightarrow> string) \<Rightarrow> (string \<Rightarrow> string + string) \<Rightarrow> rlpgen_config \<Rightarrow> (string + string) option" where
  "process load universe implements tag quote formatSource cfg =
     (case load cfg of
        Inl err \<Rightarrow> Some (Inl err)
      | Inr ps \<Rightarrow>
          if ps = [] then Some (Inl (''no Go package found in '' @ cf_Dir cfg))
          else (case find_packages ps None None of
              Inl err \<Rightarrow> Some (Inl err)
            | Inr (pkg, None) \<Rightarrow> None
            | Inr (pkg, Some rlp) \<Rightarrow>
                (case newBuildContext implements tag quote (pk_scope rlp) of
                   None \<Rightarrow> None
                 | Some bctx \<Rightarrow>
                     (let scope = (case pkg of None \<Rightarrow> universe | Some p \<Rightarrow> pk_scope p);
                          shown = (case pkg of None \<Rightarrow> ''<nil>'' | Some p \<Rightarrow> ''package '' @ pk_name p @ '' ('' @ quote (pk_path p) @ '')'')
                      in case lookupStructType scope (cf_Type cfg) of
                           None \<Rightarrow> None
                         | Some (Inl err) \<Rightarrow> Some (Inl (''can't find '' @ cf_Type cfg @ '' in '' @ shown @ '': '' @ err))
                         | Some (Inr (GNamed (Some (path, name)) s u)) \<Rightarrow>
                             (case generate bctx formatSource path name s u (cf_GenerateEncoder cfg) (cf_GenerateDecoder cfg) of
                                None \<Rightarrow> None
                              | Some (Inl err) \<Rightarrow> Some (Inl err)
                              | Some (Inr code) \<Rightarrow> Some (Inr (build_header @ code)))
                         | Some (Inr _) \<Rightarrow> None))))"

section \<open>The command\<close>

text \<open>The values of the flags that are set, and their defaults.\<close>

record rlpgen_flags =
  fl_dir :: "string option"
  fl_out :: "string option"
  fl_encoder :: "bool option"
  fl_decoder :: "bool option"
  fl_type :: "string option"

definition flag_value :: "'a option \<Rightarrow> 'a \<Rightarrow> 'a" where
  "flag_value v dflt = (case v of Some x \<Rightarrow> x | None \<Rightarrow> dflt)"

definition flags_config :: "rlpgen_flags \<Rightarrow> rlpgen_config" where
  "flags_config f = \<lparr>cf_Dir = flag_value (fl_dir f) ''.'', cf_Type = flag_value (fl_type f) [],
     cf_GenerateEncoder = flag_value (fl_encoder f) True, cf_GenerateDecoder = flag_value (fl_decoder f) False\<rparr>"

text \<open>What the command does: text on the standard output, a file, or a message and the exit status 1.\<close>

datatype command_effect = WritesOutput string | WritesFile string string | ExitsWith string

definition fatal :: "string \<Rightarrow> command_effect" where
  "fatal args = ExitsWith (ln args)"

text \<open>\<open>main\<close>; \<open>writeFile\<close> gives the error of \<open>os.WriteFile\<close>, and \<open>proc\<close> is \<open>process\<close>.\<close>

definition rlpgen_main ::
  "(rlpgen_config \<Rightarrow> (string + string) option) \<Rightarrow> (string \<Rightarrow> string \<Rightarrow> string option) \<Rightarrow> rlpgen_flags \<Rightarrow> command_effect option" where
  "rlpgen_main proc writeFile f =
     (let output = flag_value (fl_out f) ''-'';
          cfg = flags_config f
      in case proc cfg of
           None \<Rightarrow> None
         | Some (Inl err) \<Rightarrow> Some (fatal err)
         | Some (Inr code) \<Rightarrow>
             if output = ''-'' then Some (WritesOutput code)
             else (case writeFile output code of Some err \<Rightarrow> Some (fatal err) | None \<Rightarrow> Some (WritesFile output code)))"

lemma lookupStructType_struct:
  "lookupStructType scope name = Some (Inr t) \<Longrightarrow> \<exists>p s u fs. t = GNamed p s u \<and> resolveUnderlying u = GStruct fs"
  by (auto simp: lookupStructType_def lookupType_def split: option.splits scope_obj.splits gotype.splits sum.splits)

text \<open>The command writes code only for a struct type, and then it begins with the header.\<close>

lemma process_header:
  "process load universe implements tag quote formatSource cfg = Some (Inr code) \<Longrightarrow> take (length build_header) code = build_header"
  by (auto simp: process_def Let_def split: sum.splits if_splits option.splits prod.splits gotype.splits)

lemma main_writes_generated:
  "rlpgen_main (process load universe implements tag quote formatSource) writeFile f = Some (WritesOutput code) \<Longrightarrow>
   take (length build_header) code = build_header"
  by (rule process_header [of load universe implements tag quote formatSource "flags_config f"])
    (auto simp: rlpgen_main_def fatal_def Let_def split: option.splits sum.splits if_splits)

end
