(* ===== verification/Go_Utf8.thy ===== *)
theory Go_Utf8
  imports Go_Std
begin

text \<open>
  The part of \<open>unicode/utf8\<close> that \<open>range\<close> over a string and the length of a text in runes need: a byte
  that does not begin a well-formed sequence counts as a rune of its own.
\<close>

text \<open>The number of bytes of the first rune of a non-empty text, as \<open>utf8.DecodeRuneInString\<close> consumes them.\<close>

definition cont_byte :: "nat \<Rightarrow> nat \<Rightarrow> nat list \<Rightarrow> nat \<Rightarrow> bool" where
  "cont_byte lo hi s i \<longleftrightarrow> i < length s \<and> lo \<le> s ! i \<and> s ! i \<le> hi"

definition rune_size :: "nat list \<Rightarrow> nat" where
  "rune_size s =
     (let b = s ! 0
      in if 0xC2 \<le> b \<and> b \<le> 0xDF then (if cont_byte 0x80 0xBF s 1 then 2 else 1)
         else if 0xE0 \<le> b \<and> b \<le> 0xEF then
           (let lo = (if b = 0xE0 then 0xA0 else 0x80); hi = (if b = 0xED then 0x9F else 0xBF)
            in if cont_byte lo hi s 1 \<and> cont_byte 0x80 0xBF s 2 then 3 else 1)
         else if 0xF0 \<le> b \<and> b \<le> 0xF4 then
           (let lo = (if b = 0xF0 then 0x90 else 0x80); hi = (if b = 0xF4 then 0x8F else 0xBF)
            in if cont_byte lo hi s 1 \<and> cont_byte 0x80 0xBF s 2 \<and> cont_byte 0x80 0xBF s 3 then 4 else 1)
         else 1)"

lemma rune_size_pos: "0 < rune_size s"
  by (simp add: rune_size_def Let_def)

function rune_count :: "nat list \<Rightarrow> nat" where
  "rune_count s = (if s = [] then 0 else 1 + rune_count (drop (rune_size s) s))"
  by pat_completeness auto

termination
  by (relation "measure length") (simp_all add: rune_size_pos)

declare rune_count.simps [simp del]

definition RuneCountInString :: "string \<Rightarrow> nat" where
  "RuneCountInString s = rune_count (map ord s)"

text \<open>Whether a text has no ill-formed sequence.\<close>

function valid_utf8 :: "nat list \<Rightarrow> bool" where
  "valid_utf8 s = (if s = [] then True else if s ! 0 < 0x80 \<or> 1 < rune_size s then valid_utf8 (drop (rune_size s) s) else False)"
  by pat_completeness auto

termination
proof (relation "measure length")
  fix s :: "nat list"
  assume "s \<noteq> []" "s ! 0 < 0x80 \<or> 1 < rune_size s"
  then show "(drop (rune_size s) s, s) \<in> measure length" using rune_size_pos [of s] by (cases s) auto
qed simp

declare valid_utf8.simps [simp del]

end
