(* ===== verification/Common_Pretty.thy ===== *)
theory Common_Pretty
  imports Go_Utf8 Complex_Main
begin

text \<open>
  The texts of \<open>src/common/size.go\<close>, \<open>src/common/format.go\<close>, \<open>src/common/debug.go\<close>, \<open>src/common/path.go\<close> and
  \<open>src/common/test_utils.go\<close>. A \<open>float64\<close> that is a size is its exact value, a rational number; a
  \<open>time.Duration\<close> is its number of nanoseconds.
\<close>

section \<open>Sizes\<close>

text \<open>\<open>%.2f\<close>: the exact value is rounded to hundredths, ties to even.\<close>

definition round_even :: "rat \<Rightarrow> int" where
  "round_even q =
     (let f = \<lfloor>q\<rfloor>; d = q - of_int f
      in if d < 1 / 2 then f else if 1 / 2 < d then f + 1 else if even f then f else f + 1)"

definition fixed2 :: "rat \<Rightarrow> string" where
  "fixed2 q =
     (let n = nat (round_even (100 * \<bar>q\<bar>))
      in (if q < 0 then ''-'' else []) @ dec_digits (n div 100) @ ''.'' @ dec_digits (n div 10 mod 10) @ dec_digits (n mod 10))"

definition StorageSize_unit :: "rat \<Rightarrow> rat \<times> string" where
  "StorageSize_unit s =
     (if 1099511627776 < s then (1099511627776, ''TiB'') else if 1073741824 < s then (1073741824, ''GiB'')
      else if 1048576 < s then (1048576, ''MiB'') else if 1024 < s then (1024, ''KiB'') else (1, ''B''))"

definition StorageSize_String :: "rat \<Rightarrow> string" where
  "StorageSize_String s = (let (u, name) = StorageSize_unit s in fixed2 (s / u) @ '' '' @ name)"

definition StorageSize_TerminalString :: "rat \<Rightarrow> string" where
  "StorageSize_TerminalString s = (let (u, name) = StorageSize_unit s in fixed2 (s / u) @ name)"

lemma StorageSize_examples:
  "StorageSize_String 2381273 = ''2.27 MiB''" "StorageSize_String 2192 = ''2.14 KiB''" "StorageSize_String 12 = ''12.00 B''"
  by code_simp+

section \<open>Durations\<close>

text \<open>\<open>time.Duration.String\<close>: the digits after the point, without trailing zeros, and the whole text.\<close>

fun padded :: "nat \<Rightarrow> nat \<Rightarrow> string" where
  "padded 0 v = []"
| "padded (Suc n) v = padded n (v div 10) @ [hexdigit (v mod 10)]"

definition frac_text :: "nat \<Rightarrow> nat \<Rightarrow> string" where
  "frac_text v prec =
     (let ds = rev (dropWhile (\<lambda>c. c = CHR ''0'') (rev (padded prec v))) in if ds = [] then [] else CHR ''.'' # ds)"

text \<open>The parts of the text before the fraction, the fraction and the unit.\<close>

definition duration_parts :: "nat \<Rightarrow> string \<times> string \<times> string" where
  "duration_parts u =
     (if u < 1000 then (dec_digits u, [], ''ns'')
      else if u < 1000000 then (dec_digits (u div 1000), frac_text u 3, [CHR 0xC2, CHR 0xB5, CHR ''s''])
      else if u < 1000000000 then (dec_digits (u div 1000000), frac_text u 6, ''ms'')
      else (let secs = u div 1000000000; mins = secs div 60; hours = mins div 60;
                h = (if 0 < hours then dec_digits hours @ ''h'' else []);
                m = (if 0 < mins then dec_digits (mins mod 60) @ ''m'' else [])
            in (h @ m @ dec_digits (secs mod 60), frac_text u 9, ''s'')))"

definition Duration_String :: "int \<Rightarrow> string" where
  "Duration_String d =
     (if d = 0 then ''0s''
      else (let (a, f, b) = duration_parts (nat \<bar>d\<bar>) in (if d < 0 then ''-'' else []) @ a @ f @ b))"

definition is_dec_digit :: "char \<Rightarrow> bool" where
  "is_dec_digit c \<longleftrightarrow> 48 \<le> ord c \<and> ord c \<le> 57"

text \<open>The leftmost match of the regular expression: a point and four digits or more; the empty text without one.\<close>

fun pretty_match :: "string \<Rightarrow> string" where
  "pretty_match [] = []"
| "pretty_match (c # s) =
     (if c = CHR ''.'' \<and> 4 \<le> length (takeWhile is_dec_digit s) then CHR ''.'' # takeWhile is_dec_digit s else pretty_match s)"

text \<open>\<open>strings.Replace(s, old, new, 1)\<close> for a non-empty \<open>old\<close>.\<close>

fun replace_first :: "string \<Rightarrow> string \<Rightarrow> string \<Rightarrow> string" where
  "replace_first [] old new = []"
| "replace_first (c # s) old new =
     (if has_prefix (c # s) old then new @ drop (length old) (c # s) else c # replace_first s old new)"

definition PrettyDuration_String :: "int \<Rightarrow> string" where
  "PrettyDuration_String d =
     (let label = Duration_String d; m = pretty_match label
      in if 4 < length m then replace_first label m (take 4 m) else label)"

section \<open>Ages\<close>

definition second :: int where "second = 1000000000"
definition hour :: int where "hour = 3600 * second"

definition ageUnits :: "(int \<times> string) list" where
  "ageUnits =
     [(12 * 30 * 24 * hour, ''y''), (30 * 24 * hour, ''mo''), (7 * 24 * hour, ''w''), (24 * hour, ''d''),
      (hour, ''h''), (60 * second, ''m''), (second, ''s'')]"

fun age_loop :: "(int \<times> string) list \<Rightarrow> int \<Rightarrow> string \<Rightarrow> nat \<Rightarrow> string" where
  "age_loop [] diff res prec = res"
| "age_loop ((sz, nm) # units) diff res prec =
     (if sz < diff
      then (let res = res @ itoa (diff div sz) @ nm; diff = diff mod sz; prec = prec + 1
            in if 3 \<le> prec then res else age_loop units diff res prec)
      else age_loop units diff res prec)"

text \<open>\<open>diff\<close> is \<open>time.Since\<close> of the time.\<close>

definition PrettyAge_String :: "int \<Rightarrow> string" where
  "PrettyAge_String diff = (if diff < second then ''0'' else age_loop ageUnits diff [] 0)"

section \<open>Other texts\<close>

definition MakeName :: "string \<Rightarrow> string \<Rightarrow> string \<Rightarrow> string \<Rightarrow> string" where
  "MakeName goos goversion name version = name @ ''/v'' @ version @ ''/'' @ goos @ ''/'' @ goversion"

definition PrintDeprecationWarning :: "string \<Rightarrow> string" where
  "PrintDeprecationWarning str =
     (let line = replicate (length str + 4) CHR ''#''; emptyLine = replicate (length str) CHR '' '';
          box = (\<lambda>s. ''# '' @ s @ '' #'')
      in [CHR 0x0A] @ concat (map (\<lambda>s. s @ [CHR 0x0A]) [line, box emptyLine, box str, box emptyLine, line]) @ [CHR 0x0A])"

text \<open>The loop over the runes of the data, from the byte with index \<open>i\<close> on.\<close>

function find_line_loop :: "nat list \<Rightarrow> nat \<Rightarrow> int \<Rightarrow> nat \<Rightarrow> nat" where
  "find_line_loop data i offset line =
     (if data = [] then line
      else if offset \<le> int i then line
      else find_line_loop (drop (rune_size data) data) (i + rune_size data) offset (if data ! 0 = 10 then line + 1 else line))"
  by pat_completeness auto

termination
  by (relation "measure (\<lambda>(data, _). length data)") (simp_all add: rune_size_pos)

declare find_line_loop.simps [simp del]

definition findLine :: "string \<Rightarrow> int \<Rightarrow> nat" where
  "findLine data offset = find_line_loop (map ord data) 0 offset 1"

datatype json_err = SyntaxError int string | OtherJsonError string

text \<open>\<open>readFile\<close> and \<open>unmarshal\<close> are \<open>os.ReadFile\<close> and \<open>json.Unmarshal\<close>, with the text of their errors.\<close>

definition LoadJSON :: "(string \<Rightarrow> string + string) \<Rightarrow> (string \<Rightarrow> json_err + 'v) \<Rightarrow> string \<Rightarrow> string + 'v" where
  "LoadJSON readFile unmarshal file =
     (case readFile file of
        Inl err \<Rightarrow> Inl err
      | Inr content \<Rightarrow>
          (case unmarshal content of
             Inr v \<Rightarrow> Inr v
           | Inl (SyntaxError offset msg) \<Rightarrow>
               Inl (''JSON syntax error at '' @ file @ '':'' @ dec_digits (findLine content offset) @ '': '' @ msg)
           | Inl (OtherJsonError msg) \<Rightarrow> Inl (''JSON unmarshal error in '' @ file @ '': '' @ msg)))"

section \<open>Constants\<close>

text \<open>\<open>src/common/big.go\<close>.\<close>

definition Big0 :: int where "Big0 = 0"
definition Big1 :: int where "Big1 = 1"
definition Big2 :: int where "Big2 = 2"
definition Big3 :: int where "Big3 = 3"
definition Big32 :: int where "Big32 = 32"
definition Big256 :: int where "Big256 = 256"
definition Big257 :: int where "Big257 = 257"

section \<open>What the texts say\<close>

text \<open>The components of an age: the number and the unit, and the rest.\<close>

definition age_text :: "(int \<times> int \<times> string) list \<Rightarrow> string" where
  "age_text cs = concat (map (\<lambda>(n, sz, nm). itoa n @ nm) cs)"

definition age_value :: "(int \<times> int \<times> string) list \<Rightarrow> int" where
  "age_value cs = sum_list (map (\<lambda>(n, sz, nm). n * sz) cs)"

lemma age_loop_spec:
  assumes "\<forall>u\<in>set units. 0 < fst u" "0 \<le> diff" "prec < 3"
  shows "\<exists>cs. age_loop units diff res prec = res @ age_text cs \<and> prec + length cs \<le> 3 \<and>
           (\<forall>(n, u)\<in>set cs. 0 < n \<and> u \<in> set units) \<and> age_value cs \<le> diff \<and>
           (prec + length cs < 3 \<longrightarrow> units \<noteq> [] \<longrightarrow> diff - age_value cs \<le> fst (last units)) \<and>
           (prec + length cs = 3 \<longrightarrow> cs \<noteq> [] \<and> diff - age_value cs < fst (snd (last cs)))"
  using assms
proof (induction units arbitrary: diff res prec)
  case Nil
  then show ?case by (intro exI [of _ "[]"]) (simp add: age_text_def age_value_def)
next
  case (Cons u units)
  obtain sz nm where u: "u = (sz, nm)" by (cases u)
  have sz: "0 < sz" using Cons.prems(1) u by simp
  show ?case
  proof (cases "sz < diff")
    case False
    obtain cs where cs: "age_loop units diff res prec = res @ age_text cs" "prec + length cs \<le> 3"
      "\<forall>(n, u)\<in>set cs. 0 < n \<and> u \<in> set units" "age_value cs \<le> diff"
      "prec + length cs < 3 \<longrightarrow> units \<noteq> [] \<longrightarrow> diff - age_value cs \<le> fst (last units)"
      "prec + length cs = 3 \<longrightarrow> cs \<noteq> [] \<and> diff - age_value cs < fst (snd (last cs))"
      using Cons.IH [of diff prec res] Cons.prems by auto
    have "diff - age_value cs \<le> fst (last (u # units))" if "prec + length cs < 3"
    proof (cases units)
      case Nil
      then have "cs = []" using cs(3) by (cases cs) auto
      then show ?thesis using Nil False u by (simp add: age_value_def)
    next
      case (Cons v vs)
      then show ?thesis using cs(5) that by simp
    qed
    then show ?thesis using cs False u by (intro exI [of _ cs]) auto
  next
    case True
    let ?n = "diff div sz"
    have n: "0 < ?n" using True sz by (simp add: pos_imp_zdiv_pos_iff)
    have d: "diff = ?n * sz + diff mod sz" "0 \<le> diff mod sz" "diff mod sz < sz" using sz by simp_all
    show ?thesis
    proof (cases "prec = 2")
      case p: True
      then have "age_loop (u # units) diff res prec = res @ age_text [(?n, u)]" using True u by (simp add: age_text_def Let_def)
      moreover have "age_value [(?n, u)] = ?n * sz" by (simp add: age_value_def u)
      moreover have "?n * sz \<le> diff" "diff - ?n * sz < sz" using d by linarith+
      ultimately show ?thesis using n p u by (intro exI [of _ "[(?n, u)]"]) simp
    next
      case p: False
      then have "prec + 1 < 3" using Cons.prems(3) by simp
      then obtain cs where cs: "age_loop units (diff mod sz) (res @ itoa ?n @ nm) (prec + 1) = (res @ itoa ?n @ nm) @ age_text cs"
        "prec + 1 + length cs \<le> 3" "\<forall>(n, u)\<in>set cs. 0 < n \<and> u \<in> set units" "age_value cs \<le> diff mod sz"
        "prec + 1 + length cs < 3 \<longrightarrow> units \<noteq> [] \<longrightarrow> diff mod sz - age_value cs \<le> fst (last units)"
        "prec + 1 + length cs = 3 \<longrightarrow> cs \<noteq> [] \<and> diff mod sz - age_value cs < fst (snd (last cs))"
        using Cons.IH [of "diff mod sz" "prec + 1" "res @ itoa ?n @ nm"] Cons.prems(1) d(2) by auto
      have v: "age_value ((?n, u) # cs) = ?n * sz + age_value cs" by (simp add: age_value_def u)
      have e: "diff - age_value ((?n, u) # cs) = diff mod sz - age_value cs" using v d by linarith
      have "age_loop (u # units) diff res prec = res @ age_text ((?n, u) # cs)"
        using True u cs(1) p Cons.prems(3) by (simp add: Let_def age_text_def)
      moreover have "diff - age_value ((?n, u) # cs) \<le> fst (last (u # units))" if "prec + length ((?n, u) # cs) < 3"
      proof (cases units)
        case Nil
        then have "cs = []" using cs(3) by (cases cs) auto
        then have "diff - age_value ((?n, u) # cs) = diff - ?n * sz" using v by (simp add: age_value_def)
        moreover have "diff - ?n * sz \<le> sz" using d by linarith
        ultimately show ?thesis using Nil u by simp
      next
        case (Cons w ws)
        then show ?thesis unfolding e using cs(5) that by simp
      qed
      moreover have "diff - age_value ((?n, u) # cs) < fst (snd (last ((?n, u) # cs)))" if "prec + length ((?n, u) # cs) = 3"
        unfolding e using cs(6) that by simp
      moreover have "age_value ((?n, u) # cs) \<le> diff" using v d cs(4) by linarith
      moreover have "\<forall>(k, w)\<in>set ((?n, u) # cs). 0 < k \<and> w \<in> set (u # units)" using cs(3) n by auto
      ultimately show ?thesis using cs(2) by (intro exI [of _ "(?n, u) # cs"]) simp
    qed
  qed
qed

text \<open>
  C37. An age of a second or more is at most three numbers with units whose sum is at most the age. When there are fewer than three, what is
  left out is at most a second; with three it is less than the last unit. The second itself can be left out: the age
  of exactly a second has the empty text. The comments of \<open>PrettyAge\<close> say that the age is rounded to one most
  significant unit.
\<close>

theorem PrettyAge_components:
  assumes "second \<le> diff"
  shows "\<exists>cs. PrettyAge_String diff = age_text cs \<and> length cs \<le> 3 \<and> (\<forall>(n, u)\<in>set cs. 0 < n \<and> u \<in> set ageUnits) \<and>
           age_value cs \<le> diff \<and> (length cs < 3 \<longrightarrow> diff - age_value cs \<le> second) \<and>
           (length cs = 3 \<longrightarrow> diff - age_value cs < fst (snd (last cs)))"
proof -
  have u: "\<forall>u\<in>set ageUnits. 0 < fst u" "ageUnits \<noteq> []" "fst (last ageUnits) = second"
    by (simp_all add: ageUnits_def second_def hour_def)
  have "0 \<le> diff" using assms by (simp add: second_def)
  then show ?thesis using age_loop_spec [OF u(1), of diff 0 "[]"] u(2,3) assms by (fastforce simp: PrettyAge_String_def)
qed

theorem PrettyAge_components_witness:
  "\<exists>cs. PrettyAge_String (3 * hour + 25 * second) = age_text cs \<and> length cs \<le> 3 \<and>
      (\<forall>(n, u)\<in>set cs. 0 < n \<and> u \<in> set ageUnits) \<and> age_value cs \<le> 3 * hour + 25 * second \<and>
      (length cs < 3 \<longrightarrow> (3 * hour + 25 * second) - age_value cs \<le> second) \<and>
      (length cs = 3 \<longrightarrow> (3 * hour + 25 * second) - age_value cs < fst (snd (last cs)))"
  by (rule PrettyAge_components) (simp add: second_def hour_def)

lemma PrettyAge_examples:
  "PrettyAge_String second = []" "PrettyAge_String hour = ''60m''" "PrettyAge_String (3 * hour + 25 * second) = ''3h25s''"
  by code_simp+

text \<open>The line of an offset counts the line feeds before it: none is inside a rune.\<close>

lemma rune_tail: "0 < k \<Longrightarrow> k < rune_size s \<Longrightarrow> k < length s \<and> s ! k \<noteq> 10"
proof -
  assume k: "0 < k" "k < rune_size s"
  then have "k = 1 \<or> k = 2 \<or> k = 3" by (auto simp: rune_size_def Let_def split: if_splits)
  then show ?thesis
  proof (elim disjE)
    assume "k = 1"
    then show ?thesis using k(2) by (auto simp: rune_size_def cont_byte_def Let_def split: if_splits)
  next
    assume "k = 2"
    then show ?thesis using k(2) by (auto simp: rune_size_def cont_byte_def Let_def split: if_splits)
  next
    assume "k = 3"
    then show ?thesis using k(2) by (auto simp: rune_size_def cont_byte_def Let_def split: if_splits)
  qed
qed

lemma rune_newlines:
  assumes "s \<noteq> []" "0 < m"
  shows "length (filter (\<lambda>b. b = 10) (take m s)) =
     (if s ! 0 = 10 then 1 else 0) + length (filter (\<lambda>b. b = 10) (take (m - rune_size s) (drop (rune_size s) s)))"
proof -
  obtain b t where s: "s = b # t" using assms(1) by (cases s) auto
  obtain n where n: "rune_size s = Suc n" using rune_size_pos [of s] by (cases "rune_size s") auto
  obtain m' where m: "m = Suc m'" using assms(2) by (cases m) auto
  have "filter (\<lambda>b. b = 10) (take n (take m' t)) = []"
  proof -
    have "t ! k \<noteq> 10" if "k < n" "k < length t" for k using rune_tail [of "Suc k" s] that n s by simp
    then show ?thesis by (auto simp: filter_empty_conv in_set_conv_nth)
  qed
  then have "filter (\<lambda>b. b = 10) (take m' t) = filter (\<lambda>b. b = 10) (drop n (take m' t))"
    by (metis append_Nil append_take_drop_id filter_append)
  then show ?thesis using s n m by (simp add: drop_take)
qed

lemma find_line_loop_spec:
  "find_line_loop data i offset line = line + length (filter (\<lambda>b. b = 10) (take (nat (offset - int i)) data))"
proof (induction data i offset line rule: find_line_loop.induct)
  case (1 data i offset line)
  show ?case
  proof (cases "data = [] \<or> offset \<le> int i")
    case True
    then show ?thesis by (auto simp: find_line_loop.simps [of data])
  next
    case False
    let ?n = "rune_size data"
    have m: "0 < nat (offset - int i)" "nat (offset - int (i + ?n)) = nat (offset - int i) - ?n" using False by auto
    have "find_line_loop data i offset line =
        find_line_loop (drop ?n data) (i + ?n) offset (if data ! 0 = 10 then line + 1 else line)"
      using False by (simp add: find_line_loop.simps [of data])
    then show ?thesis using 1 False rune_newlines [OF _ m(1), of data] m(2) by simp
  qed
qed

lemma findLine_spec: "findLine data offset = 1 + length (filter (\<lambda>c. c = CHR 0x0A) (take (nat offset) data))"
proof -
  have "ord c = 10 \<longleftrightarrow> c = CHR 0x0A" for c using ord_inject [of c "CHR 0x0A"] by simp
  then show ?thesis by (simp add: findLine_def find_line_loop_spec take_map filter_map comp_def)
qed

section \<open>The digits of a duration\<close>

lemma hexdigit_dec: "d < 10 \<Longrightarrow> is_dec_digit (hexdigit d)"
  using ord_hexdigit [of d] by (simp add: is_dec_digit_def)

lemma dec_digits_dec: "c \<in> set (dec_digits n) \<Longrightarrow> is_dec_digit c"
  using hexdigit_dec be_digits_less [of _ 10 n] by (auto simp: dec_digits_def is_dec_digit_def split: if_splits)

lemma padded_dec: "c \<in> set (padded n v) \<Longrightarrow> is_dec_digit c"
  by (induction n v rule: padded.induct) (auto simp: hexdigit_dec)

text \<open>A fraction is empty or a point and digits.\<close>

lemma frac_text_form: "frac_text v n = [] \<or> (\<exists>ds. frac_text v n = CHR ''.'' # ds \<and> (\<forall>c\<in>set ds. is_dec_digit c))"
proof -
  have "is_dec_digit c" if "c \<in> set (rev (dropWhile (\<lambda>c. c = CHR ''0'') (rev (padded n v))))" for c
    using that padded_dec [of c n v] set_dropWhileD by fastforce
  then show ?thesis by (auto simp: frac_text_def Let_def)
qed

lemma no_point: "is_dec_digit c \<Longrightarrow> c \<noteq> CHR ''.''"
  by (auto simp: is_dec_digit_def)

lemma duration_parts_form:
  assumes "duration_parts u = (a, f, b)"
  shows "CHR ''.'' \<notin> set a \<and> CHR ''.'' \<notin> set b \<and> takeWhile is_dec_digit b = [] \<and>
     (f = [] \<or> (\<exists>ds. f = CHR ''.'' # ds \<and> (\<forall>c\<in>set ds. is_dec_digit c)))"
proof -
  have d: "CHR ''.'' \<notin> set (dec_digits n)" for n using dec_digits_dec no_point by blast
  have b: "b = ''ns'' \<or> b = [CHR 0xC2, CHR 0xB5, CHR ''s''] \<or> b = ''ms'' \<or> b = ''s''" and "CHR ''.'' \<notin> set a"
    and "f = [] \<or> (\<exists>v n. f = frac_text v n)"
    using assms d by (auto simp: duration_parts_def Let_def split: if_splits)
  moreover have "CHR ''.'' \<notin> set b \<and> takeWhile is_dec_digit b = []" using b by (auto simp: is_dec_digit_def)
  ultimately show ?thesis using frac_text_form by metis
qed

lemma pretty_match_skip: "CHR ''.'' \<notin> set a \<Longrightarrow> pretty_match (a @ s) = pretty_match s"
  by (induction a) auto

lemma pretty_match_none: "CHR ''.'' \<notin> set a \<Longrightarrow> pretty_match a = []"
  using pretty_match_skip [of a "[]"] by simp

lemma replace_first_skip:
  "CHR ''.'' \<notin> set a \<Longrightarrow> replace_first (a @ (CHR ''.'' # ds) @ s) (CHR ''.'' # ds) new = a @ new @ s"
proof (induction a)
  case Nil
  then show ?case by (simp add: has_prefix_def)
next
  case (Cons c a)
  then have "\<not> has_prefix ((c # a) @ (CHR ''.'' # ds) @ s) (CHR ''.'' # ds)" by (auto simp: has_prefix_def)
  then show ?case using Cons by simp
qed

text \<open>
  The text of a duration keeps the first three digits of the fraction and drops the others; the value is cut, not
  rounded as the comment says.
\<close>

theorem PrettyDuration_truncates:
  "PrettyDuration_String d =
     (if d = 0 then ''0s''
      else (let (a, f, b) = duration_parts (nat \<bar>d\<bar>) in (if d < 0 then ''-'' else []) @ a @ take 4 f @ b))"
proof (cases "d = 0")
  case True
  then show ?thesis by (simp add: PrettyDuration_String_def Duration_String_def Let_def)
next
  case False
  obtain a f b where p: "duration_parts (nat \<bar>d\<bar>) = (a, f, b)" by (metis surj_pair)
  note form = duration_parts_form [OF p]
  let ?a = "(if d < 0 then ''-'' else []) @ a"
  have a: "CHR ''.'' \<notin> set ?a" using form by auto
  have l: "Duration_String d = ?a @ f @ b" using False p by (simp add: Duration_String_def)
  consider "f = []" | ds where "f = CHR ''.'' # ds" "\<forall>c\<in>set ds. is_dec_digit c" using form by blast
  then have "PrettyDuration_String d = ?a @ take 4 f @ b"
  proof cases
    case 1
    then have "pretty_match (?a @ f @ b) = []" using pretty_match_skip [OF a] pretty_match_none form by simp
    then show ?thesis using 1 l by (simp add: PrettyDuration_String_def Let_def)
  next
    case 2
    have tw: "takeWhile is_dec_digit (ds @ b) = ds" using 2(2) form by (simp add: takeWhile_append2)
    have n: "CHR ''.'' \<notin> set (ds @ b)" using 2(2) form no_point by auto
    have m: "pretty_match (?a @ f @ b) = (if 4 \<le> length ds then f else [])"
      using pretty_match_skip [OF a, of "f @ b"] 2(1) tw pretty_match_none [OF n] by simp
    show ?thesis
    proof (cases "4 \<le> length ds")
      case True
      then have "PrettyDuration_String d = replace_first (?a @ f @ b) f (take 4 f)"
        using l m 2(1) by (simp add: PrettyDuration_String_def Let_def)
      then show ?thesis using replace_first_skip [OF a, of ds b "take 4 f"] 2(1) by simp
    next
      case False
      then have "take 4 f = f" using 2(1) by simp
      then show ?thesis using l m False by (simp add: PrettyDuration_String_def Let_def)
    qed
  qed
  then show ?thesis using False p by simp
qed

end
