(* ===== verification/Common_Path.thy ===== *)
theory Common_Path
  imports Go_Std
begin

text \<open>
  \<open>FileExist\<close> and \<open>AbsolutePath\<close> of \<open>src/common/path.go\<close> and \<open>Report\<close> of \<open>src/common/debug.go\<close>, with what they use
  of \<open>path/filepath\<close> on Unix. The file system, the caller and the stack are arguments.
\<close>

section \<open>Files\<close>

text \<open>The errors of \<open>os.Stat\<close>: that there is no such file, and any other.\<close>

datatype 'e stat_error = NotExist | StatError 'e

definition IsNotExist :: "'e stat_error \<Rightarrow> bool" where
  "IsNotExist err = (case err of NotExist \<Rightarrow> True | StatError _ \<Rightarrow> False)"

definition FileExist :: "(string \<Rightarrow> 'e stat_error option) \<Rightarrow> string \<Rightarrow> bool" where
  "FileExist stat filePath =
     (case stat filePath of
        Some err \<Rightarrow> if IsNotExist err then False else True
      | None \<Rightarrow> True)"

section \<open>Paths\<close>

definition filepath_IsAbs :: "string \<Rightarrow> bool" where
  "filepath_IsAbs p = has_prefix p ''/''"

text \<open>
  \<open>filepath.Clean\<close>, on the parts between slashes: empty parts and \<open>.\<close> go, and \<open>..\<close> removes the part
  before it, if there is one, and goes at the root. \<open>stack\<close> is what is kept so far, the last part first.
\<close>

fun clean_parts :: "bool \<Rightarrow> string list \<Rightarrow> string list \<Rightarrow> string list" where
  "clean_parts rooted stack [] = rev stack"
| "clean_parts rooted stack (p # ps) =
     (if p = '''' \<or> p = ''.'' then clean_parts rooted stack ps
      else if p = ''..'' then
        (case stack of
           q # stack' \<Rightarrow> if q \<noteq> ''..'' then clean_parts rooted stack' ps else clean_parts rooted (p # stack) ps
         | [] \<Rightarrow> if rooted then clean_parts rooted [] ps else clean_parts rooted [p] ps)
      else clean_parts rooted (p # stack) ps)"

fun join_slash :: "string list \<Rightarrow> string" where
  "join_slash [] = ''''"
| "join_slash [p] = p"
| "join_slash (p # ps) = p @ ''/'' @ join_slash ps"

definition filepath_Clean :: "string \<Rightarrow> string" where
  "filepath_Clean p =
     (let rooted = filepath_IsAbs p;
          ps = clean_parts rooted [] (split_on CHR ''/'' p)
      in if rooted then ''/'' @ join_slash ps else if ps = [] then ''.'' else join_slash ps)"

definition filepath_Join :: "string \<Rightarrow> string \<Rightarrow> string" where
  "filepath_Join a b =
     (if a \<noteq> '''' then filepath_Clean (a @ ''/'' @ b) else if b \<noteq> '''' then filepath_Clean b else '''')"

definition AbsolutePath :: "string \<Rightarrow> string \<Rightarrow> string" where
  "AbsolutePath datadir filename =
     (if filepath_IsAbs filename then filename else filepath_Join datadir filename)"

section \<open>Reports\<close>

text \<open>What is written to the standard error; \<open>extra\<close> is the text of the operands.\<close>

definition Report :: "string \<Rightarrow> nat \<Rightarrow> string \<Rightarrow> string \<Rightarrow> string" where
  "Report file line stack extra =
     ''You'' @ [CHR 0x27] @ ''ve encountered a sought after, hard to reproduce bug. Please report this to the developers'' @ [CHR 0x0A] @
     extra @ [CHR 0x0A] @
     file @ '':'' @ itoa (int line) @ [CHR 0x0A] @
     stack @
     ''#### BUG! PLEASE REPORT ####'' @ [CHR 0x0A]"

section \<open>Properties\<close>

text \<open>
  The parts that \<open>Clean\<close> keeps, the last one first: \<open>..\<close> only at the beginning of a relative path.
\<close>

fun clean_rev :: "bool \<Rightarrow> string list \<Rightarrow> bool" where
  "clean_rev rooted [] = True"
| "clean_rev rooted (p # ps) =
     (clean_rev rooted ps \<and> p \<noteq> '''' \<and> p \<noteq> ''.'' \<and> (p = ''..'' \<longrightarrow> \<not> rooted \<and> (\<forall>q\<in>set ps. q = ''..'')))"

lemma clean_rev_appendD: "clean_rev rooted (xs @ ys) \<Longrightarrow> clean_rev rooted ys"
  by (induction xs) auto

lemma clean_parts_clean: "clean_rev rooted stack \<Longrightarrow> clean_rev rooted (rev (clean_parts rooted stack ps))"
proof (induction ps arbitrary: stack)
  case (Cons p ps)
  show ?case
  proof (cases "p = ''..''")
    case True
    then show ?thesis
      using Cons.prems Cons.IH [of stack] Cons.IH [of "tl stack"] Cons.IH [of "p # stack"] by (cases stack; cases rooted) simp_all
  next
    case False
    then show ?thesis
      using Cons.prems Cons.IH [of stack] Cons.IH [of "p # stack"] by simp
  qed
qed simp

lemma clean_rev_nonempty: "clean_rev rooted ps \<Longrightarrow> q \<in> set ps \<Longrightarrow> q \<noteq> []"
  by (induction ps) auto

text \<open>\<open>Clean\<close> changes nothing in parts that are clean.\<close>

lemma clean_parts_id: "clean_rev rooted (rev ps @ stack) \<Longrightarrow> clean_parts rooted stack ps = rev stack @ ps"
proof (induction ps arbitrary: stack)
  case (Cons p ps)
  have "clean_rev rooted (p # stack)"
    by (rule clean_rev_appendD [of rooted "rev ps"]) (use Cons.prems in simp)
  then have "clean_parts rooted stack (p # ps) = clean_parts rooted (p # stack) ps"
    by (cases stack; cases "p = ''..''") simp_all
  also have "\<dots> = rev (p # stack) @ ps" by (rule Cons.IH) (use Cons.prems in simp)
  finally show ?case by simp
qed simp

text \<open>The text of a list of parts, and its parts again.\<close>

lemma split_on_parts: "q \<in> set (split_on d s) \<Longrightarrow> d \<notin> set q"
proof (induction d s arbitrary: q rule: split_on.induct)
  case (2 d c cs)
  then show ?case by (auto split: if_splits list.splits)
qed simp

lemma clean_parts_subset: "set (clean_parts rooted stack ps) \<subseteq> set stack \<union> set ps"
  by (induction rooted stack ps rule: clean_parts.induct) (auto split: list.splits if_splits)

lemma split_on_append_sep: "d \<notin> set p \<Longrightarrow> split_on d (p @ d # s) = p # split_on d s"
  by (induction p) (auto split: list.splits)

lemma split_join: "ps \<noteq> [] \<Longrightarrow> \<forall>p\<in>set ps. CHR ''/'' \<notin> set p \<Longrightarrow> split_on CHR ''/'' (join_slash ps) = ps"
  by (induction ps rule: join_slash.induct) (simp_all add: split_on_no_sep split_on_append_sep)

lemma IsAbs_iff: "filepath_IsAbs p \<longleftrightarrow> (\<exists>q. p = CHR ''/'' # q)"
  by (cases p) (auto simp: filepath_IsAbs_def has_prefix_def)

lemma clean_empty_part: "clean_parts rooted stack ('''' # ps) = clean_parts rooted stack ps"
  by simp

lemma join_slash_not_abs:
  assumes "ps \<noteq> []" "\<forall>p\<in>set ps. CHR ''/'' \<notin> set p \<and> p \<noteq> ''''"
  shows "\<not> filepath_IsAbs (join_slash ps)"
proof -
  obtain p qs where ps: "ps = p # qs" using assms(1) by (cases ps) auto
  obtain c cs where "p = c # cs" "c \<noteq> CHR ''/''" using assms(2) ps by (cases p) auto
  then show ?thesis by (cases qs) (auto simp: IsAbs_iff ps)
qed

lemma IsAbs_Clean [simp]: "filepath_IsAbs (filepath_Clean p) \<longleftrightarrow> filepath_IsAbs p"
proof (cases "filepath_IsAbs p")
  case True
  then show ?thesis by (simp add: filepath_Clean_def IsAbs_iff)
next
  case False
  let ?ps = "clean_parts False [] (split_on CHR ''/'' p)"
  have "CHR ''/'' \<notin> set q \<and> q \<noteq> ''''" if "q \<in> set ?ps" for q
  proof -
    have "q \<in> set (split_on CHR ''/'' p)" using clean_parts_subset [of False "[]"] that by auto
    moreover have "q \<noteq> ''''"
      using clean_rev_nonempty [OF clean_parts_clean [of False "[]"]] that by (metis clean_rev.simps(1) set_rev)
    ultimately show ?thesis using split_on_parts by blast
  qed
  then have "\<not> filepath_IsAbs (join_slash ?ps)" if "?ps \<noteq> []" using join_slash_not_abs [OF that] by blast
  then show ?thesis using False by (auto simp: filepath_Clean_def Let_def) (simp_all add: filepath_IsAbs_def has_prefix_def)
qed

text \<open>
  The result of \<open>AbsolutePath\<close> is an absolute path only if one of its arguments is, and a name that is
  absolute is returned as it is, also when it leads out of the directory.
\<close>

lemma AbsolutePath_absolute:
  "filepath_IsAbs (AbsolutePath datadir filename) \<longleftrightarrow> filepath_IsAbs filename \<or> filepath_IsAbs datadir"
proof (cases "filepath_IsAbs filename")
  case True
  then show ?thesis by (simp add: AbsolutePath_def)
next
  case False
  show ?thesis
  proof (cases "datadir = []")
    case True
    then show ?thesis using False by (auto simp: AbsolutePath_def filepath_Join_def) (simp_all add: filepath_IsAbs_def has_prefix_def)
  next
    case ne: False
    then have "filepath_IsAbs (datadir @ x) \<longleftrightarrow> filepath_IsAbs datadir" for x by (cases datadir) (auto simp: IsAbs_iff)
    then show ?thesis using False ne by (simp add: AbsolutePath_def filepath_Join_def)
  qed
qed

text \<open>\<open>Clean\<close> twice is \<open>Clean\<close> once.\<close>

lemma filepath_Clean_idem: "filepath_Clean (filepath_Clean p) = filepath_Clean p"
proof -
  let ?abs = "filepath_IsAbs p"
  let ?ps = "clean_parts ?abs [] (split_on CHR ''/'' p)"
  have abs: "filepath_IsAbs (filepath_Clean p) = ?abs" by simp
  have clean: "clean_rev ?abs (rev ?ps)" by (rule clean_parts_clean) simp
  then have id: "clean_parts ?abs [] ?ps = ?ps" using clean_parts_id [of ?abs ?ps "[]"] by simp
  have "\<forall>q\<in>set ?ps. CHR ''/'' \<notin> set q"
    using clean_parts_subset [of ?abs "[]"] split_on_parts by fastforce
  then have sj: "split_on CHR ''/'' (join_slash ?ps) = (if ?ps = [] then [''''] else ?ps)"
    using split_join [of ?ps] by simp
  have "clean_parts ?abs [] (split_on CHR ''/'' (filepath_Clean p)) = ?ps"
  proof (cases ?abs)
    case True
    then have "filepath_Clean p = CHR ''/'' # join_slash ?ps" by (simp add: filepath_Clean_def)
    then show ?thesis using sj id by (auto split: if_splits)
  next
    case False
    then show ?thesis
      using sj id by (cases "?ps = []") (auto simp: filepath_Clean_def Let_def split_on_no_sep)
  qed
  with abs show ?thesis unfolding filepath_Clean_def [of "filepath_Clean p"] by (simp add: filepath_Clean_def [of p])
qed

end
