(* ===== verification/Common_Compiler.thy ===== *)
theory Common_Compiler
  imports Go_Std
begin

text \<open>
  \<open>src/common/compiler\<close>: the contracts in the combined output of \<open>solc\<close>. \<open>json.Unmarshal\<close> into the two output types and into
  an interface value (of the type \<open>'j\<close>) is an argument. The entries of the map of contracts are in the order in which the loop visits them.
\<close>

record 'j contract_info =
  ci_Source :: string
  ci_Language :: string
  ci_LanguageVersion :: string
  ci_CompilerVersion :: string
  ci_CompilerOptions :: string
  ci_SrcMap :: string
  ci_SrcMapRuntime :: string
  ci_AbiDefinition :: 'j
  ci_UserDoc :: 'j
  ci_DeveloperDoc :: 'j
  ci_Metadata :: string

record 'j contract =
  co_Code :: string
  co_RuntimeCode :: string
  co_Info :: "'j contract_info"
  co_Hashes :: "string \<rightharpoonup> string"

text \<open>An entry of \<open>solcOutput\<close>, with texts for the documents, or of \<open>solcOutputV8\<close>, with values.\<close>

record 'd solc_entry =
  se_BinRuntime :: string
  se_SrcMapRuntime :: string
  se_Bin :: string
  se_SrcMap :: string
  se_Abi :: 'd
  se_Devdoc :: 'd
  se_Userdoc :: 'd
  se_Metadata :: string
  se_Hashes :: "string \<rightharpoonup> string"

type_synonym 'd solc_output = "(string \<times> 'd solc_entry) list"

record compile_args =
  ca_source :: string
  ca_languageVersion :: string
  ca_compilerVersion :: string
  ca_compilerOptions :: string

definition make_contract :: "compile_args \<Rightarrow> 'd solc_entry \<Rightarrow> 'j \<Rightarrow> 'j \<Rightarrow> 'j \<Rightarrow> 'j contract" where
  "make_contract args info abi userdoc devdoc =
     \<lparr>co_Code = ''0x'' @ se_Bin info, co_RuntimeCode = ''0x'' @ se_BinRuntime info,
      co_Info =
        \<lparr>ci_Source = ca_source args, ci_Language = ''Solidity'', ci_LanguageVersion = ca_languageVersion args,
         ci_CompilerVersion = ca_compilerVersion args, ci_CompilerOptions = ca_compilerOptions args,
         ci_SrcMap = se_SrcMap info, ci_SrcMapRuntime = se_SrcMapRuntime info, ci_AbiDefinition = abi,
         ci_UserDoc = userdoc, ci_DeveloperDoc = devdoc, ci_Metadata = se_Metadata info\<rparr>,
      co_Hashes = se_Hashes info\<rparr>"

text \<open>The body of the loop of \<open>ParseCombinedJSON\<close>, and the loop.\<close>

definition parse_entry :: "(string \<Rightarrow> string + 'j) \<Rightarrow> compile_args \<Rightarrow> string solc_entry \<Rightarrow> string + 'j contract" where
  "parse_entry unmarshal args info =
     (case unmarshal (se_Abi info) of
        Inl err \<Rightarrow> Inl (''solc: error reading abi definition ('' @ err @ '')'')
      | Inr abi \<Rightarrow>
          (case unmarshal (se_Userdoc info) of
             Inl err \<Rightarrow> Inl (''solc: error reading userdoc definition ('' @ err @ '')'')
           | Inr userdoc \<Rightarrow>
               (case unmarshal (se_Devdoc info) of
                  Inl err \<Rightarrow> Inl (''solc: error reading devdoc definition ('' @ err @ '')'')
                | Inr devdoc \<Rightarrow> Inr (make_contract args info abi userdoc devdoc))))"

fun parse_contracts ::
  "(string \<Rightarrow> string + 'j) \<Rightarrow> compile_args \<Rightarrow> string solc_output \<Rightarrow> (string \<rightharpoonup> 'j contract) \<Rightarrow> string + (string \<rightharpoonup> 'j contract)" where
  "parse_contracts unmarshal args [] contracts = Inr contracts"
| "parse_contracts unmarshal args ((name, info) # cs) contracts =
     (case parse_entry unmarshal args info of
        Inl err \<Rightarrow> Inl err
      | Inr c \<Rightarrow> parse_contracts unmarshal args cs (contracts(name \<mapsto> c)))"

definition ParseCombinedJSONV8 ::
  "('b \<Rightarrow> string + 'j solc_output) \<Rightarrow> compile_args \<Rightarrow> 'b \<Rightarrow> string + (string \<rightharpoonup> 'j contract)" where
  "ParseCombinedJSONV8 unmarshalV8 args combinedJSON =
     (case unmarshalV8 combinedJSON of
        Inl err \<Rightarrow> Inl err
      | Inr out \<Rightarrow>
          Inr (fold (\<lambda>(name, info) contracts.
                 contracts(name \<mapsto> make_contract args info (se_Abi info) (se_Userdoc info) (se_Devdoc info))) out Map.empty))"

definition ParseCombinedJSON ::
  "('b \<Rightarrow> string + string solc_output) \<Rightarrow> ('b \<Rightarrow> string + 'j solc_output) \<Rightarrow> (string \<Rightarrow> string + 'j) \<Rightarrow> compile_args \<Rightarrow> 'b \<Rightarrow>
   string + (string \<rightharpoonup> 'j contract)" where
  "ParseCombinedJSON unmarshalOut unmarshalV8 unmarshal args combinedJSON =
     (case unmarshalOut combinedJSON of
        Inl err \<Rightarrow> ParseCombinedJSONV8 unmarshalV8 args combinedJSON
      | Inr out \<Rightarrow> parse_contracts unmarshal args out Map.empty)"

text \<open>Every contract of the output is in the result, with its own documents, and there are no others.\<close>

lemma parse_contracts_spec:
  "distinct (map fst out) \<Longrightarrow> parse_contracts unmarshal args out contracts = Inr res \<Longrightarrow>
   (\<forall>(name, info)\<in>set out. \<exists>c. parse_entry unmarshal args info = Inr c \<and> res name = Some c) \<and>
   (\<forall>name. name \<notin> fst ` set out \<longrightarrow> res name = contracts name)"
proof (induction out arbitrary: contracts)
  case (Cons p out)
  obtain name info where p: "p = (name, info)" by (cases p)
  obtain c where c: "parse_entry unmarshal args info = Inr c"
    "parse_contracts unmarshal args out (contracts(name \<mapsto> c)) = Inr res"
    using Cons.prems(2) p by (auto split: sum.splits)
  have n: "name \<notin> fst ` set out" using Cons.prems(1) p by simp
  have IH: "(\<forall>(name, info)\<in>set out. \<exists>c. parse_entry unmarshal args info = Inr c \<and> res name = Some c)"
    "\<forall>k. k \<notin> fst ` set out \<longrightarrow> res k = (contracts(name \<mapsto> c)) k"
    using Cons.IH [OF _ c(2)] Cons.prems(1) by simp_all
  have "res name = Some c" using IH(2) n by simp
  then show ?case using IH c(1) p by auto
qed simp

end
