(* ===== verification/Rpc_Types.thy ===== *)
theory Rpc_Types
  imports Common_Types
begin

text \<open>
  The block parameters of \<open>src/rpc/types.go\<close>. A \<open>BlockNumber\<close> is a 64-bit word read with \<open>sint\<close>.
  \<open>BlockNumberOrHash.UnmarshalJSON\<close> starts from the syntax tree of the JSON text, with the raw text of
  every value, and says what \<open>json.Unmarshal\<close> does with it for the two types it is called on; the
  comparison of member names up to case is an argument.
\<close>

section \<open>Block numbers\<close>

type_synonym blockNumber = "64 word"

definition SafeBlockNumber :: blockNumber where "SafeBlockNumber = - 4"
definition FinalizedBlockNumber :: blockNumber where "FinalizedBlockNumber = - 3"
definition PendingBlockNumber :: blockNumber where "PendingBlockNumber = - 2"
definition LatestBlockNumber :: blockNumber where "LatestBlockNumber = - 1"
definition EarliestBlockNumber :: blockNumber where "EarliestBlockNumber = 0"

definition maxInt64 :: uint64 where "maxInt64 = 0x7FFFFFFFFFFFFFFF"

text \<open>The cases of the switches on a text.\<close>

definition block_tag :: "string \<Rightarrow> blockNumber option" where
  "block_tag input =
     (if input = ''earliest'' then Some EarliestBlockNumber
      else if input = ''latest'' then Some LatestBlockNumber
      else if input = ''pending'' then Some PendingBlockNumber
      else if input = ''finalized'' then Some FinalizedBlockNumber
      else if input = ''safe'' then Some SafeBlockNumber else None)"

definition BlockNumber_UnmarshalJSON :: "blockNumber \<Rightarrow> string \<Rightarrow> (blockNumber, hex_error) ret" where
  "BlockNumber_UnmarshalJSON bn data =
     (let input = trim_space data;
          input = (if 2 \<le> length input \<and> input ! 0 = CHR 0x22 \<and> input ! (length input - 1) = CHR 0x22
                   then take (length input - 2) (drop 1 input) else input)
      in case block_tag input of
           Some b \<Rightarrow> (b, None)
         | None \<Rightarrow>
             (case DecodeUint64 input of
                (_, Some err) \<Rightarrow> (bn, Some err)
              | (blckNum, None) \<Rightarrow>
                  if maxInt64 < blckNum then (bn, Some (Errorf ''block number larger than int64''))
                  else (blckNum, None)))"

definition BlockNumber_MarshalText :: "blockNumber \<Rightarrow> string" where
  "BlockNumber_MarshalText bn =
     (if bn = EarliestBlockNumber then ''earliest''
      else if bn = LatestBlockNumber then ''latest''
      else if bn = PendingBlockNumber then ''pending''
      else if bn = FinalizedBlockNumber then ''finalized''
      else if bn = SafeBlockNumber then ''safe''
      else Uint64_MarshalText bn)"

definition BlockNumber_Int64 :: "blockNumber \<Rightarrow> int" where
  "BlockNumber_Int64 bn = sint bn"

section \<open>Block numbers or hashes\<close>

record blockNumberOrHash =
  bnh_number :: "blockNumber option"
  bnh_hash :: "hash option"
  bnh_canonical :: bool

text \<open>A parsed JSON value: its raw text and what it is.\<close>

datatype jvalue = JValue (jv_raw: string) (jv_kind: jkind)
and jkind = JNull | JBool bool | JString string | JNumber | JArray | JObject "(string \<times> jvalue) list"

definition no_block :: blockNumberOrHash where
  "no_block = \<lparr>bnh_number = None, bnh_hash = None, bnh_canonical = False\<rparr>"

text \<open>
  \<open>json.Unmarshal\<close> into a member of the struct: null clears a pointer and leaves the bool alone, other
  values go to the \<open>UnmarshalJSON\<close> of the pointer's type. \<open>None\<close> is an error.
\<close>

definition member_number :: "jvalue \<Rightarrow> blockNumberOrHash \<Rightarrow> blockNumberOrHash option" where
  "member_number v e =
     (if jv_kind v = JNull then Some (e\<lparr>bnh_number := None\<rparr>)
      else (case BlockNumber_UnmarshalJSON 0 (jv_raw v) of
              (n, None) \<Rightarrow> Some (e\<lparr>bnh_number := Some n\<rparr>) | (_, Some err) \<Rightarrow> None))"

definition zero_hash :: hash where
  "zero_hash = replicate 32 0"

definition member_hash :: "jvalue \<Rightarrow> blockNumberOrHash \<Rightarrow> blockNumberOrHash option" where
  "member_hash v e =
     (if jv_kind v = JNull then Some (e\<lparr>bnh_hash := None\<rparr>)
      else (case Hash_UnmarshalJSON zero_hash (jv_raw v) of
              (h, None) \<Rightarrow> Some (e\<lparr>bnh_hash := Some h\<rparr>) | (_, Some err) \<Rightarrow> None))"

definition member_canonical :: "jvalue \<Rightarrow> blockNumberOrHash \<Rightarrow> blockNumberOrHash option" where
  "member_canonical v e =
     (case jv_kind v of JNull \<Rightarrow> Some e | JBool b \<Rightarrow> Some (e\<lparr>bnh_canonical := b\<rparr>) | _ \<Rightarrow> None)"

fun unmarshal_members ::
  "(string \<Rightarrow> string \<Rightarrow> bool) \<Rightarrow> (string \<times> jvalue) list \<Rightarrow> blockNumberOrHash \<Rightarrow> blockNumberOrHash option" where
  "unmarshal_members fold_eq [] e = Some e"
| "unmarshal_members fold_eq ((k, v) # ms) e =
     (case (if fold_eq ''blockNumber'' k then member_number v e
            else if fold_eq ''blockHash'' k then member_hash v e
            else if fold_eq ''requireCanonical'' k then member_canonical v e
            else Some e) of
        None \<Rightarrow> None
      | Some e \<Rightarrow> unmarshal_members fold_eq ms e)"

definition unmarshal_erased :: "(string \<Rightarrow> string \<Rightarrow> bool) \<Rightarrow> jvalue \<Rightarrow> blockNumberOrHash option" where
  "unmarshal_erased fold_eq v =
     (case jv_kind v of
        JNull \<Rightarrow> Some no_block
      | JObject ms \<Rightarrow> unmarshal_members fold_eq ms no_block
      | _ \<Rightarrow> None)"

definition unmarshal_string :: "jvalue \<Rightarrow> string option" where
  "unmarshal_string v = (case jv_kind v of JNull \<Rightarrow> Some [] | JString s \<Rightarrow> Some s | _ \<Rightarrow> None)"

datatype block_error = JsonError | HexError hex_error

text \<open>The receiver after the call and the error; \<open>None\<close> for the text is a syntax error.\<close>

definition bnh_from_string :: "blockNumberOrHash \<Rightarrow> string \<Rightarrow> (blockNumberOrHash, block_error) ret" where
  "bnh_from_string bnh input =
     (case block_tag input of
        Some bn \<Rightarrow> (bnh\<lparr>bnh_number := Some bn\<rparr>, None)
      | None \<Rightarrow>
          if length input = 66 then
            (case Hash_UnmarshalText zero_hash input of
               (_, Some err) \<Rightarrow> (bnh, Some (HexError err))
             | (h, None) \<Rightarrow> (bnh\<lparr>bnh_hash := Some h\<rparr>, None))
          else
            (case DecodeUint64 input of
               (_, Some err) \<Rightarrow> (bnh, Some (HexError err))
             | (blckNum, None) \<Rightarrow>
                 if maxInt64 < blckNum then (bnh, Some (HexError (Errorf ''blocknumber too high'')))
                 else (bnh\<lparr>bnh_number := Some blckNum\<rparr>, None)))"

definition bnh_UnmarshalJSON ::
  "(string \<Rightarrow> string \<Rightarrow> bool) \<Rightarrow> blockNumberOrHash \<Rightarrow> jvalue option \<Rightarrow> (blockNumberOrHash, block_error) ret" where
  "bnh_UnmarshalJSON fold_eq bnh data =
     (case data of
        None \<Rightarrow> (bnh, Some JsonError)
      | Some v \<Rightarrow>
          (case unmarshal_erased fold_eq v of
             Some e \<Rightarrow>
               if bnh_number e \<noteq> None \<and> bnh_hash e \<noteq> None
               then (bnh, Some (HexError (Errorf ''cannot specify both BlockHash and BlockNumber, choose one or the other'')))
               else (e, None)
           | None \<Rightarrow>
               (case unmarshal_string v of
                  None \<Rightarrow> (bnh, Some JsonError)
                | Some input \<Rightarrow> bnh_from_string bnh input)))"

definition bnh_Number :: "blockNumberOrHash \<Rightarrow> blockNumber \<times> bool" where
  "bnh_Number bnh = (case bnh_number bnh of Some n \<Rightarrow> (n, True) | None \<Rightarrow> (0, False))"

definition bnh_Hash :: "blockNumberOrHash \<Rightarrow> hash \<times> bool" where
  "bnh_Hash bnh = (case bnh_hash bnh of Some h \<Rightarrow> (h, True) | None \<Rightarrow> (zero_hash, False))"

definition BlockNumberOrHashWithNumber :: "blockNumber \<Rightarrow> blockNumberOrHash" where
  "BlockNumberOrHashWithNumber n = \<lparr>bnh_number = Some n, bnh_hash = None, bnh_canonical = False\<rparr>"

definition BlockNumberOrHashWithHash :: "hash \<Rightarrow> bool \<Rightarrow> blockNumberOrHash" where
  "BlockNumberOrHashWithHash h canonical = \<lparr>bnh_number = None, bnh_hash = Some h, bnh_canonical = canonical\<rparr>"

section \<open>Texts of block numbers\<close>

lemmas block_number_defs = SafeBlockNumber_def FinalizedBlockNumber_def PendingBlockNumber_def
  LatestBlockNumber_def EarliestBlockNumber_def

lemma block_tag_number: "block_tag s = Some b \<Longrightarrow> - 4 \<le> sint b \<and> sint b \<le> 0"
  by (auto simp: block_tag_def block_number_defs split: if_splits)

lemma block_tag_MarshalText:
  "bn \<in> {- 4, - 3, - 2, - 1, 0} \<Longrightarrow> block_tag (BlockNumber_MarshalText bn) = Some bn"
  by (auto simp: BlockNumber_MarshalText_def block_tag_def block_number_defs)

lemma block_tag_hex: "block_tag (CHR ''0'' # s) = None"
  by (simp add: block_tag_def)

lemma BlockNumber_MarshalText_hex:
  "bn \<notin> {- 4, - 3, - 2, - 1, 0} \<Longrightarrow> BlockNumber_MarshalText bn = EncodeUint64 bn"
  by (simp add: BlockNumber_MarshalText_def block_number_defs Uint64_MarshalText_def EncodeUint64_def)

lemma DecodeUint64_EncodeUint64: "DecodeUint64 (EncodeUint64 v) = (v, None)"
  unfolding DecodeUint64_iff_aux by (simp add: EncodeUint64_def has0xPrefix_def hex_digits_to_lower)

lemma sint_small:
  assumes "bn \<in> {- 4, - 3, - 2, - 1, 0 :: 64 word}"
  shows "- 4 \<le> sint bn \<and> sint bn \<le> 0"
  using assms by auto

lemma maxInt64_less_iff: "maxInt64 < (v :: 64 word) \<longleftrightarrow> sint v < 0"
proof -
  have p: "(2 :: int) ^ 63 = 9223372036854775808" by simp
  have u: "0 \<le> uint v" "uint v < 18446744073709551616" using unsigned_less [of v] by simp_all
  have "sint v < 0 \<longleftrightarrow> bit v 63" using bit_last_iff [of v] by simp
  also have "\<dots> \<longleftrightarrow> bit (uint v) 63" by (simp add: bit_uint_iff)
  also have "\<dots> \<longleftrightarrow> odd (uint v div 9223372036854775808)" 
    by (simp only: bit_iff_odd p)
  also have "\<dots> \<longleftrightarrow> 9223372036854775808 \<le> uint v"
  proof (cases "9223372036854775808 \<le> uint v")
    case True
    have "uint v div 9223372036854775808 = 1"
      by (rule int_div_pos_eq [where r = "uint v - 9223372036854775808"]) (use True u in simp_all)
    then show ?thesis using True by simp
  next
    case False
    then have "uint v div 9223372036854775808 = 0" using u by (intro div_pos_pos_trivial) simp_all
    then show ?thesis using False by simp
  qed
  finally have "sint v < 0 \<longleftrightarrow> 9223372036854775808 \<le> uint v" .
  then show ?thesis by (auto simp: maxInt64_def word_less_def)
qed

lemma trim_space_quoted: "trim_space (CHR 0x22 # s @ [CHR 0x22]) = CHR 0x22 # s @ [CHR 0x22]"
  by (rule trim_space_visible) (simp_all add: visible_def)

lemma UnmarshalJSON_quoted:
  "BlockNumber_UnmarshalJSON bn (CHR 0x22 # s @ [CHR 0x22]) =
     (case block_tag s of
        Some b \<Rightarrow> (b, None)
      | None \<Rightarrow> (case DecodeUint64 s of
          (_, Some err) \<Rightarrow> (bn, Some err)
        | (n, None) \<Rightarrow> if sint n < 0 then (bn, Some (Errorf ''block number larger than int64'')) else (n, None)))"
  by (simp add: BlockNumber_UnmarshalJSON_def trim_space_quoted maxInt64_less_iff nth_append Let_def
        split: option.splits prod.splits)

text \<open>The five tags and the other numbers.\<close>

lemma block_number_cases:
  "(bn \<in> {- 4, - 3, - 2, - 1, 0} \<and> block_tag (BlockNumber_MarshalText bn) = Some bn \<and> - 4 \<le> sint bn) \<or>
   (bn \<notin> {- 4, - 3, - 2, - 1, 0} \<and> block_tag (BlockNumber_MarshalText bn) = None \<and>
    DecodeUint64 (BlockNumber_MarshalText bn) = (bn, None) \<and> (- 4 \<le> sint bn \<longleftrightarrow> 0 \<le> sint bn))"
proof (cases "bn \<in> {- 4, - 3, - 2, - 1, 0}")
  case True
  then show ?thesis using block_tag_MarshalText sint_small by blast
next
  case False
  have "0 \<le> sint bn" if "- 4 \<le> sint bn"
  proof (rule ccontr)
    assume "\<not> 0 \<le> sint bn"
    then have "sint bn \<in> {- 4, - 3, - 2, - 1}" using that by auto
    then have "of_int (sint bn) \<in> {- 4, - 3, - 2, - 1 :: 64 word}"
      by (elim insertE emptyE) (simp_all del: of_int_sint)
    then show False using False by auto
  qed
  then show ?thesis
    using False by (auto simp: BlockNumber_MarshalText_hex DecodeUint64_EncodeUint64) (simp_all add: EncodeUint64_def block_tag_hex)
qed


lemma length_EncodeUint64: "length (EncodeUint64 v) \<le> 18"
proof -
  have "unat v < 16 ^ 16" using unsigned_less [of v] by simp
  then have "length (hex_digits (unat v)) \<le> 16" by (rule length_hex_digits) simp
  then show ?thesis by (simp add: EncodeUint64_def)
qed

lemma bnh_from_number:
  "bnh_from_string bnh (BlockNumber_MarshalText n) =
     (if - 4 \<le> sint n then (bnh\<lparr>bnh_number := Some n\<rparr>, None)
      else (bnh, Some (HexError (Errorf ''blocknumber too high''))))"
  using block_number_cases [of n]
proof (elim disjE conjE)
  assume n: "n \<notin> {- 4, - 3, - 2, - 1, 0}"
    and k: "block_tag (BlockNumber_MarshalText n) = None" "DecodeUint64 (BlockNumber_MarshalText n) = (n, None)"
      "- 4 \<le> sint n \<longleftrightarrow> 0 \<le> sint n"
  have "length (BlockNumber_MarshalText n) \<noteq> 66"
    using length_EncodeUint64 [of n] unfolding BlockNumber_MarshalText_hex [OF n] by linarith
  then show ?thesis using k by (simp add: bnh_from_string_def maxInt64_less_iff)
qed (simp add: bnh_from_string_def)

lemma bnh_from_hash:
  assumes "length h = 32"
  shows "bnh_from_string bnh (Hash_MarshalText h) = (bnh\<lparr>bnh_hash := Some h\<rparr>, None)"
proof -
  have "Hash_UnmarshalText zero_hash (Hash_MarshalText h) = (h, None)"
    by (rule hash_text.unmarshal_marshal) (simp_all add: zero_hash_def assms)
  moreover have "length (Hash_MarshalText h) = 66"
    by (simp add: Hash_MarshalText_def Bytes_MarshalText_def assms)
  moreover have "block_tag (Hash_MarshalText h) = None"
    by (simp add: Hash_MarshalText_def Bytes_MarshalText_def go_copy_def go_copy_at_def block_tag_hex)
  ultimately show ?thesis by (simp add: bnh_from_string_def)
qed

lemma bnh_string:
  "bnh_UnmarshalJSON fold_eq bnh (Some (JValue r (JString s))) = bnh_from_string bnh s"
  by (simp add: bnh_UnmarshalJSON_def unmarshal_erased_def unmarshal_string_def)

lemma bnh_from_string_exclusive:
  "bnh_number bnh = None \<Longrightarrow> bnh_hash bnh = None \<Longrightarrow>
   bnh_number (fst (bnh_from_string bnh s)) = None \<or> bnh_hash (fst (bnh_from_string bnh s)) = None"
  by (simp add: bnh_from_string_def split: option.splits prod.splits)

lemma bnh_UnmarshalJSON_exclusive:
  assumes "bnh_number bnh = None" "bnh_hash bnh = None"
  shows "bnh_number (fst (bnh_UnmarshalJSON fold_eq bnh data)) = None \<or>
    bnh_hash (fst (bnh_UnmarshalJSON fold_eq bnh data)) = None"
  using assms bnh_from_string_exclusive [OF assms]
  by (auto simp: bnh_UnmarshalJSON_def split: option.splits)

section \<open>Round trips\<close>

text \<open>
  A \<open>BlockNumber\<close> that is written as JSON is read back, when it is a tag or not negative; the
  other negative numbers are written as numbers above 2^63, which are refused and leave the receiver as
  it was. Whatever is accepted is a tag or not negative.
\<close>
theorem BlockNumber_roundtrip:
  "BlockNumber_UnmarshalJSON old (CHR 0x22 # BlockNumber_MarshalText bn @ [CHR 0x22]) =
     (if - 4 \<le> BlockNumber_Int64 bn then (bn, None) else (old, Some (Errorf ''block number larger than int64'')))"
  "BlockNumber_UnmarshalJSON old s = (n, None) \<Longrightarrow> - 4 \<le> BlockNumber_Int64 n"
proof -
  show "BlockNumber_UnmarshalJSON old (CHR 0x22 # BlockNumber_MarshalText bn @ [CHR 0x22]) =
     (if - 4 \<le> BlockNumber_Int64 bn then (bn, None) else (old, Some (Errorf ''block number larger than int64'')))"
    using block_number_cases [of bn] by (auto simp: UnmarshalJSON_quoted BlockNumber_Int64_def)
  show "- 4 \<le> BlockNumber_Int64 n" if "BlockNumber_UnmarshalJSON old s = (n, None)"
    using that block_tag_number
    by (force simp: BlockNumber_UnmarshalJSON_def Let_def maxInt64_less_iff BlockNumber_Int64_def
        split: option.splits prod.splits if_splits)
qed

lemma BlockNumber_roundtrip_witness:
  "- 4 \<le> BlockNumber_Int64 SafeBlockNumber"
  by (rule BlockNumber_roundtrip(2) [where old = 0 and s = "''safe''"])
    (simp add: BlockNumber_UnmarshalJSON_def block_tag_def trim_space_visible visible_def)

lemma BlockNumberOrHash_roundtrip_parts:
  "bnh_UnmarshalJSON fold_eq no_block (Some (JValue r (JString (BlockNumber_MarshalText n)))) =
     (if - 4 \<le> sint n then (BlockNumberOrHashWithNumber n, None)
      else (no_block, Some (HexError (Errorf ''blocknumber too high''))))"
  "length h = 32 \<Longrightarrow>
   bnh_UnmarshalJSON fold_eq no_block (Some (JValue r (JString (Hash_MarshalText h)))) =
     (BlockNumberOrHashWithHash h False, None)"
  "\<not> (snd (bnh_Number (fst (bnh_UnmarshalJSON fold_eq no_block data))) \<and>
      snd (bnh_Hash (fst (bnh_UnmarshalJSON fold_eq no_block data))))"
  "length h = 32 \<Longrightarrow>
   bnh_UnmarshalJSON fold_eq (BlockNumberOrHashWithNumber n) (Some (JValue r (JString (Hash_MarshalText h)))) =
     (\<lparr>bnh_number = Some n, bnh_hash = Some h, bnh_canonical = False\<rparr>, None)"
proof -
  show "\<not> (snd (bnh_Number (fst (bnh_UnmarshalJSON fold_eq no_block data))) \<and>
      snd (bnh_Hash (fst (bnh_UnmarshalJSON fold_eq no_block data))))"
    using bnh_UnmarshalJSON_exclusive [of no_block fold_eq data]
    by (auto simp: no_block_def bnh_Number_def bnh_Hash_def split: option.splits)
qed (simp_all add: bnh_string bnh_from_number bnh_from_hash no_block_def BlockNumberOrHashWithNumber_def
    BlockNumberOrHashWithHash_def)

text \<open>
  C27. \<open>BlockNumberOrHash\<close>: the text of a number from -4 on, or of a hash, is read back into a fresh receiver,
  and that of a smaller number is refused with "blocknumber too high"; a fresh receiver never gets both fields, but the string form sets one field and keeps the other, so a receiver that
  held a number has both after a hash is read into it, which the object form refuses.
\<close>
theorem BlockNumberOrHash_roundtrip:
  "(bnh_UnmarshalJSON fold_eq no_block (Some (JValue r (JString (BlockNumber_MarshalText n)))) =
     (if - 4 \<le> sint n then (BlockNumberOrHashWithNumber n, None)
      else (no_block, Some (HexError (Errorf ''blocknumber too high''))))) \<and>
    (length h = 32 \<longrightarrow> bnh_UnmarshalJSON fold_eq no_block (Some (JValue r (JString (Hash_MarshalText h)))) =
     (BlockNumberOrHashWithHash h False, None)) \<and>
    (\<not> (snd (bnh_Number (fst (bnh_UnmarshalJSON fold_eq no_block data))) \<and>
      snd (bnh_Hash (fst (bnh_UnmarshalJSON fold_eq no_block data))))) \<and>
    (length h = 32 \<longrightarrow> bnh_UnmarshalJSON fold_eq (BlockNumberOrHashWithNumber n) (Some (JValue r (JString (Hash_MarshalText h)))) =
     (\<lparr>bnh_number = Some n, bnh_hash = Some h, bnh_canonical = False\<rparr>, None))"
  by (rule conjI, rule BlockNumberOrHash_roundtrip_parts(1),
      rule conjI, rule impI, rule BlockNumberOrHash_roundtrip_parts(2), assumption,
      rule conjI, rule BlockNumberOrHash_roundtrip_parts(3),
      rule impI, rule BlockNumberOrHash_roundtrip_parts(4), assumption)

lemma BlockNumberOrHash_roundtrip_witness:
  "bnh_UnmarshalJSON (=) no_block (Some (JValue [] (JString (Hash_MarshalText zero_hash)))) =
     (BlockNumberOrHashWithHash zero_hash False, None)"
  by (rule BlockNumberOrHash_roundtrip [THEN conjunct2, THEN conjunct1, rule_format]) (simp add: zero_hash_def)

end
