(* ===== verification/Rpc_Json.thy ===== *)
theory Rpc_Json
  imports Go_Std
begin

text \<open>
  \<open>src/rpc/errors.go\<close> and the messages of \<open>src/rpc/json.go\<close>: the errors of the RPC layer with their
  codes, JSON-RPC messages, their kinds, and the answers that are built for a request. A
  \<open>json.RawMessage\<close> is a \<open>string option\<close> (\<open>None\<close> is nil) and an \<open>interface{}\<close> with data of type
  \<open>'d\<close> is a \<open>'d option\<close>. \<open>json.Marshal\<close>, \<open>json.Compact\<close> and the verb \<open>%q\<close> are arguments.
\<close>

section \<open>Errors\<close>

record httpError =
  he_statusCode :: int
  he_status :: string
  he_body :: "byte list"

definition HTTPError_Error :: "httpError \<Rightarrow> string" where
  "HTTPError_Error err =
     (if length (he_body err) = 0 then he_status err
      else he_status err @ '': '' @ string_of_bytes (he_body err))"

definition errcodeDefault :: int where "errcodeDefault = - 32000"
definition errcodeNotificationsUnsupported :: int where "errcodeNotificationsUnsupported = - 32001"
definition errcodeTimeout :: int where "errcodeTimeout = - 32002"
definition errcodePanic :: int where "errcodePanic = - 32603"
definition errcodeMarshalError :: int where "errcodeMarshalError = - 32603"
definition errMsgTimeout :: string where "errMsgTimeout = ''request timed out''"

record 'd jsonError =
  je_code :: int
  je_message :: string
  je_data :: "'d option"

text \<open>
  The \<open>error\<close> values: the types of \<open>errors.go\<close>, \<open>*jsonError\<close>, and errors of other types, which
  implement \<open>Error\<close> and \<open>DataError\<close> or not.
\<close>

datatype 'd rpc_error =
  MethodNotFound string
| SubscriptionNotFound string string
| ParseError string
| InvalidRequest string
| InvalidMessage string
| InvalidParams string
| InternalServer int string
| JsonErr "'d jsonError"
| OtherErr string "int option" "'d option option"

definition jsonError_Error :: "'d jsonError \<Rightarrow> string" where
  "jsonError_Error err =
     (if je_message err = [] then ''json-rpc error '' @ itoa (je_code err) else je_message err)"

fun err_text :: "(string \<Rightarrow> string) \<Rightarrow> 'd rpc_error \<Rightarrow> string" where
  "err_text quote (MethodNotFound m) = ''the method '' @ m @ '' does not exist/is not available''"
| "err_text quote (SubscriptionNotFound namespace sub) =
     ''no '' @ quote sub @ '' subscription in '' @ namespace @ '' namespace''"
| "err_text quote (ParseError m) = m"
| "err_text quote (InvalidRequest m) = m"
| "err_text quote (InvalidMessage m) = m"
| "err_text quote (InvalidParams m) = m"
| "err_text quote (InternalServer code m) = m"
| "err_text quote (JsonErr e) = jsonError_Error e"
| "err_text quote (OtherErr m code data) = m"

text \<open>\<open>None\<close>: the type has no such method.\<close>

fun ErrorCode :: "'d rpc_error \<Rightarrow> int option" where
  "ErrorCode (MethodNotFound m) = Some (- 32601)"
| "ErrorCode (SubscriptionNotFound namespace sub) = Some (- 32601)"
| "ErrorCode (ParseError m) = Some (- 32700)"
| "ErrorCode (InvalidRequest m) = Some (- 32600)"
| "ErrorCode (InvalidMessage m) = Some (- 32700)"
| "ErrorCode (InvalidParams m) = Some (- 32602)"
| "ErrorCode (InternalServer code m) = Some code"
| "ErrorCode (JsonErr e) = Some (je_code e)"
| "ErrorCode (OtherErr m code data) = code"

fun ErrorData :: "'d rpc_error \<Rightarrow> 'd option option" where
  "ErrorData (JsonErr e) = Some (je_data e)"
| "ErrorData (OtherErr m code data) = data"
| "ErrorData _ = None"

section \<open>Messages\<close>

type_synonym raw = "string option"

record 'd jsonrpcMessage =
  jm_version :: string
  jm_id :: raw
  jm_method :: string
  jm_params :: raw
  jm_error :: "'d jsonError option"
  jm_result :: raw

definition vsn :: string where "vsn = ''2.0''"
definition serviceMethodSeparator :: char where "serviceMethodSeparator = CHR ''_''"
definition subscribeMethodSuffix :: string where "subscribeMethodSuffix = ''_subscribe''"
definition unsubscribeMethodSuffix :: string where "unsubscribeMethodSuffix = ''_unsubscribe''"
definition notificationMethodSuffix :: string where "notificationMethodSuffix = ''_subscription''"
definition null_raw :: raw where "null_raw = Some ''null''"

definition raw_text :: "raw \<Rightarrow> string" where
  "raw_text r = (case r of None \<Rightarrow> [] | Some s \<Rightarrow> s)"

definition hasValidID :: "'d jsonrpcMessage \<Rightarrow> bool" where
  "hasValidID msg \<longleftrightarrow>
     0 < length (raw_text (jm_id msg)) \<and> raw_text (jm_id msg) ! 0 \<noteq> CHR ''{'' \<and> raw_text (jm_id msg) ! 0 \<noteq> CHR ''[''"

definition hasValidVersion :: "'d jsonrpcMessage \<Rightarrow> bool" where
  "hasValidVersion msg \<longleftrightarrow> jm_version msg = vsn"

definition isNotification :: "'d jsonrpcMessage \<Rightarrow> bool" where
  "isNotification msg \<longleftrightarrow> hasValidVersion msg \<and> jm_id msg = None \<and> jm_method msg \<noteq> []"

definition isCall :: "'d jsonrpcMessage \<Rightarrow> bool" where
  "isCall msg \<longleftrightarrow> hasValidVersion msg \<and> hasValidID msg \<and> jm_method msg \<noteq> []"

definition isResponse :: "'d jsonrpcMessage \<Rightarrow> bool" where
  "isResponse msg \<longleftrightarrow> hasValidVersion msg \<and> hasValidID msg \<and> jm_method msg = [] \<and> jm_params msg = None \<and>
     (jm_result msg \<noteq> None \<or> jm_error msg \<noteq> None)"

definition isSubscribe :: "'d jsonrpcMessage \<Rightarrow> bool" where
  "isSubscribe msg \<longleftrightarrow> has_suffix (jm_method msg) subscribeMethodSuffix"

definition isUnsubscribe :: "'d jsonrpcMessage \<Rightarrow> bool" where
  "isUnsubscribe msg \<longleftrightarrow> has_suffix (jm_method msg) unsubscribeMethodSuffix"

definition msg_namespace :: "'d jsonrpcMessage \<Rightarrow> string" where
  "msg_namespace msg = split2_on serviceMethodSeparator (jm_method msg) ! 0"

section \<open>Answers\<close>

definition empty_msg :: "'d jsonrpcMessage" where
  "empty_msg = \<lparr>jm_version = [], jm_id = None, jm_method = [], jm_params = None, jm_error = None, jm_result = None\<rparr>"

definition errorMessage :: "(string \<Rightarrow> string) \<Rightarrow> 'd rpc_error \<Rightarrow> 'd jsonrpcMessage" where
  "errorMessage quote err =
     (let e = \<lparr>je_code = errcodeDefault, je_message = err_text quote err, je_data = None\<rparr>;
          e = (case ErrorCode err of Some c \<Rightarrow> e\<lparr>je_code := c\<rparr> | None \<Rightarrow> e);
          e = (case ErrorData err of Some d \<Rightarrow> e\<lparr>je_data := d\<rparr> | None \<Rightarrow> e)
      in empty_msg\<lparr>jm_version := vsn, jm_id := null_raw, jm_error := Some e\<rparr>)"

definition errResponse :: "(string \<Rightarrow> string) \<Rightarrow> 'd jsonrpcMessage \<Rightarrow> 'd rpc_error \<Rightarrow> 'd jsonrpcMessage" where
  "errResponse quote msg err = (errorMessage quote err)\<lparr>jm_id := jm_id msg\<rparr>"

text \<open>\<open>marshal\<close> is \<open>json.Marshal\<close>: the text of an error, or the encoding.\<close>

definition msg_response ::
  "(string \<Rightarrow> string) \<Rightarrow> ('r \<Rightarrow> string + string) \<Rightarrow> 'd jsonrpcMessage \<Rightarrow> 'r \<Rightarrow> 'd jsonrpcMessage" where
  "msg_response quote marshal msg result =
     (case marshal result of
        Inl e \<Rightarrow> errResponse quote msg (InternalServer errcodeMarshalError e)
      | Inr enc \<Rightarrow> empty_msg\<lparr>jm_version := vsn, jm_id := jm_id msg, jm_result := Some enc\<rparr>)"

section \<open>The text of a message\<close>

text \<open>
  \<open>json.Marshal\<close> of the struct, as its tags say: \<open>compact\<close> is \<open>json.Compact\<close>, which fails on raw text
  that is not JSON, \<open>quoteJ\<close> the encoding of a string and \<open>enc\<close> that of data. The tag of \<open>Method\<close> has
  a blank before \<open>omitempty\<close>, which then is not recognised, so the member is always written.
\<close>

fun opt_all :: "'a option list \<Rightarrow> 'a list option" where
  "opt_all [] = Some []"
| "opt_all (x # xs) = (case x of None \<Rightarrow> None | Some v \<Rightarrow> map_option (Cons v) (opt_all xs))"

fun commas :: "string list \<Rightarrow> string" where
  "commas [] = []"
| "commas [s] = s"
| "commas (s # ss) = s @ '','' @ commas ss"

definition json_object :: "string list \<Rightarrow> string" where
  "json_object ms = ''{'' @ commas ms @ ''}''"

definition member :: "string \<Rightarrow> string \<Rightarrow> string" where
  "member k v = CHR 0x22 # k @ [CHR 0x22, CHR '':''] @ v"

definition raw_member :: "(string \<Rightarrow> string option) \<Rightarrow> string \<Rightarrow> raw \<Rightarrow> string option list" where
  "raw_member compact k r = (if raw_text r = [] then [] else [map_option (member k) (compact (raw_text r))])"

definition jsonError_text :: "(string \<Rightarrow> string) \<Rightarrow> ('d \<Rightarrow> string option) \<Rightarrow> 'd jsonError \<Rightarrow> string option" where
  "jsonError_text quoteJ enc e =
     map_option json_object
       (opt_all ([Some (member ''code'' (itoa (je_code e))), Some (member ''message'' (quoteJ (je_message e)))] @
          (case je_data e of None \<Rightarrow> [] | Some d \<Rightarrow> [map_option (member ''data'') (enc d)])))"

definition msg_String ::
  "(string \<Rightarrow> string option) \<Rightarrow> (string \<Rightarrow> string) \<Rightarrow> ('d \<Rightarrow> string option) \<Rightarrow> 'd jsonrpcMessage \<Rightarrow> string" where
  "msg_String compact quoteJ enc m =
     (case opt_all ((if jm_version m = [] then [] else [Some (member ''jsonrpc'' (quoteJ (jm_version m)))]) @
             raw_member compact ''id'' (jm_id m) @
             [Some (member ''method'' (quoteJ (jm_method m)))] @
             raw_member compact ''params'' (jm_params m) @
             (case jm_error m of None \<Rightarrow> [] | Some e \<Rightarrow> [map_option (member ''error'') (jsonError_text quoteJ enc e)]) @
             raw_member compact ''result'' (jm_result m)) of
        None \<Rightarrow> []
      | Some ms \<Rightarrow> json_object ms)"

section \<open>Kinds of messages\<close>

lemmas msg_kind_defs = isNotification_def isCall_def isResponse_def hasValidVersion_def hasValidID_def

lemma errorMessage_simps [simp]:
  "jm_version (errorMessage quote err) = vsn" "jm_id (errorMessage quote err) = null_raw"
  "jm_method (errorMessage quote err) = []" "jm_params (errorMessage quote err) = None"
  "jm_result (errorMessage quote err) = None"
  "jm_error (errorMessage quote err) =
     Some \<lparr>je_code = (case ErrorCode err of Some c \<Rightarrow> c | None \<Rightarrow> errcodeDefault), je_message = err_text quote err,
           je_data = (case ErrorData err of Some d \<Rightarrow> d | None \<Rightarrow> None)\<rparr>"
  by (simp_all add: errorMessage_def empty_msg_def Let_def split: option.splits)

lemma errResponse_simps [simp]:
  "jm_version (errResponse quote m err) = vsn" "jm_id (errResponse quote m err) = jm_id m"
  "jm_method (errResponse quote m err) = []" "jm_params (errResponse quote m err) = None"
  "jm_result (errResponse quote m err) = None"
  "jm_error (errResponse quote m err) = jm_error (errorMessage quote err)"
  by (simp_all add: errResponse_def)

lemma msg_response_cases:
  "(\<exists>e. marshal result = Inl e \<and>
        msg_response quote marshal m result = errResponse quote m (InternalServer errcodeMarshalError e)) \<or>
   (\<exists>enc. marshal result = Inr enc \<and> jm_version (msg_response quote marshal m result) = vsn \<and>
        jm_id (msg_response quote marshal m result) = jm_id m \<and>
        jm_method (msg_response quote marshal m result) = [] \<and>
        jm_params (msg_response quote marshal m result) = None \<and>
        jm_error (msg_response quote marshal m result) = None \<and>
        jm_result (msg_response quote marshal m result) = Some enc)"
  by (cases "marshal result") (auto simp: msg_response_def empty_msg_def)

text \<open>An answer to a request: a response with its id and either an error or a result.\<close>

definition answers :: "'d jsonrpcMessage \<Rightarrow> 'd jsonrpcMessage \<Rightarrow> bool" where
  "answers r m \<longleftrightarrow> isResponse r \<and> jm_id r = jm_id m \<and> (jm_error r = None) \<noteq> (jm_result r = None)"

lemma answers_errResponse: "hasValidID m \<Longrightarrow> answers (errResponse quote m err) m"
  by (simp add: answers_def msg_kind_defs)

lemma answers_response: "hasValidID m \<Longrightarrow> answers (msg_response quote marshal m result) m"
  using msg_response_cases [of marshal result quote m]
  by (auto simp: answers_errResponse answers_def msg_kind_defs)

lemma answers_well_typed_parts:
  assumes "isCall m"
  shows "answers (errResponse quote m err) m" "answers (msg_response quote marshal m result) m"
    "\<not> isResponse m \<and> \<not> isNotification m"
    "answers r m \<Longrightarrow> \<not> isCall r \<and> \<not> isNotification r"
    "map_option je_message (jm_error (errResponse quote m err)) = Some (err_text quote err)"
    "map_option je_code (jm_error (errResponse quote m err)) =
       Some (case ErrorCode err of Some c \<Rightarrow> c | None \<Rightarrow> - 32000)"
    "isResponse (errorMessage quote err) \<and> jm_id (errorMessage quote err) = Some ''null''"
proof -
  have v: "hasValidID m" using assms by (simp add: isCall_def)
  show "answers (errResponse quote m err) m" by (rule answers_errResponse [OF v])
  show "answers (msg_response quote marshal m result) m" by (rule answers_response [OF v])
qed (use assms in \<open>auto simp: answers_def msg_kind_defs errcodeDefault_def null_raw_def raw_text_def split: option.splits\<close>)

text \<open>
  C26. The types of messages. No message is of two of the kinds notification, call and response. What
  \<open>errResponse\<close> and \<open>response\<close> build for a call is a response with the id of the call and exactly one of
  an error and a result, hence never a call or a notification; the error of an \<open>errResponse\<close> has the text
  of the Go error and its code, or -32000 where it has none. \<open>errorMessage\<close> alone carries the id null.
\<close>
theorem answers_well_typed:
  assumes "isCall m"
  shows "(answers (errResponse quote m err) m) \<and>
    (answers (msg_response quote marshal m result) m) \<and>
    (\<not> isResponse m \<and> \<not> isNotification m) \<and>
    (answers r m \<longrightarrow> (\<not> isCall r \<and> \<not> isNotification r)) \<and>
    (map_option je_message (jm_error (errResponse quote m err)) = Some (err_text quote err)) \<and>
    (map_option je_code (jm_error (errResponse quote m err)) =
       Some (case ErrorCode err of Some c \<Rightarrow> c | None \<Rightarrow> - 32000)) \<and>
    (isResponse (errorMessage quote err) \<and> jm_id (errorMessage quote err) = Some ''null'')"
  by (rule conjI, rule answers_well_typed_parts(1) [OF assms],
      rule conjI, rule answers_well_typed_parts(2) [OF assms],
      rule conjI, rule answers_well_typed_parts(3) [OF assms],
      rule conjI, rule impI, rule answers_well_typed_parts(4) [OF assms], assumption,
      rule conjI, rule answers_well_typed_parts(5) [OF assms],
      rule conjI, rule answers_well_typed_parts(6) [OF assms],
      rule answers_well_typed_parts(7) [OF assms])

lemma answers_well_typed_witness:
  "answers (errResponse id (empty_msg\<lparr>jm_version := ''2.0'', jm_id := Some ''7'', jm_method := ''a_b''\<rparr>) (ParseError ''e'' :: unit rpc_error))
     (empty_msg\<lparr>jm_version := ''2.0'', jm_id := Some ''7'', jm_method := ''a_b''\<rparr>)"
  by (rule answers_well_typed [THEN conjunct1, rule_format]) (simp add: msg_kind_defs empty_msg_def vsn_def raw_text_def)

end
