(* ===== verification/Rpc_Sub.thy ===== *)
theory Rpc_Sub
  imports Rpc_Json Common_Bytes Hexutil_JSON
begin

text \<open>
  \<open>src/rpc/subscription.go\<close>: subscription identifiers, the notifier of a server-side subscription, and
  the client-side subscription with its forwarding goroutine. The source of randomness, the connection
  and the receivers of channels are the environment: arguments, or steps of the transition relation.
\<close>

section \<open>Identifiers\<close>

text \<open>
  The seed that \<open>randomIDGenerator\<close> gives its source: \<open>buf\<close> is what \<open>crand.Read\<close> leaves in the eight
  bytes, \<open>ok\<close> that it returned no error, and \<open>now\<close> the nanosecond of the clock.
\<close>

definition generator_seed :: "bool \<Rightarrow> byte list \<Rightarrow> nat \<Rightarrow> nat" where
  "generator_seed ok buf now = (if ok then unat (buf ! 0) * 256 + unat (buf ! 1) else now)"

definition encodeID :: "byte list \<Rightarrow> string" where
  "encodeID b =
     (let i = dropWhile (\<lambda>c. c = CHR ''0'') (hex_encode b);
          i = (if i = [] then ''0'' else i)
      in ''0x'' @ i)"

text \<open>
  The generator: \<open>rng\<close> is the source made from a seed, as the stream of the 16-byte reads, and the
  state is the number of identifiers made.
\<close>

definition next_id :: "(nat \<Rightarrow> nat \<Rightarrow> byte list) \<Rightarrow> nat \<Rightarrow> nat \<Rightarrow> nat \<times> string" where
  "next_id rng seed k = (k + 1, encodeID (rng seed k))"

lemma hexnum_drop_zeros: "hexnum (dropWhile (\<lambda>c. c = CHR ''0'') s) = hexnum s"
  by (induction s) simp_all

lemma encodeID_eq: "encodeID b = EncodeBig (big_set_bytes b)"
proof -
  let ?s = "dropWhile (\<lambda>c. c = CHR ''0'') (hex_encode b)"
  have v: "int (hexnum ?s) = big_set_bytes b" by (simp add: hexnum_drop_zeros)
  have d: "hex_digits (hexnum ?s) = (if ?s = [] then ''0'' else ?s)"
  proof (cases "?s = []")
    case True
    then show ?thesis by (simp only: True) (simp add: hex_digits_def)
  next
    case False
    then obtain c cs where s: "?s = c # cs" by (cases ?s) auto
    have sub: "x \<in> set (hex_encode b)" if "x \<in> set ?s" for x using that by (auto dest: set_dropWhileD)
    have "c \<noteq> CHR ''0''" using s by (rule dropWhile_hd)
    then have "hex_digits (hexnum ?s) = map to_lower ?s"
      using s sub hex_encode_is_hex by (intro hex_digits_hexnum) auto
    also have "\<dots> = ?s" using sub hex_encode_lower by (intro map_idI) blast
    finally show ?thesis by (simp only: False if_False)
  qed
  have "EncodeBig (big_set_bytes b) = ''0x'' @ hex_digits (hexnum ?s)"
    unfolding v [symmetric] by (simp add: EncodeBig_nonneg)
  then show ?thesis using d by (simp add: encodeID_def Let_def)
qed

lemma big_set_bytes_inject:
  assumes "length b = length b'" "big_set_bytes b = big_set_bytes b'"
  shows "b = b'"
proof -
  let ?d = "dropWhile (\<lambda>x :: byte. x = 0)"
  have "?d b = ?d b'" using assms(2) by (metis big_bytes_set_bytes)
  then show ?thesis
    using length_dropWhile_replicate [of b 0] length_dropWhile_replicate [of b' 0] assms(1) by metis
qed

section \<open>The notifier\<close>

record serverSub =
  ss_id :: string
  ss_namespace :: string

text \<open>
  \<open>nt_written\<close> are the messages written to the connection of the handler without an error.
\<close>

record 'd notifier =
  nt_namespace :: string
  nt_sub :: "serverSub option"
  nt_buffer :: "string list"
  nt_callReturned :: bool
  nt_activated :: bool
  nt_written :: "'d jsonrpcMessage list"

definition new_notifier :: "string \<Rightarrow> 'd notifier" where
  "new_notifier ns = \<lparr>nt_namespace = ns, nt_sub = None, nt_buffer = [], nt_callReturned = False,
     nt_activated = False, nt_written = []\<rparr>"

text \<open>\<open>None\<close> is a panic; \<open>i\<close> is the identifier that \<open>idgen\<close> returns.\<close>

definition CreateSubscription :: "'d notifier \<Rightarrow> string \<Rightarrow> ('d notifier \<times> serverSub) option" where
  "CreateSubscription n i =
     (if nt_sub n \<noteq> None then None
      else if nt_callReturned n then None
      else (let s = \<lparr>ss_id = i, ss_namespace = nt_namespace n\<rparr> in Some (n\<lparr>nt_sub := Some s\<rparr>, s)))"

text \<open>\<open>send\<close>: the message, and the error of the write.\<close>

definition notification :: "(string \<Rightarrow> string) \<Rightarrow> string \<Rightarrow> serverSub \<Rightarrow> string \<Rightarrow> 'd jsonrpcMessage" where
  "notification quoteJ ns s data =
     empty_msg\<lparr>jm_version := vsn, jm_method := ns @ notificationMethodSuffix,
       jm_params := Some (json_object ([member ''subscription'' (quoteJ (ss_id s))] @
         (if data = [] then [] else [member ''result'' data])))\<rparr>"

definition notifier_send ::
  "(string \<Rightarrow> string) \<Rightarrow> 'd notifier \<Rightarrow> serverSub \<Rightarrow> string \<Rightarrow> 'e option \<Rightarrow> ('d notifier, 'e) ret" where
  "notifier_send quoteJ n s data outcome =
     (if outcome = None then (n\<lparr>nt_written := nt_written n @ [notification quoteJ (nt_namespace n) s data]\<rparr>, None)
      else (n, outcome))"

text \<open>\<open>enc\<close> is the encoding of the data, or the error of \<open>json.Marshal\<close>.\<close>

definition notifier_Notify ::
  "(string \<Rightarrow> string) \<Rightarrow> 'd notifier \<Rightarrow> string \<Rightarrow> 'e + string \<Rightarrow> 'e option \<Rightarrow> ('d notifier, 'e) ret option" where
  "notifier_Notify quoteJ n i enc outcome =
     (case enc of
        Inl err \<Rightarrow> Some (n, Some err)
      | Inr data \<Rightarrow>
          (case nt_sub n of
             None \<Rightarrow> None
           | Some s \<Rightarrow>
               if ss_id s \<noteq> i then None
               else if nt_activated n then Some (notifier_send quoteJ n s data outcome)
               else Some (n\<lparr>nt_buffer := nt_buffer n @ [data]\<rparr>, None)))"

definition takeSubscription :: "'d notifier \<Rightarrow> 'd notifier \<times> serverSub option" where
  "takeSubscription n = (n\<lparr>nt_callReturned := True\<rparr>, nt_sub n)"

text \<open>The loop of \<open>activate\<close>; the writes have the given outcomes.\<close>

fun activate_loop ::
  "(string \<Rightarrow> string) \<Rightarrow> serverSub \<Rightarrow> (string \<times> 'e option) list \<Rightarrow> 'd notifier \<Rightarrow> ('d notifier, 'e) ret" where
  "activate_loop quoteJ s [] n = (n\<lparr>nt_activated := True\<rparr>, None)"
| "activate_loop quoteJ s ((data, outcome) # l) n =
     (case notifier_send quoteJ n s data outcome of
        (n, Some err) \<Rightarrow> (n, Some err)
      | (n, None) \<Rightarrow> activate_loop quoteJ s l n)"

text \<open>\<open>outcomes k\<close> is that of the \<open>k\<close>-th write. With a nil subscription and a buffer, which no run has, it panics.\<close>

definition notifier_activate ::
  "(string \<Rightarrow> string) \<Rightarrow> 'd notifier \<Rightarrow> (nat \<Rightarrow> 'e option) \<Rightarrow> ('d notifier, 'e) ret option" where
  "notifier_activate quoteJ n outcomes =
     (case nt_sub n of
        None \<Rightarrow> if nt_buffer n = [] then Some (n\<lparr>nt_activated := True\<rparr>, None) else None
      | Some s \<Rightarrow> Some (activate_loop quoteJ s (zip (nt_buffer n) (map outcomes [0..<length (nt_buffer n)])) n))"

text \<open>
  The runs of a notifier whose subscription has the identifier \<open>i\<close>: \<open>ds\<close> are the data of the calls of
  \<open>Notify\<close> so far, and \<open>good\<close> says that no write has failed. The handler activates once.
\<close>

inductive notifier_run :: "(string \<Rightarrow> string) \<Rightarrow> string \<Rightarrow> string \<Rightarrow> 'd notifier \<Rightarrow> string list \<Rightarrow> bool \<Rightarrow> bool"
  for quoteJ ns i where
  created: "CreateSubscription (new_notifier ns) i = Some (n, s) \<Longrightarrow> notifier_run quoteJ ns i n [] True"
| notified: "notifier_run quoteJ ns i n ds good \<Longrightarrow>
    notifier_Notify quoteJ n i (Inr d) (outcome :: string option) = Some (n', err) \<Longrightarrow>
    notifier_run quoteJ ns i n' (ds @ [d]) (good \<and> err = None)"
| taken: "notifier_run quoteJ ns i n ds good \<Longrightarrow> takeSubscription n = (n', s) \<Longrightarrow> notifier_run quoteJ ns i n' ds good"
| activated: "notifier_run quoteJ ns i n ds good \<Longrightarrow> \<not> nt_activated n \<Longrightarrow>
    notifier_activate quoteJ n (outcomes :: nat \<Rightarrow> string option) = Some (n', err) \<Longrightarrow>
    notifier_run quoteJ ns i n' ds (good \<and> err = None)"

definition sub_with_id :: "string \<Rightarrow> string \<Rightarrow> serverSub" where
  "sub_with_id ns i = \<lparr>ss_id = i, ss_namespace = ns\<rparr>"

definition notifier_inv :: "(string \<Rightarrow> string) \<Rightarrow> string \<Rightarrow> string \<Rightarrow> 'd notifier \<Rightarrow> string list \<Rightarrow> bool \<Rightarrow> bool" where
  "notifier_inv quoteJ ns i n ds good \<longleftrightarrow>
     nt_namespace n = ns \<and> nt_sub n = Some (sub_with_id ns i) \<and>
     (\<not> nt_activated n \<longrightarrow> nt_buffer n = ds) \<and>
     (good \<longrightarrow> nt_written n = (if nt_activated n then map (notification quoteJ ns (sub_with_id ns i)) ds else []))"

lemma activate_loop_fields:
  "nt_namespace (fst (activate_loop quoteJ s l n)) = nt_namespace n \<and> nt_sub (fst (activate_loop quoteJ s l n)) = nt_sub n \<and>
   nt_buffer (fst (activate_loop quoteJ s l n)) = nt_buffer n \<and>
   (nt_activated (fst (activate_loop quoteJ s l n)) \<longleftrightarrow> nt_activated n \<or> snd (activate_loop quoteJ s l n) = None)"
  by (induction l arbitrary: n) (auto simp: notifier_send_def split: prod.splits option.splits if_splits)

lemma activate_loop_written:
  "snd (activate_loop quoteJ s l n) = None \<Longrightarrow>
   nt_written (fst (activate_loop quoteJ s l n)) = nt_written n @ map (notification quoteJ (nt_namespace n) s) (map fst l)"
  by (induction l arbitrary: n) (auto simp: notifier_send_def split: prod.splits option.splits if_splits)

lemma notifier_run_inv: "notifier_run quoteJ ns i n ds good \<Longrightarrow> notifier_inv quoteJ ns i n ds good"
proof (induction rule: notifier_run.induct)
  case (activated n ds good outcomes n' err)
  have s: "nt_sub n = Some (sub_with_id ns i)" using activated.IH by (simp add: notifier_inv_def)
  let ?l = "zip (nt_buffer n) (map outcomes [0..<length (nt_buffer n)])"
  have r: "activate_loop quoteJ (sub_with_id ns i) ?l n = (n', err)"
    using activated.hyps(3) s by (simp add: notifier_activate_def)
  show ?case
    using activated.IH activated.hyps(2) activate_loop_fields [of quoteJ "sub_with_id ns i" ?l n]
      activate_loop_written [of quoteJ "sub_with_id ns i" ?l n]
    unfolding r by (auto simp: notifier_inv_def)
qed (auto simp: notifier_inv_def CreateSubscription_def new_notifier_def notifier_Notify_def notifier_send_def
    takeSubscription_def sub_with_id_def Let_def split: if_splits)

section \<open>The client side\<close>

datatype 'e sub_error = Unsubscribed | QueueOverflow | ClientQuit | OtherError 'e

definition maxClientSubscriptionBuffer :: nat where "maxClientSubscriptionBuffer = 20000"

text \<open>
  The goroutine of \<open>run\<close>: not started, in \<open>forward\<close>, returned from \<open>forward\<close> with its results, about
  to call the server, about to send the error, and ended.
\<close>

datatype 'e run_pc = NotRun | Forward | Forwarded bool "'e sub_error option" | Requesting "'e sub_error option"
  | SendErr "'e sub_error option" | RunDone

text \<open>The first call of \<open>Unsubscribe\<close>: in its select, waiting for \<open>unsubDone\<close>, returned.\<close>

datatype unsub_pc = NotCalled | Selecting | WaitDone | Returned

text \<open>
  \<open>cs_in\<close> are the values that \<open>forward\<close> accepted, \<open>cs_delivered\<close> those sent to the channel of the
  client, \<open>cs_errs\<close> what was received from the error channel, and \<open>cs_requests\<close> counts the calls to the
  server. \<open>cs_rejected\<close> is the error of a notification that ended \<open>forward\<close>.
\<close>

record ('v, 'e) csub =
  cs_buffer :: "'v list"
  cs_in :: "'v list"
  cs_delivered :: "'v list"
  cs_run :: "'e run_pc"
  cs_forwardDone :: bool
  cs_unsubDone :: bool
  cs_unsub :: unsub_pc
  cs_errs :: "'e sub_error option list"
  cs_errClosed :: bool
  cs_requests :: nat

definition newClientSubscription :: "('v, 'e) csub" where
  "newClientSubscription = \<lparr>cs_buffer = [], cs_in = [], cs_delivered = [], cs_run = NotRun, cs_forwardDone = False,
     cs_unsubDone = False, cs_unsub = NotCalled, cs_errs = [], cs_errClosed = False, cs_requests = 0\<rparr>"

text \<open>Case 0 of \<open>forward\<close>: an error received from \<open>quit\<close>.\<close>

definition forward_quit :: "'e sub_error option \<Rightarrow> ('v, 'e) csub \<Rightarrow> ('v, 'e) csub" where
  "forward_quit err s =
     s\<lparr>cs_run := (if err = Some Unsubscribed then Forwarded True None else Forwarded False err)\<rparr>"

text \<open>Case 1: a notification received from \<open>in\<close>; \<open>val\<close> is what \<open>unmarshal\<close> returns for it.\<close>

definition forward_in :: "'e + 'v \<Rightarrow> ('v, 'e) csub \<Rightarrow> ('v, 'e) csub" where
  "forward_in val s =
     (case val of
        Inl err \<Rightarrow> s\<lparr>cs_run := Forwarded True (Some (OtherError err))\<rparr>
      | Inr v \<Rightarrow>
          if length (cs_buffer s) = maxClientSubscriptionBuffer
          then s\<lparr>cs_run := Forwarded True (Some QueueOverflow)\<rparr>
          else s\<lparr>cs_buffer := cs_buffer s @ [v], cs_in := cs_in s @ [v]\<rparr>)"

text \<open>Case 2: the first element of the buffer is sent to the channel.\<close>

definition forward_send :: "('v, 'e) csub \<Rightarrow> ('v, 'e) csub" where
  "forward_send s = s\<lparr>cs_delivered := cs_delivered s @ [hd (cs_buffer s)], cs_buffer := tl (cs_buffer s)\<rparr>"

text \<open>\<open>run\<close> after \<open>forward\<close>. The error channel has no buffer, so a send waits for its receiver.\<close>

definition run_close :: "bool \<Rightarrow> 'e sub_error option \<Rightarrow> ('v, 'e) csub \<Rightarrow> ('v, 'e) csub" where
  "run_close unsubscribe err s = s\<lparr>cs_forwardDone := True, cs_run := (if unsubscribe then Requesting err else SendErr err)\<rparr>"

definition requestUnsubscribe :: "'e sub_error option \<Rightarrow> ('v, 'e) csub \<Rightarrow> ('v, 'e) csub" where
  "requestUnsubscribe err s = s\<lparr>cs_requests := cs_requests s + 1, cs_run := SendErr err\<rparr>"

definition run_end :: "('v, 'e) csub \<Rightarrow> ('v, 'e) csub" where
  "run_end s = s\<lparr>cs_unsubDone := True, cs_run := RunDone\<rparr>"

definition run_error :: "'e sub_error \<Rightarrow> ('v, 'e) csub \<Rightarrow> ('v, 'e) csub" where
  "run_error err s =
     (let e = (if err = ClientQuit then None else Some err) in run_end (s\<lparr>cs_errs := cs_errs s @ [e]\<rparr>))"

definition unsub_return :: "('v, 'e) csub \<Rightarrow> ('v, 'e) csub" where
  "unsub_return s = s\<lparr>cs_errClosed := True, cs_unsub := Returned\<rparr>"

text \<open>
  The steps. \<open>closing\<close> and \<open>delivering\<close> are calls of \<open>close\<close> and \<open>deliver\<close> by the dispatcher that
  meet \<open>forward\<close>; once \<open>forwardDone\<close> is closed both return at once and change nothing. \<open>error_received\<close>
  needs a receiver of \<open>Err()\<close>, and \<open>sending\<close> one of the channel of the client; the other steps do not.
\<close>

inductive csub_step :: "('v, 'e) csub \<Rightarrow> ('v, 'e) csub \<Rightarrow> bool" where
  start: "cs_run s = NotRun \<Longrightarrow> csub_step s (s\<lparr>cs_run := Forward\<rparr>)"
| closing: "cs_run s = Forward \<Longrightarrow> csub_step s (forward_quit err s)"
| delivering: "cs_run s = Forward \<Longrightarrow> csub_step s (forward_in val s)"
| sending: "cs_run s = Forward \<Longrightarrow> cs_buffer s \<noteq> [] \<Longrightarrow> csub_step s (forward_send s)"
| unsub_called: "cs_unsub s = NotCalled \<Longrightarrow> csub_step s (s\<lparr>cs_unsub := Selecting\<rparr>)"
| unsub_quit: "cs_unsub s = Selecting \<Longrightarrow> cs_run s = Forward \<Longrightarrow>
    csub_step s ((forward_quit (Some Unsubscribed) s)\<lparr>cs_unsub := WaitDone\<rparr>)"
| unsub_done: "cs_unsub s = Selecting \<or> cs_unsub s = WaitDone \<Longrightarrow> cs_unsubDone s \<Longrightarrow> csub_step s (unsub_return s)"
| run_closes: "cs_run s = Forwarded unsubscribe err \<Longrightarrow> csub_step s (run_close unsubscribe err s)"
| run_requests: "cs_run s = Requesting err \<Longrightarrow> csub_step s (requestUnsubscribe err s)"
| run_no_error: "cs_run s = SendErr None \<Longrightarrow> csub_step s (run_end s)"
| error_received: "cs_run s = SendErr (Some err) \<Longrightarrow> csub_step s (run_error err s)"

inductive_cases csub_stepE: "csub_step s s'"

lemmas csub_op_defs = forward_quit_def forward_in_def forward_send_def run_close_def requestUnsubscribe_def
  run_end_def run_error_def unsub_return_def

text \<open>What the client receives is what was accepted, in order; the rest is in the buffer.\<close>

definition csub_inv :: "('v, 'e) csub \<Rightarrow> bool" where
  "csub_inv s \<longleftrightarrow>
     cs_in s = cs_delivered s @ cs_buffer s \<and> length (cs_buffer s) \<le> maxClientSubscriptionBuffer \<and>
     (cs_forwardDone s \<longleftrightarrow> (\<exists>err. cs_run s = Requesting err) \<or> (\<exists>err. cs_run s = SendErr err) \<or> cs_run s = RunDone) \<and>
     (cs_unsubDone s \<longleftrightarrow> cs_run s = RunDone) \<and>
     (cs_errs s \<noteq> [] \<longrightarrow> length (cs_errs s) = 1 \<and> cs_run s = RunDone) \<and>
     (cs_errClosed s \<longleftrightarrow> cs_unsub s = Returned) \<and> (cs_unsub s = Returned \<longrightarrow> cs_run s = RunDone) \<and>
     (cs_unsub s = WaitDone \<longrightarrow> cs_errs s = [] \<and> (\<forall>u e. cs_run s \<noteq> Forwarded u (Some e)) \<and>
        (\<forall>e. cs_run s \<noteq> Requesting (Some e)) \<and> (\<forall>e. cs_run s \<noteq> SendErr (Some e)) \<and>
        cs_run s \<noteq> NotRun \<and> cs_run s \<noteq> Forward) \<and>
     cs_requests s \<le> 1 \<and>
     (cs_requests s = 1 \<longrightarrow> (\<exists>err. cs_run s = SendErr err) \<or> cs_run s = RunDone)"

lemma csub_step_inv: "csub_step s s' \<Longrightarrow> csub_inv s \<Longrightarrow> csub_inv s'"
  by (elim csub_stepE)
    (auto simp: csub_inv_def csub_op_defs Let_def split: sum.splits if_splits)


lemma csub_steps_inv: "csub_step\<^sup>*\<^sup>* newClientSubscription s \<Longrightarrow> csub_inv s"
  by (erule steps_invariant) (simp_all add: csub_step_inv, simp add: csub_inv_def newClientSubscription_def)

lemma csub_step_forwardDone:
  "csub_step s s' \<Longrightarrow> cs_forwardDone s \<Longrightarrow> csub_inv s \<Longrightarrow>
   cs_forwardDone s' \<and> cs_in s' = cs_in s \<and> cs_delivered s' = cs_delivered s"
  by (elim csub_stepE) (auto simp: csub_inv_def csub_op_defs Let_def)

lemma csub_steps_forwardDone:
  assumes "csub_step\<^sup>*\<^sup>* s s'" "cs_forwardDone s" "csub_inv s"
  shows "cs_in s' = cs_in s \<and> cs_delivered s' = cs_delivered s"
proof -
  have "csub_inv s' \<and> cs_forwardDone s' \<and> cs_in s' = cs_in s \<and> cs_delivered s' = cs_delivered s"
    using assms(1)
    by (rule steps_invariant) (use assms(2,3) csub_step_inv csub_step_forwardDone in \<open>simp, metis\<close>)
  then show ?thesis by blast
qed

text \<open>
  A call of \<open>Unsubscribe\<close> whose message \<open>forward\<close> has taken: what is left to do, each step of which is
  the only one possible.
\<close>

fun unsub_left :: "('v, 'e) csub \<Rightarrow> nat" where
  "unsub_left s =
     (if cs_unsub s = Returned then 0
      else case cs_run s of Forwarded u e \<Rightarrow> 4 | Requesting e \<Rightarrow> 3 | SendErr e \<Rightarrow> 2 | _ \<Rightarrow> 1)"

definition unsub_taken :: "('v, 'e) csub \<Rightarrow> bool" where
  "unsub_taken s \<longleftrightarrow> csub_inv s \<and> cs_errs s = [] \<and> (cs_unsub s = WaitDone \<or> cs_unsub s = Returned \<and> cs_run s = RunDone)"

lemma unsub_taken_step:
  assumes "unsub_taken s" "csub_step s s'"
  shows "unsub_taken s' \<and> unsub_left s' < unsub_left s"
proof -
  note inv = csub_step_inv [OF assms(2)]
  show ?thesis
    using assms(2,1) inv by (elim csub_stepE) (auto simp: unsub_taken_def csub_inv_def csub_op_defs)
qed

lemma unsub_taken_moves:
  assumes "unsub_taken s" "cs_unsub s = WaitDone"
  shows "\<exists>s'. csub_step s s'"
proof (cases "cs_run s")
  case (SendErr e)
  then have "e = None" using assms by (cases e) (auto simp: unsub_taken_def csub_inv_def)
  then show ?thesis using run_no_error SendErr by blast
next
  case (Forwarded u e)
  then show ?thesis using run_closes by blast
next
  case (Requesting e)
  then show ?thesis using run_requests by blast
next
  case RunDone
  then show ?thesis using unsub_done [of s] assms by (auto simp: unsub_taken_def csub_inv_def)
qed (use assms in \<open>auto simp: unsub_taken_def csub_inv_def\<close>)

lemma unsub_taken_runs:
  assumes "(csub_step ^^ n) s s'" "unsub_taken s"
  shows "unsub_taken s' \<and> n + unsub_left s' \<le> unsub_left s"
  using assms
proof (induction n arbitrary: s')
  case (Suc n)
  then obtain t where t: "(csub_step ^^ n) s t" "csub_step t s'" by auto
  then have "unsub_taken t \<and> n + unsub_left t \<le> unsub_left s" using Suc by blast
  then show ?case using unsub_taken_step [OF _ t(2)] by fastforce
qed simp

lemma unsub_left_le: "unsub_left s \<le> 4"
  by (simp split: run_pc.split)

text \<open>What can happen to a call of \<open>Unsubscribe\<close> while the loop runs.\<close>

lemma unsub_race:
  assumes "csub_inv s" "cs_run s = Forward" "cs_unsub s = Selecting"
  shows "\<exists>s'. csub_step s s' \<and> cs_unsub s' = WaitDone"
    and "csub_step s s' \<Longrightarrow>
      cs_unsub s' = WaitDone \<or> cs_run s' = Forward \<and> cs_unsub s' = Selecting \<or>
      (\<exists>err. s' = forward_quit err s) \<or> (\<exists>val. s' = forward_in val s \<and> cs_run s' \<noteq> Forward)"
proof -
  show "\<exists>s'. csub_step s s' \<and> cs_unsub s' = WaitDone"
    using unsub_quit [OF assms(3,2)] by (intro exI [of _ "(forward_quit (Some Unsubscribed) s)\<lparr>cs_unsub := WaitDone\<rparr>"]) simp
  show "csub_step s s' \<Longrightarrow>
      cs_unsub s' = WaitDone \<or> cs_run s' = Forward \<and> cs_unsub s' = Selecting \<or>
      (\<exists>err. s' = forward_quit err s) \<or> (\<exists>val. s' = forward_in val s \<and> cs_run s' \<noteq> Forward)"
    using assms by (elim csub_stepE) (auto simp: csub_inv_def csub_op_defs split: sum.splits if_splits)
qed

text \<open>
  \<open>deliver\<close> and \<open>close\<close>, as the dispatcher calls them: \<open>None\<close> is a call that waits for \<open>forward\<close> or for the end
  of it.
\<close>

definition csub_deliver :: "'e + 'v \<Rightarrow> ('v, 'e) csub \<Rightarrow> (('v, 'e) csub \<times> bool) option" where
  "csub_deliver val s =
     (if cs_run s = Forward then Some (forward_in val s, True)
      else if cs_forwardDone s then Some (s, False) else None)"

definition csub_close :: "'e sub_error option \<Rightarrow> ('v, 'e) csub \<Rightarrow> ('v, 'e) csub option" where
  "csub_close err s =
     (if cs_run s = Forward then Some (forward_quit err s)
      else if cs_forwardDone s then Some s else None)"

lemma deliver_close_steps:
  "csub_deliver val s = Some (s', ok) \<Longrightarrow> (if ok then csub_step s s' else s' = s)"
  "csub_close err s = Some s' \<Longrightarrow> csub_step s s' \<or> s' = s"
  by (auto simp: csub_deliver_def csub_close_def intro: delivering closing split: if_splits)

text \<open>
  The dispatcher never waits for the client or the server: where a call waits, one step of the
  goroutine of the subscription lets it return.
\<close>

lemma dispatcher_not_blocked:
  assumes "csub_inv s"
  shows "csub_deliver val s \<noteq> None \<and> csub_close err s \<noteq> None \<or>
    (\<exists>s'. csub_step s s' \<and> csub_deliver val s' \<noteq> None \<and> csub_close err s' \<noteq> None)"
proof (cases "cs_run s")
  case NotRun
  then show ?thesis
    using start [OF NotRun] by (intro disjI2 exI [of _ "s\<lparr>cs_run := Forward\<rparr>"]) (simp add: csub_deliver_def csub_close_def)
next
  case (Forwarded unsubscribe e)
  then show ?thesis
    using run_closes [OF Forwarded]
    by (intro disjI2 exI [of _ "run_close unsubscribe e s"]) (auto simp: csub_deliver_def csub_close_def run_close_def)
qed (use assms in \<open>auto simp: csub_deliver_def csub_close_def csub_inv_def\<close>)

text \<open>A call of \<open>Unsubscribe\<close> in the loop, before which a notification that fails is taken.\<close>

definition racing_csub :: "('v, 'e) csub" where
  "racing_csub = newClientSubscription\<lparr>cs_run := Forward, cs_unsub := Selecting\<rparr>"

definition stuck_csub :: "'e \<Rightarrow> ('v, 'e) csub" where
  "stuck_csub e = requestUnsubscribe (Some (OtherError e)) (run_close True (Some (OtherError e)) (forward_in (Inl e) racing_csub))"

lemma racing_csub_reachable: "csub_step\<^sup>*\<^sup>* newClientSubscription (racing_csub :: ('v, 'e) csub)"
proof -
  let ?s0 = "newClientSubscription :: ('v, 'e) csub"
  let ?s1 = "?s0\<lparr>cs_run := Forward\<rparr>"
  have "csub_step ?s0 ?s1" by (rule start) (simp add: newClientSubscription_def)
  moreover have "csub_step ?s1 (?s1\<lparr>cs_unsub := Selecting\<rparr>)" by (rule unsub_called) (simp add: newClientSubscription_def)
  moreover have "?s1\<lparr>cs_unsub := Selecting\<rparr> = racing_csub" by (simp add: racing_csub_def)
  ultimately show ?thesis by (metis converse_rtranclp_into_rtranclp rtranclp.rtrancl_refl)
qed

lemma racing_csub_stuck: "csub_step\<^sup>*\<^sup>* racing_csub (stuck_csub e :: ('v, 'e) csub)"
proof -
  let ?s1 = "forward_in (Inl e) (racing_csub :: ('v, 'e) csub)"
  let ?s2 = "run_close True (Some (OtherError e)) ?s1"
  have "csub_step racing_csub ?s1" by (rule delivering) (simp add: racing_csub_def)
  moreover have "csub_step ?s1 ?s2" by (rule run_closes) (simp add: forward_in_def)
  moreover have "csub_step ?s2 (stuck_csub e)" unfolding stuck_csub_def by (rule run_requests) (simp add: run_close_def)
  ultimately show ?thesis by (meson converse_rtranclp_into_rtranclp rtranclp.rtrancl_refl)
qed

lemma stuck_csub_simps [simp]: "cs_run (stuck_csub e) = SendErr (Some (OtherError e))" "cs_unsub (stuck_csub e) = Selecting"
  by (simp_all add: stuck_csub_def csub_op_defs racing_csub_def)

lemma stuck_csub_reachable: "csub_step\<^sup>*\<^sup>* newClientSubscription (stuck_csub e :: ('v, 'e) csub)"
  using racing_csub_reachable racing_csub_stuck by (rule rtranclp_trans)

section \<open>Properties\<close>

text \<open>
  An identifier is the canonical hexadecimal text of the 16 bytes it is made from, so it decodes to
  them and two identifiers are equal only for equal bytes. The seed of the generator has 16 bits
  when the system's randomness is available: two generators whose first two random bytes agree make the
  same identifiers.
\<close>
theorem subscription_ids:
  "length b = 16 \<Longrightarrow> DecodeBig (encodeID b) = Inr (big_set_bytes b)"
  "length b = 16 \<Longrightarrow> length b' = 16 \<Longrightarrow> encodeID b = encodeID b' \<longleftrightarrow> b = b'"
  "generator_seed True buf now < 2 ^ 16"
  "take 2 buf = take 2 buf' \<Longrightarrow> 2 \<le> length buf \<Longrightarrow>
     next_id rng (generator_seed True buf now) k = next_id rng (generator_seed True buf' now') k"
proof -
  have dec: "DecodeBig (encodeID b) = Inr (big_set_bytes b)" if "length b = 16" for b
  proof -
    have "big_set_bytes b < 256 ^ 16" using big_set_bytes_less [of b] that by simp
    then have "big_set_bytes b < 2 ^ 256" by simp
    then show ?thesis by (simp add: encodeID_eq DecodeBig_EncodeBig)
  qed
  show "DecodeBig (encodeID b) = Inr (big_set_bytes b)" if "length b = 16" by (rule dec [OF that])
  show "encodeID b = encodeID b' \<longleftrightarrow> b = b'" if l: "length b = 16" "length b' = 16"
  proof
    assume "encodeID b = encodeID b'"
    then have "big_set_bytes b = big_set_bytes b'" using dec [OF l(1)] dec [OF l(2)] by simp
    then show "b = b'" using l by (intro big_set_bytes_inject) simp_all
  qed simp
  show "generator_seed True buf now < 2 ^ 16"
  proof -
    have "unat (buf ! 0) < 256" "unat (buf ! 1) < 256" by (rule unat_byte_less)+
    then have "unat (buf ! 0) * 256 + unat (buf ! 1) < 65536" by linarith
    then show ?thesis by (simp add: generator_seed_def)
  qed
  show "next_id rng (generator_seed True buf now) k = next_id rng (generator_seed True buf' now') k"
    if t: "take 2 buf = take 2 buf'" and l: "2 \<le> length buf"
  proof -
    have "buf ! i = buf' ! i" if "i < 2" for i using that t by (metis nth_take)
    then have "generator_seed True buf now = generator_seed True buf' now'" by (simp add: generator_seed_def)
    then show ?thesis by (simp only: )
  qed
qed

lemma subscription_ids_witness:
  "DecodeBig (encodeID (replicate 15 0 @ [7])) = Inr (big_set_bytes (replicate 15 0 @ [7]))"
  by (rule subscription_ids(1)) simp

lemma notifier_order_parts:
  assumes "notifier_run quoteJ ns i n ds True"
  shows "nt_written n = (if nt_activated n then map (notification quoteJ ns \<lparr>ss_id = i, ss_namespace = ns\<rparr>) ds else [])"
    "\<not> nt_activated n \<Longrightarrow> nt_buffer n = ds"
  using notifier_run_inv [OF assms] by (simp_all add: notifier_inv_def sub_with_id_def)

text \<open>
  C29. As long as no write fails, a notifier that is activated at most once has kept the notifications given
  to it before the activation, and after it has written exactly those given to it, each once and in the
  order of the calls, whatever calls of \<open>Notify\<close> and \<open>takeSubscription\<close> come before and after it. The
  comment of \<open>activate\<close> says so; that of \<open>CreateSubscription\<close> says that they are dropped. A second
  activation would write what was kept again.
\<close>
theorem notifier_order:
  assumes "notifier_run quoteJ ns i n ds True"
  shows "(nt_written n = (if nt_activated n then map (notification quoteJ ns \<lparr>ss_id = i, ss_namespace = ns\<rparr>) ds else [])) \<and>
    (\<not> nt_activated n \<longrightarrow> nt_buffer n = ds)"
  by (rule conjI, rule notifier_order_parts(1) [OF assms],
      rule impI, rule notifier_order_parts(2) [OF assms], assumption)

lemma notifier_order_witness:
  "nt_buffer (the (map_option fst (CreateSubscription (new_notifier ''a'') ''0x1'') :: unit notifier option)) = []"
proof (rule notifier_order [THEN conjunct2, rule_format])
  show "notifier_run id ''a'' ''0x1'' (the (map_option fst (CreateSubscription (new_notifier ''a'') ''0x1'') :: unit notifier option)) [] True"
    by (rule notifier_run.created) (simp add: CreateSubscription_def new_notifier_def Let_def)
qed (simp add: CreateSubscription_def new_notifier_def Let_def)

lemma csub_fifo_parts:
  assumes "csub_step\<^sup>*\<^sup>* newClientSubscription s"
  shows "cs_in s = cs_delivered s @ cs_buffer s" "length (cs_buffer s) \<le> 20000"
    "length (cs_errs s) \<le> 1" "cs_errs s \<noteq> [] \<or> cs_errClosed s \<Longrightarrow> cs_run s = RunDone" "cs_requests s \<le> 1"
    "cs_forwardDone s \<Longrightarrow> csub_step\<^sup>*\<^sup>* s s' \<Longrightarrow> cs_in s' = cs_in s \<and> cs_delivered s' = cs_delivered s"
proof -
  have i: "csub_inv s" using assms by (rule csub_steps_inv)
  show "length (cs_buffer s) \<le> 20000" using i by (simp add: csub_inv_def maxClientSubscriptionBuffer_def)
  show "length (cs_errs s) \<le> 1" using i by (cases "cs_errs s = []") (simp_all add: csub_inv_def)
  show "cs_in s' = cs_in s \<and> cs_delivered s' = cs_delivered s" if "cs_forwardDone s" "csub_step\<^sup>*\<^sup>* s s'"
    using csub_steps_forwardDone [OF that(2,1) i] .
qed (use csub_steps_inv [OF assms] in \<open>auto simp: csub_inv_def\<close>)

text \<open>
  C30. The forwarding loop delivers what it accepted in order, without loss or repetition, and holds back at
  most 20000 values; when it has ended nothing more is accepted or delivered. The client receives at
  most one error, only after the loop has ended, the error channel is closed only after the goroutine
  has, and the server is called at most once.
\<close>
theorem csub_fifo:
  assumes "csub_step\<^sup>*\<^sup>* newClientSubscription s"
  shows "(cs_in s = cs_delivered s @ cs_buffer s) \<and>
    (length (cs_buffer s) \<le> 20000) \<and>
    (length (cs_errs s) \<le> 1) \<and>
    ((cs_errs s \<noteq> [] \<or> cs_errClosed s) \<longrightarrow> cs_run s = RunDone) \<and>
    (cs_requests s \<le> 1) \<and>
    (cs_forwardDone s \<longrightarrow> csub_step\<^sup>*\<^sup>* s s' \<longrightarrow> (cs_in s' = cs_in s \<and> cs_delivered s' = cs_delivered s))"
  by (rule conjI, rule csub_fifo_parts(1) [OF assms],
      rule conjI, rule csub_fifo_parts(2) [OF assms],
      rule conjI, rule csub_fifo_parts(3) [OF assms],
      rule conjI, rule impI, rule csub_fifo_parts(4) [OF assms], assumption,
      rule conjI, rule csub_fifo_parts(5) [OF assms],
      rule impI, rule impI, rule csub_fifo_parts(6) [OF assms], assumption, assumption)

lemma csub_fifo_witness: "length (cs_buffer (newClientSubscription :: (nat, unit) csub)) \<le> 20000"
  by (rule csub_fifo [THEN conjunct2, THEN conjunct1, rule_format]) (rule rtranclp.rtrancl_refl)

lemma unsub_blocked:
  assumes "csub_inv s" "cs_run s = SendErr (Some err)" "cs_unsub s = Selecting"
  shows "csub_step s s' \<longleftrightarrow> s' = run_error err s"
proof
  show "s' = run_error err s" if "csub_step s s'"
    using that assms by (elim csub_stepE) (auto simp: csub_inv_def)
qed (simp add: error_received assms(2))

text \<open>
  C31. \<open>Unsubscribe\<close> called while the loop runs: at every moment the loop can take its message, and the loop
  goes on with the call in its select unless it takes the message, the connection is closed or a
  notification ends the loop (one that does not decode, or that finds the buffer full). Once
  the message is taken, every run has at most four steps, no error is sent, and a run can only stop when the
  call has returned and the error channel is closed, without the help of anyone. When the loop ended for
  another reason with an error that was not yet received, the call waits for the reader of the error
  channel: no other step of the subscription is possible; and a call during the loop can come to this.
\<close>
theorem Unsubscribe_needs_reader:
  fixes s :: "('v, 'e) csub"
  assumes "csub_step\<^sup>*\<^sup>* newClientSubscription s"
  shows "(cs_run s = Forward \<and> cs_unsub s = Selecting \<longrightarrow>
      (\<exists>s'. csub_step s s' \<and> cs_unsub s' = WaitDone) \<and>
      (\<forall>s'. csub_step s s' \<longrightarrow>
        cs_unsub s' = WaitDone \<or> cs_run s' = Forward \<and> cs_unsub s' = Selecting \<or>
        (\<exists>err. s' = forward_quit err s) \<or> (\<exists>val. s' = forward_in val s \<and> cs_run s' \<noteq> Forward))) \<and>
    (cs_unsub s = WaitDone \<longrightarrow>
      (\<forall>n s'. (csub_step ^^ n) s s' \<longrightarrow>
        n \<le> 4 \<and> cs_errs s' = [] \<and>
        (cs_unsub s' = Returned \<and> cs_errClosed s' \<or> cs_unsub s' = WaitDone \<and> (\<exists>t. csub_step s' t)))) \<and>
    (cs_run s = SendErr (Some err) \<and> cs_unsub s = Selecting \<longrightarrow> (\<forall>s'. csub_step s s' \<longleftrightarrow> s' = run_error err s)) \<and>
    (\<exists>r t :: ('v, 'e) csub. csub_step\<^sup>*\<^sup>* newClientSubscription r \<and> cs_run r = Forward \<and> cs_unsub r = Selecting \<and>
      csub_step\<^sup>*\<^sup>* r t \<and> cs_run t = SendErr (Some (OtherError e)) \<and> cs_unsub t = Selecting)"
proof -
  have inv: "csub_inv s" using assms by (rule csub_steps_inv)
  have run: "n \<le> 4 \<and> cs_errs s' = [] \<and>
      (cs_unsub s' = Returned \<and> cs_errClosed s' \<or> cs_unsub s' = WaitDone \<and> (\<exists>t. csub_step s' t))"
    if "cs_unsub s = WaitDone" "(csub_step ^^ n) s s'" for n s'
  proof -
    have "unsub_taken s" using inv that(1) by (simp add: unsub_taken_def csub_inv_def)
    then have t: "unsub_taken s'" "n \<le> 4" using unsub_taken_runs [OF that(2)] unsub_left_le [of s] by linarith+
    then show ?thesis using unsub_taken_moves [OF t(1)] by (auto simp: unsub_taken_def csub_inv_def)
  qed
  show ?thesis
    using unsub_race [OF inv] run unsub_blocked [OF inv] racing_csub_reachable racing_csub_stuck [of e]
    by (intro conjI exI [of _ racing_csub] exI [of _ "stuck_csub e"]) (blast | simp add: racing_csub_def)+
qed

lemma Unsubscribe_needs_reader_witness:
  "\<forall>s'. csub_step (stuck_csub ()) s' \<longleftrightarrow> s' = run_error (OtherError ()) (stuck_csub () :: (nat, unit) csub)"
  by (rule Unsubscribe_needs_reader [OF stuck_csub_reachable, THEN conjunct2, THEN conjunct2, THEN conjunct1, THEN mp]) simp

end
