(* ===== verification/Rpc_Service.thy ===== *)
theory Rpc_Service
  imports Rpc_Json "HOL-Library.AList"
begin

text \<open>
  \<open>src/rpc/service.go\<close>: the registry of services, the callbacks made from the methods of a receiver by
  reflection, and how a callback is called. A reflected type is a base type, with whether it implements
  \<open>error\<close>, under pointers; a reflected function has its parameter and result types and what it does with
  its arguments. Go's maps are association lists with distinct keys. Names are ASCII.
\<close>

section \<open>Reflected types and values\<close>

datatype gtype = GPtr gtype | GBase string bool

definition contextType :: gtype where "contextType = GBase ''context.Context'' False"
definition errorType :: gtype where "errorType = GBase ''error'' True"
definition subscriptionType :: gtype where "subscriptionType = GBase ''rpc.Subscription'' False"

fun strip_ptr :: "gtype \<Rightarrow> gtype" where
  "strip_ptr (GPtr t) = strip_ptr t"
| "strip_ptr t = t"

fun implements_error :: "gtype \<Rightarrow> bool" where
  "implements_error (GBase n e) = e"
| "implements_error (GPtr t) = False"

definition isContextType :: "gtype \<Rightarrow> bool" where
  "isContextType t \<longleftrightarrow> strip_ptr t = contextType"

definition isErrorType :: "gtype \<Rightarrow> bool" where
  "isErrorType t \<longleftrightarrow> implements_error (strip_ptr t)"

definition isSubscriptionType :: "gtype \<Rightarrow> bool" where
  "isSubscriptionType t \<longleftrightarrow> strip_ptr t = subscriptionType"

text \<open>A value: nil, an error, or one of a kind that has no nil.\<close>

datatype ('v, 'd) gval = GNil | GErr "'d rpc_error" | GVal 'v

text \<open>A function either returns its results or panics.\<close>

record ('v, 'd) gfunc =
  gf_in :: "gtype list"
  gf_out :: "gtype list"
  gf_variadic :: bool
  gf_body :: "('v, 'd) gval list \<Rightarrow> ('v, 'd) gval list option"

text \<open>\<open>reflect.Value.Call\<close>, which panics on a wrong number of arguments.\<close>

definition reflect_Call :: "('v, 'd) gfunc \<Rightarrow> ('v, 'd) gval list \<Rightarrow> ('v, 'd) gval list option" where
  "reflect_Call fn args =
     (if (if gf_variadic fn then length (gf_in fn) - 1 \<le> length args else length args = length (gf_in fn))
      then gf_body fn args else None)"

section \<open>Callbacks\<close>

record ('v, 'd) callback =
  cb_fn :: "('v, 'd) gfunc"
  cb_rcvr :: "('v, 'd) gval option"
  cb_argTypes :: "gtype list"
  cb_hasCtx :: bool
  cb_errPos :: int
  cb_isSubscribe :: bool

definition isPubSub :: "('v, 'd) gfunc \<Rightarrow> bool" where
  "isPubSub fn =
     (if length (gf_in fn) < 2 \<or> length (gf_out fn) \<noteq> 2 then False
      else isContextType (gf_in fn ! 1) \<and> isSubscriptionType (gf_out fn ! 0) \<and> isErrorType (gf_out fn ! 1))"

definition makeArgTypes :: "('v, 'd) callback \<Rightarrow> ('v, 'd) callback" where
  "makeArgTypes c =
     (let params = gf_in (cb_fn c);
          firstArg = (if cb_rcvr c \<noteq> None then 1 else 0);
          (c, firstArg) = (if firstArg < length params \<and> params ! firstArg = contextType
                           then (c\<lparr>cb_hasCtx := True\<rparr>, firstArg + 1) else (c, firstArg))
      in c\<lparr>cb_argTypes := drop firstArg params\<rparr>)"

definition newCallback :: "('v, 'd) gval option \<Rightarrow> ('v, 'd) gfunc \<Rightarrow> ('v, 'd) callback option" where
  "newCallback receiver fn =
     (let c = \<lparr>cb_fn = fn, cb_rcvr = receiver, cb_argTypes = [], cb_hasCtx = False, cb_errPos = - 1,
               cb_isSubscribe = isPubSub fn\<rparr>;
          c = makeArgTypes c;
          outs = gf_out fn
      in if 2 < length outs then None
         else if length outs = 1 \<and> isErrorType (outs ! 0) then Some (c\<lparr>cb_errPos := 0\<rparr>)
         else if length outs = 2 then
           (if isErrorType (outs ! 0) \<or> \<not> isErrorType (outs ! 1) then None else Some (c\<lparr>cb_errPos := 1\<rparr>))
         else Some c)"

text \<open>What \<open>call\<close> returns as its result: nil, the zero \<open>reflect.Value\<close>, or a value.\<close>

datatype ('v, 'd) call_result = ResNil | ResZeroValue | ResVal "('v, 'd) gval"

definition crashed :: "'d rpc_error" where
  "crashed = InternalServer errcodePanic ''method handler crashed''"

text \<open>The part after the call of the function; \<open>None\<close> is a panic (\<open>IsNil\<close> on a kind that has no nil).\<close>

definition call_results :: "('v, 'd) callback \<Rightarrow> ('v, 'd) gval list \<Rightarrow> (('v, 'd) call_result, 'd rpc_error) ret option" where
  "call_results c results =
     (if length results = 0 then Some (ResNil, None)
      else if 0 \<le> cb_errPos c then
        (case results ! nat (cb_errPos c) of
           GNil \<Rightarrow> Some (ResVal (results ! 0), None)
         | GErr err \<Rightarrow> Some (ResZeroValue, Some err)
         | GVal v \<Rightarrow> None)
      else Some (ResVal (results ! 0), None))"

definition callback_call ::
  "('v, 'd) callback \<Rightarrow> ('v, 'd) gval \<Rightarrow> string \<Rightarrow> ('v, 'd) gval list \<Rightarrow> (('v, 'd) call_result, 'd rpc_error) ret" where
  "callback_call c ctx method args =
     (let fullargs = (case cb_rcvr c of Some r \<Rightarrow> [r] | None \<Rightarrow> []);
          fullargs = (if cb_hasCtx c then fullargs @ [ctx] else fullargs)
      in case reflect_Call (cb_fn c) fullargs of
           None \<Rightarrow> (ResNil, Some crashed)
         | Some results \<Rightarrow>
             (case call_results c results of
                None \<Rightarrow> (ResNil, Some crashed)
              | Some r \<Rightarrow> r))"

section \<open>Methods and services\<close>

record ('v, 'd) gmethod =
  gm_name :: string
  gm_pkgPath :: string
  gm_func :: "('v, 'd) gfunc"

record ('v, 'd) receiver =
  rc_value :: "('v, 'd) gval"
  rc_type :: string
  rc_methods :: "('v, 'd) gmethod list"

definition formatName :: "string \<Rightarrow> string" where
  "formatName name = (case name of [] \<Rightarrow> [] | c # cs \<Rightarrow> to_lower c # cs)"

fun suitable_from :: "('v, 'd) gval \<Rightarrow> ('v, 'd) gmethod list \<Rightarrow> (string \<times> ('v, 'd) callback) list \<Rightarrow> (string \<times> ('v, 'd) callback) list" where
  "suitable_from r [] callbacks = callbacks"
| "suitable_from r (m # ms) callbacks =
     (if gm_pkgPath m \<noteq> [] then suitable_from r ms callbacks
      else (case newCallback (Some r) (gm_func m) of
              None \<Rightarrow> suitable_from r ms callbacks
            | Some cb \<Rightarrow> suitable_from r ms (AList.update (formatName (gm_name m)) cb callbacks)))"

definition suitableCallbacks :: "('v, 'd) receiver \<Rightarrow> (string \<times> ('v, 'd) callback) list" where
  "suitableCallbacks r = suitable_from (rc_value r) (rc_methods r) []"

record ('v, 'd) service =
  sv_name :: string
  sv_callbacks :: "(string \<times> ('v, 'd) callback) list"
  sv_subscriptions :: "(string \<times> ('v, 'd) callback) list"

type_synonym ('v, 'd) registry = "(string \<times> ('v, 'd) service) list"

definition add_callback :: "string \<times> ('v, 'd) callback \<Rightarrow> ('v, 'd) service \<Rightarrow> ('v, 'd) service" where
  "add_callback ncb svc =
     (if cb_isSubscribe (snd ncb)
      then svc\<lparr>sv_subscriptions := AList.update (fst ncb) (snd ncb) (sv_subscriptions svc)\<rparr>
      else svc\<lparr>sv_callbacks := AList.update (fst ncb) (snd ncb) (sv_callbacks svc)\<rparr>)"

text \<open>The error text, or the registry afterwards.\<close>

definition registerName :: "('v, 'd) registry \<Rightarrow> string \<Rightarrow> ('v, 'd) receiver \<Rightarrow> string + ('v, 'd) registry" where
  "registerName r name rcvr =
     (if name = [] then Inl (''no service name for type '' @ rc_type rcvr)
      else (let callbacks = suitableCallbacks rcvr
            in if length callbacks = 0
               then Inl (''service '' @ rc_type rcvr @ '' doesn't have any suitable methods/subscriptions to expose'')
               else (let svc = (case map_of r name of
                                  Some svc \<Rightarrow> svc
                                | None \<Rightarrow> \<lparr>sv_name = name, sv_callbacks = [], sv_subscriptions = []\<rparr>)
                     in Inr (AList.update name (fold add_callback callbacks svc) r))))"

definition registry_callback :: "('v, 'd) registry \<Rightarrow> string \<Rightarrow> ('v, 'd) callback option" where
  "registry_callback r method =
     (let elem = split2_on serviceMethodSeparator method
      in if length elem \<noteq> 2 then None
         else (case map_of r (elem ! 0) of None \<Rightarrow> None | Some svc \<Rightarrow> map_of (sv_callbacks svc) (elem ! 1)))"

definition registry_subscription :: "('v, 'd) registry \<Rightarrow> string \<Rightarrow> string \<Rightarrow> ('v, 'd) callback option" where
  "registry_subscription r srv name =
     (case map_of r srv of None \<Rightarrow> None | Some svc \<Rightarrow> map_of (sv_subscriptions svc) name)"

section \<open>Well-formed callbacks\<close>

text \<open>
  What \<open>newCallback\<close> guarantees: the arguments left after receiver and context, and results that are at
  most one value followed by at most one error, at the recorded position.
\<close>

definition implicit_args :: "('v, 'd) callback \<Rightarrow> nat" where
  "implicit_args c = of_bool (cb_rcvr c \<noteq> None) + of_bool (cb_hasCtx c)"

definition wf_callback :: "('v, 'd) callback \<Rightarrow> bool" where
  "wf_callback c \<longleftrightarrow>
     cb_argTypes c = drop (implicit_args c) (gf_in (cb_fn c)) \<and>
     (cb_hasCtx c \<longrightarrow> implicit_args c \<le> length (gf_in (cb_fn c))) \<and>
     length (gf_out (cb_fn c)) \<le> 2 \<and>
     (if cb_errPos c < 0 then length (gf_out (cb_fn c)) \<le> 1 \<and> (\<forall>t\<in>set (gf_out (cb_fn c)). \<not> isErrorType t)
      else nat (cb_errPos c) + 1 = length (gf_out (cb_fn c)) \<and> isErrorType (last (gf_out (cb_fn c))) \<and>
           (\<forall>t\<in>set (butlast (gf_out (cb_fn c))). \<not> isErrorType t))"

lemma makeArgTypes_simps [simp]:
  "cb_fn (makeArgTypes c) = cb_fn c" "cb_rcvr (makeArgTypes c) = cb_rcvr c"
  "cb_errPos (makeArgTypes c) = cb_errPos c" "cb_isSubscribe (makeArgTypes c) = cb_isSubscribe c"
  by (simp_all add: makeArgTypes_def Let_def)

lemma newCallback_SomeD:
  assumes "newCallback r fn = Some c"
  shows "cb_fn c = fn" "cb_rcvr c = r" "cb_isSubscribe c = isPubSub fn"
  using assms by (auto simp: newCallback_def Let_def split: if_splits)


lemma length_le_2_cases: "length xs \<le> 2 \<Longrightarrow> xs = [] \<or> (\<exists>a. xs = [a]) \<or> (\<exists>a b. xs = [a, b])"
  by (cases xs; cases "drop 1 xs") (auto simp: neq_Nil_conv)

lemma makeArgTypes_wf:
  fixes c :: "('v, 'd) callback"
  assumes "\<not> cb_hasCtx c"
  shows "cb_argTypes (makeArgTypes c) = drop (implicit_args (makeArgTypes c)) (gf_in (cb_fn c))"
    "cb_hasCtx (makeArgTypes c) \<Longrightarrow> implicit_args (makeArgTypes c) \<le> length (gf_in (cb_fn c))"
  using assms by (auto simp: makeArgTypes_def implicit_args_def Let_def Suc_le_eq)

lemma newCallback_wf:
  assumes "newCallback r fn = Some c"
  shows "wf_callback c"
proof -
  let ?c = "makeArgTypes \<lparr>cb_fn = fn, cb_rcvr = r, cb_argTypes = [], cb_hasCtx = False, cb_errPos = - 1,
    cb_isSubscribe = isPubSub fn\<rparr>"
  have l: "length (gf_out fn) \<le> 2" using assms by (auto simp: newCallback_def Let_def split: if_splits)
  have a: "cb_argTypes ?c = drop (implicit_args ?c) (gf_in fn)"
    "cb_hasCtx ?c \<Longrightarrow> implicit_args ?c \<le> length (gf_in fn)"
    using makeArgTypes_wf [of "\<lparr>cb_fn = fn, cb_rcvr = r, cb_argTypes = [], cb_hasCtx = False, cb_errPos = - 1,
      cb_isSubscribe = isPubSub fn\<rparr>"] by simp_all
  have i: "implicit_args (?c\<lparr>cb_errPos := k\<rparr>) = implicit_args ?c" for k by (simp add: implicit_args_def)
  show ?thesis
    using assms length_le_2_cases [OF l] a
    by (elim disjE exE) (auto simp: newCallback_def wf_callback_def Let_def i split: if_splits)
qed

section \<open>Calls\<close>

text \<open>The arguments that \<open>call\<close> passes: the receiver and the context, where the method has them.\<close>

definition passed :: "('v, 'd) callback \<Rightarrow> ('v, 'd) gval \<Rightarrow> ('v, 'd) gval list" where
  "passed c ctx = (case cb_rcvr c of Some r \<Rightarrow> [r] | None \<Rightarrow> []) @ (if cb_hasCtx c then [ctx] else [])"

lemma length_passed: "length (passed c ctx) = implicit_args c"
  by (auto simp: passed_def implicit_args_def split: option.splits)

lemma callback_call_eq:
  "callback_call c ctx m args =
     (case reflect_Call (cb_fn c) (passed c ctx) of
        None \<Rightarrow> (ResNil, Some crashed)
      | Some results \<Rightarrow> (case call_results c results of None \<Rightarrow> (ResNil, Some crashed) | Some r \<Rightarrow> r))"
  by (simp add: callback_call_def passed_def Let_def split: option.split)

text \<open>Whether the method needs an argument from the request: a variadic parameter may stay empty.\<close>

definition needs_args :: "('v, 'd) callback \<Rightarrow> bool" where
  "needs_args c \<longleftrightarrow> (if gf_variadic (cb_fn c) then 1 < length (cb_argTypes c) else cb_argTypes c \<noteq> [])"

lemma reflect_Call_passed:
  assumes "wf_callback c" "gf_variadic (cb_fn c) \<longrightarrow> cb_argTypes c \<noteq> []" "cb_rcvr c \<noteq> None \<longrightarrow> gf_in (cb_fn c) \<noteq> []"
  shows "reflect_Call (cb_fn c) (passed c ctx) = (if needs_args c then None else gf_body (cb_fn c) (passed c ctx))"
proof -
  have "implicit_args c \<le> length (gf_in (cb_fn c))"
    using assms by (cases "cb_hasCtx c") (auto simp: wf_callback_def implicit_args_def Suc_le_eq)
  then show ?thesis
    using assms by (auto simp: reflect_Call_def length_passed wf_callback_def needs_args_def)
qed

lemma call_ignores_arguments_parts:
  assumes "newCallback r fn = Some c" "gf_variadic fn \<longrightarrow> cb_argTypes c \<noteq> []" "r \<noteq> None \<longrightarrow> gf_in fn \<noteq> []"
  shows "needs_args c \<Longrightarrow>
      callback_call c ctx m args = (ResNil, Some (InternalServer (- 32603) ''method handler crashed''))"
    "\<not> needs_args c \<Longrightarrow> gf_body fn (passed c ctx) = None \<Longrightarrow>
      callback_call c ctx m args = (ResNil, Some (InternalServer (- 32603) ''method handler crashed''))"
    "\<not> needs_args c \<Longrightarrow> gf_body fn (passed c ctx) = Some results \<Longrightarrow> length results = length (gf_out fn) \<Longrightarrow>
      callback_call c ctx m args =
        (if results = [] then (ResNil, None)
         else if cb_errPos c < 0 then (ResVal (hd results), None)
         else (case last results of
                 GNil \<Rightarrow> (ResVal (hd results), None)
               | GErr err \<Rightarrow> (ResZeroValue, Some err)
               | GVal v \<Rightarrow> (ResNil, Some (InternalServer (- 32603) ''method handler crashed''))))"
proof -
  have wf: "wf_callback c" and fn: "cb_fn c = fn" "cb_rcvr c = r"
    using assms(1) by (rule newCallback_wf) (rule newCallback_SomeD [OF assms(1)])+
  have call: "reflect_Call fn (passed c ctx) = (if needs_args c then None else gf_body fn (passed c ctx))"
    using reflect_Call_passed [of c ctx] wf fn assms(2,3) by simp
  have cr: "crashed = InternalServer (- 32603) ''method handler crashed''"
    by (simp add: crashed_def errcodePanic_def)
  show "callback_call c ctx m args = (ResNil, Some (InternalServer (- 32603) ''method handler crashed''))"
    if "needs_args c"
    using that by (simp add: callback_call_eq fn call cr)
  show "callback_call c ctx m args = (ResNil, Some (InternalServer (- 32603) ''method handler crashed''))"
    if "\<not> needs_args c" "gf_body fn (passed c ctx) = None"
    using that by (simp add: callback_call_eq fn call cr)
  assume r: "\<not> needs_args c" "gf_body fn (passed c ctx) = Some results" "length results = length (gf_out fn)"
  have pos: "results ! nat (cb_errPos c) = last results" if "0 \<le> cb_errPos c" "results \<noteq> []"
  proof -
    have "nat (cb_errPos c) = length results - 1" using wf that r(3) fn by (auto simp: wf_callback_def)
    then show ?thesis using that(2) by (simp add: last_conv_nth)
  qed
  show "callback_call c ctx m args =
        (if results = [] then (ResNil, None)
         else if cb_errPos c < 0 then (ResVal (hd results), None)
         else (case last results of
                 GNil \<Rightarrow> (ResVal (hd results), None)
               | GErr err \<Rightarrow> (ResZeroValue, Some err)
               | GVal v \<Rightarrow> (ResNil, Some (InternalServer (- 32603) ''method handler crashed''))))"
    using r(1,2) pos by (auto simp: callback_call_eq fn call call_results_def cr hd_conv_nth split: gval.split)
qed


definition ping_fn :: "(nat, unit) gfunc" where
  "ping_fn = \<lparr>gf_in = [GBase ''T'' False, GBase ''int'' False], gf_out = [GBase ''int'' False], gf_variadic = False,
     gf_body = (\<lambda>args. Some [GVal 1])\<rparr>"


section \<open>The registry\<close>

lemma suitable_from_distinct:
  "distinct (map fst callbacks) \<Longrightarrow> distinct (map fst (suitable_from r ms callbacks))"
  by (induction ms arbitrary: callbacks) (auto simp: distinct_update split: option.splits)

lemma suitableCallbacks_distinct: "distinct (map fst (suitableCallbacks r))"
  by (simp add: suitableCallbacks_def suitable_from_distinct)

lemma suitable_from_wf:
  "(\<And>n c. map_of callbacks n = Some c \<Longrightarrow> wf_callback c) \<Longrightarrow>
   map_of (suitable_from r ms callbacks) n = Some c \<Longrightarrow> wf_callback c"
proof (induction ms arbitrary: callbacks)
  case (Cons m ms)
  show ?case
  proof (cases "gm_pkgPath m \<noteq> [] \<or> newCallback (Some r) (gm_func m) = None")
    case False
    then obtain cb where cb: "newCallback (Some r) (gm_func m) = Some cb" "gm_pkgPath m = []" by auto
    have upd: "wf_callback c" if "map_of (AList.update (formatName (gm_name m)) cb callbacks) n = Some c" for n c
      using that Cons.prems(1) newCallback_wf [OF cb(1)] by (auto simp: update_conv' split: if_splits)
    have "map_of (suitable_from r ms (AList.update (formatName (gm_name m)) cb callbacks)) n = Some c"
      using Cons.prems(2) cb by simp
    from Cons.IH [OF _ this] show ?thesis using upd by blast
  next
    case True
    then have "map_of (suitable_from r ms callbacks) n = Some c" using Cons.prems(2) by (auto split: if_splits)
    from Cons.IH [OF _ this] show ?thesis using Cons.prems(1) by blast
  qed
qed simp

text \<open>The callbacks of a service, of the two kinds.\<close>

definition service_lookup :: "bool \<Rightarrow> ('v, 'd) service \<Rightarrow> string \<Rightarrow> ('v, 'd) callback option" where
  "service_lookup sub svc n = map_of (if sub then sv_subscriptions svc else sv_callbacks svc) n"

lemma service_lookup_add:
  "service_lookup sub (add_callback (k, c) svc) n =
     (if n = k \<and> cb_isSubscribe c = sub then Some c else service_lookup sub svc n)"
  by (auto simp: service_lookup_def add_callback_def update_conv')

lemma service_lookup_fold:
  assumes "distinct (map fst cbs)"
  shows "service_lookup sub (fold add_callback cbs svc) n =
     (case map_of cbs n of Some c \<Rightarrow> if cb_isSubscribe c = sub then Some c else service_lookup sub svc n
      | None \<Rightarrow> service_lookup sub svc n)"
  using assms
proof (induction cbs arbitrary: svc)
  case (Cons kc cbs)
  obtain k c where kc: "kc = (k, c)" by fastforce
  have "map_of cbs k = None" using Cons.prems kc by (simp add: map_of_eq_None_iff)
  then show ?case using Cons kc by (auto simp: service_lookup_add split: option.splits)
qed simp

definition lookup :: "bool \<Rightarrow> ('v, 'd) registry \<Rightarrow> string \<Rightarrow> string \<Rightarrow> ('v, 'd) callback option" where
  "lookup sub r srv n = (case map_of r srv of None \<Rightarrow> None | Some svc \<Rightarrow> service_lookup sub svc n)"

lemma registry_subscription_eq: "registry_subscription r srv n = lookup True r srv n"
  by (simp add: registry_subscription_def lookup_def service_lookup_def split: option.split)

lemma split2_on_method:
  assumes "d \<notin> set name"
  shows "split2_on d (name @ d # m) = [name, m]"
proof -
  have "takeWhile (\<lambda>c. c \<noteq> d) (name @ d # m) = name \<and> dropWhile (\<lambda>c. c \<noteq> d) (name @ d # m) = d # m"
    using assms by (induction name) auto
  then show ?thesis by (simp add: split2_on_def)
qed

lemma registry_callback_method:
  "CHR ''_'' \<notin> set name \<Longrightarrow> registry_callback r (name @ CHR ''_'' # m) = lookup False r name m"
  by (simp add: registry_callback_def serviceMethodSeparator_def split2_on_method lookup_def service_lookup_def split: option.split)

lemma registry_callback_cases:
  "registry_callback r method = None \<or>
   (\<exists>name m. method = name @ CHR ''_'' # m \<and> CHR ''_'' \<notin> set name \<and> registry_callback r method = lookup False r name m)"
proof (cases "CHR ''_'' \<in> set method")
  case True
  then obtain name m where "method = name @ CHR ''_'' # m" "CHR ''_'' \<notin> set name"
    by (metis split_list_first)
  then show ?thesis using registry_callback_method by blast
qed (simp add: registry_callback_def serviceMethodSeparator_def split2_on_def)

lemma registerName_lookup:
  assumes "registerName r name rcvr = Inr r'"
  shows "lookup sub r' srv n =
     (if srv = name
      then (case map_of (suitableCallbacks rcvr) n of
              Some c \<Rightarrow> if cb_isSubscribe c = sub then Some c else lookup sub r name n
            | None \<Rightarrow> lookup sub r name n)
      else lookup sub r srv n)"
proof -
  define svc where "svc = (case map_of r name of Some svc \<Rightarrow> svc
      | None \<Rightarrow> \<lparr>sv_name = name, sv_callbacks = [], sv_subscriptions = []\<rparr>)"
  have r': "r' = AList.update name (fold add_callback (suitableCallbacks rcvr) svc) r"
    using assms by (auto simp: registerName_def Let_def svc_def split: if_splits)
  have "service_lookup sub svc n = lookup sub r name n"
    by (simp add: svc_def lookup_def service_lookup_def split: option.split)
  then show ?thesis
    using service_lookup_fold [OF suitableCallbacks_distinct [of rcvr], of sub svc n]
    by (simp add: r' lookup_def update_conv' split: option.split)
qed

lemma registerName_lookups_parts:
  assumes "registerName r name rcvr = Inr r'"
  shows "CHR ''_'' \<notin> set name \<Longrightarrow> registry_callback r' (name @ CHR ''_'' # n) =
      (case map_of (suitableCallbacks rcvr) n of
         Some c \<Rightarrow> if cb_isSubscribe c then registry_callback r (name @ CHR ''_'' # n) else Some c
       | None \<Rightarrow> registry_callback r (name @ CHR ''_'' # n))"
    "registry_subscription r' name n =
      (case map_of (suitableCallbacks rcvr) n of
         Some c \<Rightarrow> if cb_isSubscribe c then Some c else registry_subscription r name n
       | None \<Rightarrow> registry_subscription r name n)"
    "srv \<noteq> name \<Longrightarrow> CHR ''_'' \<notin> set srv \<Longrightarrow>
       registry_callback r' (srv @ CHR ''_'' # n) = registry_callback r (srv @ CHR ''_'' # n) \<and>
       registry_subscription r' srv n = registry_subscription r srv n"
    "CHR ''_'' \<in> set name \<Longrightarrow> registry_callback r' method = registry_callback r method"
    "(\<And>sub srv n c. lookup sub r srv n = Some c \<Longrightarrow> wf_callback c) \<Longrightarrow>
       lookup sub r' srv n = Some c \<Longrightarrow> wf_callback c"
proof -
  note l = registerName_lookup [OF assms]
  show "registry_callback r' (name @ CHR ''_'' # n) =
      (case map_of (suitableCallbacks rcvr) n of
         Some c \<Rightarrow> if cb_isSubscribe c then registry_callback r (name @ CHR ''_'' # n) else Some c
       | None \<Rightarrow> registry_callback r (name @ CHR ''_'' # n))" if "CHR ''_'' \<notin> set name"
    unfolding registry_callback_method [OF that] l by (simp split: option.split)
  show "registry_subscription r' name n =
      (case map_of (suitableCallbacks rcvr) n of
         Some c \<Rightarrow> if cb_isSubscribe c then Some c else registry_subscription r name n
       | None \<Rightarrow> registry_subscription r name n)"
    unfolding registry_subscription_eq l by (simp split: option.split)
  show "registry_callback r' (srv @ CHR ''_'' # n) = registry_callback r (srv @ CHR ''_'' # n) \<and>
       registry_subscription r' srv n = registry_subscription r srv n"
    if "srv \<noteq> name" "CHR ''_'' \<notin> set srv"
    unfolding registry_callback_method [OF that(2)] registry_subscription_eq l using that(1) by simp
  show "registry_callback r' method = registry_callback r method" if us: "CHR ''_'' \<in> set name"
  proof (cases "CHR ''_'' \<in> set method")
    case True
    then obtain s m where s: "method = s @ CHR ''_'' # m" "CHR ''_'' \<notin> set s" by (metis split_list_first)
    then have "s \<noteq> name" using us by blast
    then show ?thesis unfolding s(1) registry_callback_method [OF s(2)] l by simp
  qed (simp add: registry_callback_def serviceMethodSeparator_def split2_on_def)
  show "wf_callback c" if "\<And>sub srv n c. lookup sub r srv n = Some c \<Longrightarrow> wf_callback c" "lookup sub r' srv n = Some c"
    using that suitable_from_wf [of "[]" "rc_value rcvr" "rc_methods rcvr" n c]
    unfolding l suitableCallbacks_def by (auto split: if_splits option.splits)
qed

text \<open>
  Registering a receiver under a name without underscore makes each of its suitable methods found,
  as \<open>name_method\<close> or as a subscription; all other lookups of that name and of other names are as
  before. Under a name with an underscore it changes no lookup of a callback at all, since \<open>callback\<close>
  splits the method at its first underscore. All callbacks found stay well-formed.
\<close>
theorem registerName_lookups:
  assumes "registerName r name rcvr = Inr r'"
  shows "(CHR ''_'' \<notin> set name \<longrightarrow> registry_callback r' (name @ CHR ''_'' # n) =
      (case map_of (suitableCallbacks rcvr) n of
         Some c \<Rightarrow> if cb_isSubscribe c then registry_callback r (name @ CHR ''_'' # n) else Some c
       | None \<Rightarrow> registry_callback r (name @ CHR ''_'' # n))) \<and>
    (registry_subscription r' name n =
      (case map_of (suitableCallbacks rcvr) n of
         Some c \<Rightarrow> if cb_isSubscribe c then Some c else registry_subscription r name n
       | None \<Rightarrow> registry_subscription r name n)) \<and>
    (srv \<noteq> name \<longrightarrow> CHR ''_'' \<notin> set srv \<longrightarrow> (registry_callback r' (srv @ CHR ''_'' # n) = registry_callback r (srv @ CHR ''_'' # n) \<and>
       registry_subscription r' srv n = registry_subscription r srv n)) \<and>
    (CHR ''_'' \<in> set name \<longrightarrow> registry_callback r' method = registry_callback r method) \<and>
    ((\<forall>sub srv n c. lookup sub r srv n = Some c \<longrightarrow> wf_callback c) \<longrightarrow> lookup sub r' srv n = Some c \<longrightarrow> wf_callback c)"
  by (rule conjI, rule impI, rule registerName_lookups_parts(1) [OF assms], assumption,
      rule conjI, rule registerName_lookups_parts(2) [OF assms],
      rule conjI, rule impI, rule impI, rule registerName_lookups_parts(3) [OF assms], assumption, assumption,
      rule conjI, rule impI, rule registerName_lookups_parts(4) [OF assms], assumption,
      rule impI, rule impI, rule registerName_lookups_parts(5) [OF assms], blast, assumption)

lemma to_lower_P: "to_lower CHR ''P'' = CHR ''p''"
  by code_simp

lemma registerName_lookups_witness:
  "registry_callback (projr (registerName [] ''x'' \<lparr>rc_value = GVal 0, rc_type = ''T'',
      rc_methods = [\<lparr>gm_name = ''Ping'', gm_pkgPath = [], gm_func = ping_fn\<rparr>]\<rparr>)) (''x'' @ CHR ''_'' # ''ping'') \<noteq> None"
  by (subst registerName_lookups [THEN conjunct1, rule_format, where r = "[]" and rcvr = "\<lparr>rc_value = GVal 0, rc_type = ''T'',
      rc_methods = [\<lparr>gm_name = ''Ping'', gm_pkgPath = [], gm_func = ping_fn\<rparr>]\<rparr>"])
    (simp_all add: registerName_def suitableCallbacks_def ping_fn_def newCallback_def makeArgTypes_def isErrorType_def
      contextType_def isPubSub_def formatName_def to_lower_P Let_def)

end
