(* ===== verification/Rpc_Handler.thy ===== *)
theory Rpc_Handler
  imports Rpc_Sub Rpc_Service
begin

text \<open>
  \<open>src/rpc/handler.go\<close>: the requests and subscriptions of one connection, the buffer of a batch call and
  the handling of incoming messages. Pointers to \<open>requestOp\<close>, \<open>ClientSubscription\<close> and
  \<open>Subscription\<close> objects are numbers, with a store for each. A map is an association list with distinct
  keys, in the order in which a loop over it visits the entries. A panic (sending on or closing a closed
  channel) is \<open>None\<close>. \<open>ClientSub\<close>, which the source does not declare, is taken to be
  \<open>ClientSubscription\<close>; the functions whose body stops before a \<open>return\<close> end in \<open>None\<close> of their
  own result.
\<close>

section \<open>Batches\<close>

record 'd batchCallBuffer =
  bb_calls :: "'d jsonrpcMessage list"
  bb_resp :: "'d jsonrpcMessage list"
  bb_wrote :: bool
  bb_out :: "('d jsonrpcMessage list \<times> bool) list"

definition new_batch :: "'d jsonrpcMessage list \<Rightarrow> 'd batchCallBuffer" where
  "new_batch calls = \<lparr>bb_calls = calls, bb_resp = [], bb_wrote = False, bb_out = []\<rparr>"

definition nextCall :: "'d batchCallBuffer \<Rightarrow> 'd jsonrpcMessage option" where
  "nextCall b = (if length (bb_calls b) = 0 then None else Some (bb_calls b ! 0))"

text \<open>\<open>None\<close>: slicing an empty list of calls.\<close>

definition pushResponse :: "'d jsonrpcMessage option \<Rightarrow> 'd batchCallBuffer \<Rightarrow> 'd batchCallBuffer option" where
  "pushResponse answer b =
     (let b = (case answer of Some a \<Rightarrow> b\<lparr>bb_resp := bb_resp b @ [a]\<rparr> | None \<Rightarrow> b)
      in if bb_calls b = [] then None else Some (b\<lparr>bb_calls := drop 1 (bb_calls b)\<rparr>))"

text \<open>\<open>bb_out\<close> are the calls of \<open>writeJSON\<close>.\<close>

definition doWrite :: "bool \<Rightarrow> 'd batchCallBuffer \<Rightarrow> 'd batchCallBuffer" where
  "doWrite isErrorResponse b =
     (if bb_wrote b then b
      else (let b = b\<lparr>bb_wrote := True\<rparr>
            in if 0 < length (bb_resp b) then b\<lparr>bb_out := bb_out b @ [(bb_resp b, isErrorResponse)]\<rparr> else b))"

definition timeoutError :: "'d rpc_error" where
  "timeoutError = InternalServer errcodeTimeout errMsgTimeout"

definition batch_timeout :: "(string \<Rightarrow> string) \<Rightarrow> 'd batchCallBuffer \<Rightarrow> 'd batchCallBuffer" where
  "batch_timeout quoteQ b =
     doWrite True (fold (\<lambda>msg b. if \<not> isNotification msg
                                 then b\<lparr>bb_resp := bb_resp b @ [errResponse quoteQ msg timeoutError]\<rparr> else b)
                        (bb_calls b) b)"

section \<open>State of a handler\<close>

text \<open>The errors that are stored: those of Go and of a response.\<close>

record ('d, 'e) requestOp =
  op_ids :: "string list"
  op_err :: "('d jsonError + 'e) option"
  op_resp :: "'d jsonrpcMessage list"
  op_closed :: bool
  op_sub :: "nat option"

record 'e clientSub =
  hs_subid :: string
  hs_running :: bool
  hs_in :: "raw list"
  hs_closes :: "'e option list"

record 'e subChan =
  sc_sent :: "'e option list"
  sc_closed :: bool

record ('d, 'e) handler =
  h_respWait :: "(string \<times> nat) list"
  h_clientSubs :: "(string \<times> nat) list"
  h_callWG :: nat
  h_cancelled :: bool
  h_allowSubscribe :: bool
  h_serverSubs :: "(string \<times> nat) list"
  h_ops :: "nat \<Rightarrow> ('d, 'e) requestOp"
  h_subs :: "nat \<Rightarrow> 'e clientSub"
  h_chans :: "nat \<Rightarrow> 'e subChan"

definition NewHandler :: "(nat \<Rightarrow> ('d, 'e) requestOp) \<Rightarrow> (nat \<Rightarrow> 'e clientSub) \<Rightarrow> (nat \<Rightarrow> 'e subChan) \<Rightarrow> ('d, 'e) handler" where
  "NewHandler ops subs chans = \<lparr>h_respWait = [], h_clientSubs = [], h_callWG = 0, h_cancelled = False,
     h_allowSubscribe = True, h_serverSubs = [], h_ops = ops, h_subs = subs, h_chans = chans\<rparr>"

definition set_op :: "nat \<Rightarrow> ('d, 'e) requestOp \<Rightarrow> ('d, 'e) handler \<Rightarrow> ('d, 'e) handler" where
  "set_op r op h = h\<lparr>h_ops := (h_ops h)(r := op)\<rparr>"

definition set_sub :: "nat \<Rightarrow> 'e clientSub \<Rightarrow> ('d, 'e) handler \<Rightarrow> ('d, 'e) handler" where
  "set_sub r sub h = h\<lparr>h_subs := (h_subs h)(r := sub)\<rparr>"

text \<open>\<open>close(op.resp)\<close> and \<open>op.resp <- msg\<close>, for which there is room.\<close>

definition close_resp :: "nat \<Rightarrow> ('d, 'e) handler \<Rightarrow> ('d, 'e) handler option" where
  "close_resp r h = (if op_closed (h_ops h r) then None else Some (set_op r ((h_ops h r)\<lparr>op_closed := True\<rparr>) h))"

definition send_resp :: "nat \<Rightarrow> 'd jsonrpcMessage \<Rightarrow> ('d, 'e) handler \<Rightarrow> ('d, 'e) handler option" where
  "send_resp r msg h =
     (if op_closed (h_ops h r) then None
      else Some (set_op r ((h_ops h r)\<lparr>op_resp := op_resp (h_ops h r) @ [msg]\<rparr>) h))"

section \<open>Requests\<close>

definition addRequestOp :: "nat \<Rightarrow> ('d, 'e) handler \<Rightarrow> ('d, 'e) handler" where
  "addRequestOp r h = h\<lparr>h_respWait := fold (\<lambda>i m. AList.update i r m) (op_ids (h_ops h r)) (h_respWait h)\<rparr>"

definition removeRequestOp :: "nat \<Rightarrow> ('d, 'e) handler \<Rightarrow> ('d, 'e) handler" where
  "removeRequestOp r h = h\<lparr>h_respWait := fold AList.delete (op_ids (h_ops h r)) (h_respWait h)\<rparr>"

text \<open>The two loops of \<open>cancelAllRequests\<close>.\<close>

fun cancel_ops :: "'e option \<Rightarrow> (string \<times> nat) list \<Rightarrow> nat list \<Rightarrow> ('d, 'e) handler \<Rightarrow> ('d, 'e) handler option" where
  "cancel_ops err [] didclose h = Some h"
| "cancel_ops err ((i, r) # l) didclose h =
     (let h = h\<lparr>h_respWait := AList.delete i (h_respWait h)\<rparr>
      in if r \<in> set didclose then cancel_ops err l didclose h
         else (case close_resp r (set_op r ((h_ops h r)\<lparr>op_err := map_option Inr err\<rparr>) h) of
                 None \<Rightarrow> None
               | Some h \<Rightarrow> cancel_ops err l (r # didclose) h))"

fun cancel_subs :: "'e option \<Rightarrow> (string \<times> nat) list \<Rightarrow> ('d, 'e) handler \<Rightarrow> ('d, 'e) handler" where
  "cancel_subs err [] h = h"
| "cancel_subs err ((i, r) # l) h =
     (let h = h\<lparr>h_clientSubs := AList.delete i (h_clientSubs h)\<rparr>;
          s = h_subs h r
      in cancel_subs err l (set_sub r (s\<lparr>hs_closes := hs_closes s @ [err]\<rparr>) h))"

definition cancelAllRequests :: "'e option \<Rightarrow> nat option \<Rightarrow> ('d, 'e) handler \<Rightarrow> ('d, 'e) handler option" where
  "cancelAllRequests err inflightReq h =
     (case cancel_ops err (h_respWait h) (case inflightReq of Some r \<Rightarrow> [r] | None \<Rightarrow> []) h of
        None \<Rightarrow> None
      | Some h \<Rightarrow> Some (cancel_subs err (h_clientSubs h) h))"

section \<open>Incoming messages\<close>

text \<open>
  \<open>unmarshal\<close> is \<open>json.Unmarshal\<close> of a result into a string: an error, or the string. The receiver of
  the identifier keeps its value when there is an error.
\<close>

definition handleResponse :: "(raw \<Rightarrow> 'e + string) \<Rightarrow> 'd jsonrpcMessage \<Rightarrow> ('d, 'e) handler \<Rightarrow> ('d, 'e) handler option" where
  "handleResponse unmarshal msg h =
     (let i = raw_text (jm_id msg)
      in case map_of (h_respWait h) i of
           None \<Rightarrow> Some h
         | Some r \<Rightarrow>
             (let h = h\<lparr>h_respWait := AList.delete i (h_respWait h)\<rparr>
              in case op_sub (h_ops h r) of
                   None \<Rightarrow> send_resp r msg h
                 | Some sub \<Rightarrow>
                     (let h = (case jm_error msg of
                                 Some e \<Rightarrow> set_op r ((h_ops h r)\<lparr>op_err := Some (Inl e)\<rparr>) h | None \<Rightarrow> h)
                      in case unmarshal (jm_result msg) of
                           Inl e \<Rightarrow>
                             (let h = set_op r ((h_ops h r)\<lparr>op_err := Some (Inr e)\<rparr>) h;
                                  h = set_sub sub ((h_subs h sub)\<lparr>hs_running := True\<rparr>) h;
                                  h = h\<lparr>h_clientSubs := AList.update (hs_subid (h_subs h sub)) sub (h_clientSubs h)\<rparr>
                              in close_resp r h)
                         | Inr sid \<Rightarrow>
                             (let h = set_sub sub ((h_subs h sub)\<lparr>hs_subid := sid\<rparr>) h;
                                  h = set_op r ((h_ops h r)\<lparr>op_err := None\<rparr>) h
                              in close_resp r h))))"

text \<open>\<open>unmarshalSub\<close>: a \<open>subscriptionResult\<close>, if the parameters are one. \<open>deliver\<close> hands the result over.\<close>

definition handleSubscriptionResult :: "(raw \<Rightarrow> (string \<times> raw) option) \<Rightarrow> 'd jsonrpcMessage \<Rightarrow> ('d, 'e) handler \<Rightarrow> ('d, 'e) handler" where
  "handleSubscriptionResult unmarshalSub msg h =
     (case unmarshalSub (jm_params msg) of
        None \<Rightarrow> h
      | Some (i, result) \<Rightarrow>
          (case map_of (h_clientSubs h) i of
             None \<Rightarrow> h
           | Some sub \<Rightarrow> set_sub sub ((h_subs h sub)\<lparr>hs_in := hs_in (h_subs h sub) @ [result]\<rparr>) h))"

text \<open>The inner \<open>None\<close> is the end of the function without a \<open>return\<close>.\<close>

definition handlerImmediate ::
  "(raw \<Rightarrow> 'e + string) \<Rightarrow> (raw \<Rightarrow> (string \<times> raw) option) \<Rightarrow> 'd jsonrpcMessage \<Rightarrow> ('d, 'e) handler \<Rightarrow>
   (('d, 'e) handler \<times> bool option) option" where
  "handlerImmediate unmarshal unmarshalSub msg h =
     (if isNotification msg then
        (if has_suffix (jm_method msg) notificationMethodSuffix
         then Some (handleSubscriptionResult unmarshalSub msg h, Some True) else Some (h, None))
      else if isResponse msg then map_option (\<lambda>h. (h, Some True)) (handleResponse unmarshal msg h)
      else Some (h, Some False))"

definition ErrNotificationsUnsupported :: string where
  "ErrNotificationsUnsupported = ''notifications not supported''"

definition handleSubscribe :: "(string \<Rightarrow> string) \<Rightarrow> 'd jsonrpcMessage \<Rightarrow> ('d, 'e) handler \<Rightarrow> 'd jsonrpcMessage option" where
  "handleSubscribe quoteQ msg h =
     (if \<not> h_allowSubscribe h
      then Some (errResponse quoteQ msg (InternalServer errcodeNotificationsUnsupported ErrNotificationsUnsupported))
      else None)"

text \<open>\<open>marshal\<close> is \<open>json.Marshal\<close> of what the callback returned.\<close>

definition runMethod ::
  "(string \<Rightarrow> string) \<Rightarrow> (('v, 'd) call_result \<Rightarrow> string + string) \<Rightarrow> ('v, 'd) gval \<Rightarrow> 'd jsonrpcMessage \<Rightarrow>
   ('v, 'd) callback \<Rightarrow> ('v, 'd) gval list \<Rightarrow> 'd jsonrpcMessage" where
  "runMethod quoteQ marshal ctx msg callb args =
     (case callback_call callb ctx (jm_method msg) args of
        (result, Some err) \<Rightarrow> errResponse quoteQ msg err
      | (result, None) \<Rightarrow> msg_response quoteQ marshal msg result)"

definition idForLog_String :: "(string \<Rightarrow> string option) \<Rightarrow> raw \<Rightarrow> string" where
  "idForLog_String strconv_Unquote i =
     (case strconv_Unquote (raw_text i) of Some s \<Rightarrow> s | None \<Rightarrow> raw_text i)"

section \<open>Server-side subscriptions\<close>

text \<open>A notifier with the pointer of its subscription.\<close>

fun addSubscriptions :: "('d notifier \<times> nat) list \<Rightarrow> ('d, 'e) handler \<Rightarrow> ('d, 'e) handler" where
  "addSubscriptions [] h = h"
| "addSubscriptions ((n, r) # nn) h =
     (case snd (takeSubscription n) of
        Some sub \<Rightarrow> addSubscriptions nn (h\<lparr>h_serverSubs := AList.update (ss_id sub) r (h_serverSubs h)\<rparr>)
      | None \<Rightarrow> addSubscriptions nn h)"

definition close_chan :: "nat \<Rightarrow> ('d, 'e) handler \<Rightarrow> ('d, 'e) handler option" where
  "close_chan r h =
     (if sc_closed (h_chans h r) then None
      else Some (h\<lparr>h_chans := (h_chans h)(r := (h_chans h r)\<lparr>sc_closed := True\<rparr>)\<rparr>))"

definition send_chan :: "nat \<Rightarrow> 'e option \<Rightarrow> ('d, 'e) handler \<Rightarrow> ('d, 'e) handler option" where
  "send_chan r err h =
     (if sc_closed (h_chans h r) then None
      else Some (h\<lparr>h_chans := (h_chans h)(r := (h_chans h r)\<lparr>sc_sent := sc_sent (h_chans h r) @ [err]\<rparr>)\<rparr>))"

fun cancel_server :: "'e option \<Rightarrow> (string \<times> nat) list \<Rightarrow> ('d, 'e) handler \<Rightarrow> ('d, 'e) handler option" where
  "cancel_server err [] h = Some h"
| "cancel_server err ((i, r) # l) h =
     (case send_chan r err h of
        None \<Rightarrow> None
      | Some h \<Rightarrow> (case close_chan r h of
                     None \<Rightarrow> None
                   | Some h \<Rightarrow> cancel_server err l (h\<lparr>h_serverSubs := AList.delete i (h_serverSubs h)\<rparr>)))"

definition cancelServerSubscriptions :: "'e option \<Rightarrow> ('d, 'e) handler \<Rightarrow> ('d, 'e) handler option" where
  "cancelServerSubscriptions err h = cancel_server err (h_serverSubs h) h"

text \<open>The result is whether the subscription was there; if not, the error is \<open>ErrSubscriptionNotFound\<close>.\<close>

definition handler_unsubscribe :: "string \<Rightarrow> ('d, 'e) handler \<Rightarrow> (('d, 'e) handler \<times> bool) option" where
  "handler_unsubscribe i h =
     (case map_of (h_serverSubs h) i of
        None \<Rightarrow> Some (h, False)
      | Some r \<Rightarrow> map_option (\<lambda>h. (h\<lparr>h_serverSubs := AList.delete i (h_serverSubs h)\<rparr>, True)) (close_chan r h))"

text \<open>
  \<open>close\<close> up to its wait for the call goroutines, and the rest; \<open>startCallProc\<close> and the end of its
  goroutine change the number of goroutines.
\<close>

definition handler_close_begin :: "'e option \<Rightarrow> nat option \<Rightarrow> ('d, 'e) handler \<Rightarrow> ('d, 'e) handler option" where
  "handler_close_begin err inflightReq h = cancelAllRequests err inflightReq h"

definition handler_close_end :: "'e option \<Rightarrow> ('d, 'e) handler \<Rightarrow> ('d, 'e) handler option" where
  "handler_close_end err h =
     cancelServerSubscriptions err (h\<lparr>h_cancelled := True\<rparr>)"

definition startCallProc :: "('d, 'e) handler \<Rightarrow> ('d, 'e) handler" where
  "startCallProc h = h\<lparr>h_callWG := h_callWG h + 1\<rparr>"

definition callProc_done :: "('d, 'e) handler \<Rightarrow> ('d, 'e) handler" where
  "callProc_done h = h\<lparr>h_callWG := h_callWG h - 1\<rparr>"


section \<open>One answer for each call of a batch\<close>

text \<open>
  The runs of a batch: calls are answered in order, a notification with nothing, the timeout may come at
  any time, and the responses are written when no call is left.
\<close>

inductive batch_run :: "(string \<Rightarrow> string) \<Rightarrow> 'd jsonrpcMessage list \<Rightarrow> 'd batchCallBuffer \<Rightarrow> bool" for quoteQ calls where
  started: "batch_run quoteQ calls (new_batch calls)"
| answered: "batch_run quoteQ calls b \<Longrightarrow> nextCall b = Some msg \<Longrightarrow>
    (if isNotification msg then answer = None else (\<exists>a. answer = Some a \<and> jm_id a = jm_id msg)) \<Longrightarrow>
    pushResponse answer b = Some b' \<Longrightarrow> batch_run quoteQ calls b'"
| timed_out: "batch_run quoteQ calls b \<Longrightarrow> batch_run quoteQ calls (batch_timeout quoteQ b)"
| written: "batch_run quoteQ calls b \<Longrightarrow> nextCall b = None \<Longrightarrow> batch_run quoteQ calls (doWrite False b)"

definition reply_ids :: "'d jsonrpcMessage list \<Rightarrow> raw list" where
  "reply_ids ms = map jm_id (filter (\<lambda>m. \<not> isNotification m) ms)"

definition batch_inv :: "'d jsonrpcMessage list \<Rightarrow> 'd batchCallBuffer \<Rightarrow> bool" where
  "batch_inv calls b \<longleftrightarrow>
     (\<exists>finished. calls = finished @ bb_calls b \<and>
        (\<not> bb_wrote b \<longrightarrow> bb_out b = [] \<and> map jm_id (bb_resp b) = reply_ids finished)) \<and>
     (bb_wrote b \<longrightarrow> (if reply_ids calls = [] then bb_out b = []
                       else \<exists>r e. bb_out b = [(r, e)] \<and> map jm_id r = reply_ids calls))"

lemma reply_ids_simps [simp]:
  "reply_ids [] = []" "reply_ids (xs @ ys) = reply_ids xs @ reply_ids ys"
  "reply_ids (m # ms) = (if isNotification m then reply_ids ms else jm_id m # reply_ids ms)"
  by (simp_all add: reply_ids_def)

lemma timeout_fold:
  "fold (\<lambda>msg b. if \<not> isNotification msg then b\<lparr>bb_resp := bb_resp b @ [errResponse quoteQ msg timeoutError]\<rparr> else b) ms b =
     b\<lparr>bb_resp := bb_resp b @ map (\<lambda>m. errResponse quoteQ m timeoutError) (filter (\<lambda>m. \<not> isNotification m) ms)\<rparr>"
  by (induction ms arbitrary: b) simp_all

lemma timeout_ids:
  "map jm_id (map (\<lambda>m. errResponse quoteQ m timeoutError) (filter (\<lambda>m. \<not> isNotification m) ms)) = reply_ids ms"
  by (simp add: reply_ids_def comp_def)

lemma doWrite_inv:
  assumes "batch_inv calls b" "\<not> bb_wrote b \<Longrightarrow> map jm_id (bb_resp b') = reply_ids calls"
    "bb_calls b' = bb_calls b" "bb_wrote b' = bb_wrote b" "bb_out b' = bb_out b"
  shows "batch_inv calls (doWrite e b')"
proof (cases "bb_wrote b")
  case True
  then show ?thesis using assms by (auto simp: batch_inv_def doWrite_def split: if_splits)
next
  case False
  then have m: "map jm_id (bb_resp b') = reply_ids calls" by (rule assms(2))
  have "bb_resp b' = [] \<longleftrightarrow> reply_ids calls = []" unfolding m [symmetric] by simp
  then show ?thesis
    using False assms m by (auto simp: batch_inv_def doWrite_def Let_def)
qed

lemma batch_run_inv: "batch_run quoteQ calls b \<Longrightarrow> batch_inv calls b"
proof (induction rule: batch_run.induct)
  case started
  show ?case by (simp add: batch_inv_def new_batch_def)
next
  case (answered b msg answer b')
  have c: "bb_calls b = msg # drop 1 (bb_calls b)"
    using answered.hyps(2) by (cases "bb_calls b") (simp_all add: nextCall_def)
  obtain finished where f: "calls = finished @ bb_calls b"
    "\<not> bb_wrote b \<longrightarrow> bb_out b = [] \<and> map jm_id (bb_resp b) = reply_ids finished"
    using answered.IH by (auto simp: batch_inv_def)
  have b': "bb_calls b' = drop 1 (bb_calls b) \<and> bb_wrote b' = bb_wrote b \<and> bb_out b' = bb_out b \<and>
      map jm_id (bb_resp b') = map jm_id (bb_resp b) @ reply_ids [msg]"
    using answered.hyps(3,4) by (auto simp: pushResponse_def Let_def split: if_splits option.splits)
  have "calls = (finished @ [msg]) @ bb_calls b'" using f(1) c b' by simp
  moreover have "\<not> bb_wrote b' \<longrightarrow> bb_out b' = [] \<and> map jm_id (bb_resp b') = reply_ids (finished @ [msg])"
    using f(2) b' by simp
  ultimately show ?case using answered.IH b' unfolding batch_inv_def by metis
next
  case (timed_out b)
  show ?case
    unfolding batch_timeout_def timeout_fold
    by (rule doWrite_inv [OF timed_out.IH])
      (use timed_out.IH timeout_ids [of quoteQ "bb_calls b"] in \<open>auto simp: batch_inv_def\<close>)
next
  case (written b)
  have "bb_calls b = []" using written.hyps(2) by (simp add: nextCall_def split: if_splits)
  then show ?case
    by (intro doWrite_inv [OF written.IH]) (use written.IH in \<open>auto simp: batch_inv_def\<close>)
qed


section \<open>Waiting requests\<close>

text \<open>
  The steps of a handler on its requests and server-side subscriptions. A request is registered once,
  before it is sent, with identifiers that are not in use; a subscription request has one.
\<close>

definition fresh_op :: "nat \<Rightarrow> ('d, 'e) handler \<Rightarrow> bool" where
  "fresh_op r h \<longleftrightarrow> \<not> op_closed (h_ops h r) \<and> distinct (op_ids (h_ops h r)) \<and>
     set (op_ids (h_ops h r)) \<inter> fst ` set (h_respWait h) = {} \<and>
     (op_sub (h_ops h r) \<noteq> None \<longrightarrow> length (op_ids (h_ops h r)) = 1)"

definition fresh_chans :: "nat list \<Rightarrow> ('d, 'e) handler \<Rightarrow> bool" where
  "fresh_chans rs h \<longleftrightarrow> distinct rs \<and> set rs \<inter> snd ` set (h_serverSubs h) = {} \<and>
     (\<forall>r\<in>set rs. sc_sent (h_chans h r) = [] \<and> \<not> sc_closed (h_chans h r))"

inductive handler_step :: "(raw \<Rightarrow> 'e + string) \<Rightarrow> ('d, 'e) handler \<Rightarrow> ('d, 'e) handler \<Rightarrow> bool" for unmarshal where
  adds: "fresh_op r h \<Longrightarrow> handler_step unmarshal h (addRequestOp r h)"
| removes: "handler_step unmarshal h (removeRequestOp r h)"
| responds: "handleResponse unmarshal msg h = Some h' \<Longrightarrow> handler_step unmarshal h h'"
| cancels: "cancelAllRequests err inflightReq h = Some h' \<Longrightarrow> handler_step unmarshal h h'"
| adds_subs: "fresh_chans (map snd nn) h \<Longrightarrow> handler_step unmarshal h (addSubscriptions nn h)"
| unsubscribes: "handler_unsubscribe i h = Some (h', b) \<Longrightarrow> handler_step unmarshal h h'"
| cancels_server: "cancelServerSubscriptions err h = Some h' \<Longrightarrow> handler_step unmarshal h h'"

inductive_cases handler_stepE: "handler_step unmarshal h h'"

definition waits_ok :: "('d, 'e) handler \<Rightarrow> bool" where
  "waits_ok h \<longleftrightarrow> distinct (map fst (h_respWait h)) \<and>
     (\<forall>(i, r)\<in>set (h_respWait h). \<not> op_closed (h_ops h r) \<and> i \<in> set (op_ids (h_ops h r)) \<and>
        (op_sub (h_ops h r) \<noteq> None \<longrightarrow> op_ids (h_ops h r) = [i]))"

definition server_ok :: "('d, 'e) handler \<Rightarrow> bool" where
  "server_ok h \<longleftrightarrow> distinct (map fst (h_serverSubs h)) \<and> distinct (map snd (h_serverSubs h)) \<and>
     (\<forall>r\<in>snd ` set (h_serverSubs h). sc_sent (h_chans h r) = [] \<and> \<not> sc_closed (h_chans h r))"

lemma fold_delete: "fold AList.delete ks m = filter (\<lambda>(k, v). k \<notin> set ks) m"
  by (induction ks arbitrary: m) (auto simp: AList.delete_eq intro: filter_cong)

lemma fold_delete_all [simp]: "fold AList.delete (map fst m) m = []"
  by (auto simp: fold_delete filter_empty_conv image_iff)

lemma update_new: "k \<notin> fst ` set m \<Longrightarrow> AList.update k v m = m @ [(k, v)]"
  by (induction m) auto

lemma set_update: "distinct (map fst m) \<Longrightarrow> set (AList.update k v m) = insert (k, v) {(k', v') \<in> set m. k' \<noteq> k}"
  by (induction m) (auto simp: image_iff)

lemma distinct_snd_update:
  "v \<notin> snd ` set m \<Longrightarrow> distinct (map snd m) \<Longrightarrow> distinct (map snd (AList.update k v m))"
proof (induction m)
  case (Cons x m)
  have "snd ` set (AList.update k v m) \<subseteq> insert v (snd ` set m)" by (induction m) auto
  then show ?case using Cons by auto
qed simp

lemma fold_update_fresh:
  "distinct ks \<Longrightarrow> set ks \<inter> fst ` set m = {} \<Longrightarrow> fold (\<lambda>k m. AList.update k v m) ks m = m @ map (\<lambda>k. (k, v)) ks"
proof (induction ks arbitrary: m)
  case (Cons k ks)
  have "k \<notin> fst ` set m" using Cons.prems(2) by auto
  then have "AList.update k v m = m @ [(k, v)]" by (rule update_new)
  then show ?case using Cons by auto
qed simp


text \<open>What the operations leave alone.\<close>

lemma set_op_simps [simp]:
  "h_respWait (set_op r op h) = h_respWait h" "h_clientSubs (set_op r op h) = h_clientSubs h"
  "h_serverSubs (set_op r op h) = h_serverSubs h" "h_chans (set_op r op h) = h_chans h"
  "h_subs (set_op r op h) = h_subs h" "h_ops (set_op r op h) = (h_ops h)(r := op)"
  by (simp_all add: set_op_def)

lemma set_sub_simps [simp]:
  "h_respWait (set_sub r s h) = h_respWait h" "h_clientSubs (set_sub r s h) = h_clientSubs h"
  "h_serverSubs (set_sub r s h) = h_serverSubs h" "h_chans (set_sub r s h) = h_chans h"
  "h_ops (set_sub r s h) = h_ops h" "h_subs (set_sub r s h) = (h_subs h)(r := s)"
  by (simp_all add: set_sub_def)

text \<open>The result of cancelling the requests: every operation that is not excepted is closed with the error.\<close>

definition cancelled :: "'e option \<Rightarrow> ('d, 'e) requestOp \<Rightarrow> ('d, 'e) requestOp" where
  "cancelled err op = op\<lparr>op_err := map_option Inr err, op_closed := True\<rparr>"

lemma cancel_ops_spec:
  assumes "\<And>i r. (i, r) \<in> set l \<Longrightarrow> r \<notin> set dc \<Longrightarrow> \<not> op_closed (h_ops h r)"
  shows "cancel_ops err l dc h = Some (h\<lparr>h_respWait := fold AList.delete (map fst l) (h_respWait h),
     h_ops := (\<lambda>r. if r \<in> snd ` set l \<and> r \<notin> set dc then cancelled err (h_ops h r) else h_ops h r)\<rparr>)"
  using assms
proof (induction l arbitrary: dc h)
  case (Cons p l)
  obtain i r where p: "p = (i, r)" by fastforce
  let ?h = "h\<lparr>h_respWait := AList.delete i (h_respWait h)\<rparr>"
  show ?case
  proof (cases "r \<in> set dc")
    case True
    have "cancel_ops err (p # l) dc h = cancel_ops err l dc ?h" using True p by simp
    also have "\<dots> = Some (?h\<lparr>h_respWait := fold AList.delete (map fst l) (h_respWait ?h),
        h_ops := (\<lambda>r. if r \<in> snd ` set l \<and> r \<notin> set dc then cancelled err (h_ops ?h r) else h_ops ?h r)\<rparr>)"
      by (rule Cons.IH) (use Cons.prems in auto)
    finally show ?thesis using True p by (auto simp: fun_eq_iff)
  next
    case False
    let ?h' = "set_op r (cancelled err (h_ops h r)) ?h"
    have "\<not> op_closed (h_ops h r)" using Cons.prems p False by auto
    then have "cancel_ops err (p # l) dc h = cancel_ops err l (r # dc) ?h'"
      using False p by (simp add: close_resp_def set_op_def cancelled_def)
    also have "\<dots> = Some (?h'\<lparr>h_respWait := fold AList.delete (map fst l) (h_respWait ?h'),
        h_ops := (\<lambda>s. if s \<in> snd ` set l \<and> s \<notin> set (r # dc) then cancelled err (h_ops ?h' s) else h_ops ?h' s)\<rparr>)"
      by (rule Cons.IH) (use Cons.prems in auto)
    also have "(\<lambda>s. if s \<in> snd ` set l \<and> s \<notin> set (r # dc) then cancelled err (h_ops ?h' s) else h_ops ?h' s) =
        (\<lambda>s. if s \<in> snd ` set (p # l) \<and> s \<notin> set dc then cancelled err (h_ops h s) else h_ops h s)"
      using False p by (auto simp: fun_eq_iff)
    finally show ?thesis using p by (simp add: set_op_def)
  qed
qed simp

lemma cancel_subs_spec:
  "h_clientSubs (cancel_subs err l h) = fold AList.delete (map fst l) (h_clientSubs h)"
  "h_respWait (cancel_subs err l h) = h_respWait h" "h_ops (cancel_subs err l h) = h_ops h"
  "h_serverSubs (cancel_subs err l h) = h_serverSubs h" "h_chans (cancel_subs err l h) = h_chans h"
  by (induction l arbitrary: h) (auto simp: Let_def)

lemma cancelAllRequests_spec:
  assumes "waits_ok h"
  shows "\<exists>h'. cancelAllRequests err inflightReq h = Some h' \<and> h_respWait h' = [] \<and> h_clientSubs h' = [] \<and>
     h_serverSubs h' = h_serverSubs h \<and> h_chans h' = h_chans h \<and>
     h_ops h' = (\<lambda>r. if r \<in> snd ` set (h_respWait h) \<and> inflightReq \<noteq> Some r then cancelled err (h_ops h r) else h_ops h r)"
proof -
  let ?dc = "case inflightReq of Some r \<Rightarrow> [r] | None \<Rightarrow> []"
  have dc: "r \<in> set ?dc \<longleftrightarrow> inflightReq = Some r" for r by (cases inflightReq) auto
  show ?thesis
    unfolding cancelAllRequests_def
    by (subst cancel_ops_spec) (use assms in \<open>auto simp: waits_ok_def cancel_subs_spec dc fun_eq_iff\<close>)
qed

lemma handleResponse_ok:
  fixes h :: "('d, 'e) handler"
  assumes "waits_ok h"
  shows "\<exists>h'. handleResponse unmarshal msg h = Some h' \<and> waits_ok h' \<and> h_serverSubs h' = h_serverSubs h \<and> h_chans h' = h_chans h"
proof (cases "map_of (h_respWait h) (raw_text (jm_id msg))")
  case None
  then show ?thesis using assms by (simp add: handleResponse_def Let_def)
next
  case (Some r)
  let ?i = "raw_text (jm_id msg)"
  have m: "(?i, r) \<in> set (h_respWait h)" using Some by (rule map_of_SomeD)
  have op: "\<not> op_closed (h_ops h r)" "op_sub (h_ops h r) \<noteq> None \<Longrightarrow> op_ids (h_ops h r) = [?i]"
    using assms m by (auto simp: waits_ok_def)
  have d: "distinct (map fst (AList.delete ?i (h_respWait h)))" using assms by (simp add: waits_ok_def distinct_delete)
  have del: "set (AList.delete ?i (h_respWait h)) = {(k, v) \<in> set (h_respWait h). k \<noteq> ?i}" by (auto simp: AList.delete_eq)
  show ?thesis
  proof (cases "op_sub (h_ops h r)")
    case None
    then show ?thesis
      using assms op d by (auto simp: handleResponse_def Some Let_def send_resp_def waits_ok_def del)
  next
    case (Some sub)
    have notin: "r \<notin> snd ` set (AList.delete ?i (h_respWait h))"
      using assms op(2) Some unfolding del by (auto simp: waits_ok_def)
    have waits: "waits_ok h'" if w: "h_respWait h' = AList.delete ?i (h_respWait h)" and o: "\<And>s. s \<noteq> r \<Longrightarrow> h_ops h' s = h_ops h s" for h' :: "('d, 'e) handler"
    proof -
      have "\<not> op_closed (h_ops h' s) \<and> k \<in> set (op_ids (h_ops h' s)) \<and>
          (op_sub (h_ops h' s) \<noteq> None \<longrightarrow> op_ids (h_ops h' s) = [k])" if ks: "(k, s) \<in> set (h_respWait h')" for k s
      proof -
        have "(k, s) \<in> set (AList.delete ?i (h_respWait h))" using ks w by simp
        then have k: "(k, s) \<in> set (h_respWait h)" "s \<noteq> r" using notin by (auto simp: del image_iff)
        then show ?thesis using assms o [OF k(2)] by (auto simp: waits_ok_def)
      qed
      then show ?thesis using d w by (auto simp: waits_ok_def)
    qed
    show ?thesis
      using \<open>map_of (h_respWait h) ?i = Some r\<close> Some op(1)
      by (auto simp: handleResponse_def Let_def close_resp_def intro!: waits split: sum.split option.split)
  qed
qed


lemma close_send_chan_simps:
  "send_chan r err h = Some h' \<Longrightarrow> h' = h\<lparr>h_chans := (h_chans h)(r := (h_chans h r)\<lparr>sc_sent := sc_sent (h_chans h r) @ [err]\<rparr>)\<rparr>"
  "close_chan r h = Some h' \<Longrightarrow> h' = h\<lparr>h_chans := (h_chans h)(r := (h_chans h r)\<lparr>sc_closed := True\<rparr>)\<rparr>"
  by (auto simp: send_chan_def close_chan_def split: if_splits)

definition closed_with :: "'e option \<Rightarrow> 'e subChan \<Rightarrow> 'e subChan" where
  "closed_with err c = c\<lparr>sc_sent := sc_sent c @ [err], sc_closed := True\<rparr>"

lemma cancel_server_spec:
  assumes "distinct (map snd l)" "\<And>i r. (i, r) \<in> set l \<Longrightarrow> \<not> sc_closed (h_chans h r)"
  shows "cancel_server err l h = Some (h\<lparr>h_serverSubs := fold AList.delete (map fst l) (h_serverSubs h),
     h_chans := (\<lambda>r. if r \<in> snd ` set l then closed_with err (h_chans h r) else h_chans h r)\<rparr>)"
  using assms
proof (induction l arbitrary: h)
  case (Cons p l)
  obtain i r where p: "p = (i, r)" by fastforce
  let ?h = "h\<lparr>h_serverSubs := AList.delete i (h_serverSubs h), h_chans := (h_chans h)(r := closed_with err (h_chans h r))\<rparr>"
  have r: "r \<notin> snd ` set l" using Cons.prems(1) p by simp
  have "\<not> sc_closed (h_chans h r)" using Cons.prems(2) p by auto
  then have "cancel_server err (p # l) h = cancel_server err l
      (h\<lparr>h_chans := (h_chans h)(r := closed_with err (h_chans h r)), h_serverSubs := AList.delete i (h_serverSubs h)\<rparr>)"
    by (simp add: p send_chan_def close_chan_def closed_with_def)
  also have "h\<lparr>h_chans := (h_chans h)(r := closed_with err (h_chans h r)), h_serverSubs := AList.delete i (h_serverSubs h)\<rparr> = ?h"
    by simp
  also have "cancel_server err l ?h = Some (?h\<lparr>h_serverSubs := fold AList.delete (map fst l) (h_serverSubs ?h),
     h_chans := (\<lambda>r. if r \<in> snd ` set l then closed_with err (h_chans ?h r) else h_chans ?h r)\<rparr>)"
  proof (rule Cons.IH)
    show "\<not> sc_closed (h_chans ?h s)" if "(k, s) \<in> set l" for k s
      using that r Cons.prems(2) by (force simp: image_iff)
  qed (use Cons.prems(1) in simp)
  also have "(\<lambda>s. if s \<in> snd ` set l then closed_with err (h_chans ?h s) else h_chans ?h s) =
      (\<lambda>s. if s \<in> snd ` set (p # l) then closed_with err (h_chans h s) else h_chans h s)"
    using r p by (auto simp: fun_eq_iff)
  finally show ?case using p by simp
qed simp

lemma cancelServer_spec:
  "server_ok h \<Longrightarrow> cancelServerSubscriptions err h = Some (h\<lparr>h_serverSubs := [],
     h_chans := (\<lambda>r. if r \<in> snd ` set (h_serverSubs h) then closed_with err (h_chans h r) else h_chans h r)\<rparr>)"
  unfolding cancelServerSubscriptions_def by (subst cancel_server_spec) (auto simp: server_ok_def)

lemma unsubscribe_spec:
  assumes "server_ok h"
  shows "\<exists>h' b. handler_unsubscribe i h = Some (h', b) \<and> server_ok h' \<and> h_respWait h' = h_respWait h \<and> h_ops h' = h_ops h"
proof (cases "map_of (h_serverSubs h) i")
  case (Some r)
  have m: "(i, r) \<in> set (h_serverSubs h)" using Some by (rule map_of_SomeD)
  then have open_r: "\<not> sc_closed (h_chans h r)" using assms by (force simp: server_ok_def)
  have notin: "r \<notin> snd ` set (AList.delete i (h_serverSubs h))"
  proof
    assume "r \<in> snd ` set (AList.delete i (h_serverSubs h))"
    then obtain k where "(k, r) \<in> set (h_serverSubs h)" "k \<noteq> i" by (auto simp: AList.delete_eq)
    moreover have "inj_on snd (set (h_serverSubs h))" using assms by (simp add: server_ok_def distinct_map)
    ultimately have "(k, r) = (i, r)" using m by (intro inj_onD [where f = snd]) simp_all
    then show False using \<open>k \<noteq> i\<close> by simp
  qed
  have dist: "distinct (map snd (AList.delete i (h_serverSubs h)))"
    using assms by (simp add: server_ok_def AList.delete_eq distinct_map inj_on_def)
  let ?h = "h\<lparr>h_chans := (h_chans h)(r := (h_chans h r)\<lparr>sc_closed := True\<rparr>), h_serverSubs := AList.delete i (h_serverSubs h)\<rparr>"
  have del: "set (AList.delete i (h_serverSubs h)) = {x \<in> set (h_serverSubs h). fst x \<noteq> i}"
    by (auto simp: AList.delete_eq)
  have "server_ok ?h"
    using assms dist notin by (force simp: server_ok_def distinct_delete del)
  moreover have "handler_unsubscribe i h = Some (?h, True)"
    using open_r by (simp add: handler_unsubscribe_def Some close_chan_def)
  ultimately show ?thesis by auto
qed (use assms in \<open>auto simp: handler_unsubscribe_def intro: exI [of _ False]\<close>)

lemma addSubscriptions_ok:
  "server_ok h \<Longrightarrow> fresh_chans (map snd nn) h \<Longrightarrow>
   server_ok (addSubscriptions nn h) \<and> h_respWait (addSubscriptions nn h) = h_respWait h \<and> h_ops (addSubscriptions nn h) = h_ops h"
proof (induction nn arbitrary: h)
  case (Cons x nn)
  obtain n r where x: "x = (n, r)" by fastforce
  show ?case
  proof (cases "snd (takeSubscription n)")
    case None
    then show ?thesis using Cons x by (simp add: fresh_chans_def)
  next
    case (Some sub)
    let ?h = "h\<lparr>h_serverSubs := AList.update (ss_id sub) r (h_serverSubs h)\<rparr>"
    have d: "distinct (map fst (h_serverSubs h))" using Cons.prems(1) by (simp add: server_ok_def)
    have "server_ok ?h"
      using Cons.prems x
      by (auto simp: server_ok_def fresh_chans_def set_update [OF d] distinct_update intro: distinct_snd_update)
    moreover have "fresh_chans (map snd nn) ?h"
      using Cons.prems x by (auto simp: fresh_chans_def set_update [OF d])
    ultimately show ?thesis using Cons.IH [of ?h] x Some by simp
  qed
qed simp

lemma handler_step_ok:
  assumes "handler_step unmarshal h h'" "waits_ok h \<and> server_ok h"
  shows "waits_ok h' \<and> server_ok h'"
  using assms(1)
proof cases
  case (adds r)
  have m: "h_respWait h' = h_respWait h @ map (\<lambda>k. (k, r)) (op_ids (h_ops h r))"
    using adds by (simp add: addRequestOp_def fresh_op_def fold_update_fresh)
  have e: "h_ops h' = h_ops h" "h_serverSubs h' = h_serverSubs h" "h_chans h' = h_chans h"
    using adds by (simp_all add: addRequestOp_def)
  show ?thesis
    using assms(2) adds(2) by (auto simp: waits_ok_def server_ok_def m e fresh_op_def comp_def length_Suc_conv)
next
  case (removes r)
  then show ?thesis
    using assms(2) by (auto simp: waits_ok_def server_ok_def removeRequestOp_def fold_delete distinct_map inj_on_def)
next
  case (responds msg)
  then show ?thesis using handleResponse_ok [of h unmarshal msg] assms(2) by (auto simp: server_ok_def)
next
  case (cancels err inflightReq)
  then show ?thesis using cancelAllRequests_spec [of h err inflightReq] assms(2) by (auto simp: server_ok_def waits_ok_def)
next
  case (adds_subs nn)
  then show ?thesis using addSubscriptions_ok [of h nn] assms(2) by (auto simp: waits_ok_def)
next
  case (unsubscribes i b)
  then show ?thesis using unsubscribe_spec [of h i] assms(2) by (auto simp: waits_ok_def)
next
  case (cancels_server err)
  then show ?thesis using cancelServer_spec [of h err] assms(2) by (auto simp: waits_ok_def server_ok_def)
qed

lemma handler_reachable_ok:
  "(handler_step unmarshal)\<^sup>*\<^sup>* (NewHandler ops subs chans) h \<Longrightarrow> waits_ok h \<and> server_ok h"
  by (erule steps_invariant) (simp add: NewHandler_def waits_ok_def server_ok_def, rule handler_step_ok)


section \<open>Properties\<close>

lemma batch_one_write_parts:
  assumes "batch_run quoteQ calls b"
  shows "length (bb_out b) \<le> 1"
    "(r, e) \<in> set (bb_out b) \<Longrightarrow> map jm_id r = map jm_id (filter (\<lambda>m. \<not> isNotification m) calls)"
    "bb_wrote b \<Longrightarrow> (\<exists>m\<in>set calls. \<not> isNotification m) \<Longrightarrow> length (bb_out b) = 1"
    "\<not> bb_wrote b \<Longrightarrow> bb_out (batch_timeout quoteQ b) =
       (if \<forall>m\<in>set calls. isNotification m then []
        else [(bb_resp b @ map (\<lambda>m. errResponse quoteQ m (InternalServer (- 32002) ''request timed out''))
                 (filter (\<lambda>m. \<not> isNotification m) (bb_calls b)), True)])"
proof -
  have i: "batch_inv calls b" using assms by (rule batch_run_inv)
  have n: "reply_ids calls = [] \<longleftrightarrow> (\<forall>m\<in>set calls. isNotification m)"
    by (auto simp: reply_ids_def filter_empty_conv)
  have l: "bb_out b = [] \<or> (\<exists>r e. bb_out b = [(r, e)] \<and> map jm_id r = reply_ids calls)"
    using i by (cases "bb_wrote b") (auto simp: batch_inv_def split: if_splits)
  show "length (bb_out b) \<le> 1" using l by auto
  show "map jm_id r = map jm_id (filter (\<lambda>m. \<not> isNotification m) calls)" if "(r, e) \<in> set (bb_out b)"
    using l that by (auto simp: reply_ids_def)
  show "length (bb_out b) = 1" if "bb_wrote b" "\<exists>m\<in>set calls. \<not> isNotification m"
    using i that n by (auto simp: batch_inv_def split: if_splits)
  assume w: "\<not> bb_wrote b"
  obtain finished where f: "calls = finished @ bb_calls b" "bb_out b = []" "map jm_id (bb_resp b) = reply_ids finished"
    using i w by (auto simp: batch_inv_def)
  let ?r = "bb_resp b @ map (\<lambda>m. errResponse quoteQ m timeoutError) (filter (\<lambda>m. \<not> isNotification m) (bb_calls b))"
  have "map jm_id ?r = reply_ids calls"
    unfolding map_append timeout_ids f(3) reply_ids_simps(2) [symmetric] f(1) [symmetric] by (rule refl)
  then have "?r = [] \<longleftrightarrow> (\<forall>m\<in>set calls. isNotification m)" unfolding n [symmetric] by auto
  then show "bb_out (batch_timeout quoteQ b) =
       (if \<forall>m\<in>set calls. isNotification m then []
        else [(bb_resp b @ map (\<lambda>m. errResponse quoteQ m (InternalServer (- 32002) ''request timed out''))
                 (filter (\<lambda>m. \<not> isNotification m) (bb_calls b)), True)])"
    using w f(2) unfolding batch_timeout_def timeout_fold doWrite_def Let_def
    by (auto simp: timeoutError_def errcodeTimeout_def errMsgTimeout_def)
qed

text \<open>
  C32. Whatever the order in which calls of a batch are answered, the time runs out and the batch is
  written: the responses go to the connection at most once, in one piece, and are then exactly one for
  every call that is not a notification, in the order of the calls, with the ids of the calls; the calls
  left at the timeout get the timeout error.
\<close>
theorem batch_one_write:
  assumes "batch_run quoteQ calls b"
  shows "(length (bb_out b) \<le> 1) \<and>
    ((r, e) \<in> set (bb_out b) \<longrightarrow> map jm_id r = map jm_id (filter (\<lambda>m. \<not> isNotification m) calls)) \<and>
    (bb_wrote b \<longrightarrow> ((\<exists>m\<in>set calls. \<not> isNotification m)) \<longrightarrow> length (bb_out b) = 1) \<and>
    (\<not> bb_wrote b \<longrightarrow> (bb_out (batch_timeout quoteQ b) =
       (if \<forall>m\<in>set calls. isNotification m then []
        else [(bb_resp b @ map (\<lambda>m. errResponse quoteQ m (InternalServer (- 32002) ''request timed out''))
                 (filter (\<lambda>m. \<not> isNotification m) (bb_calls b)), True)])))"
  by (rule conjI, rule batch_one_write_parts(1) [OF assms],
      rule conjI, rule impI, rule batch_one_write_parts(2) [OF assms], assumption,
      rule conjI, rule impI, rule impI, rule batch_one_write_parts(3) [OF assms], assumption, assumption,
      rule impI, rule batch_one_write_parts(4) [OF assms], assumption)

lemma batch_one_write_witness:
  "length (bb_out (batch_timeout id (new_batch [empty_msg :: unit jsonrpcMessage]))) \<le> 1"
  by (rule batch_one_write [THEN conjunct1, rule_format, OF timed_out [OF started]])

lemma handler_close_clean_parts:
  assumes "(handler_step unmarshal)\<^sup>*\<^sup>* (NewHandler ops subs chans) h"
  shows "handleResponse unmarshal msg h \<noteq> None" "handler_unsubscribe i h \<noteq> None"
    "\<exists>h' h''. handler_close_begin err inflightReq h = Some h' \<and> handler_close_end err h' = Some h'' \<and>
       h_respWait h'' = [] \<and> h_clientSubs h'' = [] \<and> h_serverSubs h'' = [] \<and> h_cancelled h'' \<and>
       (\<forall>r. h_ops h'' r = (if r \<in> snd ` set (h_respWait h) \<and> inflightReq \<noteq> Some r
                           then (h_ops h r)\<lparr>op_err := map_option Inr err, op_closed := True\<rparr> else h_ops h r)) \<and>
       (\<forall>r\<in>snd ` set (h_serverSubs h). h_chans h'' r = \<lparr>sc_sent = [err], sc_closed = True\<rparr>)"
proof -
  have ok: "waits_ok h" "server_ok h" using handler_reachable_ok [OF assms] by auto
  show "handleResponse unmarshal msg h \<noteq> None" using handleResponse_ok [OF ok(1), of unmarshal msg] by auto
  show "handler_unsubscribe i h \<noteq> None" using unsubscribe_spec [OF ok(2), of i] by auto
  obtain h' where h': "cancelAllRequests err inflightReq h = Some h'" "h_respWait h' = []" "h_clientSubs h' = []"
    "h_serverSubs h' = h_serverSubs h" "h_chans h' = h_chans h"
    "h_ops h' = (\<lambda>r. if r \<in> snd ` set (h_respWait h) \<and> inflightReq \<noteq> Some r then cancelled err (h_ops h r) else h_ops h r)"
    using cancelAllRequests_spec [OF ok(1), of err inflightReq] by auto
  have ok': "server_ok (h'\<lparr>h_cancelled := True\<rparr>)" using ok(2) h' by (simp add: server_ok_def)
  have c: "closed_with err (h_chans h r) = \<lparr>sc_sent = [err], sc_closed = True\<rparr>" if "r \<in> snd ` set (h_serverSubs h)" for r
    using ok(2) that by (auto simp: server_ok_def closed_with_def)
  show "\<exists>h' h''. handler_close_begin err inflightReq h = Some h' \<and> handler_close_end err h' = Some h'' \<and>
       h_respWait h'' = [] \<and> h_clientSubs h'' = [] \<and> h_serverSubs h'' = [] \<and> h_cancelled h'' \<and>
       (\<forall>r. h_ops h'' r = (if r \<in> snd ` set (h_respWait h) \<and> inflightReq \<noteq> Some r
                           then (h_ops h r)\<lparr>op_err := map_option Inr err, op_closed := True\<rparr> else h_ops h r)) \<and>
       (\<forall>r\<in>snd ` set (h_serverSubs h). h_chans h'' r = \<lparr>sc_sent = [err], sc_closed = True\<rparr>)"
    unfolding handler_close_begin_def handler_close_end_def h'(1)
    by (intro exI [of _ h'] exI conjI, rule refl, rule cancelServer_spec [OF ok'])
      (use h' c in \<open>simp_all add: cancelled_def\<close>)
qed

text \<open>
  C33. In every state that a handler reaches by registering and removing requests, responses,
  subscriptions and cancellations, no response and no \<open>unsubscribe\<close> sends on or closes a closed
  channel, and \<open>close\<close> finishes: it forgets all requests and subscriptions, ends every waiting request
  but the excepted one with the error, leaves the other requests alone, and sends the error once to
  every server-side subscription, whose channel it closes.
\<close>
theorem handler_close_clean:
  assumes "(handler_step unmarshal)\<^sup>*\<^sup>* (NewHandler ops subs chans) h"
  shows "(handleResponse unmarshal msg h \<noteq> None) \<and>
    (handler_unsubscribe i h \<noteq> None) \<and>
    (\<exists>h' h''. handler_close_begin err inflightReq h = Some h' \<and> handler_close_end err h' = Some h'' \<and>
       h_respWait h'' = [] \<and> h_clientSubs h'' = [] \<and> h_serverSubs h'' = [] \<and> h_cancelled h'' \<and>
       (\<forall>r. h_ops h'' r = (if r \<in> snd ` set (h_respWait h) \<and> inflightReq \<noteq> Some r
                           then (h_ops h r)\<lparr>op_err := map_option Inr err, op_closed := True\<rparr> else h_ops h r)) \<and>
       (\<forall>r\<in>snd ` set (h_serverSubs h). h_chans h'' r = \<lparr>sc_sent = [err], sc_closed = True\<rparr>))"
  by (rule conjI, rule handler_close_clean_parts(1) [OF assms],
      rule conjI, rule handler_close_clean_parts(2) [OF assms],
      rule handler_close_clean_parts(3) [OF assms])

lemma handler_close_clean_witness:
  "handler_unsubscribe ''0x1'' (NewHandler (\<lambda>_. \<lparr>op_ids = [], op_err = None, op_resp = [], op_closed = False, op_sub = None\<rparr>)
     (\<lambda>_. \<lparr>hs_subid = [], hs_running = False, hs_in = [], hs_closes = []\<rparr>)
     (\<lambda>_. \<lparr>sc_sent = [], sc_closed = False\<rparr>) :: (unit, unit) handler) \<noteq> None"
  by (rule handler_close_clean [THEN conjunct2, THEN conjunct1, rule_format, where unmarshal = "\<lambda>_. Inl ()", OF rtranclp.rtrancl_refl])

lemma subscribe_response_inverted_parts:
  fixes h :: "('d, 'e) handler"
  assumes "map_of (h_respWait h) (raw_text (jm_id msg)) = Some r" "op_sub (h_ops h r) = Some sub" "\<not> op_closed (h_ops h r)"
  shows "unmarshal (jm_result msg) = Inr sid \<Longrightarrow>
      \<exists>h'. handleResponse unmarshal msg h = Some h' \<and> h_clientSubs h' = h_clientSubs h \<and>
        hs_subid (h_subs h' sub) = sid \<and> hs_running (h_subs h' sub) = hs_running (h_subs h sub) \<and>
        op_err (h_ops h' r) = None \<and> op_closed (h_ops h' r)"
    "unmarshal (jm_result msg) = Inl e \<Longrightarrow>
      \<exists>h'. handleResponse unmarshal msg h = Some h' \<and> map_of (h_clientSubs h') (hs_subid (h_subs h sub)) = Some sub \<and>
        hs_running (h_subs h' sub) \<and> op_err (h_ops h' r) = Some (Inr e) \<and> op_closed (h_ops h' r)"
    "map_of (h_clientSubs h) sid = None \<Longrightarrow> unmarshalSub (jm_params note) = Some (sid, v) \<Longrightarrow>
      handleSubscriptionResult unmarshalSub note h = h"
  using assms by (auto simp: handleResponse_def handleSubscriptionResult_def close_resp_def Let_def update_conv'
      split: option.split)

text \<open>
  C34. The response to a subscription request. When the identifier is read, the subscription is neither
  started nor entered under it, and the request reports success, so its notifications are dropped. When
  it cannot be read, in particular when the response is an error, the subscription is started and
  entered under its old identifier, and the error reported is that of the decoder, not that of the
  server.
\<close>
theorem subscribe_response_inverted:
  fixes h :: "('d, 'e) handler"
  assumes "map_of (h_respWait h) (raw_text (jm_id msg)) = Some r" "op_sub (h_ops h r) = Some sub" "\<not> op_closed (h_ops h r)"
  shows "(unmarshal (jm_result msg) = Inr sid \<longrightarrow> (\<exists>h'. handleResponse unmarshal msg h = Some h' \<and> h_clientSubs h' = h_clientSubs h \<and>
        hs_subid (h_subs h' sub) = sid \<and> hs_running (h_subs h' sub) = hs_running (h_subs h sub) \<and>
        op_err (h_ops h' r) = None \<and> op_closed (h_ops h' r))) \<and>
    (unmarshal (jm_result msg) = Inl e \<longrightarrow> (\<exists>h'. handleResponse unmarshal msg h = Some h' \<and> map_of (h_clientSubs h') (hs_subid (h_subs h sub)) = Some sub \<and>
        hs_running (h_subs h' sub) \<and> op_err (h_ops h' r) = Some (Inr e) \<and> op_closed (h_ops h' r))) \<and>
    (map_of (h_clientSubs h) sid = None \<longrightarrow> unmarshalSub (jm_params note) = Some (sid, v) \<longrightarrow> handleSubscriptionResult unmarshalSub note h = h)"
  by (rule conjI, rule impI, rule subscribe_response_inverted_parts(1) [OF assms], assumption,
      rule conjI, rule impI, rule subscribe_response_inverted_parts(2) [OF assms], assumption,
      rule impI, rule impI, rule subscribe_response_inverted_parts(3) [OF assms], assumption, assumption)

definition sub_request_handler :: "(unit, unit) handler" where
  "sub_request_handler = (NewHandler (\<lambda>_. \<lparr>op_ids = [''1''], op_err = None, op_resp = [], op_closed = False, op_sub = Some 0\<rparr>)
     (\<lambda>_. \<lparr>hs_subid = [], hs_running = False, hs_in = [], hs_closes = []\<rparr>)
     (\<lambda>_. \<lparr>sc_sent = [], sc_closed = False\<rparr>))\<lparr>h_respWait := [(''1'', 0)]\<rparr>"

lemma subscribe_response_inverted_witness:
  "\<exists>h'. handleResponse (\<lambda>_. Inr ''0xa'') (empty_msg\<lparr>jm_id := Some ''1''\<rparr>) sub_request_handler = Some h' \<and>
     h_clientSubs h' = h_clientSubs sub_request_handler \<and> hs_subid (h_subs h' 0) = ''0xa'' \<and>
     hs_running (h_subs h' 0) = hs_running (h_subs sub_request_handler 0) \<and> op_err (h_ops h' 0) = None \<and> op_closed (h_ops h' 0)"
  by (rule subscribe_response_inverted [THEN conjunct1, rule_format]) (simp_all add: sub_request_handler_def NewHandler_def empty_msg_def raw_text_def)

end
