(* ===== verification/Rpc_Server.thy ===== *)
theory Rpc_Server
  imports Rpc_Handler
begin

text \<open>
  \<open>src/rpc/server.go\<close>: the server with its registry and the set of codecs it serves. A codec is a number;
  \<open>srv_closed\<close> lists the calls of \<open>close\<close> on codecs, and what a request writes to its codec is returned.
  The bodies of \<open>handleMsg\<close> and \<open>handleBatch\<close> are empty in the source.
\<close>

section \<open>The server\<close>

record ('v, 'd) server =
  srv_services :: "('v, 'd) registry"
  srv_codecs :: "nat list"
  srv_run :: int
  srv_closed :: "nat list"

definition MetadataApi :: string where "MetadataApi = ''rpc''"

text \<open>The receiver with the method \<open>Modules\<close>; \<open>modules\<close> is the value that it returns when called.\<close>

definition rpcService :: "'v \<Rightarrow> ('v, 'd) receiver" where
  "rpcService modules = \<lparr>rc_value = GNil, rc_type = ''*rpc.RPCService'',
     rc_methods = [\<lparr>gm_name = ''Modules'', gm_pkgPath = [],
       gm_func = \<lparr>gf_in = [GPtr (GBase ''rpc.RPCService'' False)], gf_out = [GBase ''map[string]string'' False],
                  gf_variadic = False, gf_body = (\<lambda>_. Some [GVal modules])\<rparr>\<rparr>]\<rparr>"

definition server_RegisterName :: "('v, 'd) server \<Rightarrow> string \<Rightarrow> ('v, 'd) receiver \<Rightarrow> ('v, 'd) server \<times> string option" where
  "server_RegisterName s name rcvr =
     (case registerName (srv_services s) name rcvr of
        Inl err \<Rightarrow> (s, Some err)
      | Inr r \<Rightarrow> (s\<lparr>srv_services := r\<rparr>, None))"

definition NewServer :: "'v \<Rightarrow> ('v, 'd) server" where
  "NewServer modules =
     fst (server_RegisterName \<lparr>srv_services = [], srv_codecs = [], srv_run = 1, srv_closed = []\<rparr> MetadataApi (rpcService modules))"

definition trackCodec :: "nat \<Rightarrow> ('v, 'd) server \<Rightarrow> ('v, 'd) server \<times> bool" where
  "trackCodec c s = (if srv_run s = 0 then (s, False) else (s\<lparr>srv_codecs := List.insert c (srv_codecs s)\<rparr>, True))"

definition untrackCodec :: "nat \<Rightarrow> ('v, 'd) server \<Rightarrow> ('v, 'd) server" where
  "untrackCodec c s = s\<lparr>srv_codecs := removeAll c (srv_codecs s)\<rparr>"

definition server_Stop :: "('v, 'd) server \<Rightarrow> ('v, 'd) server" where
  "server_Stop s =
     (if srv_run s = 1 then (let s = s\<lparr>srv_run := 0\<rparr> in fold (\<lambda>c s. s\<lparr>srv_closed := srv_closed s @ [c]\<rparr>) (srv_codecs s) s)
      else s)"

definition Modules :: "('v, 'd) server \<Rightarrow> (string \<times> string) list" where
  "Modules s = map (\<lambda>(name, svc). (name, ''1.0'')) (srv_services s)"

text \<open>
  \<open>serveSingleRequest\<close>: what is read is an error, \<open>None\<close> for \<open>io.EOF\<close>, or messages and whether they are a
  batch. The result are the messages written, or \<open>None\<close> for the panic on \<open>reqs[0]\<close>.
\<close>

definition handleBatch :: "'d jsonrpcMessage list \<Rightarrow> 'd jsonrpcMessage list" where "handleBatch msgs = []"
definition handleMsg :: "'d jsonrpcMessage \<Rightarrow> 'd jsonrpcMessage list" where "handleMsg msg = []"

definition serveSingleRequest ::
  "(string \<Rightarrow> string) \<Rightarrow> ('v, 'd) server \<Rightarrow> 'e option + 'd jsonrpcMessage list \<times> bool \<Rightarrow> 'd jsonrpcMessage list option" where
  "serveSingleRequest quoteQ s read =
     (if srv_run s = 0 then Some []
      else (case read of
              Inl None \<Rightarrow> Some []
            | Inl (Some err) \<Rightarrow> Some [errorMessage quoteQ (InvalidMessage ''parse error'')]
            | Inr (reqs, batch) \<Rightarrow>
                if batch then Some (handleBatch reqs)
                else if length reqs = 0 then None else Some (handleMsg (reqs ! 0))))"

section \<open>Life of a server\<close>

inductive server_step :: "('v, 'd) server \<Rightarrow> ('v, 'd) server \<Rightarrow> bool" where
  registers: "server_RegisterName s name rcvr = (s', err) \<Longrightarrow> server_step s s'"
| tracks: "trackCodec c s = (s', ok) \<Longrightarrow> server_step s s'"
| untracks: "server_step s (untrackCodec c s)"
| stops: "server_step s (server_Stop s)"

definition server_inv :: "('v, 'd) server \<Rightarrow> bool" where
  "server_inv s \<longleftrightarrow> distinct (srv_codecs s) \<and> (srv_run s = 1 \<and> srv_closed s = [] \<or> srv_run s = 0 \<and> distinct (srv_closed s))"

lemma stop_fold: "fold (\<lambda>c s. s\<lparr>srv_closed := srv_closed s @ [c]\<rparr>) cs s = s\<lparr>srv_closed := srv_closed s @ cs\<rparr>"
  by (induction cs arbitrary: s) simp_all

lemma server_Stop_eq:
  "server_Stop s = (if srv_run s = 1 then s\<lparr>srv_run := 0, srv_closed := srv_closed s @ srv_codecs s\<rparr> else s)"
  by (simp add: server_Stop_def stop_fold)

lemma server_step_inv: "server_step s s' \<Longrightarrow> server_inv s \<Longrightarrow> server_inv s'"
  by (erule server_step.cases)
    (auto simp: server_inv_def server_RegisterName_def trackCodec_def untrackCodec_def server_Stop_eq distinct_removeAll
       split: sum.splits if_splits)

lemma NewServer_fields:
  "srv_codecs (NewServer m) = []" "srv_run (NewServer m) = 1" "srv_closed (NewServer m) = []"
  by (simp_all add: NewServer_def server_RegisterName_def split: sum.split)

lemma server_steps_inv: "server_step\<^sup>*\<^sup>* (NewServer m) s \<Longrightarrow> server_inv s"
  by (erule steps_invariant) (simp add: server_inv_def NewServer_fields, rule server_step_inv)

lemma to_lower_M: "to_lower CHR ''M'' = CHR ''m''"
  by code_simp

definition modules_callback :: "'v \<Rightarrow> ('v, 'd) callback" where
  "modules_callback m = \<lparr>cb_fn = gm_func (hd (rc_methods (rpcService m))), cb_rcvr = Some GNil, cb_argTypes = [],
     cb_hasCtx = False, cb_errPos = - 1, cb_isSubscribe = False\<rparr>"

lemma NewServer_services:
  "srv_services (NewServer m) = [(''rpc'', \<lparr>sv_name = ''rpc'', sv_callbacks = [(''modules'', modules_callback m)], sv_subscriptions = []\<rparr>)]"
  by (simp add: NewServer_def server_RegisterName_def registerName_def MetadataApi_def suitableCallbacks_def rpcService_def
      newCallback_def makeArgTypes_def contextType_def isPubSub_def isErrorType_def formatName_def to_lower_M
      modules_callback_def add_callback_def Let_def)

lemma server_lifecycle_parts:
  fixes s :: "('v, 'd) server"
  assumes "server_step\<^sup>*\<^sup>* (NewServer m) s"
  shows "Modules (NewServer m) = [(''rpc'', ''1.0'')]"
    "callback_call (the (registry_callback (srv_services (NewServer m)) (''rpc'' @ CHR ''_'' # ''modules''))) ctx method args =
       (ResVal (GVal m), None)"
    "srv_run s = 1 \<Longrightarrow> srv_closed s = [] \<and> srv_closed (server_Stop s) = srv_codecs s \<and> distinct (srv_codecs s)"
    "server_step\<^sup>*\<^sup>* (server_Stop s) s' \<Longrightarrow> srv_closed s' = srv_closed (server_Stop s) \<and>
       trackCodec c s' = (s', False) \<and> serveSingleRequest quoteQ s' read = Some []"
    "srv_run s = 1 \<Longrightarrow> serveSingleRequest quoteQ s (Inl (Some err)) =
       Some [errorMessage quoteQ (InvalidMessage ''parse error'')]"
    "map_option je_code (jm_error (errorMessage quoteQ (InvalidMessage ''parse error''))) = Some (- 32700)"
    "serveSingleRequest quoteQ s (Inr (reqs, batch)) \<in> {Some [], None}"
proof -
  have i: "server_inv s" using assms by (rule server_steps_inv)
  show "callback_call (the (registry_callback (srv_services (NewServer m)) (''rpc'' @ CHR ''_'' # ''modules''))) ctx method args =
       (ResVal (GVal m), None)"
    unfolding NewServer_services
    by (simp add: registry_callback_def split2_on_def serviceMethodSeparator_def modules_callback_def rpcService_def
        callback_call_def reflect_Call_def call_results_def)
  show "srv_run s = 1 \<Longrightarrow> srv_closed s = [] \<and> srv_closed (server_Stop s) = srv_codecs s \<and> distinct (srv_codecs s)"
    using i by (simp add: server_inv_def server_Stop_eq)
  show "srv_closed s' = srv_closed (server_Stop s) \<and> trackCodec c s' = (s', False) \<and> serveSingleRequest quoteQ s' read = Some []"
    if r: "server_step\<^sup>*\<^sup>* (server_Stop s) s'"
  proof -
    have "srv_run s' = 0 \<and> srv_closed s' = srv_closed (server_Stop s)"
      using r
    proof (rule steps_invariant)
      show "srv_run (server_Stop s) = 0 \<and> srv_closed (server_Stop s) = srv_closed (server_Stop s)"
        using i by (auto simp: server_inv_def server_Stop_eq)
    qed (auto elim!: server_step.cases simp: server_RegisterName_def trackCodec_def untrackCodec_def server_Stop_eq
        split: sum.splits if_splits)
    then show ?thesis by (simp add: trackCodec_def serveSingleRequest_def)
  qed
qed (auto simp: Modules_def NewServer_services serveSingleRequest_def handleBatch_def handleMsg_def)



end
