(* ===== verification/Rpc_Client.thy ===== *)
theory Rpc_Client
  imports Rpc_Server
begin

text \<open>
  The connections of \<open>src/rpc/client.go\<close> and the codec of \<open>src/rpc/json.go\<close>, as far as they have code, and the
  empty \<open>ServerCodec\<close> of \<open>src/rpc/server.go\<close>.
\<close>

section \<open>The codec over a connection\<close>

text \<open>\<open>jc_closeCh\<close> says that the channel is closed.\<close>

record ('c, 'enc, 'dec) jsonCodec =
  jc_remote :: string
  jc_closeCh :: bool
  jc_decode :: 'dec
  jc_encode :: 'enc
  jc_conn :: 'c

text \<open>\<open>remoteAddr\<close> gives the address of a connection that has the method \<open>RemoteAddr\<close>.\<close>

definition NewFuncCodec :: "('c \<Rightarrow> string option) \<Rightarrow> 'c \<Rightarrow> 'enc \<Rightarrow> 'dec \<Rightarrow> ('c, 'enc, 'dec) jsonCodec" where
  "NewFuncCodec remoteAddr conn encode decode =
     (let codec = \<lparr>jc_remote = [], jc_closeCh = False, jc_decode = decode, jc_encode = encode, jc_conn = conn\<rparr>
      in case remoteAddr conn of Some ra \<Rightarrow> codec\<lparr>jc_remote := ra\<rparr> | None \<Rightarrow> codec)"

text \<open>\<open>ServerCodec\<close>, whose body is a comment.\<close>

definition Server_ServerCodec :: "nat \<Rightarrow> nat \<Rightarrow> ('v, 'd) server \<Rightarrow> ('v, 'd) server" where
  "Server_ServerCodec codec options s = s"

section \<open>Connections of a client\<close>

record ('d, 'e) clientConn =
  cc_codec :: nat
  cc_handler :: "('d, 'e) handler"

text \<open>
  \<open>close\<close>, in two parts, since the handler waits in between for the calls that are running; \<open>closed\<close> are
  the codecs closed so far. \<open>None\<close> is a panic.
\<close>

definition clientConn_close_begin ::
  "'e option \<Rightarrow> nat option \<Rightarrow> ('d, 'e) clientConn \<Rightarrow> ('d, 'e) clientConn option" where
  "clientConn_close_begin err inflightReq cc =
     map_option (\<lambda>h. cc\<lparr>cc_handler := h\<rparr>) (handler_close_begin err inflightReq (cc_handler cc))"

definition clientConn_close_end ::
  "'e option \<Rightarrow> nat list \<Rightarrow> ('d, 'e) clientConn \<Rightarrow> (nat list \<times> ('d, 'e) clientConn) option" where
  "clientConn_close_end err closed cc =
     map_option (\<lambda>h. (closed @ [cc_codec cc], cc\<lparr>cc_handler := h\<rparr>)) (handler_close_end err (cc_handler cc))"

text \<open>Closing a connection closes its codec once, and by then no request or subscription of it waits.\<close>

lemma clientConn_close_clean:
  assumes "(handler_step unmarshal)\<^sup>*\<^sup>* (NewHandler ops subs chans) (cc_handler cc)"
  shows "\<exists>cc' cc''. clientConn_close_begin err inflightReq cc = Some cc' \<and>
    clientConn_close_end err closed cc' = Some (closed @ [cc_codec cc], cc'') \<and>
    h_respWait (cc_handler cc'') = [] \<and> h_clientSubs (cc_handler cc'') = [] \<and> h_serverSubs (cc_handler cc'') = [] \<and>
    h_cancelled (cc_handler cc'')"
proof -
  obtain h' h'' where h: "handler_close_begin err inflightReq (cc_handler cc) = Some h'" "handler_close_end err h' = Some h''"
    "h_respWait h'' = []" "h_clientSubs h'' = []" "h_serverSubs h'' = []" "h_cancelled h''"
    using handler_close_clean_parts(3) [OF assms, of err inflightReq] by blast
  then show ?thesis by (simp add: clientConn_close_begin_def clientConn_close_end_def)
qed

end
