(* ===== verification/Log_Numbers.thy ===== *)
theory Log_Numbers
  imports Go_Std
begin

text \<open>
  The numbers of \<open>src/log/format.go\<close>: the formatting of integers with a separator after each group of
  three digits. The code fills a buffer of fixed size from its end; a position before the first is the
  panic \<open>None\<close>. \<open>thousands\<close> is the reference: the decimal digits, grouped from the right.
\<close>

section \<open>Machine integers\<close>

text \<open>The loop on the remaining number, the free places of the buffer and the digits since the last comma.\<close>

fun split_loop :: "uint64 \<Rightarrow> nat \<Rightarrow> nat \<Rightarrow> string \<Rightarrow> (nat \<times> string) option" where
  "split_loop n 0 comma out = (if n = 0 then Some (0, out) else None)"
| "split_loop n (Suc i) comma out =
     (if n = 0 then Some (Suc i, out)
      else if comma = 3 then split_loop n i 0 (out[i := CHR '',''])
      else split_loop (n div 10) i (comma + 1) (out[i := char_of (48 + unat (n mod 10))]))"

definition formatLogfmtUint64 :: "uint64 \<Rightarrow> bool \<Rightarrow> string option" where
  "formatLogfmtUint64 n neg =
     (if n < 100000 then Some (if neg then itoa (- uint n) else itoa (uint n))
      else (let maxLength = 26
            in case split_loop n maxLength 0 (replicate maxLength (char_of (0 :: nat))) of
                 None \<Rightarrow> None
               | Some (i, out) \<Rightarrow>
                   if neg then (case i of 0 \<Rightarrow> None | Suc i \<Rightarrow> Some (drop i (out[i := CHR ''-''])))
                   else Some (drop i out)))"

definition FormatLogfmtInt64 :: "64 word \<Rightarrow> string option" where
  "FormatLogfmtInt64 n = (if sint n < 0 then formatLogfmtUint64 (- n) True else formatLogfmtUint64 n False)"

definition FormatLogfmtUint64 :: "uint64 \<Rightarrow> string option" where
  "FormatLogfmtUint64 n = formatLogfmtUint64 n False"

section \<open>Big integers\<close>

text \<open>The loop over the text of the number, from its end.\<close>

fun big_loop :: "string \<Rightarrow> nat \<Rightarrow> nat \<Rightarrow> string \<Rightarrow> (nat \<times> string) option" where
  "big_loop [] i comma buf = Some (i, buf)"
| "big_loop (c # rtext) i comma buf =
     (if c = CHR ''-'' then (case i of 0 \<Rightarrow> None | Suc i \<Rightarrow> big_loop rtext i comma (buf[i := c]))
      else if comma = 3 then
        (case i of Suc (Suc i) \<Rightarrow> big_loop rtext i 1 (buf[Suc i := CHR '','', i := c]) | _ \<Rightarrow> None)
      else (case i of 0 \<Rightarrow> None | Suc i \<Rightarrow> big_loop rtext i (comma + 1) (buf[i := c])))"

definition formatLogfmtBigInt :: "int \<Rightarrow> string option" where
  "formatLogfmtBigInt n =
     (if 0 \<le> n \<and> n < 2 ^ 64 then FormatLogfmtUint64 (word_of_int n)
      else if - (2 ^ 63) \<le> n \<and> n < 2 ^ 63 then FormatLogfmtInt64 (word_of_int n)
      else (let text = itoa n;
                len = length text + length text div 3
            in case big_loop (rev text) len 0 (replicate len (char_of (0 :: nat))) of
                 None \<Rightarrow> None
               | Some (i, buf) \<Rightarrow> Some (drop i buf)))"

section \<open>The reference\<close>

function thousands :: "string \<Rightarrow> string" where
  "thousands s =
     (if length s \<le> 3 then s else thousands (take (length s - 3) s) @ '','' @ drop (length s - 3) s)"
  by pat_completeness auto

termination
  by (relation "measure length") auto

declare thousands.simps [simp del]

definition with_separators :: "int \<Rightarrow> string" where
  "with_separators n =
     (if \<bar>n\<bar> < 100000 then itoa n
      else (if n < 0 then ''-'' else []) @ thousands (dec_digits (nat \<bar>n\<bar>)))"

text \<open>The same grouping, read from the end with a counter.\<close>

fun grouped :: "nat \<Rightarrow> string \<Rightarrow> string" where
  "grouped c [] = []"
| "grouped c (d # ds) = (if c = 3 then CHR '','' # d # grouped 1 ds else d # grouped (c + 1) ds)"

lemma grouped_3: "grouped 3 ds = (if ds = [] then [] else CHR '','' # grouped 0 ds)"
  by (cases ds) simp_all

lemma grouped_Suc3: "grouped (Suc (Suc (Suc 0))) ds = (if ds = [] then [] else CHR '','' # grouped 0 ds)"
  using grouped_3 [of ds] by (simp only: numeral_3_eq_3)

lemma thousands_short: "length s \<le> 3 \<Longrightarrow> thousands s = s"
  by (subst thousands.simps) simp

lemma thousands_snoc3: "s \<noteq> [] \<Longrightarrow> thousands (s @ [a, b, c]) = thousands s @ [CHR '','', a, b, c]"
  by (subst thousands.simps) auto

lemma group_rev: "grouped 0 ds = rev (thousands (rev ds))"
proof (induction "length ds" arbitrary: ds rule: less_induct)
  case less
  show ?case
  proof (cases "length ds \<le> 3")
    case True
    then consider "ds = []" | a where "ds = [a]" | a b where "ds = [a, b]" | a b c where "ds = [a, b, c]"
      by (cases ds; cases "drop 1 ds"; cases "drop 2 ds"; cases "drop 3 ds") auto
    then show ?thesis by cases (simp_all add: thousands_short)
  next
    case False
    then obtain a b c r where ds: "ds = a # b # c # r" "r \<noteq> []"
      by (cases ds; cases "drop 1 ds"; cases "drop 2 ds"; cases "drop 3 ds") auto
    have "grouped 0 ds = a # b # c # CHR '','' # grouped 0 r" using ds by (simp add: grouped_Suc3)
    then show ?thesis using less [of r] ds by (simp add: thousands_snoc3)
  qed
qed

lemma length_group: "c \<le> 3 \<Longrightarrow> length (grouped c ds) = length ds + (length ds + c - 1) div 3"
  by (induction ds arbitrary: c) auto


text \<open>The digits from the end.\<close>

definition rdigits :: "nat \<Rightarrow> string" where
  "rdigits n = rev (map hexdigit (be_digits 10 n))"

lemma rdigits_0 [simp]: "rdigits 0 = []"
  by (simp add: rdigits_def)

lemma rdigits_pos: "0 < n \<Longrightarrow> rdigits n = hexdigit (n mod 10) # rdigits (n div 10)"
  by (simp add: rdigits_def be_digits_pos)

lemma rev_rdigits: "0 < n \<Longrightarrow> rev (rdigits n) = dec_digits n"
  by (simp add: rdigits_def dec_digits_def)

lemma length_rdigits: "n < 10 ^ k \<Longrightarrow> length (rdigits n) \<le> k"
  by (simp add: rdigits_def length_be_digits)

lemma decimal_char: "d < 10 \<Longrightarrow> char_of (48 + d) = hexdigit d"
  by (rule char_eqI) (simp add: ord_hexdigit ord_char_of)

lemma drop_update_last: "i < length out \<Longrightarrow> drop i (out[i := c]) = c # drop (Suc i) out"
  by (subst Cons_nth_drop_Suc [symmetric]) simp_all

lemma split_loop_spec:
  assumes "comma \<le> 3" "free \<le> length out" "length (grouped comma (rdigits (unat n))) \<le> free"
  shows "\<exists>out'. split_loop n free comma out = Some (free - length (grouped comma (rdigits (unat n))), out') \<and>
     drop (free - length (grouped comma (rdigits (unat n)))) out' = rev (grouped comma (rdigits (unat n))) @ drop free out \<and>
     length out' = length out"
  using assms
proof (induction free arbitrary: n comma out)
  case 0
  then have "rdigits (unat n) = []" by (cases "rdigits (unat n)") (auto split: if_splits)
  then have "n = 0" by (cases "unat n = 0") (auto simp: rdigits_pos unat_eq_0)
  then show ?case by simp
next
  case (Suc i)
  show ?case
  proof (cases "n = 0")
    case False
    then have pos: "0 < unat n" by (simp add: unat_gt_0)
    let ?d = "hexdigit (unat n mod 10)"
    have r: "rdigits (unat n) = ?d # rdigits (unat n div 10)" using pos by (rule rdigits_pos)
    have m: "unat (n mod 10) = unat n mod 10" "unat (n div 10) = unat n div 10" by (simp_all add: unat_mod unat_div)
    have d: "char_of (48 + unat (n mod 10)) = ?d" unfolding m by (rule decimal_char) simp
    show ?thesis
    proof (cases "comma = 3")
      case True
      have g: "grouped comma (rdigits (unat n)) = CHR '','' # grouped 0 (rdigits (unat n))"
        using True r by (simp add: grouped_3)
      have "\<exists>out'. split_loop n i 0 (out[i := CHR '','']) = Some (i - length (grouped 0 (rdigits (unat n))), out') \<and>
          drop (i - length (grouped 0 (rdigits (unat n)))) out' =
            rev (grouped 0 (rdigits (unat n))) @ drop i (out[i := CHR '','']) \<and> length out' = length (out[i := CHR '',''])"
        by (rule Suc.IH) (use Suc.prems g in simp_all)
      then show ?thesis
        using True False Suc.prems(2) unfolding g by (auto simp: drop_update_last)
    next
      case ne: False
      have g: "grouped comma (rdigits (unat n)) = ?d # grouped (comma + 1) (rdigits (unat (n div 10)))"
        using ne r m by simp
      have "\<exists>out'. split_loop (n div 10) i (comma + 1) (out[i := ?d]) =
            Some (i - length (grouped (comma + 1) (rdigits (unat (n div 10)))), out') \<and>
          drop (i - length (grouped (comma + 1) (rdigits (unat (n div 10))))) out' =
            rev (grouped (comma + 1) (rdigits (unat (n div 10)))) @ drop i (out[i := ?d]) \<and> length out' = length (out[i := ?d])"
        by (rule Suc.IH) (use Suc.prems g ne in simp_all)
      then show ?thesis
        using ne False Suc.prems(2) d unfolding g by (auto simp: drop_update_last)
    qed
  qed simp
qed

lemma big_loop_spec:
  assumes "comma \<le> 3" "free \<le> length buf" "length (grouped comma ds) + length sign \<le> free"
    "CHR ''-'' \<notin> set ds" "sign = [] \<or> sign = ''-''"
  shows "\<exists>buf'. big_loop (ds @ sign) free comma buf = Some (free - (length (grouped comma ds) + length sign), buf') \<and>
     drop (free - (length (grouped comma ds) + length sign)) buf' = sign @ rev (grouped comma ds) @ drop free buf"
  using assms
proof (induction ds arbitrary: free comma buf)
  case Nil
  then show ?case by (cases free) (auto simp: drop_update_last)
next
  case (Cons d ds)
  then have d: "d \<noteq> CHR ''-''" by auto
  show ?case
  proof (cases "comma = 3")
    case True
    then obtain i where i: "free = Suc (Suc i)" using Cons.prems(3) by (cases free; cases "free - 1") auto
    have "\<exists>buf'. big_loop (ds @ sign) i 1 (buf[Suc i := CHR '','', i := d]) = Some (i - (length (grouped 1 ds) + length sign), buf') \<and>
        drop (i - (length (grouped 1 ds) + length sign)) buf' = sign @ rev (grouped 1 ds) @ drop i (buf[Suc i := CHR '','', i := d])"
      by (rule Cons.IH) (use Cons.prems i True in simp_all)
    then show ?thesis using True d i Cons.prems(2) by (auto simp: drop_update_last)
  next
    case False
    then obtain i where i: "free = Suc i" using Cons.prems(3) by (cases free) auto
    have "\<exists>buf'. big_loop (ds @ sign) i (comma + 1) (buf[i := d]) = Some (i - (length (grouped (comma + 1) ds) + length sign), buf') \<and>
        drop (i - (length (grouped (comma + 1) ds) + length sign)) buf' = sign @ rev (grouped (comma + 1) ds) @ drop i (buf[i := d])"
      by (rule Cons.IH) (use Cons.prems i False in simp_all)
    then show ?thesis using False d i Cons.prems(2) by (auto simp: drop_update_last)
  qed
qed


lemma uint_small: "0 \<le> k \<Longrightarrow> k < 2 ^ 64 \<Longrightarrow> uint (word_of_int k :: 64 word) = k"
  by (simp add: uint_word_of_int)

lemma uint_minus: "sint (n :: 64 word) < 0 \<Longrightarrow> uint (- n) = - sint n"
proof -
  assume neg: "sint n < 0"
  have r: "- (2 ^ 63) \<le> sint n" using sint_ge [of n] by simp
  have "- n = word_of_int (- sint n)" by simp
  then have "uint (- n) = uint (word_of_int (- sint n) :: 64 word)" by simp
  also have "\<dots> = - sint n" using r neg by (intro uint_small) simp_all
  finally show ?thesis .
qed

lemma uint_nonneg: "0 \<le> sint (n :: 64 word) \<Longrightarrow> uint n = sint n"
proof -
  assume nn: "0 \<le> sint n"
  have r: "sint n < 2 ^ 63" using sint_lt [of n] by simp
  have "uint n = uint (word_of_int (sint n) :: 64 word)" by simp
  also have "\<dots> = sint n" using r nn by (intro uint_small) simp_all
  finally show ?thesis .
qed

lemma formatLogfmtUint64_spec:
  assumes "neg \<Longrightarrow> uint n \<le> 2 ^ 63"
  shows "formatLogfmtUint64 n neg = Some (with_separators (if neg then - uint n else uint n))"
proof (cases "n < 100000")
  case True
  then have "uint n < 100000" by (simp add: word_less_def)
  then show ?thesis using True by (simp add: formatLogfmtUint64_def with_separators_def)
next
  case False
  then have big: "100000 \<le> uint n" by (simp add: word_less_def)
  then have u: "unat n = nat (uint n)" "0 < unat n" by (simp_all add: unat_gt_0) auto
  let ?g = "grouped 0 (rdigits (unat n))"
  have "unat n < 2 ^ LENGTH(64)" by (rule unsigned_less)
  then have "unat n < 10 ^ 20" by simp
  then have l: "length (rdigits (unat n)) \<le> 20" by (rule length_rdigits)
  then have g: "length ?g \<le> 26" by (simp add: length_group)
  have gneg: "length ?g \<le> 25" if neg
  proof -
    have "int (unat n) = uint n" by simp
    moreover have "uint n \<le> 9223372036854775808" using assms [OF that] by simp
    ultimately have "unat n < 10000000000000000000" by linarith
    then have "unat n < 10 ^ 19" by simp
    then have "length (rdigits (unat n)) \<le> 19" by (rule length_rdigits)
    then show ?thesis by (simp add: length_group)
  qed
  have rg: "rev ?g = thousands (dec_digits (nat (uint n)))"
    using u by (simp add: group_rev rev_rdigits)
  obtain out' where out': "split_loop n 26 0 (replicate 26 (char_of (0 :: nat))) = Some (26 - length ?g, out')"
    "drop (26 - length ?g) out' = rev ?g" "length out' = 26"
    using split_loop_spec [of 0 26 "replicate 26 (char_of (0 :: nat))" n] g by auto
  show ?thesis
  proof (cases neg)
    case False
    then show ?thesis
      using \<open>\<not> n < 100000\<close> big out' rg
      by (simp add: formatLogfmtUint64_def Let_def with_separators_def)
  next
    case True
    then obtain i where i: "26 - length ?g = Suc i" using gneg by (cases "26 - length ?g") auto
    have "drop i (out'[i := CHR ''-'']) = CHR ''-'' # rev ?g"
      using drop_update_last [of i out' "CHR ''-''"] out' i by simp
    then show ?thesis
      using True \<open>\<not> n < 100000\<close> big out'(1) rg unfolding i
      by (simp add: formatLogfmtUint64_def Let_def with_separators_def)
  qed
qed

lemma FormatLogfmtInt64_spec: "FormatLogfmtInt64 n = Some (with_separators (sint n))"
proof (cases "sint n < 0")
  case True
  have "- (2 ^ 63) \<le> sint n" using sint_ge [of n] by simp
  then show ?thesis
    using True uint_minus [OF True] formatLogfmtUint64_spec [of True "- n"] by (simp add: FormatLogfmtInt64_def)
next
  case False
  then show ?thesis
    using uint_nonneg [of n] formatLogfmtUint64_spec [of False n] by (simp add: FormatLogfmtInt64_def)
qed

lemma hexdigit_not_minus: "d < 16 \<Longrightarrow> hexdigit d \<noteq> CHR ''-''"
  using is_hex_hexdigit not_hex(1) by metis

lemma rdigits_not_minus: "CHR ''-'' \<notin> set (rdigits n)"
proof
  assume "CHR ''-'' \<in> set (rdigits n)"
  then obtain d where "d \<in> set (be_digits 10 n)" "hexdigit d = CHR ''-''" by (auto simp: rdigits_def)
  then show False using be_digits_less [of d 10 n] hexdigit_not_minus [of d] by simp
qed

lemma big_loop_itoa:
  assumes "x \<noteq> 0"
  shows "\<exists>i buf. big_loop (rev (itoa x)) (length (itoa x) + length (itoa x) div 3) 0
       (replicate (length (itoa x) + length (itoa x) div 3) (char_of (0 :: nat))) = Some (i, buf) \<and>
     drop i buf = (if x < 0 then ''-'' else []) @ thousands (dec_digits (nat \<bar>x\<bar>))"
proof -
  let ?sign = "if x < 0 then ''-'' else []" and ?ds = "rdigits (nat \<bar>x\<bar>)"
  have pos: "0 < nat \<bar>x\<bar>" using assms by simp
  have rt: "rev (itoa x) = ?ds @ ?sign" using rev_rdigits [OF pos] by (auto simp: itoa_def rev_swap)
  then have len: "length (itoa x) = length ?ds + length ?sign" by (metis length_append length_rev)
  let ?len = "length (itoa x) + length (itoa x) div 3"
  have sg: "?sign = [] \<or> ?sign = ''-''" by simp
  have ne: "?ds \<noteq> []" using pos by (simp add: rdigits_pos)
  have "(length ?ds - 1) div 3 \<le> (length ?ds + length ?sign) div 3" by (rule div_le_mono) simp
  then have fit: "length (grouped 0 ?ds) + length ?sign \<le> ?len" by (simp add: length_group len)
  obtain buf where "big_loop (?ds @ ?sign) ?len 0 (replicate ?len (char_of (0 :: nat))) =
        Some (?len - (length (grouped 0 ?ds) + length ?sign), buf)"
      "drop (?len - (length (grouped 0 ?ds) + length ?sign)) buf = ?sign @ rev (grouped 0 ?ds)"
    using big_loop_spec [of 0 ?len "replicate ?len (char_of (0 :: nat))" ?ds ?sign, OF _ _ fit rdigits_not_minus sg] by auto
  then show ?thesis unfolding rt by (simp add: group_rev rev_rdigits [OF pos])
qed

lemma formatLogfmtBigInt_spec: "formatLogfmtBigInt x = Some (with_separators x)"
proof (cases "0 \<le> x \<and> x < 2 ^ 64 \<or> - (2 ^ 63) \<le> x \<and> x < 2 ^ 63")
  case True
  then show ?thesis
    using formatLogfmtUint64_spec [of False "word_of_int x"] FormatLogfmtInt64_spec [of "word_of_int x"] sint_word_of_int [of x] uint_small [of x]
    by (auto simp: formatLogfmtBigInt_def FormatLogfmtUint64_def)
next
  case False
  then have "x \<noteq> 0" "100000 \<le> \<bar>x\<bar>" by auto
  then show ?thesis
    using False big_loop_itoa [of x] by (auto simp: formatLogfmtBigInt_def Let_def with_separators_def)
qed

lemma thousands_digits: "CHR '','' \<notin> set s \<Longrightarrow> filter (\<lambda>c. c \<noteq> CHR '','') (thousands s) = s"
proof (induction s rule: thousands.induct)
  case (1 s)
  show ?case
  proof (cases "length s \<le> 3")
    case True
    then show ?thesis using 1 by (auto simp: thousands_short filter_id_conv)
  next
    case False
    have "CHR '','' \<notin> set (take (length s - 3) s)" "CHR '','' \<notin> set (drop (length s - 3) s)"
      using 1(2) by (auto dest: in_set_takeD in_set_dropD)
    moreover have "filter (\<lambda>c. c \<noteq> CHR '','') (drop (length s - 3) s) = drop (length s - 3) s"
      using calculation(2) by (intro filter_True) auto
    ultimately have "filter (\<lambda>c. c \<noteq> CHR '','') (thousands s) = take (length s - 3) s @ drop (length s - 3) s"
      using 1(1) [OF False] False by (subst thousands.simps) simp
    then show ?thesis by simp
  qed
qed

lemma dec_digits_no_comma: "CHR '','' \<notin> set (dec_digits n)"
proof
  assume "CHR '','' \<in> set (dec_digits n)"
  then obtain d where "d \<in> set (be_digits 10 n)" "hexdigit d = CHR '',''" by (auto simp: dec_digits_def split: if_splits)
  then have "is_hex CHR '',''" using be_digits_less [of d 10 n] is_hex_hexdigit [of d] by simp
  then show False by (simp add: is_hex_def hexval_def)
qed

section \<open>Properties\<close>

lemma thousands_separators_parts:
  "FormatLogfmtUint64 n = Some (with_separators (uint n))"
  "FormatLogfmtInt64 n = Some (with_separators (sint n))"
  "formatLogfmtBigInt x = Some (with_separators x)"
  "filter (\<lambda>c. c \<noteq> CHR '','') (with_separators x) = itoa x"
proof -
  show "filter (\<lambda>c. c \<noteq> CHR '','') (with_separators x) = itoa x"
    using dec_digits_no_comma thousands_digits [OF dec_digits_no_comma]
    by (auto simp: with_separators_def itoa_def filter_id_conv)
qed (simp_all add: FormatLogfmtUint64_def formatLogfmtUint64_spec FormatLogfmtInt64_spec formatLogfmtBigInt_spec)

text \<open>
  The three number formatters agree with one reference: below 100000 in size the plain decimal
  text, otherwise the decimal digits in groups of three with the sign in front. They never leave their
  buffers, the smallest 64-bit integer and big integers of any length included, and without the commas the
  text is the decimal text of the number.
\<close>
theorem thousands_separators:
  "(FormatLogfmtUint64 n = Some (with_separators (uint n))) \<and>
    (FormatLogfmtInt64 n = Some (with_separators (sint n))) \<and>
    (formatLogfmtBigInt x = Some (with_separators x)) \<and>
    (filter (\<lambda>c. c \<noteq> CHR '','') (with_separators x) = itoa x)"
  by (rule conjI, rule thousands_separators_parts(1),
      rule conjI, rule thousands_separators_parts(2),
      rule conjI, rule thousands_separators_parts(3),
      rule thousands_separators_parts(4))

end
