(* ===== verification/Log_Record.thy ===== *)
theory Log_Record
  imports Go_Std
begin

text \<open>
  The data of \<open>src/log/logger.go\<close>: levels, records and contexts. A value of type \<open>interface{}\<close> is an
  \<open>lval\<close>; what the model does not look into (times, floats, call sites, other values) is of the type
  \<open>'o\<close>, and the record \<open>fmt_env\<close> holds the texts that the standard library and \<open>go-stack\<close> give for it.
  A panic is \<open>None\<close>.
\<close>

section \<open>Levels\<close>

definition LvlCrit :: int where "LvlCrit = 0"
definition LvlError :: int where "LvlError = 1"
definition LvlWarn :: int where "LvlWarn = 2"
definition LvlInfo :: int where "LvlInfo = 3"
definition LvlDebug :: int where "LvlDebug = 4"
definition LvlTrace :: int where "LvlTrace = 5"

lemmas lvl_defs = LvlCrit_def LvlError_def LvlWarn_def LvlInfo_def LvlDebug_def LvlTrace_def

definition AlignedString :: "int \<Rightarrow> string option" where
  "AlignedString l =
     (if l = LvlTrace then Some ''TRACE'' else if l = LvlDebug then Some ''DEBUG''
      else if l = LvlInfo then Some ''INFO '' else if l = LvlWarn then Some ''WARN ''
      else if l = LvlError then Some ''ERROR'' else if l = LvlCrit then Some ''CRIT '' else None)"

definition Lvl_String :: "int \<Rightarrow> string option" where
  "Lvl_String l =
     (if l = LvlTrace then Some ''trce'' else if l = LvlDebug then Some ''dbug''
      else if l = LvlInfo then Some ''info'' else if l = LvlWarn then Some ''warn''
      else if l = LvlError then Some ''eror'' else if l = LvlCrit then Some ''crit'' else None)"

definition LvlFromString :: "string \<Rightarrow> (int, string) ret" where
  "LvlFromString s =
     (if s = ''trace'' \<or> s = ''trce'' then (LvlTrace, None)
      else if s = ''debug'' \<or> s = ''dbug'' then (LvlDebug, None)
      else if s = ''info'' then (LvlInfo, None)
      else if s = ''warn'' then (LvlWarn, None)
      else if s = ''error'' \<or> s = ''eror'' then (LvlError, None)
      else if s = ''crit'' then (LvlCrit, None)
      else (LvlDebug, Some (''unknown level: '' @ s)))"

lemma LvlFromString_String: "Lvl_String l = Some s \<Longrightarrow> LvlFromString s = (l, None)"
  by (auto simp: Lvl_String_def LvlFromString_def split: if_splits)

section \<open>Values\<close>

text \<open>What a method \<open>Error\<close> or \<open>String\<close> of a value does; \<open>NilPanics\<close> is a panic on a nil pointer.\<close>

datatype obj_text = ErrText string | StringerText string | NilPanics | TextPanics | NoText

text \<open>
  \<open>LBig None\<close> is a nil \<open>*big.Int\<close>, \<open>LCtx\<close> a \<open>Ctx\<close> in the order in which a loop visits it, \<open>LLazy\<close> a
  \<open>Lazy\<close> (\<open>None\<close>: not a function; else its number of parameters and of results), \<open>LLazyNil\<close> one whose \<open>Fn\<close> is nil, \<open>LErr\<close> an error of the
  standard library with its text, \<open>LList\<close> a slice of values, and \<open>LObj\<close> any other value, with its \<open>TerminalString\<close>, if it has one.
\<close>

datatype 'o lval =
  LNil | LTime 'o | LBig "int option" | LBool bool | LFloat32 'o | LFloat64 'o
| LInt8 "8 word" | LUint8 "8 word" | LInt16 "16 word" | LUint16 "16 word" | LInt "64 word" | LInt32 "32 word"
| LInt64 "64 word" | LUint "64 word" | LUint32 "32 word" | LUint64 "64 word" | LString string | LLvl int | LErr string
| LCtx "(string \<times> 'o lval) list" | LList "'o lval list" | LLazyNil | LLazy "(nat \<times> nat) option" 'o | LObj "string option" obj_text 'o

record 'o fmt_env =
  fe_time :: "'o \<Rightarrow> string"
  fe_termTime :: "'o \<Rightarrow> string"
  fe_float :: "'o \<Rightarrow> string"
  fe_plusv :: "'o lval \<Rightarrow> string"
  fe_quote :: "string \<Rightarrow> string"
  fe_lazy :: "'o \<Rightarrow> 'o lval list option"
  fe_site :: "'o \<Rightarrow> string"
  fe_sprint :: "'o \<Rightarrow> string"
  fe_siteFn :: "'o \<Rightarrow> string"

section \<open>Records and contexts\<close>

definition timeKey :: string where "timeKey = ''t''"
definition lvlKey :: string where "lvlKey = ''lvl''"
definition msgKey :: string where "msgKey = ''msg''"
definition ctxKey :: string where "ctxKey = ''ctx''"
definition errorKey :: string where "errorKey = ''LOG15_ERROR''"
definition skipLevel :: int where "skipLevel = 2"

record recordKeyNames =
  kn_time :: string
  kn_msg :: string
  kn_lvl :: string
  kn_ctx :: string

record 'o lrecord =
  lr_time :: 'o
  lr_lvl :: int
  lr_msg :: string
  lr_ctx :: "'o lval list"
  lr_call :: 'o
  lr_keys :: recordKeyNames

fun toArray :: "(string \<times> 'o lval) list \<Rightarrow> 'o lval list" where
  "toArray [] = []"
| "toArray ((k, v) # c) = LString k # v # toArray c"

definition normalize :: "'o lval list \<Rightarrow> 'o lval list" where
  "normalize ctx =
     (let ctx = (case ctx of [LCtx c] \<Rightarrow> toArray c | _ \<Rightarrow> ctx)
      in if length ctx mod 2 \<noteq> 0
         then ctx @ [LNil, LString errorKey, LString ''Normalized odd number of arguments by adding nil''] else ctx)"

definition newContext :: "'o lval list \<Rightarrow> 'o lval list \<Rightarrow> 'o lval list" where
  "newContext prfx suffix =
     (let normalizedSuffix = normalize suffix;
          newCtx = replicate (length prfx + length normalizedSuffix) LNil;
          n = length prfx;
          newCtx = go_copy newCtx prfx
      in go_copy_at newCtx n normalizedSuffix)"

lemma length_toArray: "length (toArray c) = 2 * length c"
  by (induction c rule: toArray.induct) simp_all

lemma pad_even: "even (length (if length c mod 2 \<noteq> 0 then c @ [u, v, w] else c))"
proof -
  have "even (length c + 3)" if "odd (length c)" using that by simp
  then show ?thesis by (simp add: even_iff_mod_2_eq_zero) presburger
qed

lemma normalize_even: "even (length (normalize ctx))"
  unfolding normalize_def Let_def by (rule pad_even)

lemma newContext_eq: "newContext prfx suffix = prfx @ normalize suffix"
  by (simp add: newContext_def Let_def go_copy_def go_copy_at_def)

lemma newContext_even: "even (length prfx) \<Longrightarrow> even (length (newContext prfx suffix))"
  by (simp add: newContext_eq normalize_even)

end
