(* ===== verification/Log_Format.thy ===== *)
theory Log_Format
  imports Go_Utf8 Log_Numbers Log_Record
begin

text \<open>
  \<open>src/log/format.go\<close>: how a record becomes a line. The state of the package (the switch for locations,
  the longest location, the widths of the fields seen) is a record \<open>fmt_state\<close> that the formatters take
  and return. \<open>strconv.Quote\<close>, \<open>%+v\<close> and the formats of times and floats are those of the environment,
  \<open>json.Marshal\<close> is an argument. A panic is \<open>None\<close>.
\<close>

section \<open>Quoting\<close>

text \<open>A rune above \<open>~\<close> is either that byte or starts with a byte above it, so the bytes decide.\<close>

definition needs_quoting :: "string \<Rightarrow> bool" where
  "needs_quoting s = list_ex (\<lambda>r. ord r \<le> 0x22 \<or> 0x7E < ord r \<or> r = CHR ''='') s"

definition escapeString :: "(string \<Rightarrow> string) \<Rightarrow> string \<Rightarrow> string" where
  "escapeString quoteQ s = (if \<not> needs_quoting s then s else quoteQ s)"

definition message_needs_quoting :: "string \<Rightarrow> bool" where
  "message_needs_quoting s =
     list_ex (\<lambda>r. if ord r = 0xa \<or> ord r = 0xd then False else ord r < 0x20 \<or> 0x7E < ord r \<or> r = CHR ''='') s"

definition escapeMessage :: "(string \<Rightarrow> string) \<Rightarrow> string \<Rightarrow> string" where
  "escapeMessage quoteQ s = (if \<not> message_needs_quoting s then s else quoteQ s)"

section \<open>Values\<close>

definition formatShared :: "'o fmt_env \<Rightarrow> 'o lval \<Rightarrow> 'o lval option" where
  "formatShared env v =
     (case v of
        LTime t \<Rightarrow> Some (LString (fe_time env t))
      | LErr s \<Rightarrow> Some (LString s)
      | LLvl l \<Rightarrow> map_option LString (Lvl_String l)
      | LBig None \<Rightarrow> Some (LString ''<nil>'')
      | LBig (Some n) \<Rightarrow> Some (LString (itoa n))
      | LObj ts (ErrText s) x \<Rightarrow> Some (LString s)
      | LObj ts (StringerText s) x \<Rightarrow> Some (LString s)
      | LObj ts NilPanics x \<Rightarrow> Some (LString ''nil'')
      | LObj ts TextPanics x \<Rightarrow> None
      | _ \<Rightarrow> Some v)"

definition formatJSONValue :: "'o fmt_env \<Rightarrow> 'o lval \<Rightarrow> 'o lval option" where
  "formatJSONValue env v =
     (case formatShared env v of
        None \<Rightarrow> None
      | Some v \<Rightarrow>
          Some (case v of
                  LInt _ \<Rightarrow> v | LInt8 _ \<Rightarrow> v | LInt16 _ \<Rightarrow> v | LInt32 _ \<Rightarrow> v | LInt64 _ \<Rightarrow> v
                | LFloat32 _ \<Rightarrow> v | LFloat64 _ \<Rightarrow> v
                | LUint _ \<Rightarrow> v | LUint8 _ \<Rightarrow> v | LUint16 _ \<Rightarrow> v | LUint32 _ \<Rightarrow> v | LUint64 _ \<Rightarrow> v
                | LString _ \<Rightarrow> v
                | _ \<Rightarrow> LString (fe_plusv env v)))"

text \<open>The second switch of \<open>formatLogfmtValue\<close>.\<close>

definition formatLogfmtBasic :: "'o fmt_env \<Rightarrow> 'o lval \<Rightarrow> string option" where
  "formatLogfmtBasic env v =
     (case v of
        LBool b \<Rightarrow> Some (if b then ''true'' else ''false'')
      | LFloat32 f \<Rightarrow> Some (fe_float env f)
      | LFloat64 f \<Rightarrow> Some (fe_float env f)
      | LInt8 n \<Rightarrow> Some (itoa (sint n))
      | LUint8 n \<Rightarrow> Some (itoa (uint n))
      | LInt16 n \<Rightarrow> Some (itoa (sint n))
      | LUint16 n \<Rightarrow> Some (itoa (uint n))
      | LInt n \<Rightarrow> FormatLogfmtInt64 n
      | LInt32 n \<Rightarrow> FormatLogfmtInt64 (scast n)
      | LInt64 n \<Rightarrow> FormatLogfmtInt64 n
      | LUint n \<Rightarrow> FormatLogfmtUint64 n
      | LUint32 n \<Rightarrow> FormatLogfmtUint64 (ucast n)
      | LUint64 n \<Rightarrow> FormatLogfmtUint64 n
      | LString s \<Rightarrow> Some (escapeString (fe_quote env) s)
      | _ \<Rightarrow> Some (escapeString (fe_quote env) (fe_plusv env v)))"

definition formatLogfmtValue :: "'o fmt_env \<Rightarrow> 'o lval \<Rightarrow> bool \<Rightarrow> string option" where
  "formatLogfmtValue env v term =
     (case v of
        LNil \<Rightarrow> Some ''nil''
      | LTime t \<Rightarrow> Some (fe_time env t)
      | LBig None \<Rightarrow> Some ''<nil>''
      | LBig (Some n) \<Rightarrow> formatLogfmtBigInt n
      | LObj (Some s) txt x \<Rightarrow>
          if term then Some (escapeString (fe_quote env) s)
          else Option.bind (formatShared env v) (formatLogfmtBasic env)
      | _ \<Rightarrow> Option.bind (formatShared env v) (formatLogfmtBasic env))"

section \<open>logfmt\<close>

record fmt_state =
  fs_locationEnabled :: bool
  fs_locationLength :: nat
  fs_padding :: "string \<Rightarrow> nat"

definition initial_fmt_state :: fmt_state where
  "initial_fmt_state = \<lparr>fs_locationEnabled = False, fs_locationLength = 0, fs_padding = (\<lambda>_. 0)\<rparr>"

definition PrintOrigins :: "bool \<Rightarrow> fmt_state \<Rightarrow> fmt_state" where
  "PrintOrigins print st = st\<lparr>fs_locationEnabled := print\<rparr>"

definition termMsgJust :: nat where "termMsgJust = 40"
definition termCtxMaxPadding :: nat where "termCtxMaxPadding = 40"

text \<open>The text that switches a color on, for what follows, and off.\<close>

definition colored :: "nat \<Rightarrow> string \<Rightarrow> string" where
  "colored color s = [char_of (27 :: nat), CHR ''[''] @ dec_digits color @ ''m'' @ s @ [char_of (27 :: nat)] @ ''[0m''"

text \<open>The key and the text of a field; the key of a field whose key is a string is made from its value.\<close>

definition field_texts :: "'o fmt_env \<Rightarrow> bool \<Rightarrow> 'o lval \<Rightarrow> 'o lval \<Rightarrow> (string \<times> string) option" where
  "field_texts env term key v =
     (case formatLogfmtValue env v term of
        None \<Rightarrow> None
      | Some v \<Rightarrow>
          (case key of
             LString k \<Rightarrow> Some (escapeString (fe_quote env) v, v)
           | _ \<Rightarrow> map_option (Pair errorKey) (formatLogfmtValue env (LString []) term)))"

definition write_field :: "nat \<Rightarrow> bool \<Rightarrow> string \<Rightarrow> string \<Rightarrow> fmt_state \<Rightarrow> string \<times> fmt_state" where
  "write_field color cont k v st =
     (let padding = fs_padding st k;
          len = RuneCountInString v;
          (padding, st) = (if padding < len \<and> len \<le> termCtxMaxPadding
                           then (len, st\<lparr>fs_padding := (fs_padding st)(k := len)\<rparr>) else (padding, st))
      in ((if 0 < color then colored color k @ ''='' else k @ ''='') @ v @
          (if cont \<and> len < padding then replicate (padding - len) CHR '' '' else []), st))"

text \<open>The loop over the pairs; an odd number of elements is an index out of range.\<close>

fun logfmt_loop :: "'o fmt_env \<Rightarrow> nat \<Rightarrow> bool \<Rightarrow> bool \<Rightarrow> 'o lval list \<Rightarrow> fmt_state \<Rightarrow> (string \<times> fmt_state) option" where
  "logfmt_loop env color term first [] st = Some ([], st)"
| "logfmt_loop env color term first [k] st = None"
| "logfmt_loop env color term first (key # v # ctx) st =
     (case field_texts env term key v of
        None \<Rightarrow> None
      | Some (k, v) \<Rightarrow>
          (let (s, st) = write_field color (ctx \<noteq> []) k v st
           in case logfmt_loop env color term False ctx st of
                None \<Rightarrow> None
              | Some (rest, st) \<Rightarrow> Some ((if first then [] else '' '') @ s @ rest, st)))"

definition logfmt :: "'o fmt_env \<Rightarrow> 'o lval list \<Rightarrow> nat \<Rightarrow> bool \<Rightarrow> fmt_state \<Rightarrow> (string \<times> fmt_state) option" where
  "logfmt env ctx color term st =
     map_option (\<lambda>(s, st). (s @ [char_of (10 :: nat)], st)) (logfmt_loop env color term True ctx st)"

definition LogfmtFormat :: "'o fmt_env \<Rightarrow> 'o lrecord \<Rightarrow> fmt_state \<Rightarrow> (string \<times> fmt_state) option" where
  "LogfmtFormat env r st =
     (let common = [LString (kn_time (lr_keys r)), LTime (lr_time r), LString (kn_lvl (lr_keys r)), LLvl (lr_lvl r),
                    LString (kn_msg (lr_keys r)), LString (lr_msg r)]
      in logfmt env (common @ lr_ctx r) 0 False st)"

section \<open>The terminal\<close>

definition level_color :: "bool \<Rightarrow> int \<Rightarrow> nat" where
  "level_color usecolor l =
     (if \<not> usecolor then 0
      else if l = LvlCrit then 35 else if l = LvlError then 31 else if l = LvlWarn then 33
      else if l = LvlInfo then 32 else if l = LvlDebug then 36 else if l = LvlTrace then 34 else 0)"

definition locationTrims :: "string list" where
  "locationTrims = [''github.com/ethereum/go-ethereum/'']"

text \<open>The first part of the line. Without color the location is worked out but not written.\<close>

definition term_header :: "'o fmt_env \<Rightarrow> nat \<Rightarrow> string \<Rightarrow> string \<Rightarrow> 'o lrecord \<Rightarrow> fmt_state \<Rightarrow> string \<times> fmt_state" where
  "term_header env color lvl msg r st =
     (let time = fe_termTime env (lr_time r)
      in if fs_locationEnabled st then
           (let location = fold (\<lambda>p s. trim_prefix s p) locationTrims (fe_site env (lr_call r));
                align = fs_locationLength st;
                (align, st) = (if align < length location then (length location, st\<lparr>fs_locationLength := length location\<rparr>)
                               else (align, st));
                padding = replicate (align - length location) CHR '' ''
            in (if 0 < color then colored color lvl @ ''['' @ time @ ''|'' @ location @ '']'' @ padding @ '' '' @ msg @ '' ''
                else lvl @ ''['' @ time @ ''] '' @ msg @ '' '', st))
         else (if 0 < color then colored color lvl @ ''['' @ time @ ''] '' @ msg @ '' ''
               else lvl @ ''['' @ time @ ''] '' @ msg @ '' '', st))"

definition TerminalFormat :: "'o fmt_env \<Rightarrow> bool \<Rightarrow> 'o lrecord \<Rightarrow> fmt_state \<Rightarrow> (string \<times> fmt_state) option" where
  "TerminalFormat env usecolor r st =
     (let msg = escapeMessage (fe_quote env) (lr_msg r);
          color = level_color usecolor (lr_lvl r)
      in case AlignedString (lr_lvl r) of
           None \<Rightarrow> None
         | Some lvl \<Rightarrow>
             (let (header, st) = term_header env color lvl msg r st;
                  len = RuneCountInString msg;
                  just = (if 0 < length (lr_ctx r) \<and> len < termMsgJust
                          then replicate (termMsgJust - len) CHR '' '' else [])
              in map_option (\<lambda>(s, st). (header @ just @ s, st)) (logfmt env (lr_ctx r) color True st)))"

section \<open>JSON\<close>

datatype 'o jprop = PVal "'o lval" | PStrings "string list"

text \<open>\<open>marshal\<close> is \<open>json.Marshal\<close> of a map, or \<open>json.MarshalIndent\<close>; of an error only the text matters.\<close>

definition json_line :: "((string \<rightharpoonup> 'o jprop) \<Rightarrow> string + string) \<Rightarrow> bool \<Rightarrow> (string \<rightharpoonup> 'o jprop) \<Rightarrow> string" where
  "json_line marshal lineSeparated props =
     (case marshal props of
        Inl err \<Rightarrow> (case marshal [errorKey \<mapsto> PVal (LString err)] of Inr b \<Rightarrow> b | Inl _ \<Rightarrow> [])
      | Inr b \<Rightarrow> if lineSeparated then b @ [char_of (10 :: nat)] else b)"

definition json_head :: "'o lrecord \<Rightarrow> (string \<rightharpoonup> 'o jprop) option" where
  "json_head r =
     (case Lvl_String (lr_lvl r) of
        None \<Rightarrow> None
      | Some l \<Rightarrow> Some (Map.empty(kn_time (lr_keys r) \<mapsto> PVal (LTime (lr_time r)), kn_lvl (lr_keys r) \<mapsto> PVal (LString l),
                             kn_msg (lr_keys r) \<mapsto> PVal (LString (lr_msg r)))))"

definition not_string_key :: "'o fmt_env \<Rightarrow> 'o lval \<Rightarrow> string" where
  "not_string_key env k = fe_plusv env k @ '' is not a string key''"

fun json_props :: "'o fmt_env \<Rightarrow> 'o lval list \<Rightarrow> (string \<rightharpoonup> 'o jprop) \<Rightarrow> (string \<rightharpoonup> 'o jprop) option" where
  "json_props env [] props = Some props"
| "json_props env [k] props = None"
| "json_props env (key # v # ctx) props =
     (let (k, props) = (case key of LString k \<Rightarrow> (k, props)
                        | _ \<Rightarrow> ([], props(errorKey \<mapsto> PVal (LString (not_string_key env key)))))
      in case formatJSONValue env v of
           None \<Rightarrow> None
         | Some v \<Rightarrow> json_props env ctx (props(k \<mapsto> PVal v)))"

definition JSONFormatEx ::
  "'o fmt_env \<Rightarrow> ((string \<rightharpoonup> 'o jprop) \<Rightarrow> string + string) \<Rightarrow> bool \<Rightarrow> 'o lrecord \<Rightarrow> string option" where
  "JSONFormatEx env marshal lineSeparated r =
     (case json_head r of
        None \<Rightarrow> None
      | Some props \<Rightarrow> map_option (json_line marshal lineSeparated) (json_props env (lr_ctx r) props))"

definition JSONFormat :: "'o fmt_env \<Rightarrow> ((string \<rightharpoonup> 'o jprop) \<Rightarrow> string + string) \<Rightarrow> 'o lrecord \<Rightarrow> string option" where
  "JSONFormat env marshal r = JSONFormatEx env marshal True r"

fun json_ctx :: "'o fmt_env \<Rightarrow> 'o lval list \<Rightarrow> string list \<Rightarrow> (string \<rightharpoonup> 'o jprop) \<Rightarrow> (string list \<times> (string \<rightharpoonup> 'o jprop)) option" where
  "json_ctx env [] ctx props = Some (ctx, props)"
| "json_ctx env [k] ctx props = None"
| "json_ctx env (key # v # rest) ctx props =
     (let (k, props) = (case key of LString k \<Rightarrow> (k, props)
                        | _ \<Rightarrow> ([], props(errorKey \<mapsto> PVal (LString (not_string_key env key @ '','')))))
      in case formatLogfmtValue env v True of
           None \<Rightarrow> None
         | Some v \<Rightarrow> json_ctx env rest (ctx @ [k, v]) props)"

definition JSONFormatOrderedEx ::
  "'o fmt_env \<Rightarrow> ((string \<rightharpoonup> 'o jprop) \<Rightarrow> string + string) \<Rightarrow> bool \<Rightarrow> 'o lrecord \<Rightarrow> string option" where
  "JSONFormatOrderedEx env marshal lineSeparated r =
     (case json_head r of
        None \<Rightarrow> None
      | Some props \<Rightarrow>
          (case json_ctx env (lr_ctx r) [] props of
             None \<Rightarrow> None
           | Some (ctx, props) \<Rightarrow> Some (json_line marshal lineSeparated (props(kn_ctx (lr_keys r) \<mapsto> PStrings ctx)))))"

section \<open>What a line shows\<close>

text \<open>The values that no formatter panics on; a \<open>Lazy\<close> without a function is left out, since its evaluation panics.\<close>

fun formattable :: "'o lval \<Rightarrow> bool" where
  "formattable (LLvl l) \<longleftrightarrow> 0 \<le> l \<and> l \<le> 5"
| "formattable (LObj ts TextPanics x) \<longleftrightarrow> False"
| "formattable LLazyNil \<longleftrightarrow> False"
| "formattable _ \<longleftrightarrow> True"

lemma Lvl_String_ex: "0 \<le> l \<Longrightarrow> l \<le> 5 \<Longrightarrow> \<exists>s. Lvl_String l = Some s"
proof -
  assume "0 \<le> l" "l \<le> 5"
  then have "l = 0 \<or> l = 1 \<or> l = 2 \<or> l = 3 \<or> l = 4 \<or> l = 5" by arith
  then show ?thesis by (auto simp: Lvl_String_def lvl_defs)
qed

lemma formatLogfmtBasic_ex: "\<exists>s. formatLogfmtBasic env v = Some s"
  by (cases v) (simp_all add: formatLogfmtBasic_def FormatLogfmtInt64_spec FormatLogfmtUint64_def
      formatLogfmtUint64_spec)

lemma formatShared_ex: "formattable v \<Longrightarrow> \<exists>w. formatShared env v = Some w"
  by (induction v rule: formattable.induct)
    (auto simp: formatShared_def dest: Lvl_String_ex split: option.splits obj_text.splits)

lemma formatLogfmtValue_ex:
  assumes "formattable v"
  shows "\<exists>s. formatLogfmtValue env v term = Some s"
proof -
  obtain w where "formatShared env v = Some w" using formatShared_ex [OF assms] by blast
  then show ?thesis using formatLogfmtBasic_ex [of env w]
    by (auto simp: formatLogfmtValue_def formatLogfmtBigInt_spec split: lval.split option.splits)
qed

lemma field_texts_ex: "formattable v \<Longrightarrow> \<exists>k s. field_texts env term key v = Some (k, s)"
  using formatLogfmtValue_ex [of v env "term"] formatLogfmtValue_ex [of "LString []" env "term"]
  by (auto simp: field_texts_def split: lval.split)

text \<open>The widths only grow, and stay within the bound.\<close>

definition padding_le :: "fmt_state \<Rightarrow> fmt_state \<Rightarrow> bool" where
  "padding_le st st' \<longleftrightarrow> (\<forall>k. fs_padding st k \<le> fs_padding st' k \<and> (fs_padding st' k = fs_padding st k \<or> fs_padding st' k \<le> termCtxMaxPadding))"

lemma padding_le_refl: "padding_le st st"
  by (simp add: padding_le_def)

lemma padding_le_trans: "padding_le a b \<Longrightarrow> padding_le b c \<Longrightarrow> padding_le a c"
  unfolding padding_le_def by (metis le_trans)

lemma write_field_padding: "write_field color cont k v st = (s, st') \<Longrightarrow> padding_le st st'"
  by (auto simp: write_field_def padding_le_def Let_def split: if_splits)

lemma logfmt_loop_total:
  "even (length ctx) \<Longrightarrow> \<forall>v\<in>set ctx. formattable v \<Longrightarrow>
   \<exists>s st'. logfmt_loop env color term first ctx st = Some (s, st') \<and> padding_le st st'"
proof (induction env color "term" first ctx st rule: logfmt_loop.induct)
  case (1 env color trm first st)
  show ?case by (simp add: padding_le_refl)
next
  case (2 env color trm first k st)
  then show ?case by simp
next
  case (3 env color trm first key v ctx st)
  obtain k s where f: "field_texts env trm key v = Some (k, s)" using field_texts_ex [of v] 3(3) by fastforce
  obtain w st1 where w: "write_field color (ctx \<noteq> []) k s st = (w, st1)" by fastforce
  have ctx: "even (length ctx)" "\<forall>v\<in>set ctx. formattable v" using 3(2,3) by auto
  then obtain r st2 where "logfmt_loop env color trm False ctx st1 = Some (r, st2)" "padding_le st1 st2"
    using 3(1) [OF f refl w [symmetric] refl ctx] by blast
  then show ?case using f w padding_le_trans [OF write_field_padding [OF w]] by (auto simp: Let_def)
qed

lemma logfmt_total_aux:
  assumes "even (length ctx)" "\<forall>v\<in>set ctx. formattable v"
  shows "\<exists>s st'. logfmt env ctx color term st = Some (s, st') \<and> padding_le st st'"
  using logfmt_loop_total [OF assms, of env color "term" True st] by (auto simp: logfmt_def)

lemma logfmt_odd: "odd (length ctx) \<Longrightarrow> logfmt_loop env color term first ctx st = None"
  by (induction env color "term" first ctx st rule: logfmt_loop.induct) (auto simp: Let_def split: option.splits prod.splits)

lemma logfmt_keys_aux:
  "map snd c = map snd c' \<Longrightarrow>
   logfmt_loop env color term first (toArray c) st = logfmt_loop env color term first (toArray c') st"
proof (induction c arbitrary: c' first st)
  case Nil
  then show ?case by simp
next
  case (Cons kv c)
  obtain kv' c2 where c': "c' = kv' # c2" "snd kv' = snd kv" "map snd c = map snd c2" using Cons.prems by (cases c') auto
  obtain k v where kv: "kv = (k, v)" by (cases kv)
  obtain k' where kv': "kv' = (k', v)" using c'(2) kv by (cases kv') auto
  have e: "toArray c = [] \<longleftrightarrow> toArray c2 = []"
    using length_toArray [of c] length_toArray [of c2] map_eq_imp_length_eq [OF c'(3)] by (metis length_0_conv)
  show ?case using Cons.IH [OF c'(3)] by (simp add: c' kv kv' field_texts_def e Let_def split: option.split prod.split)
qed

text \<open>
  A line in the logfmt style never shows a key of its context: two contexts with the same values and
  any string keys give the same line, and each field is its value twice, as key and as value. This is not
  what the package documents (\<open>key=value\<close>).
\<close>

theorem logfmt_loses_keys:
  assumes "map snd c = map snd c'"
  shows "logfmt env (toArray c) color term st = logfmt env (toArray c') color term st"
  using logfmt_keys_aux [OF assms] by (simp add: logfmt_def)

theorem logfmt_loses_keys_witness:
  "\<forall>env st. logfmt env [LString ''size'', LBool True, LString ''age'', LString ''a b''] 0 False (st :: fmt_state) =
          logfmt (env :: nat fmt_env) [LString ''weight'', LBool True, LString ''name'', LString ''a b''] 0 False st"
  using logfmt_loses_keys [of "[(''size'', LBool True), (''age'', LString ''a b'')]"
      "[(''weight'', LBool True), (''name'', LString ''a b'')]" _ 0 False]
  by (auto simp: toArray.simps)

text \<open>
  The formatter of a context of even length, with values whose methods do not panic, returns, and it
  only widens the recorded width of a field, up to the bound of forty runes.
\<close>

theorem logfmt_returns:
  assumes "even (length ctx)" "\<forall>v\<in>set ctx. formattable v" "\<forall>k. fs_padding st k \<le> termCtxMaxPadding"
  shows "\<exists>s st'. logfmt env ctx color term st = Some (s, st') \<and>
           (\<forall>k. fs_padding st k \<le> fs_padding st' k \<and> fs_padding st' k \<le> termCtxMaxPadding)"
  using logfmt_total_aux [OF assms(1,2), of env color "term" st] assms(3) unfolding padding_le_def by (metis order_trans)

theorem logfmt_returns_witness:
  "\<forall>env :: nat fmt_env. \<exists>s st'. logfmt env [LString ''n'', LInt 1234567] 0 False initial_fmt_state = Some (s, st') \<and>
      (\<forall>k. fs_padding initial_fmt_state k \<le> fs_padding st' k \<and> fs_padding st' k \<le> termCtxMaxPadding)"
  by (intro allI, rule logfmt_returns) (simp_all add: initial_fmt_state_def)

end
