(* ===== verification/Log_Glog.thy ===== *)
theory Log_Glog
  imports Log_Format
begin

text \<open>
  \<open>src/log/handler_glog.go\<close>: the handler that filters by a global level, by patterns on the call site and
  by a position for a stack dump. The regular expressions that \<open>Vmodule\<close> builds are lists of the four
  elements it concatenates, with the meaning \<open>regexp\<close> gives them. The state of the handler is the
  record \<open>glog\<close>; the handler it wraps is of the type \<open>'h\<close>. What \<open>go-stack\<close> tells of a call is in the
  record \<open>site_env\<close>. A panic is \<open>None\<close>.
\<close>

section \<open>strconv.Atoi\<close>

definition is_digit :: "char \<Rightarrow> bool" where
  "is_digit c \<longleftrightarrow> 48 \<le> ord c \<and> ord c \<le> 57"

definition dec_value :: "string \<Rightarrow> int" where
  "dec_value s = foldl (\<lambda>a c. 10 * a + (int (ord c) - 48)) 0 s"

definition atoi :: "string \<Rightarrow> int option" where
  "atoi s =
     (let neg = has_prefix s ''-'';
          ds = (if neg \<or> has_prefix s ''+'' then drop 1 s else s);
          n = (if neg then - dec_value ds else dec_value ds)
      in if ds = [] \<or> \<not> list_all is_digit ds then None
         else if - (2 ^ 63) \<le> n \<and> n < 2 ^ 63 then Some n else None)"

section \<open>The regular expressions of the rules\<close>

text \<open>\<open>.*\<close>, \<open>(/.*)?\<close>, a slash and a quoted component, and \<open>/[^/]+\.go\<close>; \<open>$\<close> closes the list.\<close>

datatype rx = RxAny | RxDirs | RxLit string | RxGoFile

definition splits :: "string \<Rightarrow> (string \<times> string) list" where
  "splits s = map (\<lambda>k. (take k s, drop k s)) [0..<Suc (length s)]"

definition no_newline :: "string \<Rightarrow> bool" where
  "no_newline s = list_all (\<lambda>c. ord c \<noteq> 10) s"

text \<open>Whether an element matches a text as a whole.\<close>

fun rx_elem :: "rx \<Rightarrow> string \<Rightarrow> bool" where
  "rx_elem RxAny s = no_newline s"
| "rx_elem RxDirs s = (s = [] \<or> has_prefix s ''/'' \<and> no_newline s)"
| "rx_elem (RxLit l) s = (s = CHR ''/'' # l)"
| "rx_elem RxGoFile s =
     (has_prefix s ''/'' \<and> has_suffix s ''.go'' \<and> 5 \<le> length s \<and>
      list_all (\<lambda>c. c \<noteq> CHR ''/'') (take (length s - 4) (drop 1 s)))"

fun rx_match :: "rx list \<Rightarrow> string \<Rightarrow> bool" where
  "rx_match [] s = (s = [])"
| "rx_match (e # es) s = list_ex (\<lambda>(a, b). rx_elem e a \<and> rx_match es b) (splits s)"

text \<open>The match may begin anywhere; it ends at the end of the text.\<close>

definition MatchString :: "rx list \<Rightarrow> string \<Rightarrow> bool" where
  "MatchString re s = list_ex (\<lambda>(a, b). rx_match re b) (splits s)"

fun rx_comps :: "string list \<Rightarrow> rx list" where
  "rx_comps [] = []"
| "rx_comps (c # cs) = (if c = ''*'' then [RxDirs] else if c \<noteq> [] then [RxLit c] else []) @ rx_comps cs"

text \<open>A pattern that is not valid UTF-8 does not compile, and its regular expression is nil.\<close>

definition compile_rule :: "string \<Rightarrow> rx list option" where
  "compile_rule p =
     (if valid_utf8 (map ord p)
      then Some (RxAny # rx_comps (split_on CHR ''/'' p) @ (if \<not> has_suffix p ''.go'' then [RxGoFile] else []))
      else None)"

section \<open>The handler\<close>

record 'o site_env =
  se_string :: "'o \<Rightarrow> string"
  se_file :: "'o \<Rightarrow> string"
  se_pc :: "'o \<Rightarrow> uint64"
  se_stack :: string

record 'h glog =
  gl_origin :: 'h
  gl_level :: uint32
  gl_override :: uint32
  gl_backtrace :: uint32
  gl_patterns :: "(rx list option \<times> int) list"
  gl_siteCache :: "(uint64 \<rightharpoonup> int) option"
  gl_location :: string

definition NewGlogHandler :: "'h \<Rightarrow> 'h glog" where
  "NewGlogHandler h = \<lparr>gl_origin = h, gl_level = 0, gl_override = 0, gl_backtrace = 0, gl_patterns = [],
                       gl_siteCache = None, gl_location = []\<rparr>"

definition glog_SetHandler :: "'h \<Rightarrow> 'h glog \<Rightarrow> 'h glog" where
  "glog_SetHandler nh g = g\<lparr>gl_origin := nh\<rparr>"

definition Verbosity :: "int \<Rightarrow> 'h glog \<Rightarrow> 'h glog" where
  "Verbosity level g = g\<lparr>gl_level := word_of_int level\<rparr>"

definition errVmoduleSyntax :: string where
  "errVmoduleSyntax = ''expect comma-separated list of filename=N''"
definition errTraceSyntax :: string where
  "errTraceSyntax = ''expect file.go:234''"

fun vmodule_rules :: "string list \<Rightarrow> (rx list option \<times> int) list \<Rightarrow> string + (rx list option \<times> int) list" where
  "vmodule_rules [] flt = Inr flt"
| "vmodule_rules (rule # rules) flt =
     (if rule = [] then vmodule_rules rules flt
      else case split_on CHR ''='' rule of
          [p, n] \<Rightarrow>
            (let p = trim_space p; n = trim_space n
             in if p = [] \<or> n = [] then Inl errVmoduleSyntax
                else case atoi n of
                    None \<Rightarrow> Inl errVmoduleSyntax
                  | Some level \<Rightarrow>
                      if level \<le> 0 then vmodule_rules rules flt
                      else vmodule_rules rules (flt @ [(compile_rule p, level)]))
        | _ \<Rightarrow> Inl errVmoduleSyntax)"

definition Vmodule :: "string \<Rightarrow> 'h glog \<Rightarrow> ('h glog, string) ret" where
  "Vmodule ruleset g =
     (case vmodule_rules (split_on CHR '','' ruleset) [] of
        Inl err \<Rightarrow> (g, Some err)
      | Inr flt \<Rightarrow> (g\<lparr>gl_patterns := flt, gl_siteCache := Some Map.empty, gl_override := of_nat (length flt)\<rparr>, None))"

definition BacktraceAt :: "string \<Rightarrow> 'h glog \<Rightarrow> ('h glog, string) ret" where
  "BacktraceAt location g =
     (case split_on CHR '':'' location of
        [f, n] \<Rightarrow>
          (let f = trim_space f; n = trim_space n
           in if f = [] \<or> n = [] then (g, Some errTraceSyntax)
              else if \<not> has_suffix f ''.go'' then (g, Some errTraceSyntax)
              else if atoi n = None then (g, Some errTraceSyntax)
              else (g\<lparr>gl_location := location, gl_backtrace := of_nat (length location)\<rparr>, None))
      | _ \<Rightarrow> (g, Some errTraceSyntax))"

text \<open>The first rule that matches; a nil regular expression is dereferenced.\<close>

fun first_rule :: "(rx list option \<times> int) list \<Rightarrow> string \<Rightarrow> int option option" where
  "first_rule [] s = Some None"
| "first_rule ((None, l) # ps) s = None"
| "first_rule ((Some re, l) # ps) s = (if MatchString re s then Some (Some l) else first_rule ps s)"

text \<open>The level of the call site, and the cache after the look-up; a write to a nil map panics.\<close>

definition site_level :: "'o site_env \<Rightarrow> 'o \<Rightarrow> 'h glog \<Rightarrow> (int \<times> 'h glog) option" where
  "site_level env c g =
     (let cache = (case gl_siteCache g of None \<Rightarrow> Map.empty | Some m \<Rightarrow> m)
      in case cache (se_pc env c) of
           Some l \<Rightarrow> Some (l, g)
         | None \<Rightarrow>
             (case first_rule (gl_patterns g) (se_file env c) of
                None \<Rightarrow> None
              | Some found \<Rightarrow>
                  (let l = (case found of None \<Rightarrow> 0 | Some l \<Rightarrow> l)
                   in case gl_siteCache g of
                        None \<Rightarrow> None
                      | Some m \<Rightarrow> Some (l, g\<lparr>gl_siteCache := Some (m(se_pc env c \<mapsto> l))\<rparr>))))"

text \<open>The record at the position of the stack dump.\<close>

definition at_backtrace :: "'o site_env \<Rightarrow> 'h glog \<Rightarrow> 'o lrecord \<Rightarrow> 'o lrecord" where
  "at_backtrace env g r =
     (if 0 < gl_backtrace g \<and> gl_location g = se_string env (lr_call r)
      then r\<lparr>lr_lvl := LvlInfo, lr_msg := lr_msg r @ [char_of (10 :: nat), char_of (10 :: nat)] @ se_stack env\<rparr> else r)"

text \<open>The part of \<open>Log\<close> before the wrapped handler: whether it is called, the record, the new state.\<close>

definition glog_admits :: "'o site_env \<Rightarrow> 'h glog \<Rightarrow> 'o lrecord \<Rightarrow> (bool \<times> 'o lrecord \<times> 'h glog) option" where
  "glog_admits env g r =
     (let r = at_backtrace env g r
      in if (word_of_int (lr_lvl r) :: uint32) \<le> gl_level g then Some (True, r, g)
         else if gl_override g = 0 then Some (False, r, g)
         else (case site_level env (lr_call r) g of
                 None \<Rightarrow> None
               | Some (lvl, g) \<Rightarrow> Some (lr_lvl r \<le> lvl, r, g)))"

section \<open>What the rules mean\<close>

lemma splits_iff: "(a, b) \<in> set (splits s) \<longleftrightarrow> s = a @ b"
proof
  assume "(a, b) \<in> set (splits s)"
  then show "s = a @ b" by (auto simp: splits_def)
next
  assume s: "s = a @ b"
  show "(a, b) \<in> set (splits s)" unfolding splits_def set_map
    by (rule image_eqI [of _ _ "length a"]) (simp_all add: s)
qed

lemma rx_match_Cons: "rx_match (e # es) s \<longleftrightarrow> (\<exists>a b. s = a @ b \<and> rx_elem e a \<and> rx_match es b)"
proof -
  have "rx_match (e # es) s \<longleftrightarrow> (\<exists>p\<in>set (splits s). rx_elem e (fst p) \<and> rx_match es (snd p))"
    by (simp add: list_ex_iff case_prod_beta)
  also have "\<dots> \<longleftrightarrow> (\<exists>a b. (a, b) \<in> set (splits s) \<and> rx_elem e a \<and> rx_match es b)"
    by (simp add: Bex_def split_paired_Ex)
  finally show ?thesis by (simp only: splits_iff)
qed

lemma MatchString_iff: "MatchString re s \<longleftrightarrow> (\<exists>a b. s = a @ b \<and> rx_match re b)"
proof -
  have "MatchString re s \<longleftrightarrow> (\<exists>p\<in>set (splits s). rx_match re (snd p))"
    by (simp add: MatchString_def list_ex_iff case_prod_beta)
  also have "\<dots> \<longleftrightarrow> (\<exists>a b. (a, b) \<in> set (splits s) \<and> rx_match re b)"
    by (simp add: Bex_def split_paired_Ex)
  finally show ?thesis by (simp only: splits_iff)
qed

lemma rx_match_single: "rx_match [e] s \<longleftrightarrow> rx_elem e s"
  by (simp add: rx_match_Cons del: rx_match.simps(2))

lemma MatchString_Any: "MatchString (RxAny # es) s \<longleftrightarrow> (\<exists>a b. s = a @ b \<and> rx_match es b)"
proof
  assume "MatchString (RxAny # es) s"
  then obtain a b c where "s = a @ b @ c" "rx_match es c" by (auto simp: MatchString_iff rx_match_Cons simp del: rx_match.simps(2))
  then have "s = (a @ b) @ c \<and> rx_match es c" by simp
  then show "\<exists>a b. s = a @ b \<and> rx_match es b" by blast
next
  assume "\<exists>a b. s = a @ b \<and> rx_match es b"
  then obtain a b where s: "s = a @ b" "rx_match es b" by blast
  have "b = [] @ b \<and> rx_elem RxAny [] \<and> rx_match es b" using s(2) by (simp add: no_newline_def)
  then have "rx_match (RxAny # es) b" unfolding rx_match_Cons by blast
  then show "MatchString (RxAny # es) s" using s(1) by (auto simp: MatchString_iff)
qed

lemma rx_GoFile_iff: "rx_elem RxGoFile s \<longleftrightarrow> (\<exists>f. f \<noteq> [] \<and> CHR ''/'' \<notin> set f \<and> s = ''/'' @ f @ ''.go'')"
proof
  assume m: "rx_elem RxGoFile s"
  have p: "has_prefix s ''/''" "has_suffix s ''.go''" "5 \<le> length s"
    "list_all (\<lambda>c. c \<noteq> CHR ''/'') (take (length s - 4) (drop 1 s))"
    using m by simp_all
  obtain t where t: "s = CHR ''/'' # t" using p(1) by (cases s) (simp_all add: has_prefix_def)
  have "drop (length s - length ''.go'') s = ''.go''" using p(2) by (simp only: has_suffix_def)
  then obtain f where f: "s = f @ ''.go''" using append_take_drop_id [of "length s - length ''.go''" s] by metis
  have len: "length s = length f + 3" using f by simp
  then have "f \<noteq> []" using p(3) by auto
  then obtain f' where f': "f = CHR ''/'' # f'" using t f by (cases f) simp_all
  have "take (length s - 4) (drop 1 s) = f'" using len f f' by simp
  then have "list_all (\<lambda>c. c \<noteq> CHR ''/'') f'" using p(4) by simp
  then have n: "CHR ''/'' \<notin> set f'" unfolding list_all_iff by blast
  have "f' \<noteq> []" using len p(3) f' by (cases f') simp_all
  then show "\<exists>f. f \<noteq> [] \<and> CHR ''/'' \<notin> set f \<and> s = ''/'' @ f @ ''.go''" using f f' n by (intro exI [of _ f']) simp
next
  assume "\<exists>f. f \<noteq> [] \<and> CHR ''/'' \<notin> set f \<and> s = ''/'' @ f @ ''.go''"
  then obtain f where "f \<noteq> []" "CHR ''/'' \<notin> set f" "s = ''/'' @ f @ ''.go''" by blast
  then have f: "f \<noteq> []" "list_all (\<lambda>c. c \<noteq> CHR ''/'') f" and s: "s = CHR ''/'' # f @ ''.go''"
    by (simp_all add: list_all_iff) blast
  have "has_suffix s ''.go''" using has_suffix_append [of "CHR ''/'' # f" "''.go''"] s by simp
  moreover have "has_prefix s ''/''" by (simp add: s has_prefix_def)
  moreover have "1 \<le> length f" using f(1) by (cases f) simp_all
  then have "5 \<le> length s" by (simp add: s)
  moreover have "take (length s - 4) (drop 1 s) = f" by (simp add: s)
  ultimately show "rx_elem RxGoFile s" using f(2) by simp
qed

lemma split_on_append: "d \<notin> set a \<Longrightarrow> split_on d (a @ d # b) = a # split_on d b"
  by (induction a) auto

lemma compile_simple:
  assumes "CHR ''/'' \<notin> set name" "name \<noteq> []" "name \<noteq> ''*''" "valid_utf8 (map ord name)"
  shows "compile_rule name = Some (RxAny # RxLit name # (if has_suffix name ''.go'' then [] else [RxGoFile]))"
  using assms by (simp add: compile_rule_def split_on_no_sep)

lemma rx_match_Lit: "rx_match (RxLit l # es) s \<longleftrightarrow> (\<exists>b. s = CHR ''/'' # l @ b \<and> rx_match es b)"
  by (auto simp: rx_match_Cons simp del: rx_match.simps(2))

text \<open>
  A rule with the name of a file admits the call sites in the files of this name, and a rule with any
  other name those in the files directly in a directory of this name, as the comment of \<open>Vmodule\<close> says of them.
\<close>

theorem rule_matches:
  assumes "CHR ''/'' \<notin> set name" "name \<noteq> []" "name \<noteq> ''*''" "valid_utf8 (map ord name)"
  shows "\<exists>re. compile_rule name = Some re \<and>
           (\<forall>s. MatchString re s \<longleftrightarrow>
              (if has_suffix name ''.go'' then \<exists>p. s = p @ ''/'' @ name
               else \<exists>p f. s = p @ ''/'' @ name @ ''/'' @ f @ ''.go'' \<and> f \<noteq> [] \<and> CHR ''/'' \<notin> set f))"
proof (cases "has_suffix name ''.go''")
  case True
  have "MatchString (RxAny # [RxLit name]) s \<longleftrightarrow> (\<exists>p. s = p @ ''/'' @ name)" for s
    by (simp only: MatchString_Any rx_match_Lit rx_match.simps(1)) simp
  then show ?thesis using compile_simple [OF assms] True by simp
next
  case False
  have "MatchString (RxAny # RxLit name # [RxGoFile]) s \<longleftrightarrow>
      (\<exists>p f. s = p @ ''/'' @ name @ ''/'' @ f @ ''.go'' \<and> f \<noteq> [] \<and> CHR ''/'' \<notin> set f)" for s
    by (simp only: MatchString_Any rx_match_Lit rx_match_single rx_GoFile_iff) auto
  then show ?thesis using compile_simple [OF assms] False by simp
qed

theorem rule_matches_witness:
  "\<exists>re. compile_rule ''p2p'' = Some re \<and>
     (\<forall>s. MatchString re s \<longleftrightarrow>
        (if has_suffix ''p2p'' ''.go'' then \<exists>p. s = p @ ''/'' @ ''p2p''
         else \<exists>p f. s = p @ ''/'' @ ''p2p'' @ ''/'' @ f @ ''.go'' \<and> f \<noteq> [] \<and> CHR ''/'' \<notin> set f))"
  by (rule rule_matches) (simp_all add: valid_utf8.simps rune_size_def)

section \<open>The cache\<close>

definition cached :: "'h glog \<Rightarrow> uint64 \<Rightarrow> int option" where
  "cached g pc = (case gl_siteCache g of None \<Rightarrow> None | Some m \<Rightarrow> m pc)"

definition level_of :: "int option option \<Rightarrow> int" where
  "level_of found = (case found of Some (Some l) \<Rightarrow> l | _ \<Rightarrow> 0)"

text \<open>Whether \<open>Log\<close> goes on to the cache, and the first call with the program counter of a call.\<close>

definition looks_up :: "'o site_env \<Rightarrow> 'h glog \<Rightarrow> 'o lrecord \<Rightarrow> bool" where
  "looks_up env g r \<longleftrightarrow>
     \<not> (word_of_int (lr_lvl (at_backtrace env g r)) :: uint32) \<le> gl_level g \<and> gl_override g \<noteq> 0"

definition site_of :: "'o site_env \<Rightarrow> 'o list \<Rightarrow> 'o \<Rightarrow> 'o" where
  "site_of env cs c = hd (filter (\<lambda>c'. se_pc env c' = se_pc env c) (cs @ [c]))"

text \<open>
  The runs of the handler, with the calls looked up since the patterns were set. The end of a run is a state in
  which no call has panicked.
\<close>

inductive glog_run :: "'o site_env \<Rightarrow> 'h glog \<Rightarrow> 'o list \<Rightarrow> bool" for env where
  created: "glog_run env (NewGlogHandler h) []"
| verbosity: "glog_run env g cs \<Longrightarrow> glog_run env (Verbosity l g) cs"
| vmodule: "glog_run env g cs \<Longrightarrow> Vmodule rs g = (g', None) \<Longrightarrow> glog_run env g' []"
| vmodule_refused: "glog_run env g cs \<Longrightarrow> Vmodule rs g = (g', Some err) \<Longrightarrow> glog_run env g' cs"
| backtraceAt: "glog_run env g cs \<Longrightarrow> glog_run env (fst (BacktraceAt loc g)) cs"
| setHandler: "glog_run env g cs \<Longrightarrow> glog_run env (glog_SetHandler nh g) cs"
| logs: "glog_run env g cs \<Longrightarrow> glog_admits env g r = Some (b, r', g') \<Longrightarrow>
    glog_run env g' (if looks_up env g r then cs @ [lr_call r] else cs)"

text \<open>The handler without a cache, which matches the patterns against a call every time.\<close>

definition uncached_admits :: "'o site_env \<Rightarrow> 'h glog \<Rightarrow> 'o \<Rightarrow> 'o lrecord \<Rightarrow> (bool \<times> 'o lrecord) option" where
  "uncached_admits env g c r =
     (let r = at_backtrace env g r
      in if (word_of_int (lr_lvl r) :: uint32) \<le> gl_level g then Some (True, r)
         else if gl_patterns g = [] then Some (False, r)
         else (case first_rule (gl_patterns g) (se_file env c) of
                 None \<Rightarrow> None
               | Some found \<Rightarrow> Some (lr_lvl r \<le> level_of (Some found), r)))"

text \<open>The cache holds the level of the first call that was looked up at each program counter.\<close>

definition cache_at :: "'o site_env \<Rightarrow> 'h glog \<Rightarrow> 'o list \<Rightarrow> uint64 \<Rightarrow> bool" where
  "cache_at env g cs pc \<longleftrightarrow>
     (case filter (\<lambda>c. se_pc env c = pc) cs of
        [] \<Rightarrow> cached g pc = None
      | c # _ \<Rightarrow> \<exists>found. first_rule (gl_patterns g) (se_file env c) = Some found \<and> cached g pc = Some (level_of (Some found)))"

definition glog_ok :: "'o site_env \<Rightarrow> 'h glog \<Rightarrow> 'o list \<Rightarrow> bool" where
  "glog_ok env g cs \<longleftrightarrow>
     gl_override g = of_nat (length (gl_patterns g)) \<and> (gl_siteCache g = None \<longrightarrow> gl_patterns g = []) \<and>
     (\<forall>pc. cache_at env g cs pc)"

lemma at_backtrace_off [simp]: "gl_backtrace g = 0 \<Longrightarrow> at_backtrace env g r = r"
  by (simp add: at_backtrace_def)

lemma lr_call_at_backtrace [simp]: "lr_call (at_backtrace env g r) = lr_call r"
  by (simp add: at_backtrace_def)

lemma glog_ok_pc: "glog_ok env g cs \<Longrightarrow> cache_at env g cs pc"
  by (simp add: glog_ok_def)

text \<open>What a look-up gives, and what it leaves.\<close>

lemma site_level_eq:
  assumes ok: "glog_ok env g cs" and m: "gl_siteCache g \<noteq> None"
  shows "map_option fst (site_level env c g) =
    map_option (\<lambda>found. level_of (Some found)) (first_rule (gl_patterns g) (se_file env (site_of env cs c)))"
proof (cases "filter (\<lambda>c'. se_pc env c' = se_pc env c) cs")
  case Nil
  then have "cached g (se_pc env c) = None" "site_of env cs c = c"
    using glog_ok_pc [OF ok, of "se_pc env c"] by (simp_all add: cache_at_def site_of_def)
  then show ?thesis using m by (auto simp: site_level_def cached_def level_of_def Let_def split: option.splits)
next
  case (Cons c' rest)
  then obtain found where "first_rule (gl_patterns g) (se_file env c') = Some found" "cached g (se_pc env c) = Some (level_of (Some found))"
    using glog_ok_pc [OF ok, of "se_pc env c"] by (auto simp: cache_at_def)
  moreover have "site_of env cs c = c'" using Cons by (simp add: site_of_def)
  ultimately show ?thesis by (auto simp: site_level_def cached_def split: option.splits)
qed

lemma site_level_ok:
  assumes ok: "glog_ok env g cs" and s: "site_level env c g = Some (l, g')"
  shows "glog_ok env g' (cs @ [c]) \<and> gl_patterns g' = gl_patterns g"
proof (cases "cached g (se_pc env c)")
  case (Some k)
  then have g: "g' = g" using s by (auto simp: site_level_def cached_def split: option.splits)
  obtain c' rest where f: "filter (\<lambda>c'. se_pc env c' = se_pc env c) cs = c' # rest"
    using glog_ok_pc [OF ok, of "se_pc env c"] Some by (auto simp: cache_at_def split: list.splits)
  have "cache_at env g (cs @ [c]) pc" for pc
    using glog_ok_pc [OF ok, of pc] f by (cases "pc = se_pc env c") (auto simp: cache_at_def)
  then show ?thesis using ok g by (simp add: glog_ok_def)
next
  case None
  then obtain found m where f: "first_rule (gl_patterns g) (se_file env c) = Some found" and m: "gl_siteCache g = Some m"
    and g': "g' = g\<lparr>gl_siteCache := Some (m(se_pc env c \<mapsto> level_of (Some found)))\<rparr>"
    using s by (auto simp: site_level_def cached_def level_of_def Let_def split: option.splits)
  have nil: "filter (\<lambda>c'. se_pc env c' = se_pc env c) cs = []"
    using glog_ok_pc [OF ok, of "se_pc env c"] None by (auto simp: cache_at_def split: list.splits)
  have c: "cached g' pc = (if pc = se_pc env c then Some (level_of (Some found)) else cached g pc)" for pc
    using m g' by (simp add: cached_def)
  have p: "gl_patterns g' = gl_patterns g" "gl_override g' = gl_override g" "gl_siteCache g' \<noteq> None" by (simp_all add: g')
  have "cache_at env g' (cs @ [c]) pc" for pc
    using glog_ok_pc [OF ok, of pc] f nil unfolding cache_at_def c p by (cases "pc = se_pc env c") auto
  then show ?thesis using ok p by (auto simp: glog_ok_def)
qed

lemma glog_admits_ok:
  assumes ok: "glog_ok env g cs" and a: "glog_admits env g r = Some (b, r', g')"
  shows "glog_ok env g' (if looks_up env g r then cs @ [lr_call r] else cs) \<and> gl_patterns g' = gl_patterns g"
proof (cases "looks_up env g r")
  case True
  then obtain l where "site_level env (lr_call r) g = Some (l, g')"
    using a by (auto simp: glog_admits_def looks_up_def Let_def split: if_splits option.splits)
  then show ?thesis using site_level_ok [OF ok] True by simp
next
  case False
  then have "g' = g" using a by (auto simp: glog_admits_def looks_up_def Let_def split: if_splits)
  then show ?thesis using ok False by simp
qed

lemma BacktraceAt_simps:
  "gl_patterns (fst (BacktraceAt l g)) = gl_patterns g" "gl_siteCache (fst (BacktraceAt l g)) = gl_siteCache g"
  "gl_override (fst (BacktraceAt l g)) = gl_override g"
  by (simp_all add: BacktraceAt_def Let_def split: list.split)

lemma glog_ok_frame:
  assumes "gl_patterns g' = gl_patterns g" "gl_siteCache g' = gl_siteCache g" "gl_override g' = gl_override g" "glog_ok env g cs"
  shows "glog_ok env g' cs"
proof -
  have c: "cached g' = cached g" by (rule ext) (simp add: cached_def assms(2))
  show ?thesis using assms(4) unfolding glog_ok_def cache_at_def c assms(1-3) .
qed

lemma glog_run_ok: "glog_run env g cs \<Longrightarrow> glog_ok env g cs"
proof (induction rule: glog_run.induct)
  case (vmodule g cs rs g')
  then show ?case by (auto simp: Vmodule_def glog_ok_def cache_at_def cached_def split: sum.splits)
next
  case (vmodule_refused g cs rs g' err)
  then show ?case by (auto simp: Vmodule_def split: sum.splits)
next
  case (logs g cs r b r' g')
  then show ?case using glog_admits_ok by blast
next
  case (created h)
  show ?case by (simp add: glog_ok_def cache_at_def cached_def NewGlogHandler_def)
qed (auto intro: glog_ok_frame simp: BacktraceAt_simps Verbosity_def glog_SetHandler_def)

lemma glog_override:
  assumes "glog_ok env g cs" "length (gl_patterns g) < 2 ^ 32"
  shows "gl_override g = 0 \<longleftrightarrow> gl_patterns g = []"
proof -
  have "unat (gl_override g) = length (gl_patterns g)" using assms by (simp add: glog_ok_def unat_of_nat)
  then show ?thesis by (metis length_0_conv unat_eq_0)
qed

lemma glog_filter_site:
  assumes ok: "glog_ok env g cs" and len: "length (gl_patterns g) < 2 ^ 32"
  shows "map_option (\<lambda>(b, r', g'). (b, r')) (glog_admits env g r) = uncached_admits env g (site_of env cs (lr_call r)) r"
proof (cases "looks_up env g r")
  case False
  then show ?thesis
    using glog_override [OF assms] by (auto simp: glog_admits_def uncached_admits_def looks_up_def Let_def)
next
  case True
  then have p: "gl_patterns g \<noteq> []" using glog_override [OF assms] by (simp add: looks_up_def)
  then have "gl_siteCache g \<noteq> None" using ok by (auto simp: glog_ok_def)
  note l = site_level_eq [OF ok this, of "lr_call r"]
  show ?thesis
  proof (cases "first_rule (gl_patterns g) (se_file env (site_of env cs (lr_call r)))")
    case None
    then show ?thesis using True p l by (simp add: glog_admits_def uncached_admits_def looks_up_def Let_def)
  next
    case (Some found)
    then obtain g' where "site_level env (lr_call r) g = Some (level_of (Some found), g')" using l by auto
    then show ?thesis using True p Some by (simp add: glog_admits_def uncached_admits_def looks_up_def Let_def)
  qed
qed

text \<open>
  C10. After any operations, of which none has panicked, the handler decides a record as the handler without a
  cache does at the call that was the first to be looked up at the same program counter since the patterns
  were set (the call of the record itself, if there was none), panics on a pattern that does not compile
  included. If the calls looked up at this program counter are in the file of the record, it decides
  as if there were no cache. Inlined functions can share a program counter: then the first call decides for all.
\<close>

theorem glog_filter:
  assumes "glog_run env g cs" "length (gl_patterns g) < 2 ^ 32"
  shows "map_option (\<lambda>(b, r', g'). (b, r')) (glog_admits env g r) = uncached_admits env g (site_of env cs (lr_call r)) r \<and>
    ((\<forall>c\<in>set cs. se_pc env c = se_pc env (lr_call r) \<longrightarrow> se_file env c = se_file env (lr_call r)) \<longrightarrow>
      map_option (\<lambda>(b, r', g'). (b, r')) (glog_admits env g r) = uncached_admits env g (lr_call r) r)"
proof -
  note eq = glog_filter_site [OF glog_run_ok [OF assms(1)] assms(2), of r]
  have "uncached_admits env g (site_of env cs (lr_call r)) r = uncached_admits env g (lr_call r) r"
    if "\<forall>c\<in>set cs. se_pc env c = se_pc env (lr_call r) \<longrightarrow> se_file env c = se_file env (lr_call r)"
  proof -
    have "site_of env cs (lr_call r) \<in> set (filter (\<lambda>c'. se_pc env c' = se_pc env (lr_call r)) (cs @ [lr_call r]))"
      unfolding site_of_def by (rule hd_in_set) simp
    then have "se_file env (site_of env cs (lr_call r)) = se_file env (lr_call r)" using that by auto
    note f = this
    show ?thesis unfolding uncached_admits_def f by (rule refl)
  qed
  then show ?thesis using eq by auto
qed

definition example_glog :: "nat glog" where
  "example_glog = fst (Vmodule ''foo.go=3'' (NewGlogHandler 0))"

lemma example_Vmodule:
  "Vmodule ''foo.go=3'' (NewGlogHandler h) =
    (\<lparr>gl_origin = h, gl_level = 0, gl_override = 1, gl_backtrace = 0, gl_patterns = [(Some [RxAny, RxLit ''foo.go''], 3)],
      gl_siteCache = Some Map.empty, gl_location = []\<rparr>, None)"
  by (simp add: Vmodule_def NewGlogHandler_def Let_def trim_space_visible visible_def atoi_def has_prefix_def is_digit_def dec_value_def
      compile_rule_def has_suffix_def valid_utf8.simps rune_size_def)

lemma example_patterns: "gl_patterns example_glog = [(Some [RxAny, RxLit ''foo.go''], 3)]"
  by (simp add: example_glog_def example_Vmodule)

lemma example_match: "MatchString [RxAny, RxLit ''foo.go''] ''/a/foo.go''"
  unfolding MatchString_Any rx_match_Lit by (rule exI [of _ "''/a''"], rule exI [of _ "''/foo.go''"]) simp

text \<open>A second call with the program counter of the first, in another file, is decided by the file of the first.\<close>

definition inlined_site :: "nat site_env" where
  "inlined_site = \<lparr>se_string = (\<lambda>c. ''foo.go:7''), se_file = (\<lambda>c. if c = 1 then ''/a/foo.go'' else ''/a/bar.go''), se_pc = (\<lambda>c. 5), se_stack = []\<rparr>"

definition inlined_record :: "nat \<Rightarrow> nat lrecord" where
  "inlined_record c = \<lparr>lr_time = 0, lr_lvl = LvlInfo, lr_msg = ''hello'', lr_ctx = [], lr_call = c,
                     lr_keys = \<lparr>kn_time = timeKey, kn_msg = msgKey, kn_lvl = lvlKey, kn_ctx = ctxKey\<rparr>\<rparr>"

theorem glog_filter_witness:
  "\<exists>g :: nat glog. glog_run inlined_site g [1] \<and> map_option fst (glog_admits inlined_site g (inlined_record 2)) = Some True"
proof -
  have m: "first_rule (gl_patterns example_glog) (se_file inlined_site 1) = Some (Some 3)"
    using example_match by (simp add: example_patterns inlined_site_def del: rx_match.simps)
  have v: "Vmodule ''foo.go=3'' (NewGlogHandler 0) = (example_glog, None)"
    by (simp add: example_glog_def example_Vmodule)
  have r0: "glog_run inlined_site example_glog []"
    using glog_run.vmodule [OF glog_run.created v] .
  have lvl: "gl_level example_glog = 0" "gl_override example_glog = 1" "gl_siteCache example_glog = Some Map.empty" "gl_backtrace example_glog = 0"
    by (simp_all add: example_glog_def example_Vmodule)
  define g where "g = example_glog\<lparr>gl_siteCache := Some [5 \<mapsto> 3]\<rparr>"
  have "glog_admits inlined_site example_glog (inlined_record 1) = Some (True, inlined_record 1, g)"
    using m by (simp add: glog_admits_def lvl site_level_def Let_def inlined_record_def lvl_defs g_def inlined_site_def)
  moreover have "looks_up inlined_site example_glog (inlined_record 1)"
    by (simp add: looks_up_def lvl inlined_record_def lvl_defs)
  ultimately have r1: "glog_run inlined_site g [1]"
    using glog_run.logs [OF r0] by (force simp: inlined_record_def)
  have len: "length (gl_patterns g) < 2 ^ 32" by (simp add: g_def example_patterns)
  have "uncached_admits inlined_site g (site_of inlined_site [1] 2) (inlined_record 2) = Some (True, inlined_record 2)"
    using m by (simp add: uncached_admits_def g_def example_patterns lvl inlined_record_def lvl_defs level_of_def
        site_of_def inlined_site_def)
  then have "map_option (\<lambda>(b, r', g'). (b, r')) (glog_admits inlined_site g (inlined_record 2)) = Some (True, inlined_record 2)"
    using glog_filter [OF r1 len, of "inlined_record 2", THEN conjunct1] by (simp add: inlined_record_def)
  then have "map_option fst (glog_admits inlined_site g (inlined_record 2)) = Some True"
    by (auto simp: map_option_case split: option.splits prod.splits)
  then show ?thesis using r1 by blast
qed

end
