(* ===== verification/Log_Handler.thy ===== *)
theory Log_Handler
  imports Log_Glog
begin

text \<open>
  \<open>src/log/handler.go\<close>, \<open>src/log/syslog.go\<close> and the \<open>swapHandler\<close> of \<open>src/log/handler_go14.go\<close>. A handler is a closure, so a value
  of the datatype \<open>handler\<close> says which closure it is and what it captured; \<open>logh\<close> is what its method \<open>Log\<close> does. Records
  are passed by reference and live in the world, with the mutexes, the channels, the swap handlers, the
  \<open>GlogHandler\<close>s and what each writer was given. The recursion has fuel because a swap handler can be put into itself.
\<close>

section \<open>Formats, handlers and the world\<close>

datatype 'o fmtr = FLogfmt | FTerminal bool | FJSON bool bool | FJSONOrdered bool bool | FUser "'o lrecord \<Rightarrow> string"

datatype 'o handler =
  HFunc "'o lrecord \<Rightarrow> 'o lrecord \<times> string option"
| HStream nat "'o fmtr"
| HSyslog nat "'o fmtr"
| HSync nat "'o handler"
| HModify "'o lrecord \<Rightarrow> 'o lrecord option" "'o handler"
| HFilter "'o lrecord \<Rightarrow> bool option" "'o handler"
| HMulti "'o handler list"
| HFailover "'o handler list"
| HChannel nat
| HClosing nat "'o handler"
| HSwap nat
| HGlog nat

text \<open>A channel of records, and the handler of the goroutine that receives from it, if there is one.\<close>

record 'o rec_chan =
  rc_cap :: nat
  rc_queue :: "nat list"
  rc_reader :: "'o handler option"

record 'o log_world =
  lw_recs :: "'o lrecord list"
  lw_fmt :: fmt_state
  lw_out :: "nat \<Rightarrow> string"
  lw_syslog :: "(nat \<times> string \<times> string) list"
  lw_locks :: "bool list"
  lw_chans :: "'o rec_chan list"
  lw_swaps :: "'o handler option list"
  lw_glogs :: "'o handler glog list"

text \<open>
  What the code does not define: the formatting environment, \<open>json.Marshal\<close> (indented or not), the
  writers (from the contents and the data to the new contents and the error), the error of a method of
  \<open>syslog.Writer\<close> (with the writer, the name of the method and the message), \<open>==\<close> on interfaces
  (\<open>None\<close>: a panic), and the stack traces of \<open>go-stack\<close>.
\<close>

record 'o log_env =
  le_fmt :: "'o fmt_env"
  le_marshal :: "bool \<Rightarrow> (string \<rightharpoonup> 'o jprop) \<Rightarrow> string + string"
  le_write :: "nat \<Rightarrow> string \<Rightarrow> string \<Rightarrow> string \<times> string option"
  le_syslog :: "nat \<Rightarrow> string \<Rightarrow> string \<Rightarrow> string option"
  le_eq :: "'o lval \<Rightarrow> 'o lval \<Rightarrow> bool option"
  le_site :: "'o site_env"
  le_trace :: "string \<Rightarrow> 'o \<Rightarrow> string option"
  le_trim :: "'o lval \<Rightarrow> 'o \<Rightarrow> 'o lval option"

datatype 'a lres = LDone 'a | LPanic | LBlocks | LFuel

definition Format :: "'o log_env \<Rightarrow> 'o fmtr \<Rightarrow> 'o lrecord \<Rightarrow> fmt_state \<Rightarrow> (string \<times> fmt_state) option" where
  "Format env f r st =
     (case f of
        FLogfmt \<Rightarrow> LogfmtFormat (le_fmt env) r st
      | FTerminal c \<Rightarrow> TerminalFormat (le_fmt env) c r st
      | FJSON p ls \<Rightarrow> map_option (\<lambda>s. (s, st)) (JSONFormatEx (le_fmt env) (le_marshal env p) ls r)
      | FJSONOrdered p ls \<Rightarrow>
          (case JSONFormatOrderedEx (le_fmt env) (le_marshal env p) ls r of None \<Rightarrow> None | Some s \<Rightarrow> Some (s, st))
      | FUser fn \<Rightarrow> Some (fn r, st))"

section \<open>Constructors\<close>

definition LazyError :: "'o log_env \<Rightarrow> string \<Rightarrow> 'o \<Rightarrow> string" where
  "LazyError env s x = ''INVALID_LAZY, '' @ s @ '': '' @ fe_plusv (le_fmt env) (LObj None NoText x)"

text \<open>\<open>fe_lazy\<close> is what \<open>value.Call\<close> gives; \<open>None\<close> is a panic, of the function or because it is a nil one.\<close>

definition evaluateLazy :: "'o log_env \<Rightarrow> (nat \<times> nat) option \<Rightarrow> 'o \<Rightarrow> (string + 'o lval) option" where
  "evaluateLazy env t x =
     (case t of
        None \<Rightarrow> Some (Inl (LazyError env ''not func'' x))
      | Some (ins, outs) \<Rightarrow>
          if 0 < ins then Some (Inl (LazyError env ''func takes args'' x))
          else if outs = 0 then Some (Inl (LazyError env ''no func return val'' x))
          else map_option (\<lambda>vs. case vs of [v] \<Rightarrow> Inr v | vs \<Rightarrow> Inr (LList vs)) (fe_lazy (le_fmt env) x))"

text \<open>
  The value in the place of a value, and whether it was a bad \<open>Lazy\<close>; the loop over the odd indexes. On a nil
  \<open>Fn\<close> \<open>reflect.TypeOf\<close> gives nil, whose method \<open>Kind\<close> panics.
\<close>

definition lazy_value :: "'o log_env \<Rightarrow> 'o \<Rightarrow> 'o lval \<Rightarrow> ('o lval \<times> bool) option" where
  "lazy_value env call v =
     (case v of
        LLazyNil \<Rightarrow> None
      | LLazy t x \<Rightarrow>
          (case evaluateLazy env t x of
             None \<Rightarrow> None
           | Some (Inl err) \<Rightarrow> Some (LErr err, True)
           | Some (Inr v) \<Rightarrow> (case le_trim env v call of None \<Rightarrow> Some (v, False) | Some v \<Rightarrow> Some (v, False)))
      | _ \<Rightarrow> Some (v, False))"

fun lazy_loop :: "'o log_env \<Rightarrow> 'o \<Rightarrow> 'o lval list \<Rightarrow> ('o lval list \<times> bool) option" where
  "lazy_loop env call [] = Some ([], False)"
| "lazy_loop env call [k] = Some ([k], False)"
| "lazy_loop env call (k # v # ctx) =
     (case lazy_value env call v of
        None \<Rightarrow> None
      | Some (v, bad) \<Rightarrow>
          (case lazy_loop env call ctx of
             None \<Rightarrow> None
           | Some (ctx, bads) \<Rightarrow> Some (k # v # ctx, bad \<or> bads)))"

definition lazy_record :: "'o log_env \<Rightarrow> 'o lrecord \<Rightarrow> 'o lrecord option" where
  "lazy_record env r =
     (case lazy_loop env (lr_call r) (lr_ctx r) of
        None \<Rightarrow> None
      | Some (ctx, hadErr) \<Rightarrow>
          Some (r\<lparr>lr_ctx := ctx @ (if hadErr then [LString errorKey, LString ''bad lazy''] else [])\<rparr>))"

definition LazyHandler :: "'o log_env \<Rightarrow> 'o handler \<Rightarrow> 'o handler" where
  "LazyHandler env h = HModify (lazy_record env) h"

definition SyncHandler :: "'o handler \<Rightarrow> 'o log_world \<Rightarrow> 'o handler \<times> 'o log_world" where
  "SyncHandler h w = (HSync (length (lw_locks w)) h, w\<lparr>lw_locks := lw_locks w @ [False]\<rparr>)"

definition StreamHandler :: "'o log_env \<Rightarrow> nat \<Rightarrow> 'o fmtr \<Rightarrow> 'o log_world \<Rightarrow> 'o handler \<times> 'o log_world" where
  "StreamHandler env wr f w = (let (h, w) = SyncHandler (HStream wr f) w in (LazyHandler env h, w))"

text \<open>\<open>open\<close> is \<open>os.OpenFile\<close> with the flags of the code: an error, or the writer.\<close>

definition FileHandler ::
  "'o log_env \<Rightarrow> (string \<Rightarrow> string + nat) \<Rightarrow> string \<Rightarrow> 'o fmtr \<Rightarrow> 'o log_world \<Rightarrow> string + 'o handler \<times> 'o log_world" where
  "FileHandler env open path f w =
     (case open path of
        Inl err \<Rightarrow> Inl err
      | Inr wr \<Rightarrow> (let (h, w) = StreamHandler env wr f w in Inr (HClosing wr h, w)))"

definition NetHandler ::
  "'o log_env \<Rightarrow> (string \<Rightarrow> string \<Rightarrow> string + nat) \<Rightarrow> string \<Rightarrow> string \<Rightarrow> 'o fmtr \<Rightarrow> 'o log_world \<Rightarrow> string + 'o handler \<times> 'o log_world" where
  "NetHandler env dial network addr f w =
     (case dial network addr of
        Inl err \<Rightarrow> Inl err
      | Inr conn \<Rightarrow> (let (h, w) = StreamHandler env conn f w in Inr (HClosing conn h, w)))"

text \<open>\<open>src/log/syslog.go\<close>; \<open>res\<close> is what \<open>syslog.New\<close> or \<open>syslog.Dial\<close> returned.\<close>

definition sharedSyslog :: "'o log_env \<Rightarrow> 'o fmtr \<Rightarrow> string + nat \<Rightarrow> string + 'o handler" where
  "sharedSyslog env f res =
     (case res of Inl err \<Rightarrow> Inl err | Inr sysWr \<Rightarrow> Inr (LazyHandler env (HClosing sysWr (HSyslog sysWr f))))"

definition SyslogHandler :: "'o log_env \<Rightarrow> (nat \<Rightarrow> string \<Rightarrow> string + nat) \<Rightarrow> nat \<Rightarrow> string \<Rightarrow> 'o fmtr \<Rightarrow> string + 'o handler" where
  "SyslogHandler env syslog_New priority tag f = sharedSyslog env f (syslog_New priority tag)"

definition SyslogNetHandler ::
  "'o log_env \<Rightarrow> (string \<Rightarrow> string \<Rightarrow> nat \<Rightarrow> string \<Rightarrow> string + nat) \<Rightarrow> string \<Rightarrow> string \<Rightarrow> nat \<Rightarrow> string \<Rightarrow> 'o fmtr \<Rightarrow> string + 'o handler" where
  "SyslogNetHandler env syslog_Dial net addr priority tag f = sharedSyslog env f (syslog_Dial net addr priority tag)"

definition append_ctx :: "'o lrecord \<Rightarrow> 'o lval list \<Rightarrow> 'o lrecord" where
  "append_ctx r kv = r\<lparr>lr_ctx := lr_ctx r @ kv\<rparr>"

definition CallerFileHandler :: "'o log_env \<Rightarrow> 'o handler \<Rightarrow> 'o handler" where
  "CallerFileHandler env h =
     HModify (\<lambda>r. Some (append_ctx r [LString ''caller'', LString (fe_sprint (le_fmt env) (lr_call r))])) h"

definition CallerFuncHandler :: "'o log_env \<Rightarrow> 'o handler \<Rightarrow> 'o handler" where
  "CallerFuncHandler env h =
     HModify (\<lambda>r. Some (append_ctx r [LString ''fn'', LString (fe_siteFn (le_fmt env) (lr_call r))])) h"

text \<open>\<open>le_trace\<close> is the formatted trace below the call, \<open>None\<close> when it is empty.\<close>

definition CallerStackHandler :: "'o log_env \<Rightarrow> string \<Rightarrow> 'o handler \<Rightarrow> 'o handler" where
  "CallerStackHandler env format h =
     HModify (\<lambda>r. Some (case le_trace env format (lr_call r) of
                           None \<Rightarrow> r | Some s \<Rightarrow> append_ctx r [LString ''stack'', LString s])) h"

definition FilterHandler :: "('o lrecord \<Rightarrow> bool option) \<Rightarrow> 'o handler \<Rightarrow> 'o handler" where
  "FilterHandler fn h = HFilter fn h"

fun match_ctx :: "'o log_env \<Rightarrow> string \<Rightarrow> 'o lval \<Rightarrow> 'o lval list \<Rightarrow> bool option" where
  "match_ctx env key v [] = Some False"
| "match_ctx env key v [k] = (if k = LString key then None else Some False)"
| "match_ctx env key v (k # x # ctx) = (if k = LString key then le_eq env x v else match_ctx env key v ctx)"

definition MatchFilterHandler :: "'o log_env \<Rightarrow> string \<Rightarrow> 'o lval \<Rightarrow> 'o handler \<Rightarrow> 'o handler" where
  "MatchFilterHandler env key v h =
     FilterHandler
       (\<lambda>r. if key = kn_lvl (lr_keys r) then le_eq env (LLvl (lr_lvl r)) v
            else if key = kn_time (lr_keys r) then le_eq env (LTime (lr_time r)) v
            else if key = kn_msg (lr_keys r) then le_eq env (LString (lr_msg r)) v
            else match_ctx env key v (lr_ctx r)) h"

definition LvlFilterHandler :: "int \<Rightarrow> 'o handler \<Rightarrow> 'o handler" where
  "LvlFilterHandler maxLvl h = FilterHandler (\<lambda>r. Some (lr_lvl r \<le> maxLvl)) h"

definition MultiHandler :: "'o handler list \<Rightarrow> 'o handler" where
  "MultiHandler hs = HMulti hs"

definition FailoverHandler :: "'o handler list \<Rightarrow> 'o handler" where
  "FailoverHandler hs = HFailover hs"

definition ChannelHandler :: "nat \<Rightarrow> 'o handler" where
  "ChannelHandler recs = HChannel recs"

definition BufferedHandler :: "nat \<Rightarrow> 'o handler \<Rightarrow> 'o log_world \<Rightarrow> 'o handler \<times> 'o log_world" where
  "BufferedHandler bufSize h w =
     (ChannelHandler (length (lw_chans w)),
      w\<lparr>lw_chans := lw_chans w @ [\<lparr>rc_cap = bufSize, rc_queue = [], rc_reader = Some h\<rparr>]\<rparr>)"

definition DiscardHandler :: "'o handler" where
  "DiscardHandler = HFunc (\<lambda>r. (r, None))"

definition must :: "string + 'a \<Rightarrow> 'a option" where
  "must res = (case res of Inl err \<Rightarrow> None | Inr h \<Rightarrow> Some h)"

definition Must_FileHandler ::
  "'o log_env \<Rightarrow> (string \<Rightarrow> string + nat) \<Rightarrow> string \<Rightarrow> 'o fmtr \<Rightarrow> 'o log_world \<Rightarrow> ('o handler \<times> 'o log_world) option" where
  "Must_FileHandler env open path f w = must (FileHandler env open path f w)"

definition Must_NetHandler ::
  "'o log_env \<Rightarrow> (string \<Rightarrow> string \<Rightarrow> string + nat) \<Rightarrow> string \<Rightarrow> string \<Rightarrow> 'o fmtr \<Rightarrow> 'o log_world \<Rightarrow> ('o handler \<times> 'o log_world) option" where
  "Must_NetHandler env dial network addr f w = must (NetHandler env dial network addr f w)"

definition Must_SyslogHandler :: "'o log_env \<Rightarrow> (nat \<Rightarrow> string \<Rightarrow> string + nat) \<Rightarrow> nat \<Rightarrow> string \<Rightarrow> 'o fmtr \<Rightarrow> 'o handler option" where
  "Must_SyslogHandler env syslog_New priority tag f = must (SyslogHandler env syslog_New priority tag f)"

definition Must_SyslogNetHandler ::
  "'o log_env \<Rightarrow> (string \<Rightarrow> string \<Rightarrow> nat \<Rightarrow> string \<Rightarrow> string + nat) \<Rightarrow> string \<Rightarrow> string \<Rightarrow> nat \<Rightarrow> string \<Rightarrow> 'o fmtr \<Rightarrow> 'o handler option" where
  "Must_SyslogNetHandler env syslog_Dial net addr priority tag f = must (SyslogNetHandler env syslog_Dial net addr priority tag f)"

section \<open>Log\<close>

definition the_rec :: "nat \<Rightarrow> 'o log_world \<Rightarrow> 'o lrecord" where
  "the_rec r w = lw_recs w ! r"

definition put_rec :: "nat \<Rightarrow> 'o lrecord \<Rightarrow> 'o log_world \<Rightarrow> 'o log_world" where
  "put_rec r x w = w\<lparr>lw_recs := (lw_recs w)[r := x]\<rparr>"

definition set_lock :: "nat \<Rightarrow> bool \<Rightarrow> 'o log_world \<Rightarrow> 'o log_world" where
  "set_lock mu b w = w\<lparr>lw_locks := (lw_locks w)[mu := b]\<rparr>"

text \<open>The closure of \<open>StreamHandler\<close>, and the send of a record: the record the goroutine holds counts as queued.\<close>

definition log_stream :: "'o log_env \<Rightarrow> nat \<Rightarrow> 'o fmtr \<Rightarrow> nat \<Rightarrow> 'o log_world \<Rightarrow> (string option \<times> 'o log_world) lres" where
  "log_stream env wr f r w =
     (case Format env f (the_rec r w) (lw_fmt w) of
        None \<Rightarrow> LPanic
      | Some (s, st) \<Rightarrow>
          (let (out, err) = le_write env wr (lw_out w wr) s
           in LDone (err, w\<lparr>lw_fmt := st, lw_out := (lw_out w)(wr := out)\<rparr>)))"

text \<open>The method of the syslog writer for a level; there is none for \<open>LvlTrace\<close>.\<close>

definition syslog_method :: "int \<Rightarrow> string option" where
  "syslog_method l =
     (if l = LvlCrit then Some ''Crit'' else if l = LvlError then Some ''Err'' else if l = LvlWarn then Some ''Warning''
      else if l = LvlInfo then Some ''Info'' else if l = LvlDebug then Some ''Debug'' else if l = LvlTrace then None
      else Some ''Info'')"

definition log_syslog :: "'o log_env \<Rightarrow> nat \<Rightarrow> 'o fmtr \<Rightarrow> nat \<Rightarrow> 'o log_world \<Rightarrow> (string option \<times> 'o log_world) lres" where
  "log_syslog env wr f r w =
     (case Format env f (the_rec r w) (lw_fmt w) of
        None \<Rightarrow> LPanic
      | Some (s, st) \<Rightarrow>
          (let s = trim_space s; w = w\<lparr>lw_fmt := st\<rparr>
           in case syslog_method (lr_lvl (the_rec r w)) of
                None \<Rightarrow> LDone (None, w)
              | Some m \<Rightarrow> LDone (le_syslog env wr m s, w\<lparr>lw_syslog := lw_syslog w @ [(wr, m, s)]\<rparr>)))"

definition log_send :: "nat \<Rightarrow> nat \<Rightarrow> 'o log_world \<Rightarrow> (string option \<times> 'o log_world) lres" where
  "log_send c r w =
     (let ch = lw_chans w ! c
      in if length (rc_queue ch) < rc_cap ch + (if rc_reader ch = None then 0 else 1)
         then LDone (None, w\<lparr>lw_chans := (lw_chans w)[c := ch\<lparr>rc_queue := rc_queue ch @ [r]\<rparr>]\<rparr>)
         else LBlocks)"

definition failover_key :: "nat \<Rightarrow> string" where
  "failover_key i = ''failover_err_'' @ dec_digits i"

text \<open>The loops of \<open>MultiHandler\<close> and \<open>FailoverHandler\<close>; \<open>lg\<close> is \<open>Log\<close> of one handler.\<close>

fun log_multi ::
  "('o handler \<Rightarrow> nat \<Rightarrow> 'o log_world \<Rightarrow> (string option \<times> 'o log_world) lres) \<Rightarrow> 'o handler list \<Rightarrow> nat \<Rightarrow> 'o log_world \<Rightarrow>
   (string option \<times> 'o log_world) lres" where
  "log_multi lg [] r w = LDone (None, w)"
| "log_multi lg (h # hs) r w =
     (case lg h r w of
        LDone (_, w) \<Rightarrow> log_multi lg hs r w
      | LPanic \<Rightarrow> LPanic | LBlocks \<Rightarrow> LBlocks | LFuel \<Rightarrow> LFuel)"

fun log_failover ::
  "('o handler \<Rightarrow> nat \<Rightarrow> 'o log_world \<Rightarrow> (string option \<times> 'o log_world) lres) \<Rightarrow> nat \<Rightarrow> 'o handler list \<Rightarrow> string option \<Rightarrow>
   nat \<Rightarrow> 'o log_world \<Rightarrow> (string option \<times> 'o log_world) lres" where
  "log_failover lg i [] err r w = LDone (err, w)"
| "log_failover lg i (h # hs) err r w =
     (case lg h r w of
        LDone (None, w) \<Rightarrow> LDone (None, w)
      | LDone (Some e, w) \<Rightarrow>
          log_failover lg (Suc i) hs (Some e) r
            (put_rec r (append_ctx (the_rec r w) [LString (failover_key i), LErr e]) w)
      | LPanic \<Rightarrow> LPanic | LBlocks \<Rightarrow> LBlocks | LFuel \<Rightarrow> LFuel)"

text \<open>\<open>Log\<close> of a handler, of the closures and of the types with this method.\<close>

fun logh :: "nat \<Rightarrow> 'o log_env \<Rightarrow> 'o handler \<Rightarrow> nat \<Rightarrow> 'o log_world \<Rightarrow> (string option \<times> 'o log_world) lres" where
  "logh 0 env h r w = LFuel"
| "logh (Suc n) env (HFunc fn) r w = (let (x, err) = fn (the_rec r w) in LDone (err, put_rec r x w))"
| "logh (Suc n) env (HStream wr f) r w = log_stream env wr f r w"
| "logh (Suc n) env (HSyslog wr f) r w = log_syslog env wr f r w"
| "logh (Suc n) env (HSync mu h) r w =
     (if lw_locks w ! mu then LBlocks
      else case logh n env h r (set_lock mu True w) of
          LDone (err, w) \<Rightarrow> LDone (err, set_lock mu False w)
        | LPanic \<Rightarrow> LPanic | LBlocks \<Rightarrow> LBlocks | LFuel \<Rightarrow> LFuel)"
| "logh (Suc n) env (HModify fn h) r w =
     (case fn (the_rec r w) of None \<Rightarrow> LPanic | Some x \<Rightarrow> logh n env h r (put_rec r x w))"
| "logh (Suc n) env (HFilter fn h) r w =
     (case fn (the_rec r w) of None \<Rightarrow> LPanic | Some b \<Rightarrow> if b then logh n env h r w else LDone (None, w))"
| "logh (Suc n) env (HMulti hs) r w = log_multi (logh n env) hs r w"
| "logh (Suc n) env (HFailover hs) r w = log_failover (logh n env) 0 hs None r w"
| "logh (Suc n) env (HChannel c) r w = log_send c r w"
| "logh (Suc n) env (HClosing c h) r w = logh n env h r w"
| "logh (Suc n) env (HSwap a) r w = (case lw_swaps w ! a of None \<Rightarrow> LPanic | Some h \<Rightarrow> logh n env h r w)"
| "logh (Suc n) env (HGlog a) r w =
     (case glog_admits (le_site env) (lw_glogs w ! a) (the_rec r w) of
        None \<Rightarrow> LPanic
      | Some (b, x, g) \<Rightarrow>
          (let w = put_rec r x (w\<lparr>lw_glogs := (lw_glogs w)[a := g]\<rparr>)
           in if b then logh n env (gl_origin g) r w else LDone (None, w)))"

text \<open>One turn of the goroutine of \<open>BufferedHandler\<close>, which ignores the error.\<close>

definition buffer_step :: "nat \<Rightarrow> 'o log_env \<Rightarrow> nat \<Rightarrow> 'o log_world \<Rightarrow> 'o log_world lres" where
  "buffer_step n env c w =
     (let ch = lw_chans w ! c
      in case (rc_reader ch, rc_queue ch) of
           (Some h, r # rs) \<Rightarrow>
             (case logh n env h r (w\<lparr>lw_chans := (lw_chans w)[c := ch\<lparr>rc_queue := rs\<rparr>]\<rparr>) of
                LDone (_, w) \<Rightarrow> LDone w
              | LPanic \<Rightarrow> LPanic | LBlocks \<Rightarrow> LBlocks | LFuel \<Rightarrow> LFuel)
         | _ \<Rightarrow> LBlocks)"

section \<open>The swap handler\<close>

definition new_swap :: "'o log_world \<Rightarrow> nat \<times> 'o log_world" where
  "new_swap w = (length (lw_swaps w), w\<lparr>lw_swaps := lw_swaps w @ [None]\<rparr>)"

definition Swap :: "nat \<Rightarrow> 'o handler \<Rightarrow> 'o log_world \<Rightarrow> 'o log_world" where
  "Swap a h w = w\<lparr>lw_swaps := (lw_swaps w)[a := Some h]\<rparr>"

definition Get :: "nat \<Rightarrow> 'o log_world \<Rightarrow> 'o handler option" where
  "Get a w = lw_swaps w ! a"

end
