(* ===== verification/Log_Logger.thy ===== *)
theory Log_Logger
  imports Log_Handler
begin

text \<open>
  The loggers of \<open>src/log/logger.go\<close> and the package functions of \<open>src/log/root.go\<close>. A logger is its
  context and the address of its swap handler. The time and the call site that \<open>write\<close> asks the
  runtime for are arguments. After the operations come the facts on when logging returns.
\<close>

section \<open>Operations\<close>

record 'o logger =
  lg_ctx :: "'o lval list"
  lg_h :: nat

definition default_keys :: recordKeyNames where
  "default_keys = \<lparr>kn_time = timeKey, kn_msg = msgKey, kn_lvl = lvlKey, kn_ctx = ctxKey\<rparr>"

text \<open>The record a write makes; \<open>callers\<close> gives the call site a number of frames up.\<close>

definition logger_record :: "'o logger \<Rightarrow> string \<Rightarrow> int \<Rightarrow> 'o lval list \<Rightarrow> nat \<Rightarrow> 'o \<Rightarrow> (nat \<Rightarrow> 'o) \<Rightarrow> 'o lrecord" where
  "logger_record l msg lvl ctx skip now callers =
     \<lparr>lr_time = now, lr_lvl = lvl, lr_msg = msg, lr_ctx = newContext (lg_ctx l) ctx, lr_call = callers skip,
      lr_keys = default_keys\<rparr>"

definition logger_write :: "nat \<Rightarrow> 'o log_env \<Rightarrow> 'o logger \<Rightarrow> string \<Rightarrow> int \<Rightarrow> 'o lval list \<Rightarrow> nat \<Rightarrow> 'o \<Rightarrow> (nat \<Rightarrow> 'o) \<Rightarrow> 'o log_world \<Rightarrow> 'o log_world lres" where
  "logger_write n env l msg lvl ctx skip now callers w =
     (case logh n env (HSwap (lg_h l)) (length (lw_recs w))
             (w\<lparr>lw_recs := lw_recs w @ [logger_record l msg lvl ctx skip now callers]\<rparr>) of
        LDone (_, w) \<Rightarrow> LDone w
      | LPanic \<Rightarrow> LPanic | LBlocks \<Rightarrow> LBlocks | LFuel \<Rightarrow> LFuel)"

definition logger_SetHandler :: "'o logger \<Rightarrow> 'o handler \<Rightarrow> 'o log_world \<Rightarrow> 'o log_world" where
  "logger_SetHandler l h w = Swap (lg_h l) h w"

definition logger_GetHandler :: "'o logger \<Rightarrow> 'o log_world \<Rightarrow> 'o handler option" where
  "logger_GetHandler l w = Get (lg_h l) w"

definition logger_New :: "'o logger \<Rightarrow> 'o lval list \<Rightarrow> 'o log_world \<Rightarrow> 'o logger \<times> 'o log_world" where
  "logger_New l ctx w =
     (let (a, w) = new_swap w;
          child = \<lparr>lg_ctx = newContext (lg_ctx l) ctx, lg_h = a\<rparr>
      in (child, logger_SetHandler child (HSwap (lg_h l)) w))"

definition log_at :: "int \<Rightarrow> nat \<Rightarrow> 'o log_env \<Rightarrow> 'o logger \<Rightarrow> string \<Rightarrow> 'o lval list \<Rightarrow> 'o \<Rightarrow> (nat \<Rightarrow> 'o) \<Rightarrow> 'o log_world \<Rightarrow> 'o log_world lres" where
  "log_at lvl n env l msg ctx now callers w = logger_write n env l msg lvl ctx (nat skipLevel) now callers w"

text \<open>What follows \<open>os.Exit\<close> does not run: the result says whether the process ended.\<close>

definition logger_Crit :: "nat \<Rightarrow> 'o log_env \<Rightarrow> 'o logger \<Rightarrow> string \<Rightarrow> 'o lval list \<Rightarrow> 'o \<Rightarrow> (nat \<Rightarrow> 'o) \<Rightarrow> 'o log_world \<Rightarrow> ('o log_world \<times> bool) lres" where
  "logger_Crit n env l msg ctx now callers w =
     (case log_at LvlCrit n env l msg ctx now callers w of
        LDone w \<Rightarrow> LDone (w, True) | LPanic \<Rightarrow> LPanic | LBlocks \<Rightarrow> LBlocks | LFuel \<Rightarrow> LFuel)"

abbreviation "logger_Error \<equiv> log_at LvlError"
abbreviation "logger_Warn \<equiv> log_at LvlWarn"
abbreviation "logger_Info \<equiv> log_at LvlInfo"
abbreviation "logger_Debug \<equiv> log_at LvlDebug"
abbreviation "logger_Trace \<equiv> log_at LvlTrace"

section \<open>The root logger\<close>

definition root :: "'o logger" where
  "root = \<lparr>lg_ctx = [], lg_h = 0\<rparr>"

text \<open>
  The state after the package variables are initialised: \<open>root\<close> with an empty swap handler, and the two stream
  handlers, which are not set on it; writer 1 is the standard output, writer 2 the standard error.
\<close>

definition empty_world :: "'o log_world" where
  "empty_world = \<lparr>lw_recs = [], lw_fmt = initial_fmt_state, lw_out = (\<lambda>_. []), lw_syslog = [], lw_locks = [], lw_chans = [],
                  lw_swaps = [None], lw_glogs = []\<rparr>"

definition init_world :: "'o log_env \<Rightarrow> 'o handler \<times> 'o handler \<times> 'o log_world" where
  "init_world env =
     (let (stdoutHandler, w) = StreamHandler env 1 FLogfmt empty_world;
          (stderrHandler, w) = StreamHandler env 2 FLogfmt w
      in (stdoutHandler, stderrHandler, w))"

definition New :: "'o lval list \<Rightarrow> 'o log_world \<Rightarrow> 'o logger \<times> 'o log_world" where
  "New ctx w = logger_New root ctx w"

definition root_log :: "int \<Rightarrow> nat \<Rightarrow> 'o log_env \<Rightarrow> string \<Rightarrow> 'o lval list \<Rightarrow> 'o \<Rightarrow> (nat \<Rightarrow> 'o) \<Rightarrow> 'o log_world \<Rightarrow> 'o log_world lres" where
  "root_log lvl n env msg ctx now callers w = logger_write n env root msg lvl ctx (nat skipLevel) now callers w"

definition root_Crit :: "nat \<Rightarrow> 'o log_env \<Rightarrow> string \<Rightarrow> 'o lval list \<Rightarrow> 'o \<Rightarrow> (nat \<Rightarrow> 'o) \<Rightarrow> 'o log_world \<Rightarrow> ('o log_world \<times> bool) lres" where
  "root_Crit n env msg ctx now callers w = logger_Crit n env root msg ctx now callers w"

definition Output :: "nat \<Rightarrow> 'o log_env \<Rightarrow> string \<Rightarrow> int \<Rightarrow> nat \<Rightarrow> 'o lval list \<Rightarrow> 'o \<Rightarrow> (nat \<Rightarrow> 'o) \<Rightarrow> 'o log_world \<Rightarrow> 'o log_world lres" where
  "Output n env msg lvl calldepth ctx now callers w =
     logger_write n env root msg lvl ctx (calldepth + nat skipLevel) now callers w"

section \<open>Records that every format accepts\<close>

definition good_record :: "'o lrecord \<Rightarrow> bool" where
  "good_record r \<longleftrightarrow> even (length (lr_ctx r)) \<and> (\<forall>v\<in>set (lr_ctx r). formattable v) \<and> 0 \<le> lr_lvl r \<and> lr_lvl r \<le> 5"

lemma AlignedString_ex: "0 \<le> l \<Longrightarrow> l \<le> 5 \<Longrightarrow> \<exists>s. AlignedString l = Some s"
proof -
  assume "0 \<le> l" "l \<le> 5"
  then have "l = 0 \<or> l = 1 \<or> l = 2 \<or> l = 3 \<or> l = 4 \<or> l = 5" by arith
  then show ?thesis by (auto simp: AlignedString_def lvl_defs)
qed

lemma json_props_ex:
  "even (length ctx) \<Longrightarrow> \<forall>v\<in>set ctx. formattable v \<Longrightarrow> \<exists>p. json_props env ctx props = Some p"
proof (induction ctx arbitrary: props rule: induct_list012)
  case (3 key v ctx)
  obtain k p where kp: "(case key of LString k \<Rightarrow> (k, props)
      | _ \<Rightarrow> ([], props(errorKey \<mapsto> PVal (LString (not_string_key env key))))) = (k, p)" by fastforce
  obtain s where s: "formatJSONValue env v = Some s"
    using formatShared_ex [of v env] 3(4) by (auto simp: formatJSONValue_def)
  obtain q where "json_props env ctx (p(k \<mapsto> PVal s)) = Some q" using 3(1,3,4) by auto
  then show ?case using kp s by simp
qed simp_all

lemma json_ctx_ex:
  "even (length ctx) \<Longrightarrow> \<forall>v\<in>set ctx. formattable v \<Longrightarrow> \<exists>c p. json_ctx env ctx acc props = Some (c, p)"
proof (induction ctx arbitrary: acc props rule: induct_list012)
  case (3 key v ctx)
  obtain k p where kp: "(case key of LString k \<Rightarrow> (k, props)
      | _ \<Rightarrow> ([], props(errorKey \<mapsto> PVal (LString (not_string_key env key @ '',''))))) = (k, p)" by fastforce
  obtain s where s: "formatLogfmtValue env v True = Some s" using formatLogfmtValue_ex [of v env True] 3(4) by auto
  obtain q where "json_ctx env ctx (acc @ [k, s]) p = Some q" using 3(1,3,4) by fastforce
  then show ?case using kp s by (cases q) simp
qed simp_all

lemma json_head_ex: "good_record r \<Longrightarrow> \<exists>p. json_head r = Some p"
  by (auto simp: json_head_def good_record_def dest: Lvl_String_ex)

lemma Format_ex:
  assumes "good_record r"
  shows "\<exists>s st'. Format env f r st = Some (s, st')"
proof (cases f)
  case FLogfmt
  then show ?thesis
    using logfmt_total_aux [of "[LString (kn_time (lr_keys r)), LTime (lr_time r), LString (kn_lvl (lr_keys r)), LLvl (lr_lvl r),
        LString (kn_msg (lr_keys r)), LString (lr_msg r)] @ lr_ctx r" "le_fmt env" 0 False st] assms
    by (auto simp: Format_def LogfmtFormat_def good_record_def)
next
  case (FTerminal c)
  obtain a where a: "AlignedString (lr_lvl r) = Some a" using AlignedString_ex assms by (auto simp: good_record_def)
  obtain hd1 st1 where h: "term_header (le_fmt env) (level_color c (lr_lvl r)) a
      (escapeMessage (fe_quote (le_fmt env)) (lr_msg r)) r st = (hd1, st1)" by fastforce
  obtain s st' where "logfmt (le_fmt env) (lr_ctx r) (level_color c (lr_lvl r)) True st1 = Some (s, st')"
    using logfmt_total_aux [of "lr_ctx r"] assms unfolding good_record_def by blast
  then show ?thesis using FTerminal a h by (simp add: Format_def TerminalFormat_def Let_def)
next
  case (FJSON p ls)
  then show ?thesis using json_head_ex [OF assms] json_props_ex [of "lr_ctx r" "le_fmt env"] assms
    by (auto simp: Format_def JSONFormatEx_def good_record_def)
next
  case (FJSONOrdered p ls)
  obtain q where q: "json_head r = Some q" using json_head_ex [OF assms] by blast
  obtain c p' where "json_ctx (le_fmt env) (lr_ctx r) [] q = Some (c, p')"
    using json_ctx_ex [of "lr_ctx r" "le_fmt env" "[]" q] assms by (auto simp: good_record_def)
  then show ?thesis using FJSONOrdered q by (auto simp: Format_def JSONFormatOrderedEx_def)
qed (auto simp: Format_def)

lemma good_append: "good_record r \<Longrightarrow> even (length kv) \<Longrightarrow> \<forall>v\<in>set kv. formattable v \<Longrightarrow> good_record (append_ctx r kv)"
  by (auto simp: good_record_def append_ctx_def)

text \<open>The functions of lazy values return, and what they evaluate to is formattable.\<close>

definition good_lazies :: "'o log_env \<Rightarrow> bool" where
  "good_lazies env \<longleftrightarrow>
     (\<forall>x. \<exists>vs. fe_lazy (le_fmt env) x = Some vs \<and> (\<forall>v\<in>set vs. formattable v)) \<and>
     (\<forall>v call v'. le_trim env v call = Some v' \<longrightarrow> formattable v')"

lemma evaluateLazy_formattable:
  assumes "good_lazies env"
  shows "\<exists>u. evaluateLazy env t x = Some u \<and> (\<forall>v. u = Inr v \<longrightarrow> formattable v)"
proof -
  obtain vs where "fe_lazy (le_fmt env) x = Some vs" "\<forall>v\<in>set vs. formattable v"
    using assms unfolding good_lazies_def by blast
  then show ?thesis by (auto simp: evaluateLazy_def split: option.splits prod.splits list.splits)
qed

lemma lazy_value_formattable:
  assumes g: "good_lazies env" and v: "formattable v"
  shows "\<exists>u bad. lazy_value env call v = Some (u, bad) \<and> formattable u"
proof (cases "\<exists>t x. v = LLazy t x")
  case False
  then have "lazy_value env call v = Some (v, False)" using v by (cases v) (simp_all add: lazy_value_def)
  then show ?thesis using v by blast
next
  case True
  then obtain t x where lz: "v = LLazy t x" by blast
  obtain r where r: "evaluateLazy env t x = Some r" "\<forall>v. r = Inr v \<longrightarrow> formattable v"
    using evaluateLazy_formattable [OF g] by blast
  show ?thesis
  proof (cases r)
    case (Inl err)
    then show ?thesis using r by (simp add: lazy_value_def lz) blast
  next
    case (Inr u)
    have u: "formattable u" using Inr r by blast
    show ?thesis
    proof (cases "le_trim env u call")
      case None
      then show ?thesis using Inr r u by (simp add: lazy_value_def lz) blast
    next
      case (Some u')
      then have "formattable u'" using g unfolding good_lazies_def by blast
      then show ?thesis using Inr r Some by (simp add: lazy_value_def lz) blast
    qed
  qed
qed

lemma lazy_loop_good:
  "good_lazies env \<Longrightarrow> \<forall>v\<in>set ctx. formattable v \<Longrightarrow>
   \<exists>c bad. lazy_loop env call ctx = Some (c, bad) \<and> length c = length ctx \<and> (\<forall>v\<in>set c. formattable v)"
proof (induction ctx rule: induct_list012)
  case 1
  show ?case by (intro exI [of _ "[]"] exI [of _ False]) simp
next
  case (2 k)
  then show ?case by (intro exI [of _ "[k]"] exI [of _ False]) simp
next
  case (3 k v ctx)
  obtain u b where u: "lazy_value env call v = Some (u, b)" "formattable u"
    using lazy_value_formattable [of env v call] 3(3,4) by auto
  obtain c b' where c: "lazy_loop env call ctx = Some (c, b')" "length c = length ctx" "\<forall>v\<in>set c. formattable v"
    using 3(1,3,4) by auto
  show ?case using 3(4) u c by simp
qed

lemma lazy_record_good:
  assumes "good_lazies env" "good_record r"
  shows "\<exists>r'. lazy_record env r = Some r' \<and> good_record r'"
proof -
  obtain c bad where "lazy_loop env (lr_call r) (lr_ctx r) = Some (c, bad)" "length c = length (lr_ctx r)"
    "\<forall>v\<in>set c. formattable v"
    using lazy_loop_good [of env "lr_ctx r" "lr_call r"] assms by (auto simp: good_record_def)
  then show ?thesis using assms(2) by (auto simp: lazy_record_def good_record_def)
qed

lemma newContext_formattable:
  "\<forall>v\<in>set c. formattable v \<Longrightarrow> \<forall>v\<in>set (normalize ctx). formattable v \<Longrightarrow> \<forall>v\<in>set (newContext c ctx). formattable v"
  by (auto simp: newContext_eq)

section \<open>When logging returns\<close>

text \<open>
  Handlers that only use locks below a bound, the locks inside a lock being lower, and no channel, swap handler or
  \<open>GlogHandler\<close>; their functions accept good records and keep them good.
\<close>

fun settled :: "nat \<Rightarrow> 'o handler \<Rightarrow> bool" where
  "settled b (HFunc fn) \<longleftrightarrow> (\<forall>r. good_record r \<longrightarrow> good_record (fst (fn r)))"
| "settled b (HStream wr f) \<longleftrightarrow> True"
| "settled b (HSyslog wr f) \<longleftrightarrow> True"
| "settled b (HSync mu h) \<longleftrightarrow> mu < b \<and> settled mu h"
| "settled b (HModify fn h) \<longleftrightarrow> (\<forall>r. good_record r \<longrightarrow> (\<exists>r'. fn r = Some r' \<and> good_record r')) \<and> settled b h"
| "settled b (HFilter fn h) \<longleftrightarrow> (\<forall>r. good_record r \<longrightarrow> fn r \<noteq> None) \<and> settled b h"
| "settled b (HMulti hs) \<longleftrightarrow> list_all (settled b) hs"
| "settled b (HFailover hs) \<longleftrightarrow> list_all (settled b) hs"
| "settled b (HClosing c h) \<longleftrightarrow> settled b h"
| "settled b _ \<longleftrightarrow> False"

definition locks_free :: "nat \<Rightarrow> 'o log_world \<Rightarrow> bool" where
  "locks_free b w \<longleftrightarrow> b \<le> length (lw_locks w) \<and> (\<forall>mu<b. \<not> lw_locks w ! mu)"

text \<open>What a call of a settled handler leaves alone.\<close>

definition log_keeps :: "nat \<Rightarrow> 'o log_world \<Rightarrow> 'o log_world \<Rightarrow> bool" where
  "log_keeps r w w' \<longleftrightarrow>
     lw_locks w' = lw_locks w \<and> lw_swaps w' = lw_swaps w \<and> length (lw_recs w') = length (lw_recs w) \<and> good_record (the_rec r w')"

definition log_ready :: "nat \<Rightarrow> nat \<Rightarrow> 'o log_world \<Rightarrow> bool" where
  "log_ready b r w \<longleftrightarrow> locks_free b w \<and> r < length (lw_recs w) \<and> good_record (the_rec r w)"

definition log_returns :: "nat \<Rightarrow> nat \<Rightarrow> 'o log_world \<Rightarrow> (string option \<times> 'o log_world) lres \<Rightarrow> bool" where
  "log_returns b r w res \<longleftrightarrow> (\<exists>e w'. res = LDone (e, w') \<and> log_keeps r w w')"

lemma log_keeps_ready: "log_keeps r w w' \<Longrightarrow> log_ready b r w \<Longrightarrow> log_ready b r w'"
  by (simp add: log_keeps_def log_ready_def locks_free_def)

lemma log_keeps_trans: "log_keeps r w w' \<Longrightarrow> log_keeps r w' w'' \<Longrightarrow> log_keeps r w w''"
  by (simp add: log_keeps_def)

lemma log_keeps_refl: "log_ready b r w \<Longrightarrow> log_keeps r w w"
  by (simp add: log_keeps_def log_ready_def)

lemma put_rec_keeps: "log_ready b r w \<Longrightarrow> good_record x \<Longrightarrow> log_keeps r w (put_rec r x w)"
  by (simp add: log_keeps_def log_ready_def put_rec_def the_rec_def)

lemma log_returnsI: "res = LDone (e, w') \<Longrightarrow> log_keeps r w w' \<Longrightarrow> log_returns b r w res"
  by (simp add: log_returns_def)

lemma log_returns_after: "log_keeps r w w' \<Longrightarrow> log_returns b r w' res \<Longrightarrow> log_returns b r w res"
  unfolding log_returns_def using log_keeps_trans by blast

lemma log_multi_returns:
  assumes "\<And>h w. h \<in> set hs \<Longrightarrow> log_ready b r w \<Longrightarrow> log_returns b r w (logh n env h r w)" "log_ready b r w"
  shows "log_returns b r w (log_multi (logh n env) hs r w)"
  using assms
proof (induction hs arbitrary: w)
  case Nil
  then show ?case using log_keeps_refl by (simp add: log_returns_def)
next
  case (Cons h hs)
  have "log_returns b r w (logh n env h r w)" using Cons.prems by simp
  then obtain e w' where w': "logh n env h r w = LDone (e, w')" "log_keeps r w w'"
    unfolding log_returns_def by blast
  have "log_returns b r w' (log_multi (logh n env) hs r w')"
    using Cons.IH Cons.prems log_keeps_ready [OF w'(2)] by simp
  then show ?case using log_returns_after [OF w'(2)] w'(1) by simp
qed

lemma log_failover_returns:
  assumes "\<And>h w. h \<in> set hs \<Longrightarrow> log_ready b r w \<Longrightarrow> log_returns b r w (logh n env h r w)" "log_ready b r w"
  shows "log_returns b r w (log_failover (logh n env) i hs err r w)"
  using assms
proof (induction hs arbitrary: w i err)
  case Nil
  then show ?case using log_keeps_refl by (simp add: log_returns_def)
next
  case (Cons h hs)
  have "log_returns b r w (logh n env h r w)" using Cons.prems by simp
  then obtain e w' where w': "logh n env h r w = LDone (e, w')" "log_keeps r w w'"
    unfolding log_returns_def by blast
  note ready = log_keeps_ready [OF w'(2) Cons.prems(2)]
  show ?case
  proof (cases e)
    case None
    then show ?thesis using w' by (simp add: log_returns_def)
  next
    case (Some x)
    let ?w = "put_rec r (append_ctx (the_rec r w') [LString (failover_key i), LErr x]) w'"
    have k: "log_keeps r w' ?w" using ready by (intro put_rec_keeps [OF ready] good_append) (auto simp: log_ready_def)
    have "log_returns b r ?w (log_failover (logh n env) (Suc i) hs (Some x) r ?w)"
      using Cons.IH Cons.prems(1) log_keeps_ready [OF k ready] by simp
    then show ?thesis using log_returns_after [OF log_keeps_trans [OF w'(2) k]] w'(1) Some by simp
  qed
qed

text \<open>
  The contract between a format and a handler that writes with it: every good record has a text, whatever the state of
  the package. All formats of the package keep it.
\<close>

locale record_format =
  fixes fmt :: "'o lrecord \<Rightarrow> fmt_state \<Rightarrow> (string \<times> fmt_state) option"
  assumes accepts: "good_record r \<Longrightarrow> \<exists>s st'. fmt r st = Some (s, st')"
begin

lemma accepts_ready: "log_ready b r w \<Longrightarrow> \<exists>s st. fmt (the_rec r w) (lw_fmt w) = Some (s, st)"
  using accepts by (simp add: log_ready_def)

end

interpretation any_format: record_format "Format env f" for env f
  by unfold_locales (rule Format_ex)

lemma log_stream_returns:
  assumes "log_ready b r w"
  shows "log_returns b r w (log_stream env wr f r w)"
proof -
  obtain s st where f: "Format env f (the_rec r w) (lw_fmt w) = Some (s, st)"
    using any_format.accepts_ready [OF assms] by blast
  obtain out err where o: "le_write env wr (lw_out w wr) s = (out, err)" by fastforce
  show ?thesis using f o assms by (simp add: log_returns_def log_stream_def log_keeps_def log_ready_def the_rec_def)
qed

lemma log_syslog_returns:
  assumes "log_ready b r w"
  shows "log_returns b r w (log_syslog env wr f r w)"
proof -
  obtain s st where f: "Format env f (the_rec r w) (lw_fmt w) = Some (s, st)"
    using any_format.accepts_ready [OF assms] by blast
  then show ?thesis using assms
    by (cases "syslog_method (lr_lvl (lw_recs w ! r))")
       (simp_all add: log_returns_def log_syslog_def log_keeps_def log_ready_def the_rec_def Let_def)
qed

lemma log_sync_returns:
  assumes ready: "log_ready b r w" and mu: "mu < b"
    and inner: "\<And>w. log_ready mu r w \<Longrightarrow> log_returns mu r w (logh n env h r w)"
  shows "log_returns b r w (logh (Suc n) env (HSync mu h) r w)"
proof -
  have len: "mu < length (lw_locks w)" and free: "\<not> lw_locks w ! mu"
    using ready mu by (auto simp: log_ready_def locks_free_def)
  have "log_ready mu r (set_lock mu True w)"
    using ready mu by (auto simp: log_ready_def locks_free_def set_lock_def the_rec_def)
  then obtain e w' where w': "logh n env h r (set_lock mu True w) = LDone (e, w')" "log_keeps r (set_lock mu True w) w'"
    using inner unfolding log_returns_def by blast
  have "(lw_locks w)[mu := True, mu := False] = lw_locks w" using len free by (simp add: list_update_same_conv)
  then have "log_keeps r w (set_lock mu False w')" using w'(2) by (simp add: log_keeps_def set_lock_def the_rec_def)
  then show ?thesis using w'(1) free by (simp add: log_returns_def)
qed

lemma logh_returns:
  "size h < n \<Longrightarrow> settled b h \<Longrightarrow> log_ready b r w \<Longrightarrow> log_returns b r w (logh n env h r w)"
proof (induction n arbitrary: h b w)
  case 0
  then show ?case by simp
next
  case (Suc n)
  have sz: "size x < n" if "x \<in> set hs" "size_list size hs < n" for x and hs :: "'a handler list"
    using size_list_estimation [OF that(1), of "size x - 1" size] that size_list_estimation' [OF that(1), of "size x" size] by simp
  note good = Suc.prems(3) [unfolded log_ready_def]
  show ?case
  proof (cases h)
    case (HFunc fn)
    obtain x err where x: "fn (the_rec r w) = (x, err)" by fastforce
    then have "good_record x" using Suc.prems(2) HFunc good by (metis fst_conv settled.simps(1))
    then show ?thesis using put_rec_keeps [OF Suc.prems(3)] HFunc x by (simp add: log_returns_def)
  next
    case (HStream wr f)
    then show ?thesis using log_stream_returns Suc.prems by simp
  next
    case (HSyslog wr f)
    then show ?thesis using log_syslog_returns Suc.prems by simp
  next
    case (HSync mu h')
    then show ?thesis using Suc log_sync_returns [OF Suc.prems(3), of mu n env h'] by simp
  next
    case (HModify fn h')
    then obtain x where x: "fn (the_rec r w) = Some x" "good_record x" using Suc.prems good by auto
    note k = put_rec_keeps [OF Suc.prems(3) x(2)]
    have "log_returns b r (put_rec r x w) (logh n env h' r (put_rec r x w))"
      using Suc HModify log_keeps_ready [OF k Suc.prems(3)] by simp
    then show ?thesis using log_returns_after [OF k] HModify x by simp
  next
    case (HFilter fn h')
    then obtain c where c: "fn (the_rec r w) = Some c" using Suc.prems good by auto
    have "log_returns b r w (logh n env h' r w)" using Suc HFilter by simp
    then show ?thesis using log_keeps_refl [OF Suc.prems(3)] HFilter c by (simp add: log_returns_def)
  next
    case (HMulti hs)
    have "log_returns b r v (logh n env x r v)" if "x \<in> set hs" "log_ready b r v" for x v
      using Suc.IH [OF _ _ that(2)] Suc.prems HMulti sz [OF that(1)] that(1) by (simp add: list_all_iff)
    then show ?thesis using log_multi_returns [OF _ Suc.prems(3), of hs] HMulti by simp
  next
    case (HFailover hs)
    have "log_returns b r v (logh n env x r v)" if "x \<in> set hs" "log_ready b r v" for x v
      using Suc.IH [OF _ _ that(2)] Suc.prems HFailover sz [OF that(1)] that(1) by (simp add: list_all_iff)
    then show ?thesis using log_failover_returns [OF _ Suc.prems(3), of hs] HFailover by simp
  next
    case (HClosing c h')
    then show ?thesis using Suc by simp
  qed (use Suc.prems in simp_all)
qed

section \<open>Loggers in use\<close>

lemma settled_mono: "settled b h \<Longrightarrow> b \<le> b' \<Longrightarrow> settled b' h"
  by (induction b h rule: settled.induct) (auto simp: list_all_iff)

text \<open>Every swap handler holds a settled handler or an earlier swap handler.\<close>

definition swaps_ok :: "'o log_world \<Rightarrow> bool" where
  "swaps_ok w \<longleftrightarrow>
     (\<forall>a<length (lw_swaps w). \<exists>h. lw_swaps w ! a = Some h \<and> (settled (length (lw_locks w)) h \<or> (\<exists>c<a. h = HSwap c)))"

definition logger_ok :: "'o log_world \<Rightarrow> 'o logger \<Rightarrow> bool" where
  "logger_ok w l \<longleftrightarrow> lg_h l < length (lw_swaps w) \<and> even (length (lg_ctx l)) \<and> (\<forall>v\<in>set (lg_ctx l). formattable v)"

definition logging_ok :: "'o logger list \<times> 'o log_world \<Rightarrow> bool" where
  "logging_ok s \<longleftrightarrow>
     swaps_ok (snd s) \<and> locks_free (length (lw_locks (snd s))) (snd s) \<and> (\<forall>l\<in>set (fst s). logger_ok (snd s) l)"

definition good_args :: "int \<Rightarrow> 'o lval list \<Rightarrow> bool" where
  "good_args lvl ctx \<longleftrightarrow> 0 \<le> lvl \<and> lvl \<le> 5 \<and> (\<forall>v\<in>set (normalize ctx). formattable v)"

text \<open>What clients do: derive loggers, make stream handlers, set settled handlers and write.\<close>

inductive log_step :: "'o log_env \<Rightarrow> 'o logger list \<times> 'o log_world \<Rightarrow> 'o logger list \<times> 'o log_world \<Rightarrow> bool" for env where
  new: "l \<in> set ls \<Longrightarrow> \<forall>v\<in>set (normalize ctx). formattable v \<Longrightarrow> logger_New l ctx w = (c, w') \<Longrightarrow>
        log_step env (ls, w) (c # ls, w')"
| stream: "StreamHandler env wr f w = (h, w') \<Longrightarrow> log_step env (ls, w) (ls, w')"
| set: "l \<in> set ls \<Longrightarrow> settled (length (lw_locks w)) h \<Longrightarrow> log_step env (ls, w) (ls, logger_SetHandler l h w)"
| wrote: "l \<in> set ls \<Longrightarrow> good_args lvl ctx \<Longrightarrow> logger_write n env l msg lvl ctx skip now callers w = LDone w' \<Longrightarrow>
        log_step env (ls, w) (ls, w')"

lemma swap_returns:
  assumes ok: "swaps_ok w" and a: "a < length (lw_swaps w)" and ready: "log_ready (length (lw_locks w)) r w"
  shows "\<exists>n0. \<forall>n\<ge>n0. log_returns (length (lw_locks w)) r w (logh n env (HSwap a) r w)"
  using a
proof (induction a rule: less_induct)
  case (less a)
  obtain h where h: "lw_swaps w ! a = Some h" "settled (length (lw_locks w)) h \<or> (\<exists>c<a. h = HSwap c)"
    using ok less.prems unfolding swaps_ok_def by blast
  obtain n0 where n0: "\<forall>n\<ge>n0. log_returns (length (lw_locks w)) r w (logh n env h r w)"
  proof (cases "settled (length (lw_locks w)) h")
    case True
    then have "\<forall>n\<ge>Suc (size h). log_returns (length (lw_locks w)) r w (logh n env h r w)"
      using logh_returns [OF _ True ready] by simp
    then show thesis by (rule that)
  next
    case False
    then obtain c where "c < a" "h = HSwap c" using h(2) by blast
    then show thesis using less.IH [of c] less.prems that by fastforce
  qed
  have "log_returns (length (lw_locks w)) r w (logh n env (HSwap a) r w)" if n: "n \<ge> Suc n0" for n
    using n0 h(1) n by (cases n) simp_all
  then show ?case by blast
qed

lemma write_ready:
  assumes "logging_ok (ls, w)" "l \<in> set ls" "good_args lvl ctx"
  shows "log_ready (length (lw_locks w)) (length (lw_recs w))
           (w\<lparr>lw_recs := lw_recs w @ [logger_record l msg lvl ctx skip now callers]\<rparr>)"
proof -
  have l: "even (length (lg_ctx l))" "\<forall>v\<in>set (lg_ctx l). formattable v"
    using assms(1,2) by (auto simp: logging_ok_def logger_ok_def)
  have "\<forall>v\<in>set (newContext (lg_ctx l) ctx). formattable v"
    by (rule newContext_formattable [OF l(2)]) (use assms(3) in \<open>simp add: good_args_def\<close>)
  then have "good_record (logger_record l msg lvl ctx skip now callers)"
    using newContext_even [OF l(1)] assms(3) by (simp add: good_record_def logger_record_def good_args_def)
  then show ?thesis using assms(1) by (simp add: log_ready_def locks_free_def the_rec_def logging_ok_def)
qed

lemma write_returns:
  assumes "logging_ok (ls, w)" "l \<in> set ls" "good_args lvl ctx"
  shows "\<exists>n0. \<forall>n\<ge>n0. \<exists>w'. logger_write n env l msg lvl ctx skip now callers w = LDone w' \<and>
           lw_locks w' = lw_locks w \<and> lw_swaps w' = lw_swaps w"
proof -
  let ?w = "w\<lparr>lw_recs := lw_recs w @ [logger_record l msg lvl ctx skip now callers]\<rparr>"
  have "swaps_ok ?w" "lg_h l < length (lw_swaps ?w)"
    using assms(1,2) by (auto simp: logging_ok_def logger_ok_def swaps_ok_def)
  then obtain n0 where n0: "\<forall>n\<ge>n0. log_returns (length (lw_locks w)) (length (lw_recs w)) ?w
      (logh n env (HSwap (lg_h l)) (length (lw_recs w)) ?w)"
    using swap_returns [of ?w "lg_h l" "length (lw_recs w)" env] write_ready [OF assms] by auto
  have "\<exists>w'. logger_write n env l msg lvl ctx skip now callers w = LDone w' \<and> lw_locks w' = lw_locks w \<and> lw_swaps w' = lw_swaps w"
    if n: "n \<ge> n0" for n
  proof -
    obtain e w' where "logh n env (HSwap (lg_h l)) (length (lw_recs w)) ?w = LDone (e, w')" "log_keeps (length (lw_recs w)) ?w w'"
      using n0 n unfolding log_returns_def by blast
    then show ?thesis by (simp add: logger_write_def log_keeps_def)
  qed
  then show ?thesis by blast
qed

text \<open>A result that is there does not change with more fuel.\<close>

lemma log_multi_mono:
  assumes "\<And>h w. lg h r w \<noteq> LFuel \<Longrightarrow> lg' h r w = lg h r w"
  shows "log_multi lg hs r w \<noteq> LFuel \<Longrightarrow> log_multi lg' hs r w = log_multi lg hs r w"
proof (induction hs arbitrary: w)
  case (Cons h hs)
  then show ?case using assms [of h w] by (cases "lg h r w") auto
qed simp

lemma log_failover_mono:
  assumes "\<And>h w. lg h r w \<noteq> LFuel \<Longrightarrow> lg' h r w = lg h r w"
  shows "log_failover lg i hs err r w \<noteq> LFuel \<Longrightarrow> log_failover lg' i hs err r w = log_failover lg i hs err r w"
proof (induction hs arbitrary: w i err)
  case (Cons h hs)
  show ?case
  proof (cases "lg h r w")
    case (LDone p)
    obtain e v where p: "p = (e, v)" by (cases p)
    show ?thesis using Cons assms [of h w] LDone p by (cases e) simp_all
  qed (use Cons.prems assms [of h w] in simp_all)
qed simp

lemma fuel_mono: "logh n env h r w \<noteq> LFuel \<Longrightarrow> logh (Suc n) env h r w = logh n env h r w"
proof (induction n arbitrary: h w)
  case 0
  then show ?case by simp
next
  case (Suc n)
  show ?case
  proof (cases h)
    case (HSync mu h')
    show ?thesis
    proof (cases "lw_locks w ! mu \<or> logh n env h' r (set_lock mu True w) = LFuel")
      case True
      then have "lw_locks w ! mu" using Suc.prems HSync by (cases "lw_locks w ! mu") simp_all
      then show ?thesis using HSync by simp
    next
      case False
      then show ?thesis using Suc.IH HSync by simp
    qed
  next
    case (HModify fn h')
    then show ?thesis using Suc by (cases "fn (the_rec r w)") simp_all
  next
    case (HFilter fn h')
    then show ?thesis using Suc by (cases "fn (the_rec r w)") (simp_all split: if_splits)
  next
    case (HMulti hs)
    then show ?thesis using log_multi_mono [of "logh n env" r "logh (Suc n) env"] Suc by simp
  next
    case (HFailover hs)
    then show ?thesis using log_failover_mono [of "logh n env" r "logh (Suc n) env"] Suc by simp
  next
    case (HSwap a)
    then show ?thesis using Suc by (cases "lw_swaps w ! a") simp_all
  next
    case (HGlog a)
    then show ?thesis using Suc
      by (cases "glog_admits (le_site env) (lw_glogs w ! a) (the_rec r w)") (auto simp: Let_def split: if_splits)
  qed (use Suc in simp_all)
qed

lemma fuel_mono_le: "n \<le> m \<Longrightarrow> logh n env h r w \<noteq> LFuel \<Longrightarrow> logh m env h r w = logh n env h r w"
proof (induction m rule: dec_induct)
  case (step m)
  then show ?case using fuel_mono [of m env h r w] by simp
qed simp

lemma write_mono: "n \<le> m \<Longrightarrow> logger_write n env l msg lvl ctx skip now callers w = LDone w' \<Longrightarrow>
   logger_write m env l msg lvl ctx skip now callers w = LDone w'"
  using fuel_mono_le [of n m env "HSwap (lg_h l)" "length (lw_recs w)"]
  by (auto simp: logger_write_def split: lres.splits)

lemma log_step_ok: "log_step env s s' \<Longrightarrow> logging_ok s \<Longrightarrow> logging_ok s'"
proof (induction rule: log_step.induct)
  case (new l ls ctx w c w')
  have c: "c = \<lparr>lg_ctx = newContext (lg_ctx l) ctx, lg_h = length (lw_swaps w)\<rparr>"
    and w': "w' = w\<lparr>lw_swaps := lw_swaps w @ [Some (HSwap (lg_h l))]\<rparr>"
    using new(3) by (auto simp: logger_New_def new_swap_def logger_SetHandler_def Swap_def)
  have l: "lg_h l < length (lw_swaps w)" "even (length (lg_ctx l))" "\<forall>v\<in>set (lg_ctx l). formattable v"
    using new by (auto simp: logging_ok_def logger_ok_def)
  have "swaps_ok w'" using new(4) l(1) by (auto simp: logging_ok_def swaps_ok_def w' nth_append less_Suc_eq)
  moreover have "logger_ok w' c"
    using newContext_even [OF l(2)] newContext_formattable [OF l(3) new(2)] by (simp add: logger_ok_def c w')
  ultimately show ?case using new(4) by (auto simp: logging_ok_def logger_ok_def locks_free_def w')
next
  case (stream wr f w h w' ls)
  have w': "w' = w\<lparr>lw_locks := lw_locks w @ [False]\<rparr>" using stream(1) by (auto simp: StreamHandler_def SyncHandler_def)
  have "swaps_ok w'" using stream(2) settled_mono unfolding logging_ok_def swaps_ok_def w' by fastforce
  then show ?case using stream(2) by (auto simp: logging_ok_def logger_ok_def locks_free_def w' nth_append less_Suc_eq)
next
  case (set l ls w h)
  have "\<exists>x. (lw_swaps w)[lg_h l := Some h] ! a = Some x \<and> (settled (length (lw_locks w)) x \<or> (\<exists>c<a. x = HSwap c))"
    if a: "a < length (lw_swaps w)" for a
  proof (cases "a = lg_h l")
    case True
    then show ?thesis using a set(2) by simp
  next
    case False
    then show ?thesis using a set(3) by (simp add: logging_ok_def swaps_ok_def)
  qed
  then have "swaps_ok (logger_SetHandler l h w)"
    by (simp add: swaps_ok_def logger_SetHandler_def Swap_def)
  then show ?case using set(3) by (auto simp: logging_ok_def logger_ok_def locks_free_def logger_SetHandler_def Swap_def)
next
  case (wrote l ls lvl ctx n msg skip now callers w w')
  obtain n0 v where v: "logger_write (max n n0) env l msg lvl ctx skip now callers w = LDone v"
      "lw_locks v = lw_locks w" "lw_swaps v = lw_swaps w"
    using write_returns [OF wrote(4,1,2), of env msg skip now callers] by (meson max.cobounded2)
  then have "v = w'" using write_mono [OF _ wrote(3), of "max n n0"] by simp
  then show ?case using wrote(4) v(2,3) by (auto simp: logging_ok_def swaps_ok_def logger_ok_def locks_free_def)
qed

text \<open>The state in which a program begins to log: a handler is set on the root logger.\<close>

definition started :: "'o log_env \<Rightarrow> 'o handler \<Rightarrow> 'o logger list \<times> 'o log_world" where
  "started env h = ([root], logger_SetHandler root h (snd (snd (init_world env))))"

lemma init_world_eq: "snd (snd (init_world env)) = empty_world\<lparr>lw_locks := [False, False]\<rparr>"
  by (simp add: init_world_def StreamHandler_def SyncHandler_def empty_world_def)

lemma started_ok: "settled 2 h \<Longrightarrow> logging_ok (started env h)"
  by (auto simp: logging_ok_def started_def init_world_eq root_def logger_SetHandler_def Swap_def swaps_ok_def locks_free_def
      logger_ok_def empty_world_def nth_Cons' less_Suc_eq numeral_2_eq_2)

text \<open>
  C9. Once a settled handler (one built of streams, locks, filters, failovers and the like) is set on the root
  logger, every write through every logger that was derived from it, with values whose methods do not panic,
  returns: it neither panics on a context of odd length nor waits for a lock, and every lock is free after it.
\<close>

theorem logging_returns:
  assumes "settled 2 h" "(log_step env)\<^sup>*\<^sup>* (started env h) (ls, w)" "l \<in> set ls" "good_args lvl ctx"
  shows "\<exists>n0. \<forall>n\<ge>n0. \<exists>w'. logger_write n env l msg lvl ctx skip now callers w = LDone w' \<and> True \<notin> set (lw_locks w')"
proof -
  have ok: "logging_ok (ls, w)"
    using assms(2) started_ok [OF assms(1)] log_step_ok by (induction rule: rtranclp_induct) blast+
  then have "True \<notin> set (lw_locks w)" by (auto simp: logging_ok_def locks_free_def in_set_conv_nth)
  then show ?thesis using write_returns [OF ok assms(3,4), of env msg skip now callers] by metis
qed

section \<open>Before a handler is set\<close>

text \<open>The loggers that are derived before any handler is set on the root logger.\<close>

inductive derived :: "'o log_env \<Rightarrow> 'o logger list \<Rightarrow> 'o log_world \<Rightarrow> bool" for env where
  initial: "derived env [root] (snd (snd (init_world env)))"
| new: "derived env ls w \<Longrightarrow> l \<in> set ls \<Longrightarrow> logger_New l ctx w = (c, w') \<Longrightarrow> derived env (c # ls) w'"

definition unset_ok :: "'o logger list \<Rightarrow> 'o log_world \<Rightarrow> bool" where
  "unset_ok ls w \<longleftrightarrow>
     (\<forall>a<length (lw_swaps w). lw_swaps w ! a = None \<or> (\<exists>c<a. lw_swaps w ! a = Some (HSwap c))) \<and>
     (\<forall>l\<in>set ls. lg_h l < length (lw_swaps w))"

lemma derived_unset: "derived env ls w \<Longrightarrow> unset_ok ls w"
proof (induction rule: derived.induct)
  case initial
  then show ?case by (simp add: unset_ok_def init_world_eq empty_world_def root_def)
next
  case (new ls w l ctx c w')
  have c: "lg_h c = length (lw_swaps w)" and w': "lw_swaps w' = lw_swaps w @ [Some (HSwap (lg_h l))]"
    using new(3) by (auto simp: logger_New_def new_swap_def logger_SetHandler_def Swap_def)
  have "lg_h l < length (lw_swaps w)" using new(2,4) by (auto simp: unset_ok_def)
  then show ?case using new(4) by (auto simp: unset_ok_def c w' nth_append less_Suc_eq)
qed

lemma unset_panics:
  assumes "unset_ok ls w" "a < length (lw_swaps w)"
  shows "logh (Suc (Suc a)) env (HSwap a) r w = LPanic"
  using assms(2)
proof (induction a rule: less_induct)
  case (less a)
  show ?case
  proof (cases "lw_swaps w ! a")
    case (Some h)
    then obtain c where c: "c < a" "h = HSwap c" using assms(1) less.prems unfolding unset_ok_def by fastforce
    have "logh (Suc (Suc c)) env h r w = LPanic" using less.IH c less.prems by simp
    then have "logh (Suc a) env h r w = LPanic" using fuel_mono_le [of "Suc (Suc c)" "Suc a" env h r w] c(1) by simp
    then show ?thesis using Some by simp
  qed simp
qed

text \<open>
  C36. Before a handler is set on the root logger, a write through it or through any logger derived from it panics:
  no initialisation sets one.
\<close>

theorem root_without_handler:
  assumes "derived env ls w" "l \<in> set ls" "lg_h l + 2 \<le> n"
  shows "logger_write n env l msg lvl ctx skip now callers w = LPanic"
proof -
  let ?w = "w\<lparr>lw_recs := lw_recs w @ [logger_record l msg lvl ctx skip now callers]\<rparr>"
  have ok: "unset_ok ls ?w" using derived_unset [OF assms(1)] by (simp add: unset_ok_def)
  then have "lg_h l < length (lw_swaps ?w)" using assms(2) unfolding unset_ok_def by blast
  then have "logh (Suc (Suc (lg_h l))) env (HSwap (lg_h l)) (length (lw_recs w)) ?w = LPanic"
    by (rule unset_panics [OF ok])
  then have "logh n env (HSwap (lg_h l)) (length (lw_recs w)) ?w = LPanic"
    using fuel_mono_le [of "Suc (Suc (lg_h l))" n env "HSwap (lg_h l)" "length (lw_recs w)" ?w] assms(3)
    by (simp del: logh.simps)
  then show ?thesis by (simp add: logger_write_def)
qed

text \<open>The call of \<open>New\<close> and of \<open>Info\<close> at the start of a program.\<close>

theorem root_without_handler_witness:
  "\<forall>(env :: nat log_env) callers. logger_write 3 env (fst (New [LString ''peer'', LString ''x''] (snd (snd (init_world env)))))
     ''started'' LvlInfo [] 2 0 callers (snd (New [LString ''peer'', LString ''x''] (snd (snd (init_world env))))) = LPanic"
proof (intro allI)
  fix env :: "nat log_env" and callers
  let ?c = "New [LString ''peer'', LString ''x''] (snd (snd (init_world env)))"
  have "derived env (fst ?c # [root]) (snd ?c)"
    by (rule derived.new [OF derived.initial, of root]) (simp_all add: New_def)
  then show "logger_write 3 env (fst ?c) ''started'' LvlInfo [] 2 0 callers (snd ?c) = LPanic"
    by (rule root_without_handler)
       (simp_all add: New_def logger_New_def new_swap_def logger_SetHandler_def Swap_def init_world_eq empty_world_def)
qed

section \<open>Failover\<close>

text \<open>What a failover appends to the context when the first handlers failed with these errors.\<close>

fun failover_ctx :: "nat \<Rightarrow> string list \<Rightarrow> 'o lval list" where
  "failover_ctx i [] = []"
| "failover_ctx i (e # es) = LString (failover_key i) # LErr e # failover_ctx (Suc i) es"

definition write_fails :: "'o log_env \<Rightarrow> (nat \<Rightarrow> string) \<Rightarrow> nat \<Rightarrow> bool" where
  "write_fails env err wr \<longleftrightarrow> (\<forall>c s. snd (le_write env wr c s) = Some (err wr))"

definition write_appends :: "'o log_env \<Rightarrow> nat \<Rightarrow> bool" where
  "write_appends env wr \<longleftrightarrow> (\<forall>c s. le_write env wr c s = (c @ s, None))"

lemma append_ctx_append: "append_ctx (append_ctx r a) b = append_ctx r (a @ b)"
  by (simp add: append_ctx_def)

lemma failover_streams:
  assumes "\<forall>wr\<in>set broken. write_fails env err wr" "write_appends env wr" "r < length (lw_recs w)" "wr \<notin> set broken"
  shows "\<exists>w'. log_failover (logh (Suc n) env) i (map (\<lambda>k. HStream k (FUser F)) (broken @ wr # rest)) e r w = LDone (None, w') \<and>
           the_rec r w' = append_ctx (the_rec r w) (failover_ctx i (map err broken)) \<and>
           lw_out w' wr = lw_out w wr @ F (the_rec r w') \<and>
           (\<forall>k. k \<notin> set broken \<longrightarrow> k \<noteq> wr \<longrightarrow> lw_out w' k = lw_out w k)"
  using assms(1,3,4)
proof (induction broken arbitrary: i e w)
  case Nil
  then show ?case using assms(2)
    by (simp add: log_stream_def Format_def write_appends_def the_rec_def append_ctx_def)
next
  case (Cons b bs)
  obtain out where o: "le_write env b (lw_out w b) (F (the_rec r w)) = (out, Some (err b))"
    using Cons.prems(1) by (simp add: write_fails_def) (metis surjective_pairing)
  let ?v = "w\<lparr>lw_out := (lw_out w)(b := out)\<rparr>"
  let ?w = "put_rec r (append_ctx (the_rec r ?v) [LString (failover_key i), LErr (err b)]) ?v"
  have r: "the_rec r ?w = append_ctx (the_rec r w) [LString (failover_key i), LErr (err b)]"
    using Cons.prems(2) by (simp add: the_rec_def put_rec_def)
  have "r < length (lw_recs ?w)" using Cons.prems(2) by (simp add: put_rec_def)
  then obtain w' where w': "log_failover (logh (Suc n) env) (Suc i) (map (\<lambda>k. HStream k (FUser F)) (bs @ wr # rest)) (Some (err b)) r ?w
      = LDone (None, w')" "the_rec r w' = append_ctx (the_rec r ?w) (failover_ctx (Suc i) (map err bs))"
      "lw_out w' wr = lw_out ?w wr @ F (the_rec r w')" "\<forall>k. k \<notin> set bs \<longrightarrow> k \<noteq> wr \<longrightarrow> lw_out w' k = lw_out ?w k"
    using Cons.IH [of ?w "Suc i" "Some (err b)"] Cons.prems by auto
  have "log_stream env b (FUser F) r w = LDone (Some (err b), ?v)"
    using o by (simp add: log_stream_def Format_def)
  then have "log_failover (logh (Suc n) env) i (map (\<lambda>k. HStream k (FUser F)) ((b # bs) @ wr # rest)) e r w = LDone (None, w')"
    using w'(1) by simp
  then show ?case using w'(2-) r Cons.prems(3) by (intro exI [of _ w']) (auto simp: append_ctx_append put_rec_def)
qed

text \<open>
  A failover handler over streams writes to the first whose writer accepts, not to any after it, returns no error,
  and the context it writes says, for each stream before, which error it gave.
\<close>

theorem failover_first_accepting:
  assumes "\<forall>wr\<in>set broken. write_fails env err wr" "write_appends env wr" "wr \<notin> set broken" "r < length (lw_recs w)"
  shows "\<exists>w'. logh (Suc (Suc n)) env (FailoverHandler (map (\<lambda>k. HStream k (FUser F)) (broken @ wr # rest))) r w = LDone (None, w') \<and>
           the_rec r w' = append_ctx (the_rec r w) (failover_ctx 0 (map err broken)) \<and>
           lw_out w' wr = lw_out w wr @ F (append_ctx (the_rec r w) (failover_ctx 0 (map err broken))) \<and>
           (\<forall>k. k \<notin> set broken \<longrightarrow> k \<noteq> wr \<longrightarrow> lw_out w' k = lw_out w k)"
proof -
  obtain w' where "log_failover (logh (Suc n) env) 0 (map (\<lambda>k. HStream k (FUser F)) (broken @ wr # rest)) None r w = LDone (None, w')"
      "the_rec r w' = append_ctx (the_rec r w) (failover_ctx 0 (map err broken))"
      "lw_out w' wr = lw_out w wr @ F (the_rec r w')" "\<forall>k. k \<notin> set broken \<longrightarrow> k \<noteq> wr \<longrightarrow> lw_out w' k = lw_out w k"
    using failover_streams [OF assms(1,2,4,3)] by blast
  then show ?thesis by (intro exI [of _ w']) (simp add: FailoverHandler_def)
qed

text \<open>An environment in which the standard output is closed and every other writer accepts.\<close>

definition example_log_env :: "nat log_env" where
  "example_log_env =
     \<lparr>le_fmt = \<lparr>fe_time = (\<lambda>_. ''T''), fe_termTime = (\<lambda>_. ''T''), fe_float = (\<lambda>_. ''1.000''), fe_plusv = (\<lambda>_. ''v''),
                fe_quote = (\<lambda>s. s), fe_lazy = (\<lambda>_. Some [LBool True]), fe_site = (\<lambda>_. ''main.go:3''), fe_sprint = (\<lambda>_. ''main.go:3''),
                fe_siteFn = (\<lambda>_. ''main'')\<rparr>,
      le_marshal = (\<lambda>_ _. Inr ''{}''), le_write = (\<lambda>wr c s. if wr = 1 then (c, Some ''closed'') else (c @ s, None)),
      le_syslog = (\<lambda>_ _ _. None), le_eq = (\<lambda>_ _. Some False),
      le_site = \<lparr>se_string = (\<lambda>_. ''main.go:3''), se_file = (\<lambda>_. ''main.go''), se_pc = (\<lambda>_. 0), se_stack = []\<rparr>,
      le_trace = (\<lambda>_ _. None), le_trim = (\<lambda>_ _. None)\<rparr>"

definition example_stdout :: "nat handler" where
  "example_stdout = fst (init_world example_log_env)"

lemma example_settled: "settled 2 example_stdout"
proof -
  have "good_lazies example_log_env" by (simp add: good_lazies_def example_log_env_def)
  then have "\<forall>r. good_record r \<longrightarrow> (\<exists>r'. lazy_record example_log_env r = Some r' \<and> good_record r')"
    using lazy_record_good by blast
  then show ?thesis
    by (simp add: example_stdout_def init_world_def StreamHandler_def SyncHandler_def LazyHandler_def empty_world_def)
qed

definition example_child :: "nat logger \<times> nat log_world" where
  "example_child = logger_New root [LString ''peer''] (snd (started example_log_env example_stdout))"

theorem logging_returns_witness:
  "\<exists>n0. \<forall>n\<ge>n0. \<exists>w'. logger_write n example_log_env (fst example_child) ''connected'' LvlInfo [LString ''n'', LInt 7] 2 0 (\<lambda>_. 0)
      (snd example_child) = LDone w' \<and> True \<notin> set (lw_locks w')"
proof (rule logging_returns [OF example_settled])
  have "log_step example_log_env ([root], snd (started example_log_env example_stdout)) (fst example_child # [root], snd example_child)"
    by (rule log_step.new [of root _ "[LString ''peer'']"]) (simp_all add: example_child_def normalize_def)
  then show "(log_step example_log_env)\<^sup>*\<^sup>* (started example_log_env example_stdout) (fst example_child # [root], snd example_child)"
    by (intro r_into_rtranclp) (simp add: started_def)
qed (simp_all add: good_args_def normalize_def LvlInfo_def)

definition example_failing :: "nat log_world" where
  "example_failing = empty_world\<lparr>lw_recs := [logger_record root ''hello'' LvlInfo [] 2 0 (\<lambda>_. 0)]\<rparr>"

theorem failover_first_accepting_witness:
  "\<exists>w'. logh (Suc (Suc 0)) example_log_env (FailoverHandler (map (\<lambda>k. HStream k (FUser lr_msg)) ([1] @ 2 # [3]))) 0
          example_failing = LDone (None, w') \<and>
        the_rec 0 w' = append_ctx (the_rec 0 example_failing) (failover_ctx 0 (map (\<lambda>_. ''closed'') [1 :: nat])) \<and>
        lw_out w' 2 = lw_out example_failing 2 @
          lr_msg (append_ctx (the_rec 0 example_failing) (failover_ctx 0 (map (\<lambda>_. ''closed'') [1 :: nat]))) \<and>
        (\<forall>k. k \<notin> set [1] \<longrightarrow> k \<noteq> 2 \<longrightarrow> lw_out w' k = lw_out example_failing k)"
  by (rule failover_first_accepting [of "[1]" example_log_env "\<lambda>_. ''closed''" 2 0 example_failing 0 lr_msg "[3]"])
    (simp_all add: write_fails_def write_appends_def example_log_env_def example_failing_def empty_world_def)

end
