(* ===== verification/Cmd_Test.thy ===== *)
theory Cmd_Test
  imports Go_Utf8
begin

text \<open>
  \<open>src/internal/cmdtest/test_cmd.go\<close>: a test that runs a child process and compares what it prints.
  The child is a script: the characters it will write to its standard output with the moments (in
  milliseconds) at which they arrive, and the moment at which it ends, if it does. The packages
  \<open>text/template\<close> and \<open>regexp\<close> are arguments.
\<close>

section \<open>State\<close>

text \<open>\<open>Err\<close>: an exit error with the status of the child, or another error.\<close>

datatype cmd_err = ExitErr int | OtherErr

text \<open>
  \<open>tt_out\<close> is all the output that arrives, and \<open>tt_exit\<close> the moment at which the child ends. \<open>tt_heirs\<close> stands for
  the processes that the child has started and that share its output and error stream: what they write of
  the output, and the moment from which none of them is left (\<open>None\<close>: never); \<open>no_heirs\<close> is that there are
  none. \<open>tt_status\<close> is the status with which the child will end, -1 once a signal ends it; \<open>tt_name\<close> and
  \<open>tt_stderr\<close> are the fields of the \<open>testlogger\<close>; \<open>tt_cleanups\<close> counts the calls of \<open>Cleanup\<close>, when there
  is one.
\<close>

record testCmd =
  tt_now :: nat
  tt_out :: "(nat \<times> char) list"
  tt_exit :: "nat option"
  tt_heirs :: "(nat \<times> char) list \<times> nat option"
  tt_status :: int
  tt_stdin :: string
  tt_stdinOpen :: bool
  tt_name :: string
  tt_stderr :: string
  tt_Func :: "(string \<times> nat) list"
  tt_hasCleanup :: bool
  tt_cleanups :: nat
  tt_log :: "string list"
  tt_failed :: bool
  tt_Err :: "cmd_err option"

definition no_heirs :: "(nat \<times> char) list \<times> nat option" where
  "no_heirs = ([], Some 0)"

text \<open>The end of the output, and of the error stream: that of the last process which has it open.\<close>

definition tt_end :: "testCmd \<Rightarrow> nat option" where
  "tt_end tt = (case tt_exit tt of None \<Rightarrow> None | Some e \<Rightarrow> map_option (max e) (snd (tt_heirs tt)))"

text \<open>What a method does to the test: it returns, ends the test, panics, or does not return.\<close>

datatype 'a tout = Returned testCmd 'a | FatalNow testCmd string | Panicked | Hangs

definition tt_Log :: "string \<Rightarrow> testCmd \<Rightarrow> testCmd" where
  "tt_Log s tt = tt\<lparr>tt_log := tt_log tt @ [s]\<rparr>"

definition tt_Cleanup :: "testCmd \<Rightarrow> testCmd" where
  "tt_Cleanup tt = (if tt_hasCleanup tt then tt\<lparr>tt_cleanups := Suc (tt_cleanups tt)\<rparr> else tt)"

section \<open>Reading with a time limit\<close>

text \<open>\<open>io.ReadAll\<close> and \<open>io.ReadFull\<close> on the output; \<open>None\<close> is a read that waits for ever.\<close>

definition ReadAll :: "testCmd \<Rightarrow> (testCmd \<times> string) option" where
  "ReadAll tt =
     (case tt_end tt of
        None \<Rightarrow> None
      | Some e \<Rightarrow> Some (tt\<lparr>tt_now := max (tt_now tt) e, tt_out := []\<rparr>, map snd (tt_out tt)))"

definition ReadFull :: "nat \<Rightarrow> testCmd \<Rightarrow> (testCmd \<times> string) option" where
  "ReadFull n tt =
     (if n = 0 then Some (tt, [])
      else if n \<le> length (tt_out tt)
      then Some (tt\<lparr>tt_now := max (tt_now tt) (fst (tt_out tt ! (n - 1))), tt_out := drop n (tt_out tt)\<rparr>,
                 map snd (take n (tt_out tt)))
      else ReadAll tt)"

text \<open>\<open>Kill\<close> at the moment \<open>T\<close>: the child ends, and only the output of the others arrives after it.\<close>

definition kill_child :: "nat \<Rightarrow> testCmd \<Rightarrow> testCmd" where
  "kill_child T tt =
     (let killed = tt\<lparr>tt_exit := Some T, tt_status := - 1,
                      tt_out := takeWhile (\<lambda>(t, _). t \<le> T) (tt_out tt) @ dropWhile (\<lambda>(t, _). t \<le> T) (fst (tt_heirs tt))\<rparr>
      in case tt_exit tt of
           None \<Rightarrow> killed
         | Some e \<Rightarrow> if e \<le> T then tt else killed)"

definition Kill_at :: "nat \<Rightarrow> testCmd \<Rightarrow> testCmd" where
  "Kill_at T tt = tt_Cleanup (kill_child T tt)"

definition tt_Kill :: "testCmd \<Rightarrow> testCmd" where
  "tt_Kill tt = Kill_at (tt_now tt) tt"

definition withKillTimeOut :: "(testCmd \<Rightarrow> (testCmd \<times> 'a) option) \<Rightarrow> testCmd \<Rightarrow> (testCmd \<times> 'a) option" where
  "withKillTimeOut fn tt =
     (let T = tt_now tt + 5000;
          killed = fn (Kill_at T (tt_Log ''Killing the child process (timeout)'' tt))
      in case fn tt of
           Some (tt', r) \<Rightarrow> if tt_now tt' < T then Some (tt', r) else killed
         | None \<Rightarrow> killed)"

section \<open>The methods\<close>

text \<open>
  \<open>Run\<close>: \<open>n\<close> is the value of the counter after the increment, \<open>errs\<close> the errors of the pipes and of
  \<open>Start\<close>, and \<open>child\<close> the state with the script of the program that was started.
\<close>

fun first_error :: "string option list \<Rightarrow> string option" where
  "first_error [] = None"
| "first_error (None # es) = first_error es"
| "first_error (Some e # _) = Some e"

definition tt_Run :: "nat \<Rightarrow> string option list \<Rightarrow> (testCmd \<Rightarrow> testCmd) \<Rightarrow> testCmd \<Rightarrow> unit tout" where
  "tt_Run n errs child tt =
     (let tt = tt\<lparr>tt_name := itoa (int n), tt_stderr := ''''\<rparr>
      in case first_error errs of Some e \<Rightarrow> FatalNow tt e | None \<Rightarrow> Returned (child tt) ())"

definition InputLine :: "string \<Rightarrow> testCmd \<Rightarrow> testCmd \<times> string" where
  "InputLine s tt = (if tt_stdinOpen tt then tt\<lparr>tt_stdin := tt_stdin tt @ s @ [CHR 0x0A]\<rparr> else tt, '''')"

definition SetTemplateFunc :: "string \<Rightarrow> nat \<Rightarrow> testCmd \<Rightarrow> testCmd" where
  "SetTemplateFunc name fn tt = tt\<lparr>tt_Func := (name, fn) # filter (\<lambda>(n, _). n \<noteq> name) (tt_Func tt)\<rparr>"

definition tt_Output :: "testCmd \<Rightarrow> string tout" where
  "tt_Output tt = (case withKillTimeOut ReadAll tt of None \<Rightarrow> Hangs | Some (tt, buf) \<Rightarrow> Returned tt buf)"

text \<open>The loop that looks for the position of the mismatch.\<close>

fun first_mismatch :: "nat \<Rightarrow> string \<Rightarrow> string \<Rightarrow> nat option" where
  "first_mismatch i (w # want) (b # buf) = (if w \<noteq> b then Some i else first_mismatch (Suc i) want buf)"
| "first_mismatch i _ _ = None"

definition lozenge :: string where
  "lozenge = [CHR 0xE2, CHR 0x97, CHR 0x8A]"

definition mismatch_text :: "nat \<Rightarrow> string \<Rightarrow> nat \<Rightarrow> string \<Rightarrow> string" where
  "mismatch_text i buf n want =
     ''output mismatch at '' @ lozenge @ '':'' @ [CHR 0x0A] @ ''---------------- (stdout text)'' @ [CHR 0x0A] @
     take i buf @ lozenge @ drop i (take n buf) @ [CHR 0x0A] @ ''---------------- (expected text)'' @ [CHR 0x0A] @ want"

definition short_text :: "string \<Rightarrow> nat \<Rightarrow> string \<Rightarrow> string" where
  "short_text buf n want =
     ''not enough output, got until '' @ lozenge @ '':'' @ [CHR 0x0A] @ ''---------------- (stdout text)'' @ [CHR 0x0A] @
     buf @ [CHR 0x0A] @ ''---------------- (expected text)'' @ [CHR 0x0A] @ take n want @ lozenge @ drop n want"

text \<open>\<open>matchExactOutput\<close>; \<open>k\<close> is the number of bytes that are buffered after the read.\<close>

definition matchExactOutput :: "nat \<Rightarrow> string \<Rightarrow> testCmd \<Rightarrow> (testCmd \<times> string option) option" where
  "matchExactOutput k want tt =
     (case withKillTimeOut (ReadFull (length want)) tt of
        None \<Rightarrow> None
      | Some (tt, buf) \<Rightarrow>
          let n = length buf
          in if n < length want \<or> buf \<noteq> want
             then (let buf' = buf @ map snd (take k (tt_out tt));
                       tt = tt\<lparr>tt_out := drop k (tt_out tt)\<rparr>
                   in case first_mismatch 0 want buf of
                        Some i \<Rightarrow> Some (tt, Some (mismatch_text i buf' n want))
                      | None \<Rightarrow> if n < length want then Some (tt, Some (short_text buf' n want)) else Some (tt, None))
             else Some (tt, None))"

text \<open>
  \<open>Expect\<close>: \<open>tpl\<close> parses and executes a template, whose functions may use the test; \<open>None\<close> is an error
  of either, on which the code panics.
\<close>

definition tt_Expect ::
  "(string \<Rightarrow> testCmd \<Rightarrow> (testCmd \<times> string) option) \<Rightarrow> nat \<Rightarrow> string \<Rightarrow> testCmd \<Rightarrow> unit tout" where
  "tt_Expect tpl k tplsource tt =
     (case tpl tplsource tt of
        None \<Rightarrow> Panicked
      | Some (tt, wantbuf) \<Rightarrow>
          let want = trim_prefix wantbuf [CHR 0x0A]
          in case matchExactOutput k want tt of
               None \<Rightarrow> Hangs
             | Some (tt, Some err) \<Rightarrow> FatalNow tt err
             | Some (tt, None) \<Rightarrow> Returned (tt_Log (''Matched stdout text:'' @ [CHR 0x0A] @ want) tt) ())"

text \<open>
  \<open>runeTee\<close>: what it stores of the runes that were read. A byte that begins no well-formed sequence is
  read as the rune U+FFFD, whose three bytes are stored.
\<close>

function tee_runes :: "string \<Rightarrow> string" where
  "tee_runes s =
     (if s = [] then []
      else (let k = rune_size (map ord s)
            in (if ord (s ! 0) < 0x80 \<or> 1 < k then take k s else [CHR 0xEF, CHR 0xBF, CHR 0xBD]) @ tee_runes (drop k s)))"
  by pat_completeness auto
termination
  by (relation "measure length") (simp_all add: rune_size_pos)

declare tee_runes.simps [simp del]

record runeTee =
  rt_in :: string
  rt_buf :: string

definition runeTee_Read :: "nat \<Rightarrow> runeTee \<Rightarrow> runeTee \<times> string" where
  "runeTee_Read n r = (let b = take n (rt_in r) in (r\<lparr>rt_in := drop n (rt_in r), rt_buf := rt_buf r @ b\<rparr>, b))"

text \<open>\<open>None\<close> is the error of the end of the input.\<close>

definition runeTee_ReadRune :: "runeTee \<Rightarrow> runeTee \<times> string option" where
  "runeTee_ReadRune r =
     (if rt_in r = [] then (r, None)
      else (let k = rune_size (map ord (rt_in r));
                c = (if ord (rt_in r ! 0) < 0x80 \<or> 1 < k then take k (rt_in r) else [CHR 0xEF, CHR 0xBF, CHR 0xBD])
            in (r\<lparr>rt_in := drop k (rt_in r), rt_buf := rt_buf r @ c\<rparr>, Some c)))"

definition runeTee_ReadByte :: "runeTee \<Rightarrow> runeTee \<times> char option" where
  "runeTee_ReadByte r =
     (case rt_in r of [] \<Rightarrow> (r, None) | c # cs \<Rightarrow> (r\<lparr>rt_in := cs, rt_buf := rt_buf r @ [c]\<rparr>, Some c))"

text \<open>
  \<open>re.FindReaderSubmatchIndex(rtee)\<close>: \<open>search\<close> gives, for a text, the number of bytes that are read, whether
  the end of the text is met, and the indices of a match.
\<close>

definition FindReader ::
  "(string \<Rightarrow> nat \<times> bool \<times> int list option) \<Rightarrow> testCmd \<Rightarrow> (testCmd \<times> string \<times> int list option) option" where
  "FindReader search tt =
     (let (n, at_end, matches) = search (map snd (tt_out tt))
      in map_option (\<lambda>(tt, s). (tt, tee_runes s, matches)) (if at_end then ReadAll tt else ReadFull n tt))"

text \<open>
  The loop over the submatches: an index past the end of \<open>matches\<close>, and bounds of a slice that do not
  fit, are a panic.
\<close>

definition slice_at :: "string \<Rightarrow> int \<Rightarrow> int \<Rightarrow> string option" where
  "slice_at s a b = (if 0 \<le> a \<and> a \<le> b then go_slice s (nat a) (nat b) else None)"

function submatch_loop :: "string \<Rightarrow> int list \<Rightarrow> nat \<Rightarrow> string list \<Rightarrow> string list option" where
  "submatch_loop output matches i submatches =
     (if i < length matches
      then if Suc i < length matches
           then (case slice_at output (matches ! i) (matches ! Suc i) of
                   None \<Rightarrow> None
                 | Some s \<Rightarrow> submatch_loop output matches (Suc i) (submatches @ [s]))
           else None
      else Some submatches)"
  by pat_completeness auto
termination
  by (relation "measure (\<lambda>(_, matches, i, _). length matches - i)") auto

declare submatch_loop.simps [simp del]

definition tt_ExpectRegexp ::
  "(string \<Rightarrow> 'r option) \<Rightarrow> ('r \<Rightarrow> string \<Rightarrow> nat \<times> bool \<times> int list option) \<Rightarrow> string \<Rightarrow> testCmd \<Rightarrow> ('r \<times> string list) tout" where
  "tt_ExpectRegexp compile search regex tt =
     (let regex = trim_prefix regex [CHR 0x0A]
      in case compile regex of
           None \<Rightarrow> Panicked
         | Some re \<Rightarrow>
             (case withKillTimeOut (FindReader (search re)) tt of
                None \<Rightarrow> Hangs
              | Some (tt, output, None) \<Rightarrow>
                  FatalNow tt (''Output did not match:'' @ [CHR 0x0A] @ ''---------------- (stdout text)'' @ [CHR 0x0A] @
                    output @ [CHR 0x0A] @ ''---------------- (regular expression)'' @ [CHR 0x0A] @ regex)
              | Some (tt, output, Some matches) \<Rightarrow>
                  let tt = tt_Log (''Match stdout text:'' @ [CHR 0x0A] @ output) tt
                  in (case submatch_loop output matches 0 [] of
                        None \<Rightarrow> Panicked
                      | Some submatches \<Rightarrow> Returned tt (re, submatches))))"

text \<open>
  \<open>WaitExit\<close>; \<open>None\<close> is a wait for ever. \<open>Wait\<close> returns when the child has ended and its error stream, which is
  copied to the \<open>testlogger\<close>, as well.
\<close>

definition WaitExit :: "testCmd \<Rightarrow> testCmd option" where
  "WaitExit tt =
     (case tt_end tt of
        None \<Rightarrow> None
      | Some e \<Rightarrow>
          Some (tt\<lparr>tt_now := max (tt_now tt) e,
                   tt_Err := (if tt_status tt = 0 then None else Some (ExitErr (tt_status tt)))\<rparr>))"

definition tt_ExpectExit :: "testCmd \<Rightarrow> unit tout" where
  "tt_ExpectExit tt =
     (case withKillTimeOut ReadAll tt of
        None \<Rightarrow> Hangs
      | Some (tt, output) \<Rightarrow>
          (case WaitExit tt of
             None \<Rightarrow> Hangs
           | Some tt \<Rightarrow>
               let tt = tt_Cleanup tt;
                   tt = (if 0 < length output
                         then (tt_Log (''Unmatched stdout text:'' @ [CHR 0x0A] @ output) tt)\<lparr>tt_failed := True\<rparr> else tt)
               in Returned tt ()))"

text \<open>\<open>Interrupt\<close>: \<open>signalled\<close> is the script after the signal, or that the process is gone.\<close>

definition tt_Interrupt :: "(testCmd \<Rightarrow> testCmd option) \<Rightarrow> testCmd \<Rightarrow> testCmd" where
  "tt_Interrupt signalled tt =
     (case signalled tt of None \<Rightarrow> tt\<lparr>tt_Err := Some OtherErr\<rparr> | Some tt \<Rightarrow> tt\<lparr>tt_Err := None\<rparr>)"

text \<open>\<open>ExitStatus\<close>: the type assertion panics for an error of another type.\<close>

definition ExitStatus :: "testCmd \<Rightarrow> int option" where
  "ExitStatus tt = (case tt_Err tt of None \<Rightarrow> Some 0 | Some (ExitErr k) \<Rightarrow> Some k | Some OtherErr \<Rightarrow> None)"

definition StderrText :: "testCmd \<Rightarrow> string" where
  "StderrText tt = tt_stderr tt"

definition CloseStdin :: "testCmd \<Rightarrow> testCmd" where
  "CloseStdin tt = tt\<lparr>tt_stdinOpen := False\<rparr>"

text \<open>\<open>testlogger.Write\<close>: a line of the log for each line that is not empty; all bytes are kept.\<close>

definition testlogger_Write :: "string \<Rightarrow> testCmd \<Rightarrow> testCmd \<times> nat" where
  "testlogger_Write b tt =
     (let tt = fold (\<lambda>line tt. if 0 < length line then tt_Log (''(stderr:'' @ tt_name tt @ '') '' @ line) tt else tt)
                 (split_on (CHR 0x0A) b) tt
      in (tt\<lparr>tt_stderr := tt_stderr tt @ b\<rparr>, length b))"

section \<open>Every read returns within the limit\<close>

text \<open>The output arrives in order, and before the child ends, which no other process shares its output with.\<close>

definition well_timed :: "testCmd \<Rightarrow> bool" where
  "well_timed tt \<longleftrightarrow>
     tt_heirs tt = no_heirs \<and> sorted (map fst (tt_out tt)) \<and> (\<forall>e. tt_exit tt = Some e \<longrightarrow> (\<forall>c\<in>set (tt_out tt). fst c \<le> e))"

text \<open>What arrives within five seconds.\<close>

definition tt_seen :: "testCmd \<Rightarrow> string" where
  "tt_seen tt = map snd (takeWhile (\<lambda>(t, _). t \<le> tt_now tt + 5000) (tt_out tt))"

lemma tt_end_update [simp]:
  "tt_end (tt\<lparr>tt_now := t, tt_out := out\<rparr>) = tt_end tt" "tt_end (tt\<lparr>tt_now := t\<rparr>) = tt_end tt"
  "tt_end (tt\<lparr>tt_Err := err\<rparr>) = tt_end tt"
  by (simp_all add: tt_end_def cong: option.case_cong)

lemma well_timed_end [simp]: "well_timed tt \<Longrightarrow> tt_end tt = tt_exit tt"
  by (simp add: tt_end_def well_timed_def no_heirs_def split: option.split)

lemma kill_child_simps [simp]:
  "tt_heirs (kill_child T tt) = tt_heirs tt"
  "tt_now (kill_child T tt) = tt_now tt"
  "tt_exit (kill_child T tt) = Some (case tt_exit tt of None \<Rightarrow> T | Some e \<Rightarrow> min e T)"
  "well_timed tt \<Longrightarrow> tt_out (kill_child T tt) = takeWhile (\<lambda>(t, _). t \<le> T) (tt_out tt)"
proof -
  show "tt_heirs (kill_child T tt) = tt_heirs tt" "tt_now (kill_child T tt) = tt_now tt"
    by (simp_all add: kill_child_def Let_def split: option.split)
  show "tt_exit (kill_child T tt) = Some (case tt_exit tt of None \<Rightarrow> T | Some e \<Rightarrow> min e T)"
    by (simp add: kill_child_def Let_def split: option.split)
  assume w: "well_timed tt"
  then have "fst (tt_heirs tt) = []" by (simp add: well_timed_def no_heirs_def)
  show "tt_out (kill_child T tt) = takeWhile (\<lambda>(t, _). t \<le> T) (tt_out tt)"
  proof (cases "\<exists>e. tt_exit tt = Some e \<and> e \<le> T")
    case True
    then have eq: "takeWhile (\<lambda>(t, _). t \<le> T) (tt_out tt) = tt_out tt"
      using w by (fastforce simp: well_timed_def takeWhile_eq_all_conv)
    show ?thesis using True by (auto simp: kill_child_def eq simp del: takeWhile_eq_all_conv)
  next
    case False
    then show ?thesis using \<open>fst (tt_heirs tt) = []\<close> by (auto simp: kill_child_def Let_def split: option.split)
  qed
qed

lemma Kill_at_simps [simp]:
  "tt_now (Kill_at T (tt_Log s tt)) = tt_now tt"
  "tt_heirs (Kill_at T (tt_Log s tt)) = tt_heirs tt"
  "tt_exit (Kill_at T (tt_Log s tt)) = Some (case tt_exit tt of None \<Rightarrow> T | Some e \<Rightarrow> min e T)"
  "well_timed tt \<Longrightarrow> tt_out (Kill_at T (tt_Log s tt)) = takeWhile (\<lambda>(t, _). t \<le> T) (tt_out tt)"
  using kill_child_simps [where T = T and tt = "tt_Log s tt"] by (simp_all add: Kill_at_def tt_Cleanup_def tt_Log_def well_timed_def)

lemma Kill_at_end [simp]:
  "well_timed tt \<Longrightarrow> tt_end (Kill_at T (tt_Log s tt)) = Some (case tt_exit tt of None \<Rightarrow> T | Some e \<Rightarrow> min e T)"
  by (simp add: tt_end_def well_timed_def no_heirs_def)

lemma ReadAll_killed:
  assumes "well_timed tt" "tt_now tt \<le> T"
  obtains tt' e where "ReadAll (Kill_at T (tt_Log s tt)) = Some (tt', map snd (takeWhile (\<lambda>(t, _). t \<le> T) (tt_out tt)))"
    "tt_now tt' \<le> T" "tt_end tt' = Some e" "e \<le> T"
proof -
  let ?e = "case tt_exit tt of None \<Rightarrow> T | Some e \<Rightarrow> min e T"
  have "?e \<le> T" by (simp split: option.split)
  then show thesis
    using that [of "(Kill_at T (tt_Log s tt))\<lparr>tt_now := max (tt_now tt) ?e, tt_out := []\<rparr>" ?e] assms Kill_at_end [OF assms(1)]
    by (simp add: ReadAll_def)
qed

lemma withKillTimeOut_ReadAll:
  assumes "well_timed tt"
  obtains tt' e where "withKillTimeOut ReadAll tt = Some (tt', tt_seen tt)" "tt_now tt' \<le> tt_now tt + 5000"
    "tt_end tt' = Some e" "e \<le> tt_now tt + 5000"
proof (cases "\<exists>e. tt_exit tt = Some e \<and> e < tt_now tt + 5000")
  case True
  then obtain e where e: "tt_exit tt = Some e" "e < tt_now tt + 5000" by blast
  then have eq: "takeWhile (\<lambda>(t, _). t \<le> tt_now tt + 5000) (tt_out tt) = tt_out tt"
    using assms by (fastforce simp: well_timed_def takeWhile_eq_all_conv)
  show thesis
    using that [of "tt\<lparr>tt_now := max (tt_now tt) e, tt_out := []\<rparr>" e] e assms
    by (simp add: withKillTimeOut_def ReadAll_def tt_seen_def Let_def eq del: takeWhile_eq_all_conv)
next
  case False
  obtain tt' e where tt': "ReadAll (Kill_at (tt_now tt + 5000) (tt_Log ''Killing the child process (timeout)'' tt)) = Some (tt', tt_seen tt)"
    "tt_now tt' \<le> tt_now tt + 5000" "tt_end tt' = Some e" "e \<le> tt_now tt + 5000"
    using ReadAll_killed [OF assms, of "tt_now tt + 5000"] unfolding tt_seen_def by auto
  have "withKillTimeOut ReadAll tt = Some (tt', tt_seen tt)"
    using False tt'(1) well_timed_end [OF assms] unfolding withKillTimeOut_def
    by (auto simp: ReadAll_def Let_def split: option.splits)
  then show thesis using that tt'(2-4) by blast
qed

lemma take_takeWhile_sorted:
  assumes "sorted (map fst xs)" "n \<le> length xs" "0 < n" "fst (xs ! (n - 1)) \<le> T"
  shows "take n (takeWhile (\<lambda>(t, _). t \<le> T) xs) = take n xs"
proof -
  have "fst (xs ! i) \<le> T" if "i < n" for i
  proof -
    have "map fst xs ! i \<le> map fst xs ! (n - 1)"
      using that assms(2,3) by (intro sorted_nth_mono [OF assms(1)]) simp_all
    then show ?thesis using that assms(2-4) by simp
  qed
  then have "\<forall>x\<in>set (take n xs). case x of (t, _) \<Rightarrow> t \<le> T"
    using assms(2) by (fastforce simp: in_set_conv_nth)
  then have "takeWhile (\<lambda>(t, _). t \<le> T) (take n xs @ drop n xs) = take n xs @ takeWhile (\<lambda>(t, _). t \<le> T) (drop n xs)"
    by (subst takeWhile_append2) auto
  then show ?thesis using assms(2) by simp
qed

lemma ReadFull_killed:
  assumes "well_timed tt" "tt_now tt \<le> T"
  obtains tt' where "ReadFull n (Kill_at T (tt_Log s tt)) = Some (tt', take n (map snd (takeWhile (\<lambda>(t, _). t \<le> T) (tt_out tt))))"
    "tt_now tt' \<le> T"
proof -
  let ?k = "Kill_at T (tt_Log s tt)" and ?out = "takeWhile (\<lambda>(t, _). t \<le> T) (tt_out tt)"
  consider "n = 0" | "0 < n" "n \<le> length ?out" | "0 < n" "length ?out < n" by linarith
  then show thesis
  proof cases
    case 1
    then show thesis using that [of ?k] assms by (simp add: ReadFull_def)
  next
    case 2
    then have "?out ! (n - 1) \<in> set ?out" by simp
    then have "fst (?out ! (n - 1)) \<le> T" by (auto dest: set_takeWhileD)
    then show thesis
      using that [of "?k\<lparr>tt_now := max (tt_now tt) (fst (?out ! (n - 1))), tt_out := drop n ?out\<rparr>"] 2 assms
      by (simp add: ReadFull_def take_map)
  next
    case 3
    then have "take n (map snd ?out) = map snd ?out" by simp
    moreover have "ReadFull n ?k = ReadAll ?k" using 3 assms by (simp add: ReadFull_def)
    ultimately show thesis using that ReadAll_killed [OF assms, of s] by metis
  qed
qed

lemma withKillTimeOut_ReadFull:
  assumes "well_timed tt"
  obtains tt' where "withKillTimeOut (ReadFull n) tt = Some (tt', take n (tt_seen tt))" "tt_now tt' \<le> tt_now tt + 5000"
proof -
  let ?T = "tt_now tt + 5000"
  show thesis
  proof (cases "\<exists>tt' r. ReadFull n tt = Some (tt', r) \<and> tt_now tt' < ?T")
    case False
    then have "withKillTimeOut (ReadFull n) tt = ReadFull n (Kill_at ?T (tt_Log ''Killing the child process (timeout)'' tt))"
      by (auto simp: withKillTimeOut_def Let_def split: option.splits)
    then show thesis
      using ReadFull_killed [OF assms, of ?T n "''Killing the child process (timeout)''"] that unfolding tt_seen_def by auto
  next
    case True
    then obtain tt' r where r: "ReadFull n tt = Some (tt', r)" "tt_now tt' < ?T" by blast
    have sorted: "sorted (map fst (tt_out tt))" using assms by (simp add: well_timed_def)
    consider "n = 0" | "0 < n" "n \<le> length (tt_out tt)" | "length (tt_out tt) < n" by linarith
    then have "r = take n (tt_seen tt)"
    proof cases
      case 1
      then show ?thesis using r by (simp add: ReadFull_def)
    next
      case 2
      then have "fst (tt_out tt ! (n - 1)) \<le> ?T" and "r = map snd (take n (tt_out tt))"
        using r by (auto simp: ReadFull_def)
      then show ?thesis using take_takeWhile_sorted [OF sorted 2(2,1)] by (simp add: tt_seen_def take_map)
    next
      case 3
      then obtain e where e: "tt_exit tt = Some e" "e < ?T" and r': "r = map snd (tt_out tt)"
        using r assms by (auto simp: ReadFull_def ReadAll_def split: if_splits option.splits)
      have eq: "takeWhile (\<lambda>(t, _). t \<le> ?T) (tt_out tt) = tt_out tt"
        using assms e by (fastforce simp: well_timed_def takeWhile_eq_all_conv)
      show ?thesis using 3 by (simp add: tt_seen_def r' eq del: takeWhile_eq_all_conv)
    qed
    then show thesis using that [of tt'] r by (simp add: withKillTimeOut_def Let_def)
  qed
qed

section \<open>What the tests decide\<close>

lemma first_mismatch_spec:
  "length buf \<le> length want \<Longrightarrow>
   (case first_mismatch k want buf of
      None \<Rightarrow> buf = take (length buf) want
    | Some i \<Rightarrow> k \<le> i \<and> i - k < length buf \<and> take (i - k) buf = take (i - k) want \<and> buf ! (i - k) \<noteq> want ! (i - k))"
proof (induction k want buf rule: first_mismatch.induct)
  case (1 i w want b buf)
  show ?case
  proof (cases "w = b")
    case True
    show ?thesis
    proof (cases "first_mismatch (Suc i) want buf")
      case None
      then show ?thesis using 1 True by simp
    next
      case (Some j)
      then have j: "Suc i \<le> j" "j - Suc i < length buf" "take (j - Suc i) buf = take (j - Suc i) want"
        "buf ! (j - Suc i) \<noteq> want ! (j - Suc i)"
        using 1 True by auto
      then have "j - i = Suc (j - Suc i)" by simp
      then show ?thesis using j Some True by simp
    qed
  qed simp
qed (auto split: option.splits)

text \<open>
  The result of \<open>matchExactOutput\<close>, from what arrives in time: no error when the output begins with what
  is wanted, and otherwise a message with the position of the first difference.
\<close>

lemma matchExactOutput_spec:
  assumes "well_timed tt"
  obtains tt' err where "matchExactOutput k want tt = Some (tt', err)" "tt_now tt' \<le> tt_now tt + 5000"
    "err = None \<longleftrightarrow> take (length want) (tt_seen tt) = want"
    "\<And>e. err = Some e \<Longrightarrow> \<exists>i buf n. take i want = take i (tt_seen tt) \<and> i < length want \<and>
       take i buf = take i (tt_seen tt) \<and>
       (i < length (tt_seen tt) \<and> want ! i \<noteq> tt_seen tt ! i \<and> e = mismatch_text i buf n want \<or>
        i = length (tt_seen tt) \<and> e = short_text buf i want)"
proof -
  let ?seen = "take (length want) (tt_seen tt)"
  obtain tt1 where r: "withKillTimeOut (ReadFull (length want)) tt = Some (tt1, ?seen)" "tt_now tt1 \<le> tt_now tt + 5000"
    by (rule withKillTimeOut_ReadFull [OF assms])
  have gen: "case first_mismatch 0 want x of
      None \<Rightarrow> x = take (length x) want
    | Some i \<Rightarrow> i < length x \<and> take i x = take i want \<and> x ! i \<noteq> want ! i" if "length x \<le> length want" for x
    using first_mismatch_spec [OF that, of 0] by (cases "first_mismatch 0 want x") simp_all
  have fm: "case first_mismatch 0 want ?seen of
      None \<Rightarrow> ?seen = take (length ?seen) want
    | Some i \<Rightarrow> i < length ?seen \<and> take i ?seen = take i want \<and> ?seen ! i \<noteq> want ! i"
    by (rule gen) simp
  show thesis
  proof (cases "?seen = want")
    case True
    then show thesis using that [of tt1 None] r by (simp add: matchExactOutput_def Let_def)
  next
    case False
    let ?buf = "?seen @ map snd (take k (tt_out tt1))" and ?tt = "tt1\<lparr>tt_out := drop k (tt_out tt1)\<rparr>"
    show thesis
    proof (cases "first_mismatch 0 want ?seen")
      case (Some i)
      then have i: "i < length ?seen" "take i ?seen = take i want" "?seen ! i \<noteq> want ! i"
        using fm unfolding Some option.case by blast+
      have m: "matchExactOutput k want tt = Some (?tt, Some (mismatch_text i ?buf (length ?seen) want))"
        using r(1) False Some by (simp add: matchExactOutput_def Let_def)
      have "take i (tt_seen tt) = take i want \<and> take i ?buf = take i (tt_seen tt)"
        using i(1,2) by (auto simp: min_absorb1)
      moreover have "i < length want" "i < length (tt_seen tt)" "tt_seen tt ! i \<noteq> want ! i" using i(1,3) by simp_all
      ultimately have "\<exists>i' buf n. take i' want = take i' (tt_seen tt) \<and> i' < length want \<and> take i' buf = take i' (tt_seen tt) \<and>
          (i' < length (tt_seen tt) \<and> want ! i' \<noteq> tt_seen tt ! i' \<and>
             mismatch_text i ?buf (length ?seen) want = mismatch_text i' buf n want \<or>
           i' = length (tt_seen tt) \<and> mismatch_text i ?buf (length ?seen) want = short_text buf i' want)"
        by (intro exI [of _ i] exI [of _ ?buf] exI [of _ "length ?seen"]) simp
      then show thesis using that [OF m] r(2) False by simp
    next
      case None
      then have s: "?seen = take (length ?seen) want" using fm unfolding None option.case by blast
      have lt: "length (tt_seen tt) < length want"
      proof (rule ccontr)
        assume "\<not> ?thesis"
        then have "length ?seen = length want" by simp
        then show False using False s by simp
      qed
      then have m: "matchExactOutput k want tt = Some (?tt, Some (short_text ?buf (length (tt_seen tt)) want))"
        using r(1) False None by (simp add: matchExactOutput_def Let_def)
      have "take (length (tt_seen tt)) want = tt_seen tt" using s lt by simp
      then have "\<exists>i' buf n. take i' want = take i' (tt_seen tt) \<and> i' < length want \<and> take i' buf = take i' (tt_seen tt) \<and>
          (i' < length (tt_seen tt) \<and> want ! i' \<noteq> tt_seen tt ! i' \<and>
             short_text ?buf (length (tt_seen tt)) want = mismatch_text i' buf n want \<or>
           i' = length (tt_seen tt) \<and> short_text ?buf (length (tt_seen tt)) want = short_text buf i' want)"
        using lt by (intro exI [of _ "length (tt_seen tt)"] exI [of _ ?buf]) simp
      then show thesis using that [OF m] r(2) False lt by simp
    qed
  qed
qed

text \<open>
  C40. For every child that no other process shares its output with, and every template that renders, \<open>Expect\<close> returns within five seconds, killing the
  child if need be; it lets the test go on exactly when the output that arrives in this time begins
  with the rendered text, less a leading newline, and otherwise ends the test.
\<close>
theorem Expect_decides:
  assumes "tpl src tt = Some (tt1, wantbuf)" "well_timed tt1"
  shows "case tt_Expect tpl k src tt of
      Returned tt2 _ \<Rightarrow> has_prefix (tt_seen tt1) (trim_prefix wantbuf [CHR 0x0A]) \<and> tt_now tt2 \<le> tt_now tt1 + 5000
    | FatalNow tt2 _ \<Rightarrow> \<not> has_prefix (tt_seen tt1) (trim_prefix wantbuf [CHR 0x0A]) \<and> tt_now tt2 \<le> tt_now tt1 + 5000
    | Panicked \<Rightarrow> False
    | Hangs \<Rightarrow> False"
proof -
  let ?want = "trim_prefix wantbuf [CHR 0x0A]"
  obtain tt2 err where "matchExactOutput k ?want tt1 = Some (tt2, err)" "tt_now tt2 \<le> tt_now tt1 + 5000"
    "err = None \<longleftrightarrow> take (length ?want) (tt_seen tt1) = ?want"
    using matchExactOutput_spec [OF assms(2)] by metis
  then show ?thesis
    using assms(1) by (auto simp: tt_Expect_def Let_def has_prefix_def tt_Log_def split: option.split)
qed

text \<open>A child that prints a prompt and then waits for ever.\<close>

definition prompt_child :: testCmd where
  "prompt_child = \<lparr>tt_now = 0, tt_out = [(10, CHR ''o''), (10, CHR ''k''), (9000, CHR ''!'')], tt_exit = None, tt_heirs = no_heirs, tt_status = 0,
     tt_stdin = [], tt_stdinOpen = True, tt_name = [], tt_stderr = [], tt_Func = [], tt_hasCleanup = True,
     tt_cleanups = 0, tt_log = [], tt_failed = False, tt_Err = None\<rparr>"

lemma prompt_child: "well_timed prompt_child" "tt_seen prompt_child = ''ok''" "tt_now prompt_child = 0"
  by (simp_all add: prompt_child_def well_timed_def tt_seen_def)

theorem Expect_decides_witness:
  "case tt_Expect (\<lambda>s tt. Some (tt, s)) 0 ''ok!'' prompt_child of FatalNow tt2 _ \<Rightarrow> tt_now tt2 \<le> 5000 | _ \<Rightarrow> False"
proof -
  have "\<not> has_prefix ''ok'' (trim_prefix ''ok!'' [CHR 0x0A])" by (simp add: has_prefix_def trim_prefix_def)
  then show ?thesis
    using Expect_decides [of "\<lambda>s tt. Some (tt, s)" "''ok!''" prompt_child prompt_child "''ok!''" 0, OF refl prompt_child(1)]
    unfolding prompt_child(2,3) by (simp split: tout.splits)
qed

text \<open>The other reads: what they return, and within which time.\<close>

lemma Output_spec:
  assumes "well_timed tt"
  shows "\<exists>tt'. tt_Output tt = Returned tt' (tt_seen tt) \<and> tt_now tt' \<le> tt_now tt + 5000"
  using withKillTimeOut_ReadAll [OF assms] by (metis (lifting) case_prod_conv option.case(2) tt_Output_def)

lemma ExpectExit_spec:
  assumes "well_timed tt"
  shows "\<exists>tt'. tt_ExpectExit tt = Returned tt' () \<and> tt_now tt' \<le> tt_now tt + 5000 \<and>
    (tt_seen tt \<noteq> [] \<longrightarrow> tt_failed tt') \<and> tt_Err tt' \<noteq> Some OtherErr"
proof -
  obtain tt1 e where "withKillTimeOut ReadAll tt = Some (tt1, tt_seen tt)" "tt_now tt1 \<le> tt_now tt + 5000"
    "tt_end tt1 = Some e" "e \<le> tt_now tt + 5000"
    by (rule withKillTimeOut_ReadAll [OF assms])
  then show ?thesis
    by (simp add: tt_ExpectExit_def Let_def WaitExit_def tt_Cleanup_def tt_Log_def)
qed

text \<open>When the limit ends the wait of \<open>ExpectExit\<close>, \<open>Cleanup\<close> runs twice.\<close>

lemma ExpectExit_cleans_up_twice:
  "case tt_ExpectExit prompt_child of Returned tt _ \<Rightarrow> tt_cleanups tt = 2 \<and> tt_Err tt = Some (ExitErr (- 1)) | _ \<Rightarrow> False"
  by (simp add: tt_ExpectExit_def withKillTimeOut_def ReadAll_def prompt_child_def Kill_at_def kill_child_def tt_Cleanup_def
      tt_Log_def Let_def WaitExit_def tt_end_def no_heirs_def)

text \<open>When another process keeps the output open, the limit does not end the wait: \<open>Expect\<close> does not return.\<close>

lemma Expect_hangs_on_heirs:
  "tt_Expect (\<lambda>s tt. Some (tt, s)) 0 ''ok!'' (prompt_child\<lparr>tt_heirs := ([], None)\<rparr>) = Hangs"
  by (simp add: tt_Expect_def trim_prefix_def has_prefix_def matchExactOutput_def withKillTimeOut_def ReadFull_def ReadAll_def
      prompt_child_def Kill_at_def kill_child_def tt_Cleanup_def tt_Log_def Let_def tt_end_def)

lemma submatch_loop_panics:
  "i < length ms \<Longrightarrow> submatch_loop text_read ms i acc = None"
proof (induction text_read ms i acc rule: submatch_loop.induct)
  case (1 text_read ms i acc)
  show ?case
  proof (cases "Suc i < length ms")
    case True
    then show ?thesis
      using 1 by (subst submatch_loop.simps) (auto split: option.split)
  next
    case False
    then show ?thesis using 1 by (subst submatch_loop.simps) simp
  qed
qed

text \<open>The search under the limit: it returns, and a match it returns was found by \<open>search\<close>.\<close>

lemma FindReader_match: "FindReader search tt = Some (tt', out, m) \<Longrightarrow> m = snd (snd (search (map snd (tt_out tt))))"
  by (auto simp: FindReader_def split: prod.splits)

lemma withKillTimeOut_FindReader:
  assumes "snd (tt_heirs tt) \<noteq> None \<or> withKillTimeOut (FindReader search) tt \<noteq> None"
  obtains tt' out s where "withKillTimeOut (FindReader search) tt = Some (tt', out, snd (snd (search s)))"
proof -
  let ?k = "Kill_at (tt_now tt + 5000) (tt_Log ''Killing the child process (timeout)'' tt)"
  have "FindReader search ?k \<noteq> None" if "snd (tt_heirs tt) \<noteq> None"
    using that by (auto simp: FindReader_def ReadAll_def ReadFull_def tt_end_def split: prod.splits if_splits)
  then have "withKillTimeOut (FindReader search) tt \<noteq> None"
    using assms by (auto simp: withKillTimeOut_def Let_def split: option.splits)
  then obtain tt1 out1 m1 where k: "withKillTimeOut (FindReader search) tt = Some (tt1, out1, m1)" by auto
  then have "FindReader search tt = Some (tt1, out1, m1) \<or> FindReader search ?k = Some (tt1, out1, m1)"
    by (auto simp: withKillTimeOut_def Let_def split: option.splits if_splits)
  then show thesis using that k FindReader_match by metis
qed

text \<open>
  \<open>ExpectRegexp\<close> never returns to its caller, whatever the child prints: without a match it ends the
  test, and with one it panics, since its loop steps by one over the pairs of indices and so reads
  past the last; only when another process keeps the output open for ever can it hang. It relies on a match
  having at least one index.
\<close>
theorem ExpectRegexp_never_returns:
  assumes "\<And>re s. snd (snd (search re s)) \<noteq> Some []"
  shows "case tt_ExpectRegexp compile search regex tt of
      Returned _ _ \<Rightarrow> False | FatalNow _ _ \<Rightarrow> True | Panicked \<Rightarrow> True | Hangs \<Rightarrow> snd (tt_heirs tt) = None"
proof (cases "compile (trim_prefix regex [CHR 0x0A])")
  case None
  then show ?thesis by (simp add: tt_ExpectRegexp_def)
next
  case (Some re)
  show ?thesis
  proof (cases "snd (tt_heirs tt) \<noteq> None \<or> withKillTimeOut (FindReader (search re)) tt \<noteq> None")
    case False
    then have "withKillTimeOut (FindReader (search re)) tt = None" "snd (tt_heirs tt) = None" by blast+
    then show ?thesis using Some by (simp add: tt_ExpectRegexp_def)
  next
    case True
    obtain tt' out s where r: "withKillTimeOut (FindReader (search re)) tt = Some (tt', out, snd (snd (search re s)))"
      by (rule withKillTimeOut_FindReader [OF True])
    show ?thesis
    proof (cases "snd (snd (search re s))")
      case None
      then show ?thesis using r Some by (simp add: tt_ExpectRegexp_def)
    next
      case m: (Some ms)
      then have "submatch_loop out ms 0 [] = None"
        using assms [of re s] by (intro submatch_loop_panics) auto
      then show ?thesis using r m Some by (simp add: tt_ExpectRegexp_def Let_def)
    qed
  qed
qed

text \<open>A search for the text \<open>ok\<close> at the beginning.\<close>

definition search_ok :: "unit \<Rightarrow> string \<Rightarrow> nat \<times> bool \<times> int list option" where
  "search_ok _ s = (if has_prefix s ''ok'' then (2, False, Some [0, 2]) else (length s, True, None))"

theorem ExpectRegexp_never_returns_witness:
  "case tt_ExpectRegexp (\<lambda>_. Some ()) search_ok ''ok'' prompt_child of
      Returned _ _ \<Rightarrow> False | FatalNow _ _ \<Rightarrow> True | Panicked \<Rightarrow> True | Hangs \<Rightarrow> snd (tt_heirs prompt_child) = None"
  by (rule ExpectRegexp_never_returns) (simp add: search_ok_def)

text \<open>\<open>StderrText\<close> is all that was written, whatever the pieces; the log has the lines that are not empty.\<close>

lemma testlogger_log_frame:
  "tt_stderr (fold (\<lambda>line tt. if line \<noteq> [] then tt_Log (f tt line) tt else tt) ls tt) = tt_stderr tt"
  by (induction ls arbitrary: tt) (simp_all add: tt_Log_def)

lemma StderrText_collects: "StderrText (fold (\<lambda>b tt. fst (testlogger_Write b tt)) bs tt) = StderrText tt @ concat bs"
  by (induction bs arbitrary: tt) (simp_all add: StderrText_def testlogger_Write_def Let_def
      testlogger_log_frame [where f = "\<lambda>tt line. ''(stderr:'' @ tt_name tt @ '') '' @ line", simplified])

lemma ExitStatus_panics_after_Interrupt: "ExitStatus (tt_Interrupt (\<lambda>_. None) tt) = None"
  by (simp add: ExitStatus_def tt_Interrupt_def)

text \<open>Reading runes to the end stores the text that \<open>FindReader\<close> takes as the output.\<close>

lemma runeTee_all:
  "length (rt_in r) \<le> n \<Longrightarrow>
   rt_in (((\<lambda>r. fst (runeTee_ReadRune r)) ^^ n) r) = [] \<and>
   rt_buf (((\<lambda>r. fst (runeTee_ReadRune r)) ^^ n) r) = rt_buf r @ tee_runes (rt_in r)"
proof (induction n arbitrary: r)
  case 0
  then show ?case by (simp add: tee_runes.simps)
next
  case (Suc n)
  let ?r = "fst (runeTee_ReadRune r)"
  have "length (rt_in ?r) \<le> n \<and> rt_buf ?r @ tee_runes (rt_in ?r) = rt_buf r @ tee_runes (rt_in r)"
  proof (cases "rt_in r = []")
    case True
    then show ?thesis by (simp add: runeTee_ReadRune_def)
  next
    case False
    then show ?thesis
      using Suc.prems rune_size_pos [of "map ord (rt_in r)"]
      by (simp add: runeTee_ReadRune_def Let_def tee_runes.simps [of "rt_in r"])
  qed
  then show ?case using Suc.IH [of ?r] by (simp add: funpow_Suc_right del: funpow.simps)
qed

end
