(* ===== verification/Spec2Isabelle.thy ===== *)
theory Spec2Isabelle
  imports Hexutil_JSON Common_Types Big_Math Bit_Curve Mnemonic Sha3 System_Clock Event_Feed Mux_Deliver Event_Sub Rlp_Main Common_Pretty Common_Path Common_Compiler Rpc_Types Rpc_Client Log_Logger Cmd_Test
begin

text \<open>
  The Go repository \<open>flychain\<close>: the parts of an Ethereum client that are there so far, which are encodings, a hash, curves and mnemonics,
  clocks and events, a request handler for JSON-RPC, a code generator for RLP, a logging package and a helper for tests of commands.

  \<^bold>\<open>Conventions.\<close> Each definition has the name of the function, method or type it models, with a prefix where several
  types have the method. A \<open>w\<close>-bit integer is a \<open>w word\<close> where wrap-around matters and an \<open>int\<close> with the bounds written out
  otherwise; a text is a list of bytes (\<open>string\<close>); a struct is a record; a pointer to a shared object is a number into a store. A function
  with an error returns a sum, or the pair of value and error where the value is used beside the error. A panic is \<open>None\<close> or
  a constructor of a result type. Operations under a mutex are atomic; goroutines are the steps of a transition relation. What the source
  imports from outside the standard library is an argument (\<open>golang.org/x/crypto/sha3\<close>, \<open>go-stack\<close>, \<open>golang.org/x/tools\<close>), as are
  the environment (readers, writers, times, random numbers) and \<open>encoding/json\<close> where the source marshals values of any type.

  \<^bold>\<open>Foundations.\<close> \<open>Go_Prelude\<close> (types, slices, characters, the collections of rules), \<open>Go_Std\<close> (\<open>strconv\<close>, \<open>encoding/hex\<close>,
  \<open>strings\<close>, the bits and bytes of \<open>math/big\<close>), \<open>Go_Utf8\<close> (runes), \<open>Go_Heap\<close> (\<open>container/heap\<close>, with the locales \<open>heap_order\<close> and
  \<open>heap_container\<close> for its contract with a client).

  \<^bold>\<open>src/common.\<close>
  \<^item> \<open>Hexutil\<close> (\<open>hexutil/hexutil.go\<close>) and \<open>Hexutil_JSON\<close> (\<open>hexutil/json.go\<close>): the decoders accept exactly what the encoders write, and
    the word-by-word loop of \<open>DecodeBig\<close> computes the number of the digits. The locales \<open>text_codec\<close> and \<open>json_codec\<close> are the contract
    between the text methods and the JSON methods of a type; every type interprets them.
  \<^item> \<open>Common_Bytes\<close> (\<open>bytes.go\<close>), \<open>Common_Types\<close> (\<open>types.go\<close>): hashes and addresses over the locale \<open>fixed_array\<close>, the checksum
    of an address letter by letter.
  \<^item> \<open>Big_Math\<close> (\<open>math/big.go\<close>), \<open>Common_Pretty\<close> (\<open>size.go\<close>, \<open>format.go\<close>, \<open>debug.go\<close>, \<open>path.go\<close>, \<open>test_utils.go\<close>, \<open>big.go\<close>),
    \<open>Common_Path\<close> (paths in \<open>path.go\<close>, with \<open>filepath.Join\<close> and \<open>Clean\<close>, and \<open>Report\<close> of \<open>debug.go\<close>), \<open>Common_Compiler\<close>
    (\<open>compiler/*.go\<close>).
  \<^item> \<open>Sim_Clock\<close> (\<open>mclock/simclock.go\<close>, \<open>mclock/mclock.go\<close>) refines a set of pending events, on an interpretation of the heap locales; \<open>Alarm\<close>
    (\<open>mclock/alarm.go\<close>) runs over the locale \<open>alarm_clock\<close>, which the simulated clock interprets. \<open>System_Clock\<close>
    (\<open>mclock/mclock.go\<close>) is the clock over the timers of package \<open>time\<close>, a step relation of the passing of time, the firing of timers
    and the goroutines they start; it interprets \<open>alarm_clock\<close> too, and the simulated clock stands for it.

  \<^bold>\<open>src/crypto.\<close> \<open>Keccakf\<close> (\<open>sha3/keccakf.go\<close>): the unrolled permutation equals the textbook rounds. \<open>Sha3\<close> (\<open>sha3/sha3.go\<close> and
  \<open>randentropy\<close>) refines an abstract sponge. \<open>Bit_Curve\<close> (\<open>curve.go\<close>): the group operations in Jacobian coordinates against the chord
  and tangent rules, and \<open>ScalarMult\<close> against repeated addition. \<open>Mnemonic\<close> (\<open>mnemonic.go\<close>) over \<open>Mnemonic_Words\<close>, the list
  of \<open>mnemonic_words.go\<close>, whose words \<open>Mnemonic_Distinct\<close> shows to be different.

  \<^bold>\<open>src/event.\<close> \<open>Event_Feed\<close> (\<open>feed.go\<close>, \<open>feedof.go\<close>): \<open>Send\<close> as a step relation with its invariants. \<open>Type_Mux\<close> (\<open>event.go\<close>) refines a
  registry of types and subscribers; \<open>Mux_Deliver\<close> refines its closing of a subscription to the steps of deliveries and locks. \<open>Event_Sub\<close> (\<open>subscription.go\<close>): subscriptions, resubscription and scopes as step relations.

  \<^bold>\<open>src/rlp.\<close> \<open>Rlp_Struct\<close> (\<open>internal/rlpstruct\<close>): which fields take part, and their tags. \<open>Rlp_Types\<close>, \<open>Rlp_Gen\<close> and \<open>Rlp_Main\<close>
  (\<open>rlpgen/types.go\<close>, \<open>gen.go\<close>, \<open>main.go\<close>): the generator calls \<open>ProcessFields\<close>, so that what \<open>Rlp_Struct\<close> shows of it decides which
  structs code is generated for; the text it writes has balanced braces. The command itself is a function of its flags.

  \<^bold>\<open>src/rpc.\<close> \<open>Rpc_Json\<close> (\<open>errors.go\<close>, messages of \<open>json.go\<close>), \<open>Rpc_Types\<close> (\<open>types.go\<close>, with the codecs of \<open>Hexutil\<close> and \<open>Common_Types\<close>),
  \<open>Rpc_Service\<close> (\<open>service.go\<close>), \<open>Rpc_Sub\<close> (\<open>subscription.go\<close>), \<open>Rpc_Handler\<close> (\<open>handler.go\<close>, which uses all of these), \<open>Rpc_Server\<close>
  (\<open>server.go\<close>), \<open>Rpc_Client\<close> (the connection of \<open>client.go\<close>, the codec of \<open>json.go\<close>). The package does not compile: declarations are missing (\<open>ClientSub\<close>, \<open>PeerInfo\<close>, \<open>Client.Call\<close>) and
  some bodies lack a \<open>return\<close>. The operations whose code is there are modelled as they stand, the unfinished ones as far as they go.

  \<^bold>\<open>src/log.\<close> \<open>Log_Numbers\<close> and \<open>Log_Format\<close> (\<open>format.go\<close>): numbers with separators and the four formats. \<open>Log_Record\<close> and \<open>Log_Logger\<close>
  (\<open>logger.go\<close>, \<open>root.go\<close>): levels, contexts and loggers. \<open>Log_Glog\<close> (\<open>handler_glog.go\<close>): the decision with and without the cache of
  call sites, and what the rules match. \<open>Log_Handler\<close> (\<open>handler.go\<close>, \<open>syslog.go\<close>, \<open>handler_go14.go\<close>): closures as a datatype, evaluated in a world of
  records, mutexes, channels and writers. A logger writes to its swap handler, which leads to the one of its parent and so to the
  handler set on the root; formats run inside handlers. \<open>logging_returns\<close> joins these: contexts stay even, formats accept them, locks nest.

  \<^bold>\<open>src/internal/cmdtest.\<close> \<open>Cmd_Test\<close> (\<open>test_cmd.go\<close>): the methods of a test over a child that writes its output in time, within the
  limit of five seconds.

  \<^bold>\<open>Fuel and termination.\<close> \<open>logh\<close> has fuel, because a swap handler can hold itself; \<open>fuel_mono\<close> shows that more fuel changes no result and
  \<open>logging_returns\<close> that some amount is enough. All other loops of pure functions are total functions, by their structure or a
  measure; loops that wait for their environment are step relations, and a call that does not return is a value of the result.

  \<^bold>\<open>Not modelled.\<close> \<open>rpc/http.go\<close>, the struct \<open>Client\<close> of \<open>rpc/client.go\<close> and the handler for compilers before Go 1.4
  declare data and hold no operations. The bodies of interfaces, regular expressions, templates, \<open>encoding/json\<close> on any type and
  processes are arguments where they are used. Time of day, scheduling fairness and data races
  outside the mutexes are not in the model. Types that contain themselves are outside the model of \<open>rlpgen\<close>, which does not return on them.
\<close>

end
